(* ===== verification/CJ_Prelude.thy ===== *)
theory CJ_Prelude
  imports Main "HOL-Library.Word"
begin

unbundle bit_operations_syntax

text \<open>
  Shared vocabulary of the development: the machine types of the driver (bytes and 16/32 bit
  words), the result codes of \<^verbatim>\<open>include/cjeca32.h\<close> and \<^verbatim>\<open>cjeca32/ntstatus.h\<close>, the byte-order
  encodings of packed structures, copies out of memory regions with what lies behind them made
  explicit, and the generic list and word lemmas the component theories rest on.

  Collections: \<open>mem_simps\<close> for sizes of copied memory, \<open>codec\<close> for byte-order round trips.
\<close>

named_theorems mem_simps \<open>lengths and contents of copied memory\<close>
named_theorems codec \<open>round trips of byte-order encodings\<close>

section \<open>Machine types\<close>

type_synonym byte = "8 word"
type_synonym u16 = "16 word"
type_synonym u32 = "32 word"
type_synonym bytes = "byte list"

section \<open>Result codes\<close>

text \<open>The codes \<^verbatim>\<open>CJ_*\<close> of \<^verbatim>\<open>include/cjeca32.h\<close>; \<^verbatim>\<open>CJ_RESULT\<close> is an \<^verbatim>\<open>int\<close>.\<close>

type_synonym cj_result = int

abbreviation (input) "CJ_SUCCESS \<equiv> (0 :: cj_result)"
abbreviation (input) "CJ_ERR_OPENING_DEVICE \<equiv> (-1 :: cj_result)"
abbreviation (input) "CJ_ERR_WRITE_DEVICE \<equiv> (-2 :: cj_result)"
abbreviation (input) "CJ_ERR_DEVICE_LOST \<equiv> (-3 :: cj_result)"
abbreviation (input) "CJ_ERR_WRONG_ANSWER \<equiv> (-4 :: cj_result)"
abbreviation (input) "CJ_ERR_SEQ \<equiv> (-5 :: cj_result)"
abbreviation (input) "CJ_ERR_NO_ICC \<equiv> (-7 :: cj_result)"
abbreviation (input) "CJ_ERR_PARITY \<equiv> (-9 :: cj_result)"
abbreviation (input) "CJ_ERR_TIMEOUT \<equiv> (-10 :: cj_result)"
abbreviation (input) "CJ_ERR_LEN \<equiv> (-11 :: cj_result)"
abbreviation (input) "CJ_ERR_RBUFFER_TO_SMALL \<equiv> (-12 :: cj_result)"
abbreviation (input) "CJ_ERR_PROT \<equiv> (-13 :: cj_result)"
abbreviation (input) "CJ_ERR_NO_ACTIVE_ICC \<equiv> (-14 :: cj_result)"
abbreviation (input) "CJ_ERR_WRONG_SIZE \<equiv> (-16 :: cj_result)"
abbreviation (input) "CJ_ERR_PIN_TIMEOUT \<equiv> (-17 :: cj_result)"
abbreviation (input) "CJ_ERR_PIN_CANCELED \<equiv> (-18 :: cj_result)"
abbreviation (input) "CJ_ERR_PIN_DIFFERENT \<equiv> (-19 :: cj_result)"
abbreviation (input) "CJ_ERR_WRONG_PARAMETER \<equiv> (-23 :: cj_result)"
abbreviation (input) "CJ_ERR_INTERNAL_BUFFER_OVERFLOW \<equiv> (-24 :: cj_result)"
abbreviation (input) "CJ_ERR_CHECK_RESULT \<equiv> (-25 :: cj_result)"
abbreviation (input) "CJ_ERR_DATA_CORRUPT \<equiv> (-26 :: cj_result)"
abbreviation (input) "CJ_ERR_CONDITION_OF_USE \<equiv> (-27 :: cj_result)"
abbreviation (input) "CJ_ERR_PIN_EXTENDED \<equiv> (-28 :: cj_result)"
abbreviation (input) "CJ_ERR_CONNECT_TIMEOUT \<equiv> (-29 :: cj_result)"

text \<open>The \<^verbatim>\<open>STATUS_*\<close> codes the reader classes return as \<^verbatim>\<open>RSCT_IFD_RESULT\<close>.\<close>

datatype ifd_result =
    STATUS_SUCCESS | STATUS_NO_MEDIA | STATUS_IO_TIMEOUT | STATUS_DEVICE_NOT_CONNECTED
  | STATUS_INVALID_DEVICE_REQUEST | STATUS_NOT_SUPPORTED | STATUS_INVALID_PARAMETER
  | STATUS_UNRECOGNIZED_MEDIA | STATUS_CANCELLED | STATUS_INVALID_DEVICE_STATE
  | STATUS_BUFFER_TOO_SMALL | STATUS_DEVICE_PROTOCOL_ERROR | STATUS_INSUFFICIENT_RESOURCES
  | STATUS_UNHANDLED_EXCEPTION | STATUS_INVALID_BUFFER_SIZE | STATUS_BUFFER_OVERFLOW
  | STATUS_INFO_LENGTH_MISMATCH

section \<open>Byte-order encodings\<close>

definition le16_bytes :: "u16 \<Rightarrow> bytes" where
  "le16_bytes w = [ucast w, ucast (drop_bit 8 w)]"

definition le32_bytes :: "u32 \<Rightarrow> bytes" where
  "le32_bytes w = [ucast w, ucast (drop_bit 8 w), ucast (drop_bit 16 w), ucast (drop_bit 24 w)]"

definition le16_val :: "byte \<Rightarrow> byte \<Rightarrow> u16" where
  "le16_val a b = ucast a OR push_bit 8 (ucast b)"

definition le32_val :: "byte \<Rightarrow> byte \<Rightarrow> byte \<Rightarrow> byte \<Rightarrow> u32" where
  "le32_val a b c d =
     ucast a OR push_bit 8 (ucast b) OR push_bit 16 (ucast c) OR push_bit 24 (ucast d)"

lemma length_le16_bytes [simp, mem_simps]: "length (le16_bytes w) = 2"
  by (simp add: le16_bytes_def)

lemma length_le32_bytes [simp, mem_simps]: "length (le32_bytes w) = 4"
  by (simp add: le32_bytes_def)

lemma le16_round [codec]:
  "le16_val (ucast w) (ucast (drop_bit 8 w)) = w" for w :: u16
  by (rule bit_word_eqI)
    (auto simp: le16_val_def bit_simps)

lemma le32_round [codec]:
  "le32_val (ucast w) (ucast (drop_bit 8 w)) (ucast (drop_bit 16 w)) (ucast (drop_bit 24 w)) = w"
  for w :: u32
proof (rule bit_word_eqI)
  fix n assume "n < LENGTH(32)"
  moreover have "n < 8 \<or> (8 \<le> n \<and> n < 16) \<or> (16 \<le> n \<and> n < 24) \<or> 24 \<le> n" by linarith
  ultimately show "bit (le32_val (ucast w) (ucast (drop_bit 8 w)) (ucast (drop_bit 16 w))
                          (ucast (drop_bit 24 w))) n = bit w n"
    by (elim disjE) (auto simp: le32_val_def bit_simps)
qed

section \<open>Bounds of machine integers\<close>

lemma byte_bound: "unat b < 256" for b :: byte
  using unsigned_less[of b] by simp

lemma u16_bound: "unat w < 65536" for w :: u16
  using unsigned_less[of w] by simp

lemma u32_bound: "unat w < 4294967296" for w :: u32
  using unsigned_less[of w] by simp

lemma unat_of_nat_u16: "n < 65536 \<Longrightarrow> unat (of_nat n :: u16) = n"
  by (simp add: unat_of_nat take_bit_nat_eq_self)

lemma unat_of_nat_u32: "n < 4294967296 \<Longrightarrow> unat (of_nat n :: u32) = n"
  by (simp add: unat_of_nat take_bit_nat_eq_self)

section \<open>Memory regions\<close>

text \<open>
  A buffer is the list of its bytes.  \<open>overlay off bs buf\<close> is what \<^verbatim>\<open>memcpy(buf + off, bs, n)\<close>
  leaves in a buffer large enough for it.
\<close>

definition overlay :: "nat \<Rightarrow> bytes \<Rightarrow> bytes \<Rightarrow> bytes" where
  "overlay off bs buf = take off buf @ bs @ drop (off + length bs) buf"

lemma length_overlay [simp, mem_simps]:
  "off + length bs \<le> length buf \<Longrightarrow> length (overlay off bs buf) = length buf"
  by (simp add: overlay_def)

lemma take_overlay_prefix [mem_simps]:
  "n \<le> off \<Longrightarrow> off \<le> length buf \<Longrightarrow> take n (overlay off bs buf) = take n buf"
  by (simp add: overlay_def min_def)

lemma take_overlay_zero [mem_simps]:
  "take (length bs) (overlay 0 bs buf) = bs"
  by (simp add: overlay_def)

lemma take_overlay_append [mem_simps]:
  "off \<le> length buf \<Longrightarrow> take (off + length bs) (overlay off bs buf) = take off buf @ bs"
  by (simp add: overlay_def min_def)

end
