(* ===== verification/CJ_Serial.thy ===== *)
theory CJ_Serial
  imports CJ_Prelude
begin

text \<open>
  The serial communicator, \<^verbatim>\<open>cjeca32/SerialUnix.cpp\<close>: raw reads and writes on a tty, the framing
  with two checksum bytes, the acknowledge byte and the retransmission loops of
  \<^verbatim>\<open>CSerialUnix::Write\<close> and \<^verbatim>\<open>CSerialUnix::Read\<close>.

  The operating system is a finite script in the state: what the successive calls of
  \<^verbatim>\<open>read(2)\<close>, \<^verbatim>\<open>write(2)\<close> and \<^verbatim>\<open>tcdrain(3)\<close> return.  A \<^verbatim>\<open>read\<close> behind the end of its script meets
  the end of file, a \<^verbatim>\<open>write\<close> behind the end of its script accepts everything.  A line on which the
  device answers wrongly forever is therefore not represented, and every loop is total.
\<close>

section \<open>The line\<close>

datatype rd_event = RData bytes | REintr | RFail
datatype wr_event = WOk nat | WEintr | WFail

text \<open>
  \<open>RData bs\<close>: the tty has \<open>bs\<close> ready; a \<^verbatim>\<open>read\<close> for fewer bytes leaves the rest for the next one
  (\<open>RData []\<close> is a \<^verbatim>\<open>read\<close> that returns 0).  \<open>WOk n\<close>: \<^verbatim>\<open>write\<close> accepts \<open>n\<close> bytes, at least one and
  at most the requested number.  \<open>g_mem\<close> gives the bytes that lie around an object in memory, by
  their offset from its start.  \<open>flushes\<close> tells how many of the bytes to come have already arrived when
  \<^verbatim>\<open>tcflush\<close> empties the input queue; behind the end of that script all of them have.
\<close>

record serial =
  m_devHandle :: int
  rx :: "rd_event list"
  wx :: "wr_event list"
  drains :: "bool list"
  flushes :: "nat list"
  tx :: bytes
  g_mem :: "int \<Rightarrow> byte"

datatype fd_result = RV bytes | Errno_EINTR | Errno_other

section \<open>Operations\<close>

definition readFd :: "serial \<Rightarrow> nat \<Rightarrow> fd_result \<times> serial" where
  "readFd s l = (case rx s of
      [] \<Rightarrow> (RV [], s)
    | REintr # r \<Rightarrow> (Errno_EINTR, s\<lparr>rx := r\<rparr>)
    | RFail # r \<Rightarrow> (Errno_other, s\<lparr>rx := r\<rparr>)
    | RData bs # r \<Rightarrow>
        (RV (take l bs), s\<lparr>rx := (if l < length bs then RData (drop l bs) # r else r)\<rparr>))"

datatype wr_result = WRV nat | WErrno_EINTR | WErrno_other

definition writeFd :: "serial \<Rightarrow> bytes \<Rightarrow> wr_result \<times> serial" where
  "writeFd s buf = (case wx s of
      [] \<Rightarrow> (WRV (length buf), s\<lparr>tx := tx s @ buf\<rparr>)
    | WOk n # w \<Rightarrow> (let k = min (max 1 n) (length buf)
                   in (WRV k, s\<lparr>wx := w, tx := tx s @ take k buf\<rparr>))
    | WEintr # w \<Rightarrow> (WErrno_EINTR, s\<lparr>wx := w\<rparr>)
    | WFail # w \<Rightarrow> (WErrno_other, s\<lparr>wx := w\<rparr>))"

definition serial_Close :: "serial \<Rightarrow> serial" where
  "serial_Close s = (if m_devHandle s < 0 then s else s\<lparr>m_devHandle := -1\<rparr>)"

definition serial_IsConnected :: "serial \<Rightarrow> bool" where
  "serial_IsConnected s \<longleftrightarrow> m_devHandle s \<noteq> -1"

text \<open>What the calls of \<^verbatim>\<open>Open\<close> return: \<^verbatim>\<open>open\<close>, \<^verbatim>\<open>tcgetattr\<close>, \<^verbatim>\<open>tcsetattr\<close>, \<^verbatim>\<open>tcflush\<close>.\<close>

definition serial_Open :: "int \<Rightarrow> bool \<Rightarrow> bool \<Rightarrow> bool \<Rightarrow> serial \<Rightarrow> bool \<times> serial" where
  "serial_Open fd getattr_ok setattr_ok flush_ok s =
     (if fd < 0 then (False, s)
      else if \<not> getattr_ok then (False, s)
      else if \<not> setattr_ok then (False, s)
      else if \<not> flush_ok then (False, s)
      else (True, s\<lparr>m_devHandle := fd\<rparr>))"

text \<open>The two checksum bytes: the sum modulo 256 and the exclusive or.\<close>

fun crc_loop :: "bytes \<Rightarrow> byte \<Rightarrow> byte \<Rightarrow> byte \<times> byte" where
  "crc_loop [] c0 c1 = (c0, c1)"
| "crc_loop (b # bs) c0 c1 = crc_loop bs (c0 + b) (c1 XOR b)"

definition crc :: "bytes \<Rightarrow> bytes" where
  "crc bs = (case crc_loop bs 0 0 of (c0, c1) \<Rightarrow> [c0, c1])"

text \<open>
  An object in memory: its bytes, and around them whatever \<open>g_mem\<close> holds.  The send loop keeps a
  pointer \<^verbatim>\<open>p\<close>, here the offset from the start of the object, and the number of bytes left; an
  interrupted \<^verbatim>\<open>write\<close> returns \<open>-1\<close>, which the loop subtracts from \<^verbatim>\<open>len\<close> and adds to \<^verbatim>\<open>p\<close>.
\<close>

definition mem_at :: "serial \<Rightarrow> bytes \<Rightarrow> int \<Rightarrow> byte" where
  "mem_at s obj i = (if 0 \<le> i \<and> i < int (length obj) then obj ! nat i else g_mem s i)"

definition mem_region :: "serial \<Rightarrow> bytes \<Rightarrow> int \<Rightarrow> nat \<Rightarrow> bytes" where
  "mem_region s obj p len = map (\<lambda>k. mem_at s obj (p + int k)) [0..<len]"

function send_loop :: "serial \<Rightarrow> bytes \<Rightarrow> int \<Rightarrow> nat \<Rightarrow> cj_result \<times> serial" where
  "send_loop s obj p len =
     (if len = 0 then (CJ_SUCCESS, s)
      else case writeFd s (mem_region s obj p len) of
             (WRV k, s') \<Rightarrow> send_loop s' obj (p + int k) (len - k)
           | (WErrno_EINTR, s') \<Rightarrow> send_loop s' obj (p - 1) (len + 1)
           | (WErrno_other, s') \<Rightarrow> (CJ_ERR_DEVICE_LOST, serial_Close s'))"
  by pat_completeness auto

lemma length_mem_region [simp, mem_simps]: "length (mem_region s obj p len) = len"
  by (simp add: mem_region_def)

termination send_loop
  by (relation "measures [\<lambda>(s, obj, p, len). length (wx s), \<lambda>(s, obj, p, len). len]")
    (auto simp: writeFd_def Let_def split: list.splits wr_event.splits)

definition tcdrain :: "serial \<Rightarrow> bool \<times> serial" where
  "tcdrain s = (case drains s of [] \<Rightarrow> (True, s) | d # ds \<Rightarrow> (d, s\<lparr>drains := ds\<rparr>))"

definition writeLowlevel :: "serial \<Rightarrow> bytes \<Rightarrow> cj_result \<times> serial" where
  "writeLowlevel s Message =
     (if m_devHandle s < 0 then (CJ_ERR_DEVICE_LOST, s)
      else (case send_loop s Message 0 (length Message) of (r1, s1) \<Rightarrow>
        if r1 \<noteq> CJ_SUCCESS then (r1, s1)
        else (case send_loop s1 (crc Message) 0 2 of (r2, s2) \<Rightarrow>
          if r2 \<noteq> CJ_SUCCESS then (r2, s2)
          else (case tcdrain s2 of (ok, s3) \<Rightarrow>
            if ok then (CJ_SUCCESS, s3) else (CJ_ERR_DEVICE_LOST, serial_Close s3)))))"

text \<open>\<^verbatim>\<open>_readForced\<close>: whether all bytes arrived, the bytes stored so far, the state.\<close>

text \<open>The number of bytes and of calls the line still has to give.\<close>

fun ev_size :: "rd_event \<Rightarrow> nat" where
  "ev_size (RData bs) = Suc (length bs)"
| "ev_size REintr = 1"
| "ev_size RFail = 1"

abbreviation rx_size :: "serial \<Rightarrow> nat" where
  "rx_size s \<equiv> sum_list (map ev_size (rx s))"

function readForced :: "serial \<Rightarrow> nat \<Rightarrow> bool \<times> bytes \<times> serial" where
  "readForced s len =
     (if len = 0 then (True, [], s)
      else case readFd s len of
             (Errno_EINTR, s') \<Rightarrow> readForced s' len
           | (Errno_other, s') \<Rightarrow> (False, [], s')
           | (RV bs, s') \<Rightarrow>
               if bs = [] then (False, [], s')
               else (case readForced s' (len - length bs) of
                       (ok, bs', s'') \<Rightarrow> (ok, bs @ bs', s'')))"
  by pat_completeness auto

termination readForced
  by (relation "measures [\<lambda>(s, len). rx_size s, \<lambda>(s, len). len]")
    (auto simp: readFd_def split: list.splits rd_event.splits if_splits)

declare send_loop.simps [simp del] readForced.simps [simp del]

function writeAck :: "serial \<Rightarrow> byte \<Rightarrow> cj_result \<times> serial" where
  "writeAck s c =
     (case writeFd s [c] of
        (WErrno_EINTR, s') \<Rightarrow> writeAck s' c
      | (WErrno_other, s') \<Rightarrow> (CJ_ERR_DEVICE_LOST, serial_Close s')
      | (WRV k, s') \<Rightarrow>
          if k < 1 then (CJ_ERR_DEVICE_LOST, serial_Close s') else (CJ_SUCCESS, s'))"
  by pat_completeness auto
termination
  by (relation "measure (\<lambda>(s, c). length (wx s))")
    (auto simp: writeFd_def Let_def split: list.splits wr_event.splits)

declare writeAck.simps [simp del]

abbreviation (input) "RDR_TO_PC_NOTIFYSLOTCHANGE \<equiv> (0x50 :: byte)"
abbreviation (input) "RDR_TO_PC_HARWAREERROR \<equiv> (0x51 :: byte)"
abbreviation (input) "RDR_TO_PC_KEYEVENT \<equiv> (0x40 :: byte)"

definition is_interrupt :: "byte \<Rightarrow> bool" where
  "is_interrupt b \<longleftrightarrow> b = RDR_TO_PC_NOTIFYSLOTCHANGE \<or> b = RDR_TO_PC_HARWAREERROR
                     \<or> b = RDR_TO_PC_KEYEVENT"

text \<open>
  \<^verbatim>\<open>_readLowlevel\<close> in the order of the source: the header (\<open>buffer[0]\<close>, and for a CCID message nine
  more bytes whose second and third give the payload length), the payload into \<^verbatim>\<open>Response\<close>, the
  checksums, the acknowledge.  The caller's buffer \<open>Response\<close> is threaded through, and the result
  carries the length stored through \<^verbatim>\<open>ResponseLen\<close>.
\<close>

definition read_header :: "serial \<Rightarrow> bool \<times> bytes \<times> nat \<times> serial" where
  "read_header s =
     (case readForced s 1 of (ok, buf, s1) \<Rightarrow>
        if \<not> ok then (False, buf, 0, s1)
        else if is_interrupt (buf ! 0) then (True, buf, 1, s1)
        else if buf ! 0 = 0x00 \<or> buf ! 0 = 0xff then (True, buf, 0, s1)
        else (case readForced s1 9 of (ok2, h, s2) \<Rightarrow>
                if \<not> ok2 then (False, buf @ h, 0, s2)
                else (True, buf @ h, 256 * unat (h ! 1) + unat (h ! 0), s2)))"

definition read_tail :: "serial \<Rightarrow> bytes \<Rightarrow> nat \<Rightarrow> bytes \<Rightarrow> cj_result \<times> bytes \<times> nat \<times> serial" where
  "read_tail s buffer toRead Response =
     (let n = length buffer + toRead; Response1 = overlay 0 buffer Response in
      case readForced s toRead of (ok, d, s1) \<Rightarrow>
        let Response2 = overlay (length buffer) d Response1 in
        if \<not> ok then (CJ_ERR_DEVICE_LOST, Response2, 0, serial_Close s1)
        else (case readForced s1 2 of (ok2, c, s2) \<Rightarrow>
          if \<not> ok2 then (CJ_ERR_DEVICE_LOST, Response2, 0, serial_Close s2)
          else if is_interrupt (buffer ! 0) then (CJ_SUCCESS, Response2, n, s2)
          else if c = crc (take n Response2)
          then (case writeAck s2 0xff of (r, s3) \<Rightarrow> (r, Response2, n, s3))
          else (case writeAck s2 0x00 of (r, s3) \<Rightarrow>
                  if r \<noteq> CJ_SUCCESS then (r, Response2, 0, s3)
                  else (CJ_ERR_DATA_CORRUPT, Response2, 0, s3))))"

definition readLowlevel :: "serial \<Rightarrow> bytes \<Rightarrow> nat \<Rightarrow> cj_result \<times> bytes \<times> nat \<times> serial" where
  "readLowlevel s Response ResponseLen =
     (if m_devHandle s < 0 then (CJ_ERR_DEVICE_LOST, Response, ResponseLen, s)
      else (case read_header s of (ok, buffer, toRead, s1) \<Rightarrow>
        if \<not> ok then (CJ_ERR_DEVICE_LOST, Response, ResponseLen, serial_Close s1)
        else if length buffer + toRead > ResponseLen
        then (CJ_ERR_DEVICE_LOST, Response, ResponseLen, serial_Close s1)
        else (case read_tail s1 buffer toRead Response of (r, Response', n, s2) \<Rightarrow>
                (r, Response', if r = CJ_SUCCESS then n else ResponseLen, s2))))"

section \<open>Bytes consumed\<close>

text \<open>The bytes the line still carries, and a line on which nothing fails.\<close>

fun ev_bytes :: "rd_event \<Rightarrow> bytes" where
  "ev_bytes (RData bs) = bs"
| "ev_bytes REintr = []"
| "ev_bytes RFail = []"

fun ev_good :: "rd_event \<Rightarrow> bool" where
  "ev_good (RData bs) = (bs \<noteq> [])"
| "ev_good REintr = True"
| "ev_good RFail = False"

abbreviation pending :: "serial \<Rightarrow> bytes" where
  "pending s \<equiv> concat (map ev_bytes (rx s))"

definition line_good :: "serial \<Rightarrow> bool" where
  "line_good s = list_all ev_good (rx s)"

text \<open>
  The loop of \<^verbatim>\<open>_readForced\<close> on the events alone: it changes nothing but the receive script, and
  however the bytes are chunked and interrupted it takes them in order.
\<close>

fun take_ev :: "rd_event list \<Rightarrow> nat \<Rightarrow> bool \<times> bytes \<times> rd_event list" where
  "take_ev es 0 = (True, [], es)"
| "take_ev [] (Suc n) = (False, [], [])"
| "take_ev (REintr # es) (Suc n) = take_ev es (Suc n)"
| "take_ev (RFail # es) (Suc n) = (False, [], es)"
| "take_ev (RData bs # es) (Suc n) =
     (if bs = [] then (False, [], es)
      else if Suc n < length bs then (True, take (Suc n) bs, RData (drop (Suc n) bs) # es)
      else (case take_ev es (Suc n - length bs) of (ok, b, r) \<Rightarrow> (ok, bs @ b, r)))"

lemma readForced_step:
  "readForced s 0 = (True, [], s)"
  "rx s = [] \<Longrightarrow> 0 < n \<Longrightarrow> readForced s n = (False, [], s)"
  "rx s = REintr # es \<Longrightarrow> 0 < n \<Longrightarrow> readForced s n = readForced (s\<lparr>rx := es\<rparr>) n"
  "rx s = RFail # es \<Longrightarrow> 0 < n \<Longrightarrow> readForced s n = (False, [], s\<lparr>rx := es\<rparr>)"
  "rx s = RData [] # es \<Longrightarrow> 0 < n \<Longrightarrow> readForced s n = (False, [], s\<lparr>rx := es\<rparr>)"
  "rx s = RData bs # es \<Longrightarrow> bs \<noteq> [] \<Longrightarrow> 0 < n \<Longrightarrow> n < length bs \<Longrightarrow>
     readForced s n = (True, take n bs, s\<lparr>rx := RData (drop n bs) # es\<rparr>)"
  "rx s = RData bs # es \<Longrightarrow> bs \<noteq> [] \<Longrightarrow> 0 < n \<Longrightarrow> length bs \<le> n \<Longrightarrow>
     readForced s n = (case readForced (s\<lparr>rx := es\<rparr>) (n - length bs) of
                         (ok, b, s') \<Rightarrow> (ok, bs @ b, s'))"
  by (subst readForced.simps, simp add: readFd_def readForced.simps[of _ 0])+

lemma readForced_take_ev:
  "readForced s n = (case take_ev (rx s) n of (ok, bs, r) \<Rightarrow> (ok, bs, s\<lparr>rx := r\<rparr>))"
proof (induction "rx s" n arbitrary: s rule: take_ev.induct)
  case 1 then show ?case by (simp add: readForced_step)
next
  case (2 n) from 2[symmetric] show ?case by (simp add: readForced_step)
next
  case (3 es n)
  from 3(1)[of "s\<lparr>rx := es\<rparr>"] 3(2)[symmetric] show ?case
    by (simp add: readForced_step split: prod.splits)
next
  case (4 es n) from 4[symmetric] show ?case by (simp add: readForced_step)
next
  case (5 bs es n)
  note rx = 5(2)[symmetric]
  show ?case
  proof (cases "bs = [] \<or> Suc n < length bs")
    case True then show ?thesis using rx by (auto simp: readForced_step)
  next
    case False
    then show ?thesis using 5(1)[of "s\<lparr>rx := es\<rparr>"] rx
      by (simp add: readForced_step split: prod.splits)
  qed
qed

lemma take_ev_ok:
  "take_ev es n = (True, bs, r) \<Longrightarrow>
     length bs = n \<and> concat (map ev_bytes es) = bs @ concat (map ev_bytes r)
     \<and> sum_list (map ev_size r) + n \<le> sum_list (map ev_size es)
     \<and> (list_all ev_good es \<longrightarrow> list_all ev_good r)"
proof (induction es n arbitrary: bs r rule: take_ev.induct)
  case (5 b es n)
  show ?case
  proof (cases "Suc n < length b")
    case True then show ?thesis using "5.prems" by (auto split: if_splits)
  next
    case False
    then obtain b' where ne: "b \<noteq> []" and t: "take_ev es (Suc n - length b) = (True, b', r)"
      and bs: "bs = b @ b'"
      using "5.prems" by (simp split: if_splits prod.splits)
    from "5.IH"[OF ne False t] False show ?thesis by (simp add: bs) linarith
  qed
qed auto

lemma take_ev_good:
  "list_all ev_good es \<Longrightarrow> n \<le> length (concat (map ev_bytes es)) \<Longrightarrow>
     \<exists>bs r. take_ev es n = (True, bs, r)"
proof (induction es n rule: take_ev.induct)
  case (5 b es n)
  show ?case
  proof (cases "Suc n < length b")
    case True then show ?thesis using 5 by auto
  next
    case False
    then obtain bs r where "take_ev es (Suc n - length b) = (True, bs, r)"
      using 5 by fastforce
    then show ?thesis using 5 False by auto
  qed
qed auto

lemma take_ev_short:
  assumes "length (concat (map ev_bytes es)) < n"
  shows "\<exists>bs r. take_ev es n = (False, bs, r)"
proof -
  obtain ok bs r where t: "take_ev es n = (ok, bs, r)" by (metis prod_cases3)
  then show ?thesis using assms take_ev_ok[of es n bs r] by (cases ok) auto
qed

lemma take_ev_size: "take_ev es n = (ok, bs, r) \<Longrightarrow>
  sum_list (map ev_size r) \<le> sum_list (map ev_size es)"
proof (induction es n arbitrary: ok bs r rule: take_ev.induct)
  case (5 b es n)
  then show ?case by (fastforce split: if_splits prod.splits)
qed (auto split: prod.splits)

text \<open>The form the clients use: on a good line with enough bytes, and whenever it succeeds.\<close>

lemma readForced_good:
  assumes "line_good s" and "pending s = bs @ rest"
  obtains r where "readForced s (length bs) = (True, bs, s\<lparr>rx := r\<rparr>)"
    and "pending (s\<lparr>rx := r\<rparr>) = rest" and "line_good (s\<lparr>rx := r\<rparr>)"
proof -
  obtain bs' r where t: "take_ev (rx s) (length bs) = (True, bs', r)"
    using assms take_ev_good[of "rx s" "length bs"] by (auto simp: line_good_def)
  have l: "length bs' = length bs" and e: "bs @ rest = bs' @ concat (map ev_bytes r)"
    and g: "list_all ev_good r"
    using take_ev_ok[OF t] assms by (simp_all add: line_good_def)
  from e l have "bs' = bs" "concat (map ev_bytes r) = rest" by (metis append_eq_append_conv)+
  with t g show ?thesis
    by (intro that[of r]) (simp_all add: readForced_take_ev line_good_def)
qed

lemma readForced_okD:
  assumes "readForced s n = (True, bs, s')"
  shows "length bs = n \<and> pending s = bs @ pending s' \<and> rx_size s' + n \<le> rx_size s
    \<and> (\<exists>r. s' = s\<lparr>rx := r\<rparr>) \<and> (line_good s \<longrightarrow> line_good s')"
  using assms take_ev_ok[of "rx s" n bs "rx s'"]
  by (auto simp: readForced_take_ev line_good_def split: prod.splits)

lemma readForced_sizeD:
  assumes "readForced s n = (ok, bs, s')"
  shows "rx_size s' \<le> rx_size s \<and> (\<exists>r. s' = s\<lparr>rx := r\<rparr>)"
  using assms take_ev_size[of "rx s" n] by (auto simp: readForced_take_ev split: prod.splits)

section \<open>The retransmission loops\<close>

lemma writeFd_frame:
  "writeFd s buf = (r, s') \<Longrightarrow> rx s' = rx s \<and> m_devHandle s' = m_devHandle s
     \<and> drains s' = drains s \<and> flushes s' = flushes s \<and> g_mem s' = g_mem s"
  by (auto simp: writeFd_def Let_def split: list.splits wr_event.splits)

text \<open>The handle a closed device is left with.\<close>

definition closed_handle :: "int \<Rightarrow> int" where
  "closed_handle h = (if h < 0 then h else -1)"

lemma closed_handle_simps [simp]:
  "h < 0 \<Longrightarrow> closed_handle h = h" "closed_handle (closed_handle h) = closed_handle h"
  "closed_handle h < 0"
  by (auto simp: closed_handle_def)

lemma serial_Close_simps [simp]:
  "rx (serial_Close s) = rx s" "tx (serial_Close s) = tx s" "wx (serial_Close s) = wx s"
  "m_devHandle (serial_Close s) = closed_handle (m_devHandle s)"
  by (auto simp: serial_Close_def closed_handle_def)

lemma writeAck_frame:
  "writeAck s c = (r, s') \<Longrightarrow> rx s' = rx s \<and> (r = CJ_SUCCESS \<or> r = CJ_ERR_DEVICE_LOST)
     \<and> (r = CJ_SUCCESS \<longrightarrow> m_devHandle s' = m_devHandle s)
     \<and> (r \<noteq> CJ_SUCCESS \<longrightarrow> m_devHandle s' = closed_handle (m_devHandle s))"
proof (induction s c arbitrary: r s' rule: writeAck.induct)
  case (1 s c)
  obtain w s1 where w: "writeFd s [c] = (w, s1)" by fastforce
  note f = writeFd_frame[OF w]
  show ?case
    using "1.prems" "1.IH"[OF w[symmetric]] w f
    by (subst (asm) writeAck.simps) (auto split: wr_result.splits if_splits)
qed

lemma send_loop_frame:
  "send_loop s obj p len = (r, s') \<Longrightarrow> rx s' = rx s \<and> (r = CJ_SUCCESS \<or> r = CJ_ERR_DEVICE_LOST)
     \<and> drains s' = drains s \<and> flushes s' = flushes s \<and> g_mem s' = g_mem s
     \<and> (r = CJ_SUCCESS \<longrightarrow> m_devHandle s' = m_devHandle s)
     \<and> (r \<noteq> CJ_SUCCESS \<longrightarrow> m_devHandle s' = closed_handle (m_devHandle s))"
proof (induction s obj p len arbitrary: r s' rule: send_loop.induct)
  case (1 s obj p len)
  show ?case
  proof (cases "len = 0")
    case True then show ?thesis using "1.prems" by (simp add: send_loop.simps)
  next
    case False
    obtain w s1 where w: "writeFd s (mem_region s obj p len) = (w, s1)" by fastforce
    note f = writeFd_frame[OF w]
    show ?thesis
    proof (cases w)
      case (WRV k)
      then show ?thesis using "1.prems" "1.IH"(1)[OF False w[symmetric] WRV] False w f
        by (subst (asm) send_loop.simps) simp
    next
      case WErrno_EINTR
      then show ?thesis using "1.prems" "1.IH"(2)[OF False w[symmetric] WErrno_EINTR] False w f
        by (subst (asm) send_loop.simps) simp
    next
      case WErrno_other
      then show ?thesis using "1.prems" False w f
        by (subst (asm) send_loop.simps) (auto simp: serial_Close_def closed_handle_def)
    qed
  qed
qed

lemma writeLowlevel_frame:
  assumes "writeLowlevel s msg = (r, s')"
  shows "rx s' = rx s \<and> (r = CJ_SUCCESS \<or> r = CJ_ERR_DEVICE_LOST)
     \<and> (r = CJ_SUCCESS \<longrightarrow> m_devHandle s' = m_devHandle s \<and> 0 \<le> m_devHandle s)
     \<and> (r \<noteq> CJ_SUCCESS \<longrightarrow> m_devHandle s' = closed_handle (m_devHandle s))"
proof -
  obtain r1 s1 where 1: "send_loop s msg 0 (length msg) = (r1, s1)" by fastforce
  obtain r2 s2 where 2: "send_loop s1 (crc msg) 0 2 = (r2, s2)" by fastforce
  obtain ok s3 where 3: "tcdrain s2 = (ok, s3)" by fastforce
  have f3: "rx s3 = rx s2 \<and> m_devHandle s3 = m_devHandle s2"
    using 3 by (auto simp: tcdrain_def split: list.splits)
  show ?thesis
    using assms 1 2 3 f3 send_loop_frame[OF 1] send_loop_frame[OF 2]
    by (auto simp: writeLowlevel_def split: if_splits)
qed

text \<open>
  \<^verbatim>\<open>tcflush(TCIOFLUSH)\<close> forgets the input that has arrived and was not read; there is no output to
  forget, since \<^verbatim>\<open>tcdrain\<close> has waited for it.  Interruptions and failures of later reads are not input.
\<close>

fun drop_bytes :: "nat \<Rightarrow> rd_event list \<Rightarrow> rd_event list" where
  "drop_bytes 0 es = es"
| "drop_bytes (Suc n) [] = []"
| "drop_bytes (Suc n) (REintr # es) = REintr # drop_bytes (Suc n) es"
| "drop_bytes (Suc n) (RFail # es) = RFail # es"
| "drop_bytes (Suc n) (RData bs # es) =
     (if bs = [] then RData bs # es
      else if Suc n < length bs then RData (drop (Suc n) bs) # es
      else drop_bytes (Suc n - length bs) es)"

definition tcflush :: "serial \<Rightarrow> serial" where
  "tcflush s = (case flushes s of
      [] \<Rightarrow> s\<lparr>rx := drop_bytes (length (pending s)) (rx s)\<rparr>
    | k # ks \<Rightarrow> s\<lparr>rx := drop_bytes k (rx s), flushes := ks\<rparr>)"

lemma drop_bytes_size: "sum_list (map ev_size (drop_bytes n es)) \<le> sum_list (map ev_size es)"
  by (induction n es rule: drop_bytes.induct) auto

lemma drop_bytes_good:
  "list_all ev_good es \<Longrightarrow> concat (map ev_bytes (drop_bytes n es)) = drop n (concat (map ev_bytes es))
     \<and> list_all ev_good (drop_bytes n es)"
  by (induction n es rule: drop_bytes.induct) auto

lemma tcflush_size: "rx_size (tcflush s) \<le> rx_size s"
  by (simp add: tcflush_def drop_bytes_size split: list.split)

lemma tcflush_simps [simp]:
  "m_devHandle (tcflush s) = m_devHandle s" "tx (tcflush s) = tx s" "wx (tcflush s) = wx s"
  "drains (tcflush s) = drains s" "flushes (tcflush s) = tl (flushes s)"
  by (simp_all add: tcflush_def split: list.split)

lemma tcflush_good:
  "line_good s \<Longrightarrow> flushes s = k # ks \<Longrightarrow> pending (tcflush s) = drop k (pending s) \<and> line_good (tcflush s)"
  by (simp add: tcflush_def line_good_def drop_bytes_good)

function serial_Write :: "serial \<Rightarrow> bytes \<Rightarrow> cj_result \<times> serial" where
  "serial_Write s Message =
     (case writeLowlevel s Message of (res, s1) \<Rightarrow>
        if res \<noteq> CJ_SUCCESS then (res, s1)
        else (case readForced s1 1 of (ok, buf, s2) \<Rightarrow>
          if \<not> ok then (CJ_ERR_DEVICE_LOST, serial_Close s2)
          else if buf ! 0 = 0xff then (CJ_SUCCESS, s2)
          else serial_Write (tcflush s2) Message))"
  by pat_completeness auto
termination
  by (relation "measure (\<lambda>(s, m). rx_size s)")
    (auto dest!: sym [THEN writeLowlevel_frame] sym [THEN readForced_okD]
      intro: le_less_trans[OF tcflush_size])

lemma read_header_frame:
  assumes "read_header s = (ok, buf, n, s')"
  shows "rx_size s' \<le> rx_size s \<and> m_devHandle s' = m_devHandle s \<and> (ok \<longrightarrow> rx_size s' < rx_size s \<and> buf \<noteq> [])"
proof -
  obtain ok1 b1 s1 where 1: "readForced s 1 = (ok1, b1, s1)" by (metis prod_cases3)
  obtain ok2 b2 s2 where 2: "readForced s1 9 = (ok2, b2, s2)" by (metis prod_cases3)
  have ok: "ok1 \<longrightarrow> rx_size s1 < rx_size s \<and> length b1 = 1" using readForced_okD[of s 1 b1 s1] 1 by auto
  have f: "m_devHandle s1 = m_devHandle s" "m_devHandle s2 = m_devHandle s"
    "rx_size s1 \<le> rx_size s" "rx_size s2 \<le> rx_size s1"
    using readForced_sizeD[OF 1] readForced_sizeD[OF 2] by auto
  show ?thesis
    using assms ok f 1 2 by (auto simp: read_header_def split: if_splits)
qed

lemma read_tail_frame:
  assumes "read_tail s buf n R = (r, R', m, s')"
  shows "rx_size s' \<le> rx_size s \<and> (r = CJ_SUCCESS \<longrightarrow> m = length buf + n)
     \<and> (r \<noteq> CJ_SUCCESS \<and> r \<noteq> CJ_ERR_DATA_CORRUPT \<longrightarrow> r = CJ_ERR_DEVICE_LOST \<and> m_devHandle s' = closed_handle (m_devHandle s))
     \<and> (r = CJ_SUCCESS \<or> r = CJ_ERR_DATA_CORRUPT \<longrightarrow> m_devHandle s' = m_devHandle s)"
proof -
  obtain ok1 b1 s1 where 1: "readForced s n = (ok1, b1, s1)" by (metis prod_cases3)
  obtain ok2 b2 s2 where 2: "readForced s1 2 = (ok2, b2, s2)" by (metis prod_cases3)
  have h: "m_devHandle s1 = m_devHandle s" "m_devHandle s2 = m_devHandle s"
    "rx_size s1 \<le> rx_size s" "rx_size s2 \<le> rx_size s"
    using readForced_sizeD[OF 1] readForced_sizeD[OF 2] by auto
  consider "\<not> ok1" | "ok1" "\<not> ok2" | "ok1" "ok2" "is_interrupt (buf ! 0)"
    | c ra sa where "ok1" "ok2" "\<not> is_interrupt (buf ! 0)" "writeAck s2 c = (ra, sa)" "s' = sa"
      "r = ra \<or> (ra = CJ_SUCCESS \<and> r = CJ_ERR_DATA_CORRUPT)" "r = CJ_SUCCESS \<longrightarrow> m = length buf + n"
    using assms 1 2 by (auto simp: read_tail_def Let_def split: if_splits prod.splits)
  then show ?thesis
  proof cases
    case 4
    then show ?thesis using writeAck_frame[of s2 c ra sa] h by auto
  qed (use assms 1 2 h in \<open>auto simp: read_tail_def Let_def\<close>)
qed

lemma readLowlevel_frame:
  assumes "readLowlevel s R len = (r, R', m, s')"
  shows "(r = CJ_SUCCESS \<longrightarrow> m \<le> len \<and> m_devHandle s' = m_devHandle s \<and> 0 \<le> m_devHandle s)
     \<and> (r \<noteq> CJ_SUCCESS \<longrightarrow> m = len)
     \<and> (r = CJ_ERR_DATA_CORRUPT \<longrightarrow> rx_size s' < rx_size s \<and> m_devHandle s' = m_devHandle s)
     \<and> (r \<noteq> CJ_SUCCESS \<and> r \<noteq> CJ_ERR_DATA_CORRUPT \<longrightarrow> r = CJ_ERR_DEVICE_LOST \<and> m_devHandle s' = closed_handle (m_devHandle s))"
proof (cases "m_devHandle s < 0")
  case True then show ?thesis using assms by (auto simp: readLowlevel_def)
next
  case False
  obtain ok buf n s1 where 1: "read_header s = (ok, buf, n, s1)" by (metis prod_cases4)
  obtain r2 R2 m2 s2 where 2: "read_tail s1 buf n R = (r2, R2, m2, s2)" by (metis prod_cases4)
  show ?thesis
    using assms False 1 2 read_header_frame[OF 1] read_tail_frame[OF 2]
    by (auto simp: readLowlevel_def split: if_splits)
qed

function serial_Read :: "serial \<Rightarrow> bytes \<Rightarrow> nat \<Rightarrow> cj_result \<times> bytes \<times> nat \<times> serial" where
  "serial_Read s Response ResponseLen =
     (case readLowlevel s Response ResponseLen of (res, Response', l, s') \<Rightarrow>
        if res = CJ_ERR_DATA_CORRUPT then serial_Read s' Response' ResponseLen
        else (res, Response', if res = CJ_SUCCESS then l else ResponseLen, s'))"
  by pat_completeness auto
termination
  by (relation "measure (\<lambda>(s, R, l). rx_size s)")
    (auto dest!: sym [THEN readLowlevel_frame])

declare serial_Write.simps [simp del] serial_Read.simps [simp del]

lemma serial_Read_frame:
  "serial_Read s R len = (r, R', m, s') \<Longrightarrow>
     (r = CJ_SUCCESS \<longrightarrow> m \<le> len \<and> m_devHandle s' = m_devHandle s \<and> 0 \<le> m_devHandle s)
     \<and> (r \<noteq> CJ_SUCCESS \<longrightarrow> m = len \<and> r = CJ_ERR_DEVICE_LOST \<and> m_devHandle s' = closed_handle (m_devHandle s))"
proof (induction s R len arbitrary: r R' m s' rule: serial_Read.induct)
  case (1 s R len)
  obtain r1 R1 m1 s1 where l: "readLowlevel s R len = (r1, R1, m1, s1)" by (metis prod_cases4)
  show ?case
  proof (cases "r1 = CJ_ERR_DATA_CORRUPT")
    case True
    then have "serial_Read s1 R1 len = (r, R', m, s')"
      using "1.prems" l by (simp add: serial_Read.simps[of s])
    from "1.IH"[OF l[symmetric] refl refl True this] readLowlevel_frame[OF l] True
    show ?thesis by simp
  next
    case False
    then show ?thesis using "1.prems" l readLowlevel_frame[OF l]
      by (auto simp: serial_Read.simps[of s] split: if_splits)
  qed
qed

lemma serial_Write_frame:
  "serial_Write s msg = (r, s') \<Longrightarrow> (r = CJ_SUCCESS \<longrightarrow> m_devHandle s' = m_devHandle s \<and> 0 \<le> m_devHandle s)
     \<and> (r \<noteq> CJ_SUCCESS \<longrightarrow> r = CJ_ERR_DEVICE_LOST \<and> m_devHandle s' = closed_handle (m_devHandle s))"
proof (induction s msg arbitrary: r s' rule: serial_Write.induct)
  case (1 s msg)
  obtain r1 s1 where w: "writeLowlevel s msg = (r1, s1)" by fastforce
  obtain ok b s2 where f: "readForced s1 1 = (ok, b, s2)" by (metis prod_cases3)
  have h: "m_devHandle s2 = m_devHandle s1" using readForced_sizeD[OF f] by auto
  show ?case
    using "1.prems" "1.IH"[OF w[symmetric] _ f[symmetric] refl] writeLowlevel_frame[OF w] w f h
    by (subst (asm) serial_Write.simps) (auto split: if_splits)
qed

section \<open>The contract of the communicator\<close>

lemma readForced_length: "readForced s n = (ok, bs, s') \<Longrightarrow> length bs \<le> n"
proof -
  have "take_ev es n = (ok, bs, r) \<Longrightarrow> length bs \<le> n" for es r
  proof (induction es n arbitrary: ok bs r rule: take_ev.induct)
    case (5 b es n)
    then show ?case by (fastforce split: if_splits prod.splits)
  qed (auto split: prod.splits)
  then show "readForced s n = (ok, bs, s') \<Longrightarrow> length bs \<le> n"
    by (auto simp: readForced_take_ev split: prod.splits)
qed

lemma read_header_length:
  "read_header s = (True, buf, n, s') \<Longrightarrow> length buf = 1 \<or> length buf = 10"
  by (auto simp: read_header_def split: prod.splits if_splits dest!: readForced_okD)

lemma read_tail_length:
  assumes "read_tail s buf n R = (r, R', m, s')" and "length buf + n \<le> length R"
  shows "length R' = length R"
proof -
  obtain ok1 b1 s1 where 1: "readForced s n = (ok1, b1, s1)" by (metis prod_cases3)
  with assms readForced_length[OF 1] have "R' = overlay (length buf) b1 (overlay 0 buf R)"
    by (auto simp: read_tail_def Let_def split: prod.splits if_splits)
  then show ?thesis using assms(2) readForced_length[OF 1] by simp
qed

lemma readLowlevel_size:
  assumes "readLowlevel s R len = (r, R', m, s')" and "len \<le> length R"
  shows "length R' = length R" "r = CJ_SUCCESS \<or> r = CJ_ERR_DATA_CORRUPT \<Longrightarrow> rx_size s' < rx_size s"
    "rx_size s' \<le> rx_size s"
proof -
  obtain ok buf n s1 where 1: "read_header s = (ok, buf, n, s1)" by (metis prod_cases4)
  obtain r2 R2 m2 s2 where 2: "read_tail s1 buf n R = (r2, R2, m2, s2)" by (metis prod_cases4)
  show "length R' = length R"
    using assms 1 2 read_tail_length[OF 2] by (auto simp: readLowlevel_def split: if_splits)
  show "r = CJ_SUCCESS \<or> r = CJ_ERR_DATA_CORRUPT \<Longrightarrow> rx_size s' < rx_size s"
    "rx_size s' \<le> rx_size s"
    using assms(1) 1 2 read_header_frame[OF 1] read_tail_frame[OF 2]
    by (auto simp: readLowlevel_def split: if_splits)
qed

lemma serial_Read_size:
  "serial_Read s R len = (r, R', m, s') \<Longrightarrow> len \<le> length R \<Longrightarrow>
     length R' = length R \<and> (r = CJ_SUCCESS \<longrightarrow> rx_size s' < rx_size s) \<and> rx_size s' \<le> rx_size s"
proof (induction s R len arbitrary: r R' m s' rule: serial_Read.induct)
  case (1 s R len)
  obtain r1 R1 m1 s1 where l: "readLowlevel s R len = (r1, R1, m1, s1)" by (metis prod_cases4)
  note sz = readLowlevel_size[OF l "1.prems"(2)]
  show ?case
  proof (cases "r1 = CJ_ERR_DATA_CORRUPT")
    case True
    then have "serial_Read s1 R1 len = (r, R', m, s')"
      using "1.prems" l by (simp add: serial_Read.simps[of s])
    from "1.IH"[OF l[symmetric] refl refl True this] sz True "1.prems"(2)
    show ?thesis by auto
  next
    case False
    then show ?thesis using "1.prems" l sz by (auto simp: serial_Read.simps[of s] split: if_splits)
  qed
qed

lemma readLowlevel_fuel:
  assumes "readLowlevel s R len = (r, R', m, s')" and "r = CJ_SUCCESS \<or> r = CJ_ERR_DATA_CORRUPT"
  shows "rx_size s' < rx_size s"
proof -
  obtain ok buf n s1 where 1: "read_header s = (ok, buf, n, s1)" by (metis prod_cases4)
  obtain r2 R2 m2 s2 where 2: "read_tail s1 buf n R = (r2, R2, m2, s2)" by (metis prod_cases4)
  show ?thesis
    using assms 1 2 read_header_frame[OF 1] read_tail_frame[OF 2]
    by (auto simp: readLowlevel_def split: if_splits)
qed

lemma serial_Read_fuel:
  "serial_Read s R len = (CJ_SUCCESS, R', m, s') \<Longrightarrow> rx_size s' < rx_size s"
proof (induction s R len arbitrary: R' m s' rule: serial_Read.induct)
  case (1 s R len)
  obtain r1 R1 m1 s1 where l: "readLowlevel s R len = (r1, R1, m1, s1)" by (metis prod_cases4)
  show ?case
  proof (cases "r1 = CJ_ERR_DATA_CORRUPT")
    case True
    then have "serial_Read s1 R1 len = (CJ_SUCCESS, R', m, s')"
      using "1.prems" l by (simp add: serial_Read.simps[of s])
    from "1.IH"[OF l[symmetric] refl refl True this] readLowlevel_fuel[OF l] True show ?thesis by simp
  next
    case False
    then show ?thesis using "1.prems" l readLowlevel_fuel[OF l]
      by (auto simp: serial_Read.simps[of s] split: if_splits)
  qed
qed

lemma serial_Write_size: "serial_Write s msg = (r, s') \<Longrightarrow> rx_size s' \<le> rx_size s"
proof (induction s msg arbitrary: r s' rule: serial_Write.induct)
  case (1 s msg)
  obtain r1 s1 where w: "writeLowlevel s msg = (r1, s1)" by fastforce
  obtain ok b s2 where f: "readForced s1 1 = (ok, b, s2)" by (metis prod_cases3)
  have le: "rx_size s2 \<le> rx_size s" using readForced_sizeD[OF f] writeLowlevel_frame[OF w] by simp
  then have fl: "rx_size (tcflush s2) \<le> rx_size s" using tcflush_size order_trans by blast
  show ?case
    using "1.prems" "1.IH"[OF w[symmetric] _ f[symmetric] refl] writeLowlevel_frame[OF w] w f le fl
    by (subst (asm) serial_Write.simps) (auto split: if_splits)
qed

section \<open>Checksums\<close>

lemma crc_loop_split:
  "crc_loop bs c0 c1 = (c0 + sum_list bs, c1 XOR foldr (XOR) bs 0)"
  by (induction bs arbitrary: c0 c1) (simp_all add: add.assoc xor.assoc)

lemma crc_altdef: "crc bs = [sum_list bs, foldr (XOR) bs 0]"
  by (simp add: crc_def crc_loop_split)

lemma length_crc [simp]: "length (crc bs) = 2"
  by (simp add: crc_altdef)

section \<open>Sending\<close>

fun wr_ok :: "wr_event \<Rightarrow> bool" where
  "wr_ok (WOk n) = True"
| "wr_ok WEintr = False"
| "wr_ok WFail = False"

definition out_good :: "serial \<Rightarrow> bool" where
  "out_good s \<longleftrightarrow> list_all wr_ok (wx s) \<and> list_all id (drains s)"

lemma mem_region_inside:
  "0 \<le> p \<Longrightarrow> nat p + len \<le> length obj \<Longrightarrow> mem_region s obj p len = take len (drop (nat p) obj)"
  by (rule nth_equalityI) (auto simp: mem_region_def mem_at_def nat_add_distrib)

text \<open>However \<^verbatim>\<open>write\<close> splits the data, the loop sends the object once and in order.\<close>

lemma writeFd_good:
  assumes "list_all wr_ok (wx s)" and "buf \<noteq> []"
  obtains k s1 where "writeFd s buf = (WRV k, s1)" "0 < k" "k \<le> length buf"
    "list_all wr_ok (wx s1)" "tx s1 = tx s @ take k buf"
proof (cases "wx s")
  case Nil
  then show ?thesis using that[of "length buf"] assms by (simp add: writeFd_def)
next
  case (Cons e w)
  then obtain n where "e = WOk n" using assms(1) by (cases e) auto
  then show ?thesis using that[of "min (max 1 n) (length buf)"] assms Cons
    by (simp add: writeFd_def Let_def)
qed

lemma send_loop_good:
  "list_all wr_ok (wx s) \<Longrightarrow> 0 \<le> p \<Longrightarrow> nat p + len = length obj \<Longrightarrow>
   \<exists>s'. send_loop s obj p len = (CJ_SUCCESS, s') \<and> tx s' = tx s @ drop (nat p) obj
       \<and> list_all wr_ok (wx s')"
proof (induction s obj p len rule: send_loop.induct)
  case (1 s obj p len)
  show ?case
  proof (cases "len = 0")
    case True
    then show ?thesis using "1.prems" by (simp add: send_loop.simps)
  next
    case False
    have m: "mem_region s obj p len = drop (nat p) obj" and ne: "drop (nat p) obj \<noteq> []"
      and l: "length (drop (nat p) obj) = len"
      using "1.prems" False by (simp_all add: mem_region_inside)
    obtain k s1 where w: "writeFd s (mem_region s obj p len) = (WRV k, s1)" and k: "0 < k" "k \<le> len"
      and s1: "list_all wr_ok (wx s1)" "tx s1 = tx s @ take k (drop (nat p) obj)"
      using writeFd_good[OF "1.prems"(1) ne] unfolding m l by metis
    have np: "nat (p + int k) = nat p + k" using "1.prems" by (simp add: nat_add_distrib)
    have "\<exists>s'. send_loop s1 obj (p + int k) (len - k) = (CJ_SUCCESS, s')
        \<and> tx s' = tx s1 @ drop (nat p + k) obj \<and> list_all wr_ok (wx s')"
      using "1.IH"(1)[OF False w[symmetric] refl s1(1)] "1.prems" k by (simp add: np)
    moreover have "take k (drop (nat p) obj) @ drop (nat p + k) obj = drop (nat p) obj"
      by (metis add.commute append_take_drop_id drop_drop)
    ultimately show ?thesis
      using False w s1(2) by (subst send_loop.simps) auto
  qed
qed

lemma writeLowlevel_good:
  assumes "out_good s" and "0 \<le> m_devHandle s"
  obtains s' where "writeLowlevel s msg = (CJ_SUCCESS, s')" "out_good s'" "rx s' = rx s"
    "tx s' = tx s @ msg @ crc msg" "m_devHandle s' = m_devHandle s" "flushes s' = flushes s"
proof -
  obtain s1 where 1: "send_loop s msg 0 (length msg) = (CJ_SUCCESS, s1)" "tx s1 = tx s @ msg"
    "list_all wr_ok (wx s1)"
    using send_loop_good[of s 0 "length msg" msg] assms(1) by (auto simp: out_good_def)
  obtain s2 where 2: "send_loop s1 (crc msg) 0 2 = (CJ_SUCCESS, s2)" "tx s2 = tx s1 @ crc msg"
    "list_all wr_ok (wx s2)"
    using send_loop_good[of s1 0 2 "crc msg"] 1(3) by auto
  note f = send_loop_frame[OF 1(1)] send_loop_frame[OF 2(1)]
  have "list_all id (drains s2)" using assms(1) f by (simp add: out_good_def)
  then obtain s3 where 3: "tcdrain s2 = (True, s3)" "list_all id (drains s3)" "wx s3 = wx s2"
    "tx s3 = tx s2" "rx s3 = rx s2" "m_devHandle s3 = m_devHandle s2" "flushes s3 = flushes s2"
    by (cases "drains s2") (auto simp: tcdrain_def)
  show ?thesis
    using that[of s3] 1 2 3 f assms by (auto simp: writeLowlevel_def out_good_def)
qed

section \<open>Receiving a frame\<close>

text \<open>
  A complete CCID message as the line protocol delimits it: ten header bytes and a payload whose
  length is the little-endian number in bytes 1 and 2.
\<close>

definition ccid_frame :: "bytes \<Rightarrow> bool" where
  "ccid_frame msg \<longleftrightarrow> 10 \<le> length msg \<and> \<not> is_interrupt (msg ! 0) \<and> msg ! 0 \<noteq> 0x00 \<and> msg ! 0 \<noteq> 0xff
     \<and> length msg = 10 + 256 * unat (msg ! 2) + unat (msg ! 1)"

lemma writeAck_good:
  assumes "out_good s"
  obtains s' where "writeAck s c = (CJ_SUCCESS, s')" "out_good s'" "rx s' = rx s"
    "tx s' = tx s @ [c]" "m_devHandle s' = m_devHandle s"
proof (cases "wx s")
  case Nil
  then show ?thesis using that[of "s\<lparr>tx := tx s @ [c]\<rparr>"] assms
    by (simp add: writeAck.simps[of s] writeFd_def out_good_def)
next
  case (Cons e w)
  then obtain n where "e = WOk n" using assms by (cases e) (auto simp: out_good_def)
  then show ?thesis using that[of "s\<lparr>wx := w, tx := tx s @ [c]\<rparr>"] assms Cons
    by (simp add: writeAck.simps[of s] writeFd_def out_good_def Let_def)
qed

lemma read_header_frame_good:
  assumes "line_good s" and "pending s = msg @ rest" and "ccid_frame msg"
  obtains r where "read_header s = (True, take 10 msg, length msg - 10, s\<lparr>rx := r\<rparr>)"
    and "pending (s\<lparr>rx := r\<rparr>) = drop 10 msg @ rest" and "line_good (s\<lparr>rx := r\<rparr>)"
proof -
  have len: "10 \<le> length msg" using assms(3) by (simp add: ccid_frame_def)
  then obtain b msg' where m: "msg = b # msg'" by (cases msg) auto
  obtain r1 where 1: "readForced s 1 = (True, [b], s\<lparr>rx := r1\<rparr>)"
    "pending (s\<lparr>rx := r1\<rparr>) = msg' @ rest" "line_good (s\<lparr>rx := r1\<rparr>)"
    using readForced_good[OF assms(1), of "[b]" "msg' @ rest"] assms(2) m by auto
  have l9: "length (take 9 msg') = 9" using len m by simp
  obtain r2 where 2: "readForced (s\<lparr>rx := r1\<rparr>) 9 = (True, take 9 msg', s\<lparr>rx := r2\<rparr>)"
    "pending (s\<lparr>rx := r2\<rparr>) = drop 9 msg' @ rest" "line_good (s\<lparr>rx := r2\<rparr>)"
    using readForced_good[OF 1(3), of "take 9 msg'" "drop 9 msg' @ rest"] 1(2) l9 by auto
  have "read_header s = (True, take 10 msg, length msg - 10, s\<lparr>rx := r2\<rparr>)"
    using assms(3) 1 2 m by (auto simp: read_header_def ccid_frame_def nth_Cons')
  then show ?thesis using that[of r2] 2 m by simp
qed

lemma readLowlevel_frame_good:
  assumes "line_good s" and "out_good s" and "0 \<le> m_devHandle s"
    and "pending s = msg @ c @ rest" and "ccid_frame msg" and "length c = 2"
    and "length msg \<le> ResponseLen" and "ResponseLen \<le> length Response"
  obtains s' where
    "readLowlevel s Response ResponseLen =
       (if c = crc msg then (CJ_SUCCESS, overlay 0 msg Response, length msg, s')
        else (CJ_ERR_DATA_CORRUPT, overlay 0 msg Response, ResponseLen, s'))"
    "line_good s'" "out_good s'" "m_devHandle s' = m_devHandle s" "pending s' = rest"
    "tx s' = tx s @ [if c = crc msg then 0xff else 0x00]"
proof -
  obtain r1 where 1: "read_header s = (True, take 10 msg, length msg - 10, s\<lparr>rx := r1\<rparr>)"
    "pending (s\<lparr>rx := r1\<rparr>) = drop 10 msg @ c @ rest" "line_good (s\<lparr>rx := r1\<rparr>)"
    using read_header_frame_good[OF assms(1,4,5)] by blast
  have len: "10 \<le> length msg" and ni: "\<not> is_interrupt (msg ! 0)"
    using assms(5) by (auto simp: ccid_frame_def)
  obtain r2 where 2: "readForced (s\<lparr>rx := r1\<rparr>) (length msg - 10) = (True, drop 10 msg, s\<lparr>rx := r2\<rparr>)"
    "pending (s\<lparr>rx := r2\<rparr>) = c @ rest" "line_good (s\<lparr>rx := r2\<rparr>)"
    using readForced_good[OF 1(3,2)] by auto
  obtain r3 where 3: "readForced (s\<lparr>rx := r2\<rparr>) 2 = (True, c, s\<lparr>rx := r3\<rparr>)"
    "pending (s\<lparr>rx := r3\<rparr>) = rest" "line_good (s\<lparr>rx := r3\<rparr>)"
    using readForced_good[OF 2(3,2)] assms(6) by auto
  have o3: "out_good (s\<lparr>rx := r3\<rparr>)" using assms(2) by (simp add: out_good_def)
  let ?ack = "if c = crc msg then 0xff else 0x00 :: byte"
  obtain s' where a: "writeAck (s\<lparr>rx := r3\<rparr>) ?ack = (CJ_SUCCESS, s')" "out_good s'"
    "rx s' = r3" "tx s' = tx s @ [?ack]" "m_devHandle s' = m_devHandle s"
    using writeAck_good[OF o3, of ?ack] by auto
  have ov: "overlay 10 (drop 10 msg) (overlay 0 (take 10 msg) Response) = overlay 0 msg Response"
    "min (length msg) 10 = 10"
    using len assms(7,8) by (auto simp: overlay_def)
  have "read_tail (s\<lparr>rx := r1\<rparr>) (take 10 msg) (length msg - 10) Response =
       (if c = crc msg then (CJ_SUCCESS, overlay 0 msg Response, length msg, s')
        else (CJ_ERR_DATA_CORRUPT, overlay 0 msg Response, 0, s'))"
    using 2 3 a len ni ov by (auto simp: read_tail_def Let_def take_overlay_zero)
  then show ?thesis
    using that[of s'] 1 3 a assms(3,7) len ov(2)
    by (auto simp: readLowlevel_def line_good_def)
qed

text \<open>
  Property C17.  On a line that delivers its bytes in whatever chunks and with whatever interruptions,
  \<^verbatim>\<open>CSerialUnix::Read\<close> answers every corrupted frame with a NAK byte and reads on, and returns the
  first frame whose checksums are right: exactly its bytes and its length, acknowledged with
  \<^verbatim>\<open>0xff\<close>, with what follows on the line left unread.
\<close>

theorem serial_Read_retry:
  assumes "line_good s" and "out_good s" and "0 \<le> m_devHandle s"
    and "\<forall>(m, c) \<in> set bad. ccid_frame m \<and> length c = 2 \<and> c \<noteq> crc m \<and> length m \<le> ResponseLen"
    and "ccid_frame msg" and "length msg \<le> ResponseLen" and "ResponseLen \<le> length Response"
    and "pending s = concat (map (\<lambda>(m, c). m @ c) bad) @ msg @ crc msg @ rest"
  shows "\<exists>Response' s'. serial_Read s Response ResponseLen = (CJ_SUCCESS, Response', length msg, s')
      \<and> take (length msg) Response' = msg \<and> pending s' = rest \<and> line_good s' \<and> out_good s'
      \<and> m_devHandle s' = m_devHandle s
      \<and> tx s' = tx s @ replicate (length bad) 0x00 @ [0xff]"
  using assms
proof (induction bad arbitrary: s Response)
  case Nil
  from Nil.prems have "pending s = msg @ crc msg @ rest" by simp
  from readLowlevel_frame_good[OF Nil.prems(1-3) this Nil.prems(5) length_crc Nil.prems(6,7)]
  obtain s1 where "readLowlevel s Response ResponseLen
        = (CJ_SUCCESS, overlay 0 msg Response, length msg, s1)"
    "line_good s1" "out_good s1" "m_devHandle s1 = m_devHandle s" "pending s1 = rest"
    "tx s1 = tx s @ [0xff]" by auto
  then show ?case by (simp add: serial_Read.simps[of s] take_overlay_zero)
next
  case (Cons b bad)
  obtain m c where b: "b = (m, c)" by fastforce
  with Cons.prems have m: "ccid_frame m" "length c = 2" "c \<noteq> crc m" "length m \<le> ResponseLen"
    by auto
  let ?rest = "concat (map (\<lambda>(m, c). m @ c) bad) @ msg @ crc msg @ rest"
  from Cons.prems b have "pending s = m @ c @ ?rest" by simp
  from readLowlevel_frame_good[OF Cons.prems(1-3) this m(1,2,4) Cons.prems(7)] m(3)
  obtain s1 where 1: "readLowlevel s Response ResponseLen
        = (CJ_ERR_DATA_CORRUPT, overlay 0 m Response, ResponseLen, s1)"
    "line_good s1" "out_good s1" "m_devHandle s1 = m_devHandle s" "pending s1 = ?rest"
    "tx s1 = tx s @ [0x00]" by auto
  have "\<exists>Response' s'. serial_Read s1 (overlay 0 m Response) ResponseLen
         = (CJ_SUCCESS, Response', length msg, s')
      \<and> take (length msg) Response' = msg \<and> pending s' = rest \<and> line_good s' \<and> out_good s'
      \<and> m_devHandle s' = m_devHandle s1
      \<and> tx s' = tx s1 @ replicate (length bad) 0x00 @ [0xff]"
    using Cons.IH[of s1 "overlay 0 m Response"] 1 Cons.prems m(4) by auto
  then show ?case using 1 by (auto simp: serial_Read.simps[of s])
qed

text \<open>
  Property C18.  \<^verbatim>\<open>CSerialUnix::Write\<close> sends the message with its two checksum bytes and repeats the
  whole frame for every answer that is not the acknowledge byte \<^verbatim>\<open>0xff\<close>, after it has thrown away the
  input that arrived behind that answer (an \<^verbatim>\<open>0xff\<close> among it does not count): after \<open>k\<close> refusals it has
  sent \<open>k + 1\<close> identical frames, however \<^verbatim>\<open>write\<close> split them, returns success, and the input behind
  the acknowledge is still there to be read.
\<close>

theorem serial_Write_retry:
  assumes "line_good s" and "out_good s" and "0 \<le> m_devHandle s"
    and "\<forall>(nak, junk) \<in> set refusals. nak \<noteq> 0xff"
    and "pending s = concat (map (\<lambda>(nak, junk). nak # junk) refusals) @ 0xff # rest"
    and "flushes s = map (\<lambda>(nak, junk). length junk) refusals"
  shows "\<exists>s'. serial_Write s msg = (CJ_SUCCESS, s') \<and> pending s' = rest
      \<and> m_devHandle s' = m_devHandle s
      \<and> tx s' = tx s @ concat (replicate (Suc (length refusals)) (msg @ crc msg))"
  using assms
proof (induction refusals arbitrary: s)
  case Nil
  obtain s1 where 1: "writeLowlevel s msg = (CJ_SUCCESS, s1)" "out_good s1" "rx s1 = rx s"
    "tx s1 = tx s @ msg @ crc msg" "m_devHandle s1 = m_devHandle s"
    using writeLowlevel_good[OF Nil.prems(2,3)] by blast
  have g: "line_good s1" "pending s1 = [0xff] @ rest" using Nil.prems 1 by (auto simp: line_good_def)
  obtain r where "readForced s1 1 = (True, [0xff], s1\<lparr>rx := r\<rparr>)" "pending (s1\<lparr>rx := r\<rparr>) = rest"
    using readForced_good[OF g] by auto
  then show ?case using 1 by (simp add: serial_Write.simps[of s])
next
  case (Cons x refusals)
  obtain nak junk where x: "x = (nak, junk)" by fastforce
  let ?todo = "concat (map (\<lambda>(nak, junk). nak # junk) refusals) @ 0xff # rest"
  obtain s1 where 1: "writeLowlevel s msg = (CJ_SUCCESS, s1)" "out_good s1" "rx s1 = rx s"
    "tx s1 = tx s @ msg @ crc msg" "m_devHandle s1 = m_devHandle s" "flushes s1 = flushes s"
    using writeLowlevel_good[OF Cons.prems(2,3)] by blast
  have g: "line_good s1" "pending s1 = [nak] @ (junk @ ?todo)"
    using Cons.prems 1 x by (auto simp: line_good_def)
  obtain r where 2: "readForced s1 1 = (True, [nak], s1\<lparr>rx := r\<rparr>)"
    "pending (s1\<lparr>rx := r\<rparr>) = junk @ ?todo" "line_good (s1\<lparr>rx := r\<rparr>)"
    using readForced_good[OF g] by auto
  define s2 where "s2 = tcflush (s1\<lparr>rx := r\<rparr>)"
  have fl: "flushes (s1\<lparr>rx := r\<rparr>) = length junk # map (\<lambda>(nak, junk). length junk) refusals"
    using 1 Cons.prems(6) x by simp
  have s2: "pending s2 = ?todo" "line_good s2" "flushes s2 = map (\<lambda>(nak, junk). length junk) refusals"
    "out_good s2" "m_devHandle s2 = m_devHandle s" "tx s2 = tx s1"
    using tcflush_good[OF 2(3) fl] 2(2) fl 1 by (simp_all add: s2_def out_good_def)
  obtain s' where "serial_Write s2 msg = (CJ_SUCCESS, s')" "pending s' = rest"
    "m_devHandle s' = m_devHandle s" "tx s' = tx s1 @ concat (replicate (Suc (length refusals)) (msg @ crc msg))"
    using Cons.IH[of s2] Cons.prems(3,4) s2 by auto
  then show ?case using 1 2 Cons.prems(4) x by (simp add: serial_Write.simps[of s] flip: s2_def)
qed

definition line0 :: "rd_event list \<Rightarrow> wr_event list \<Rightarrow> serial" where
  "line0 r w = \<lparr>m_devHandle = 3, rx = r, wx = w, drains = [], flushes = [], tx = [], g_mem = (\<lambda>_. 0xaa)\<rparr>"

definition frame0 :: bytes where
  "frame0 = [0x80, 2, 0, 0, 0, 0, 7, 0, 0, 0, 0x90, 0x00]"

lemma frame0_ok: "ccid_frame frame0" "length frame0 = 12" "crc frame0 = [0x19, 0x15]"
  by (simp_all add: ccid_frame_def frame0_def is_interrupt_def crc_def)

lemma serial_Read_retry_witness:
  "\<exists>Response' s'. serial_Read (line0 [RData frame0, REintr, RData [0],
       RData (0 # frame0 @ crc frame0 @ [0x55])] []) (replicate 20 0) 20
       = (CJ_SUCCESS, Response', 12, s') \<and> take 12 Response' = frame0 \<and> pending s' = [0x55]
       \<and> tx s' = [0x00, 0xff]"
proof -
  have "frame0 \<noteq> []" using frame0_ok(2) by auto
  then show ?thesis
    using serial_Read_retry[of "line0 [RData frame0, REintr, RData [0],
       RData (0 # frame0 @ crc frame0 @ [0x55])] []" "[(frame0, [0, 0])]" 20 frame0
       "replicate 20 0" "[0x55]"] frame0_ok
    by (auto simp: line0_def line_good_def out_good_def)
qed

lemma serial_Write_retry_witness:
  "\<exists>s'. serial_Write (line0 [RData [0x00, 0xff], REintr, RData [0xff, 9]] [WOk 1, WOk 7]\<lparr>flushes := [1]\<rparr>) frame0
      = (CJ_SUCCESS, s') \<and> pending s' = [9]
      \<and> tx s' = frame0 @ [0x19, 0x15] @ frame0 @ [0x19, 0x15]"
  using serial_Write_retry[of "line0 [RData [0x00, 0xff], REintr, RData [0xff, 9]] [WOk 1, WOk 7]\<lparr>flushes := [1]\<rparr>"
      "[(0x00, [0xff])]" "[9]" frame0] frame0_ok(3)
  by (auto simp: line0_def line_good_def out_good_def)

text \<open>
  Property C19.  The checksums detect every change of a single byte of a message: no two messages that
  differ in exactly one position have the same pair.
\<close>

theorem crc_detects_single_byte:
  assumes "i < length msg" and "b \<noteq> msg ! i"
  shows "crc (msg[i := b]) \<noteq> crc msg"
proof -
  have "msg = take i msg @ msg ! i # drop (Suc i) msg"
    using assms(1) by (simp add: id_take_nth_drop)
  then obtain xs ys where m: "msg = xs @ msg ! i # ys" "length xs = i"
    using assms(1) by (metis length_take less_imp_le min.absorb2)
  then have "msg[i := b] = xs @ b # ys" by (metis list_update_length)
  moreover have "sum_list (xs @ b # ys) \<noteq> sum_list (xs @ msg ! i # ys)"
    using assms(2) by simp
  ultimately show ?thesis using m(1) by (simp add: crc_altdef)
qed

lemma crc_detects_single_byte_witness:
  "crc (frame0[6 := 8]) \<noteq> crc frame0"
  using crc_detects_single_byte[of 6 frame0 8] by (simp add: frame0_def)

text \<open>
  Property C37.  An interrupted \<^verbatim>\<open>write\<close> breaks the frame: the send loop subtracts the return value
  \<open>-1\<close> from the remaining length and adds it to the pointer, so that after a single interruption at
  the start it sends one byte more than the message has, the first of them the byte that lies
  before the message in memory, and reports success once the checksums are out.
\<close>

theorem writeLowlevel_interrupted:
  assumes "0 \<le> m_devHandle s" and "wx s = [WEintr]" and "drains s = []" and "Message \<noteq> []"
  shows "\<exists>s'. writeLowlevel s Message = (CJ_SUCCESS, s')
      \<and> tx s' = tx s @ g_mem s (-1) # Message @ crc Message"
proof -
  let ?n = "length Message"
  let ?s = "s\<lparr>wx := []\<rparr>"
  have reg: "mem_region ?s Message (-1) (Suc ?n) = g_mem s (-1) # Message"
  proof -
    have "[0..<Suc ?n] = 0 # map Suc [0..<?n]" by (simp add: map_Suc_upt upt_conv_Cons del: upt_Suc)
    moreover have "map (\<lambda>k. mem_at ?s Message (-1 + int (Suc k))) [0..<?n] = Message"
      by (rule nth_equalityI) (simp_all add: mem_at_def)
    moreover have "mem_at ?s Message (-1) = g_mem s (-1)" by (simp add: mem_at_def)
    ultimately show ?thesis by (simp add: mem_region_def comp_def del: upt_Suc of_nat_Suc)
  qed
  have "send_loop s Message 0 ?n = send_loop ?s Message (-1) (Suc ?n)"
    using assms(2,4) by (subst send_loop.simps) (simp add: writeFd_def)
  also have "\<dots> = (CJ_SUCCESS, ?s\<lparr>tx := tx s @ g_mem s (-1) # Message\<rparr>)"
    by (subst send_loop.simps, simp add: writeFd_def reg, subst send_loop.simps, simp)
  finally have 1: "send_loop s Message 0 ?n = (CJ_SUCCESS, ?s\<lparr>tx := tx s @ g_mem s (-1) # Message\<rparr>)" .
  obtain s2 where "send_loop (?s\<lparr>tx := tx s @ g_mem s (-1) # Message\<rparr>) (crc Message) 0 2 = (CJ_SUCCESS, s2)"
    "tx s2 = tx s @ g_mem s (-1) # Message @ crc Message"
    using send_loop_good[of "?s\<lparr>tx := tx s @ g_mem s (-1) # Message\<rparr>" 0 2 "crc Message"] by auto
  moreover from send_loop_frame[OF this(1)] assms(3) have "tcdrain s2 = (True, s2)"
    by (simp add: tcdrain_def)
  ultimately show ?thesis using 1 assms(1) by (simp add: writeLowlevel_def)
qed

lemma writeLowlevel_interrupted_witness:
  "\<exists>s'. writeLowlevel (line0 [] [WEintr]) [1, 2] = (CJ_SUCCESS, s') \<and> tx s' = [0xaa, 1, 2, 3, 3]"
  using writeLowlevel_interrupted[of "line0 [] [WEintr]" "[1, 2]"]
  by (simp add: line0_def crc_def)

end
