(* ===== verification/CJ_Communication.thy ===== *)
theory CJ_Communication
  imports CJ_Serial
begin

text \<open>
  The communicators behind \<^verbatim>\<open>CBaseCommunication\<close>: the USB one (\<^verbatim>\<open>cjeca32/USBUnix.cpp\<close>) on the
  \<^verbatim>\<open>ausb\<close> layer, the serial one of the previous theory, and the virtual dispatch over them.  The
  locale \<open>communication\<close> states what the reader classes rely on; it is interpreted on both
  communicators and on their union.

  The \<^verbatim>\<open>ausb\<close> layer (libusb and the device) is a script in the state: the outcome of each
  \<^verbatim>\<open>ausb_bulk_read\<close> (\<open>None\<close> is a negative return value; so is every read behind the end of the
  script, a timeout) and of each \<^verbatim>\<open>ausb_bulk_write\<close> (behind its end: success).
\<close>

section \<open>The USB communicator\<close>

record usb =
  u_devHandle :: bool
  u_in :: "bytes option list"
  u_out :: "bool list"
  u_sent :: "bytes list"
  u_pid :: u16
  u_null_read :: bool

text \<open>
  \<open>u_devHandle\<close>: whether \<^verbatim>\<open>m_devHandle\<close> is not \<^verbatim>\<open>NULL\<close>.  \<open>u_null_read\<close> records that \<^verbatim>\<open>ausb_bulk_read\<close>
  was called with a \<^verbatim>\<open>NULL\<close> handle, which it dereferences: \<^verbatim>\<open>CUSBUnix::Read\<close>, unlike \<^verbatim>\<open>Write\<close>, does
  not test the handle first.
\<close>

definition usb_IsConnected :: "usb \<Rightarrow> bool" where
  "usb_IsConnected u = u_devHandle u"

definition usb_Close :: "usb \<Rightarrow> usb" where
  "usb_Close u = (if \<not> u_devHandle u then u else u\<lparr>u_devHandle := False\<rparr>)"

definition base_com_result :: "bool \<Rightarrow> cj_result" where
  "base_com_result connected = (if \<not> connected then CJ_ERR_DEVICE_LOST else CJ_SUCCESS)"

definition ausb_bulk_write :: "usb \<Rightarrow> bytes \<Rightarrow> bool \<times> usb" where
  "ausb_bulk_write u msg = (case u_out u of
      [] \<Rightarrow> (True, u\<lparr>u_sent := u_sent u @ [msg]\<rparr>)
    | ok # os \<Rightarrow> (ok, u\<lparr>u_out := os, u_sent := u_sent u @ (if ok then [msg] else [])\<rparr>))"

definition ausb_bulk_read :: "usb \<Rightarrow> nat \<Rightarrow> bytes option \<times> usb" where
  "ausb_bulk_read u sz =
     (if \<not> u_devHandle u then (None, u\<lparr>u_null_read := True\<rparr>)
      else case u_in u of
             [] \<Rightarrow> (None, u)
           | None # is \<Rightarrow> (None, u\<lparr>u_in := is\<rparr>)
           | Some bs # is \<Rightarrow> (if length bs \<le> sz then Some bs else None, u\<lparr>u_in := is\<rparr>))"

definition usb_Write :: "usb \<Rightarrow> bytes \<Rightarrow> cj_result \<times> usb" where
  "usb_Write u msg =
     (let rv = base_com_result (usb_IsConnected u) in
      if rv = CJ_SUCCESS then
        (case ausb_bulk_write u msg of (ok, u') \<Rightarrow>
           if \<not> ok then (CJ_ERR_DEVICE_LOST, usb_Close u') else (CJ_SUCCESS, u'))
      else (rv, u))"

definition usb_Read :: "usb \<Rightarrow> bytes \<Rightarrow> nat \<Rightarrow> cj_result \<times> bytes \<times> nat \<times> usb" where
  "usb_Read u Response ResponseLen =
     (case ausb_bulk_read u ResponseLen of
        (None, u') \<Rightarrow> (CJ_ERR_DEVICE_LOST, Response, ResponseLen, usb_Close u')
      | (Some bs, u') \<Rightarrow>
          (base_com_result (usb_IsConnected u'), overlay 0 bs Response, length bs, u'))"

text \<open>
  \<^verbatim>\<open>CUSBUnix::Open\<close>, with what the device list and the \<^verbatim>\<open>ausb\<close> calls return: the product id of the
  device found, \<^verbatim>\<open>ausb_open\<close>, \<^verbatim>\<open>ausb_set_configuration\<close>, \<^verbatim>\<open>ausb_claim_interface\<close>,
  \<^verbatim>\<open>ausb_start_interrupt\<close>.  The result is 1 (True) or 0, the mode and the three endpoints used.
\<close>

record usb_pipes =
  m_bulkOut :: byte
  m_bulkIn :: byte
  m_intPipe :: byte

definition usb_endpoints :: "u16 \<Rightarrow> nat \<times> usb_pipes" where
  "usb_endpoints productId =
     (if productId = 0x400 then (3, \<lparr>m_bulkOut = 0x02, m_bulkIn = 0x81, m_intPipe = 0x83\<rparr>)
      else if productId = 0x401 then (3, \<lparr>m_bulkOut = 0x02, m_bulkIn = 0x82, m_intPipe = 0x81\<rparr>)
      else (1, \<lparr>m_bulkOut = 0x02, m_bulkIn = 0x81, m_intPipe = 0x83\<rparr>))"

definition usb_Open ::
  "u16 option \<Rightarrow> bool \<Rightarrow> bool \<Rightarrow> bool \<Rightarrow> bool \<Rightarrow> usb \<Rightarrow> bool \<times> usb_pipes \<times> usb" where
  "usb_Open dev open_ok config_ok claim_ok intr_ok u =
     (case dev of
        None \<Rightarrow> (False, \<lparr>m_bulkOut = 0, m_bulkIn = 0, m_intPipe = 0\<rparr>, u)
      | Some productId \<Rightarrow>
          (let p = snd (usb_endpoints productId);
               u1 = u\<lparr>u_devHandle := open_ok\<rparr> in
           if \<not> open_ok then (False, p, u1)
           else if \<not> config_ok then (False, p, u1\<lparr>u_devHandle := False\<rparr>)
           else if \<not> claim_ok then (False, p, u1\<lparr>u_devHandle := False\<rparr>)
           else if \<not> intr_ok then (False, p, u1\<lparr>u_devHandle := False\<rparr>)
           else (True, p, u1)))"

section \<open>The reader class of a device\<close>

datatype reader_class = ECA | ECB | ECF | ECP | ECR | EFB | ECM | SEC

record usbdev =
  vendorId :: u16
  productId :: u16
  productName :: string

abbreviation (input) "AUSB_CYBERJACK_VENDOR_ID \<equiv> (0x0c4b :: u16)"

definition memcmp_prefix :: "string \<Rightarrow> string \<Rightarrow> bool" where
  "memcmp_prefix p name \<longleftrightarrow> length p \<le> length name \<and> take (length p) name = p"

text \<open>
  \<^verbatim>\<open>CUSBUnix::BuildReaderObject\<close>: the class, and the product name cut behind the matched prefix (the
  name that is kept as \<^verbatim>\<open>m_productString\<close>).
\<close>

definition usb_BuildReaderObject :: "usbdev option \<Rightarrow> (reader_class \<times> string) option" where
  "usb_BuildReaderObject dev =
     (case dev of None \<Rightarrow> None | Some d \<Rightarrow>
        if vendorId d \<noteq> AUSB_CYBERJACK_VENDOR_ID then None
        else if productId d = 0x400 then
          Some (if memcmp_prefix ''cyberJack e-com(a)'' (productName d)
                then (ECA, take 18 (productName d))
                else if memcmp_prefix ''cyberJack e-com plus DUO'' (productName d)
                then (ECB, take 24 (productName d))
                else if memcmp_prefix ''cyberJack e-com plus BIO'' (productName d)
                then (ECB, take 24 (productName d))
                else if memcmp_prefix ''cyberJack e-com plus RFID'' (productName d)
                then (ECR, take 25 (productName d))
                else if memcmp_prefix ''cyberJack e-com plus'' (productName d)
                then (ECP, take 20 (productName d))
                else if memcmp_prefix ''cyberJack Secoder'' (productName d)
                then (SEC, take 17 (productName d))
                else (ECA, productName d))
        else if productId d = 0x401 then
          Some (if memcmp_prefix ''cyberJack e-com(f)'' (productName d)
                then (ECF, take 18 (productName d))
                else if memcmp_prefix ''cyberJack e-com BIO'' (productName d)
                then (EFB, take 19 (productName d))
                else (ECF, productName d))
        else None)"

definition serial_BuildReaderObject :: reader_class where
  "serial_BuildReaderObject = ECA"

section \<open>Virtual dispatch\<close>

datatype comm = USB usb | Serial serial

fun com_Write :: "comm \<Rightarrow> bytes \<Rightarrow> cj_result \<times> comm" where
  "com_Write (USB u) msg = (case usb_Write u msg of (r, u') \<Rightarrow> (r, USB u'))"
| "com_Write (Serial s) msg = (case serial_Write s msg of (r, s') \<Rightarrow> (r, Serial s'))"

fun com_Read :: "comm \<Rightarrow> bytes \<Rightarrow> nat \<Rightarrow> cj_result \<times> bytes \<times> nat \<times> comm" where
  "com_Read (USB u) buf n = (case usb_Read u buf n of (r, b, m, u') \<Rightarrow> (r, b, m, USB u'))"
| "com_Read (Serial s) buf n = (case serial_Read s buf n of (r, b, m, s') \<Rightarrow> (r, b, m, Serial s'))"

fun com_IsConnected :: "comm \<Rightarrow> bool" where
  "com_IsConnected (USB u) = usb_IsConnected u"
| "com_IsConnected (Serial s) = serial_IsConnected s"

fun com_Close :: "comm \<Rightarrow> comm" where
  "com_Close (USB u) = USB (usb_Close u)"
| "com_Close (Serial s) = Serial (serial_Close s)"

text \<open>A handle is a descriptor or \<open>-1\<close>; and no \<^verbatim>\<open>NULL\<close> handle has been read from.\<close>

definition serial_inv :: "serial \<Rightarrow> bool" where
  "serial_inv s \<longleftrightarrow> -1 \<le> m_devHandle s"

definition usb_inv :: "usb \<Rightarrow> bool" where
  "usb_inv u \<longleftrightarrow> \<not> u_null_read u"

fun com_inv :: "comm \<Rightarrow> bool" where
  "com_inv (USB u) = usb_inv u"
| "com_inv (Serial s) = serial_inv s"

fun com_fuel :: "comm \<Rightarrow> nat" where
  "com_fuel (USB u) = length (u_in u)"
| "com_fuel (Serial s) = rx_size s"

section \<open>The contract\<close>

text \<open>
  One exchange step of a client, and the states it can reach: a write at any time, a read only on a
  connected communicator.
\<close>

inductive session ::
  "('c \<Rightarrow> bytes \<Rightarrow> cj_result \<times> 'c) \<Rightarrow> ('c \<Rightarrow> bytes \<Rightarrow> nat \<Rightarrow> cj_result \<times> bytes \<times> nat \<times> 'c) \<Rightarrow>
   ('c \<Rightarrow> bool) \<Rightarrow> 'c \<Rightarrow> 'c \<Rightarrow> bool"
  for wr rd conn where
  session_refl: "session wr rd conn c c"
| session_write: "session wr rd conn c d \<Longrightarrow> wr d m = (r, e) \<Longrightarrow> session wr rd conn c e"
| session_read: "session wr rd conn c d \<Longrightarrow> conn d \<Longrightarrow> n \<le> length b \<Longrightarrow> rd d b n = (r, b', n', e)
                 \<Longrightarrow> session wr rd conn c e"

locale communication =
  fixes wr :: "'c \<Rightarrow> bytes \<Rightarrow> cj_result \<times> 'c"
    and rd :: "'c \<Rightarrow> bytes \<Rightarrow> nat \<Rightarrow> cj_result \<times> bytes \<times> nat \<times> 'c"
    and conn :: "'c \<Rightarrow> bool"
    and inv :: "'c \<Rightarrow> bool"
    and fuel :: "'c \<Rightarrow> nat"
  assumes wr_law: "inv c \<Longrightarrow> wr c m = (r, c') \<Longrightarrow> inv c' \<and> fuel c' \<le> fuel c
      \<and> (r = CJ_SUCCESS \<longrightarrow> conn c \<and> conn c') \<and> (r \<noteq> CJ_SUCCESS \<longrightarrow> r = CJ_ERR_DEVICE_LOST \<and> \<not> conn c')"
    and rd_law: "inv c \<Longrightarrow> conn c \<Longrightarrow> n \<le> length b \<Longrightarrow> rd c b n = (r, b', n', c') \<Longrightarrow>
      inv c' \<and> length b' = length b \<and> fuel c' \<le> fuel c \<and> n' \<le> n
      \<and> (r = CJ_SUCCESS \<longrightarrow> fuel c' < fuel c \<and> conn c')
      \<and> (r \<noteq> CJ_SUCCESS \<longrightarrow> r = CJ_ERR_DEVICE_LOST \<and> n' = n \<and> \<not> conn c')"
begin

lemma session_inv: "session wr rd conn c d \<Longrightarrow> inv c \<Longrightarrow> inv d \<and> fuel d \<le> fuel c"
  by (induction rule: session.induct) (auto dest: wr_law rd_law)

lemma session_lost: "session wr rd conn c d \<Longrightarrow> inv c \<Longrightarrow> \<not> conn c \<Longrightarrow> \<not> conn d"
proof (induction rule: session.induct)
  case (session_write c d m r e)
  then show ?case using session_inv[of c d] wr_law[of d m r e] by auto
qed auto

lemma wr_on_lost: "inv c \<Longrightarrow> \<not> conn c \<Longrightarrow> wr c m = (r, c') \<Longrightarrow> r = CJ_ERR_DEVICE_LOST"
  using wr_law[of c m r c'] by auto

end

lemma usb_Write_law:
  "usb_inv u \<Longrightarrow> usb_Write u m = (r, u') \<Longrightarrow> usb_inv u' \<and> length (u_in u') \<le> length (u_in u)
      \<and> (r = CJ_SUCCESS \<longrightarrow> usb_IsConnected u \<and> usb_IsConnected u')
      \<and> (r \<noteq> CJ_SUCCESS \<longrightarrow> r = CJ_ERR_DEVICE_LOST \<and> \<not> usb_IsConnected u')"
  by (auto simp: usb_Write_def usb_inv_def usb_IsConnected_def base_com_result_def usb_Close_def
      ausb_bulk_write_def split: if_splits list.splits)

lemma usb_Read_law:
  "usb_inv u \<Longrightarrow> usb_IsConnected u \<Longrightarrow> n \<le> length b \<Longrightarrow> usb_Read u b n = (r, b', n', u') \<Longrightarrow>
      usb_inv u' \<and> length b' = length b \<and> length (u_in u') \<le> length (u_in u) \<and> n' \<le> n
      \<and> (r = CJ_SUCCESS \<longrightarrow> length (u_in u') < length (u_in u) \<and> usb_IsConnected u')
      \<and> (r \<noteq> CJ_SUCCESS \<longrightarrow> r = CJ_ERR_DEVICE_LOST \<and> n' = n \<and> \<not> usb_IsConnected u')"
  by (auto simp: usb_Read_def usb_inv_def usb_IsConnected_def base_com_result_def usb_Close_def
      ausb_bulk_read_def overlay_def split: if_splits list.splits option.splits)

interpretation usb_com: communication usb_Write usb_Read usb_IsConnected usb_inv "\<lambda>u. length (u_in u)"
  by unfold_locales (use usb_Write_law usb_Read_law in blast)+

lemma serial_Write_law:
  "serial_inv s \<Longrightarrow> serial_Write s m = (r, s') \<Longrightarrow> serial_inv s' \<and> rx_size s' \<le> rx_size s
      \<and> (r = CJ_SUCCESS \<longrightarrow> serial_IsConnected s \<and> serial_IsConnected s')
      \<and> (r \<noteq> CJ_SUCCESS \<longrightarrow> r = CJ_ERR_DEVICE_LOST \<and> \<not> serial_IsConnected s')"
  using serial_Write_frame[of s m r s'] serial_Write_size[of s m r s']
  by (auto simp: serial_inv_def serial_IsConnected_def closed_handle_def split: if_splits)

lemma serial_Read_law:
  "serial_inv s \<Longrightarrow> serial_IsConnected s \<Longrightarrow> n \<le> length b \<Longrightarrow> serial_Read s b n = (r, b', n', s') \<Longrightarrow>
      serial_inv s' \<and> length b' = length b \<and> rx_size s' \<le> rx_size s \<and> n' \<le> n
      \<and> (r = CJ_SUCCESS \<longrightarrow> rx_size s' < rx_size s \<and> serial_IsConnected s')
      \<and> (r \<noteq> CJ_SUCCESS \<longrightarrow> r = CJ_ERR_DEVICE_LOST \<and> n' = n \<and> \<not> serial_IsConnected s')"
  using serial_Read_frame[of s b n r b' n' s'] serial_Read_size[of s b n r b' n' s']
  by (auto simp: serial_inv_def serial_IsConnected_def closed_handle_def split: if_splits)

interpretation serial_com: communication serial_Write serial_Read serial_IsConnected serial_inv rx_size
  by unfold_locales (use serial_Write_law serial_Read_law in blast)+

lemma com_Write_law:
  "com_inv c \<Longrightarrow> com_Write c m = (r, c') \<Longrightarrow> com_inv c' \<and> com_fuel c' \<le> com_fuel c
      \<and> (r = CJ_SUCCESS \<longrightarrow> com_IsConnected c \<and> com_IsConnected c')
      \<and> (r \<noteq> CJ_SUCCESS \<longrightarrow> r = CJ_ERR_DEVICE_LOST \<and> \<not> com_IsConnected c')"
  by (cases c) (auto split: prod.splits dest: usb_com.wr_law serial_com.wr_law)

lemma com_Read_law:
  "com_inv c \<Longrightarrow> com_IsConnected c \<Longrightarrow> n \<le> length b \<Longrightarrow> com_Read c b n = (r, b', n', c') \<Longrightarrow>
      com_inv c' \<and> length b' = length b \<and> com_fuel c' \<le> com_fuel c \<and> n' \<le> n
      \<and> (r = CJ_SUCCESS \<longrightarrow> com_fuel c' < com_fuel c \<and> com_IsConnected c')
      \<and> (r \<noteq> CJ_SUCCESS \<longrightarrow> r = CJ_ERR_DEVICE_LOST \<and> n' = n \<and> \<not> com_IsConnected c')"
  by (cases c; simp split: prod.splits; drule (2) usb_com.rd_law serial_com.rd_law; fastforce)

interpretation com: communication com_Write com_Read com_IsConnected com_inv com_fuel
  by unfold_locales (use com_Write_law com_Read_law in blast)+

text \<open>Every successful read uses up some of what the line has to give, whatever the state.\<close>

lemma com_Read_fuel: "com_Read c b n = (CJ_SUCCESS, b', n', c') \<Longrightarrow> com_fuel c' < com_fuel c"
proof (cases c)
  case (USB u)
  then show "com_Read c b n = (CJ_SUCCESS, b', n', c') \<Longrightarrow> com_fuel c' < com_fuel c"
    by (auto simp: usb_Read_def ausb_bulk_read_def base_com_result_def
        split: prod.splits option.splits list.splits if_splits)
next
  case (Serial s)
  then show "com_Read c b n = (CJ_SUCCESS, b', n', c') \<Longrightarrow> com_fuel c' < com_fuel c"
    by (auto split: prod.splits dest: serial_Read_fuel)
qed

definition usb0 :: "bytes option list \<Rightarrow> usb" where
  "usb0 i = \<lparr>u_devHandle = True, u_in = i, u_out = [], u_sent = [], u_pid = 0x400, u_null_read = False\<rparr>"

end
