(* ===== verification/CJ_Ccid.thy ===== *)
theory CJ_Ccid
  imports CJ_Communication
begin

text \<open>
  The CCID wire format of \<^verbatim>\<open>cjeca32/ccid.h\<close>: messages as the bytes that go over the line, responses
  as the 2048 byte buffer each read is laid over, and the byte-order conversions
  \<^verbatim>\<open>HostToReaderLong\<close>/\<^verbatim>\<open>HostToReaderShort\<close> of the reader classes.
\<close>

section \<open>Byte order\<close>

definition InversByteOrderShort :: "u16 \<Rightarrow> u16" where
  "InversByteOrderShort v = push_bit 8 v OR drop_bit 8 v"

definition InversByteOrderLong :: "u32 \<Rightarrow> u32" where
  "InversByteOrderLong v = push_bit 24 v OR (push_bit 8 v AND 0x00ff0000)
     OR (drop_bit 8 v AND 0x0000ff00) OR drop_bit 24 v"

text \<open>
  \<^verbatim>\<open>htons\<close> and \<^verbatim>\<open>htonl\<close> depend on the host: the identity on a big-endian one, the byte swap on a
  little-endian one; and so does the layout of a word in memory.
\<close>

datatype host = LittleEndian | BigEndian

fun htons :: "host \<Rightarrow> u16 \<Rightarrow> u16" where
  "htons BigEndian v = v"
| "htons LittleEndian v = le16_val (ucast (drop_bit 8 v)) (ucast v)"

fun htonl :: "host \<Rightarrow> u32 \<Rightarrow> u32" where
  "htonl BigEndian v = v"
| "htonl LittleEndian v =
     le32_val (ucast (drop_bit 24 v)) (ucast (drop_bit 16 v)) (ucast (drop_bit 8 v)) (ucast v)"

fun mem_short :: "host \<Rightarrow> u16 \<Rightarrow> bytes" where
  "mem_short LittleEndian v = le16_bytes v"
| "mem_short BigEndian v = rev (le16_bytes v)"

fun mem_long :: "host \<Rightarrow> u32 \<Rightarrow> bytes" where
  "mem_long LittleEndian v = le32_bytes v"
| "mem_long BigEndian v = rev (le32_bytes v)"

definition HostToReaderShort :: "host \<Rightarrow> u16 \<Rightarrow> u16" where
  "HostToReaderShort h v = InversByteOrderShort (htons h v)"

definition HostToReaderLong :: "host \<Rightarrow> u32 \<Rightarrow> u32" where
  "HostToReaderLong h v = InversByteOrderLong (htonl h v)"

section \<open>Messages\<close>

abbreviation (input) "PC_TO_RDR_SETPARAMETERS \<equiv> (0x61 :: byte)"
abbreviation (input) "PC_TO_RDR_ICCPOWERON \<equiv> (0x62 :: byte)"
abbreviation (input) "PC_TO_RDR_ICCPOWEROFF \<equiv> (0x63 :: byte)"
abbreviation (input) "PC_TO_RDR_GETSLOTSTATUS \<equiv> (0x65 :: byte)"
abbreviation (input) "PC_TO_RDR_SECURE \<equiv> (0x69 :: byte)"
abbreviation (input) "PC_TO_RDR_ESCAPE \<equiv> (0x6B :: byte)"
abbreviation (input) "PC_TO_RDR_XFRBLOCK \<equiv> (0x6F :: byte)"
abbreviation (input) "RDR_TO_PC_DATABLOCK \<equiv> (0x80 :: byte)"
abbreviation (input) "RDR_TO_PC_SLOTSTATUS \<equiv> (0x81 :: byte)"
abbreviation (input) "RDR_TO_PC_PARAMETERS \<equiv> (0x82 :: byte)"
abbreviation (input) "RDR_TO_PC_ESCAPE \<equiv> (0x83 :: byte)"

text \<open>
  A \<^verbatim>\<open>CCID_Message\<close> that was cleared and filled: the type, the payload length, the three bytes of the
  header union, and the bytes stored into the data union (2038 bytes, zero behind them).  The slot
  and the sequence number are set by \<^verbatim>\<open>Transfer\<close>.
\<close>

record ccid_message =
  bMessageType :: byte
  dwLength :: u32
  abHeader :: bytes
  abData :: bytes

definition data_union :: "bytes \<Rightarrow> bytes" where
  "data_union d = d @ replicate (2038 - length d) 0"

definition message_bytes :: "byte \<Rightarrow> ccid_message \<Rightarrow> bytes" where
  "message_bytes seq m =
     bMessageType m # le32_bytes (dwLength m) @ [0, seq] @ take 3 (abHeader m @ [0, 0, 0])
     @ data_union (abData m)"

abbreviation ccid_msg :: "byte \<Rightarrow> nat \<Rightarrow> bytes \<Rightarrow> bytes \<Rightarrow> ccid_message" where
  "ccid_msg t n h d \<equiv> \<lparr>bMessageType = t, dwLength = of_nat n, abHeader = h, abData = d\<rparr>"

section \<open>Responses\<close>

text \<open>A \<^verbatim>\<open>CCID_Response\<close> is its 2048 bytes; the accessors read the packed fields.\<close>

type_synonym ccid_response = bytes

abbreviation (input) "CCID_RESPONSE_SIZE \<equiv> (2048 :: nat)"

definition rsp_bMessageType :: "ccid_response \<Rightarrow> byte" where "rsp_bMessageType r = r ! 0"
definition rsp_dwLength :: "ccid_response \<Rightarrow> u32" where
  "rsp_dwLength r = le32_val (r ! 1) (r ! 2) (r ! 3) (r ! 4)"
definition rsp_bSeq :: "ccid_response \<Rightarrow> byte" where "rsp_bSeq r = r ! 6"
definition rsp_bStatus :: "ccid_response \<Rightarrow> byte" where "rsp_bStatus r = r ! 7"
definition rsp_bError :: "ccid_response \<Rightarrow> byte" where "rsp_bError r = r ! 8"
definition rsp_data :: "ccid_response \<Rightarrow> bytes" where "rsp_data r = drop 10 r"

text \<open>The escape response: the result word and the function data behind it.\<close>

definition rsp_escResult :: "ccid_response \<Rightarrow> u32" where
  "rsp_escResult r = le32_val (r ! 10) (r ! 11) (r ! 12) (r ! 13)"
definition rsp_escData :: "ccid_response \<Rightarrow> bytes" where "rsp_escData r = drop 14 r"

lemmas rsp_defs = rsp_bMessageType_def rsp_dwLength_def rsp_bSeq_def rsp_bStatus_def rsp_bError_def
  rsp_data_def rsp_escResult_def rsp_escData_def

section \<open>Lemmas\<close>

lemma length_data_union: "length d \<le> 2038 \<Longrightarrow> length (data_union d) = 2038"
  by (simp add: data_union_def)

lemma length_message_bytes:
  "length (abData m) \<le> 2038 \<Longrightarrow> length (message_bytes seq m) = 2048"
  by (simp add: message_bytes_def length_data_union)

lemma message_bytes_prefix:
  assumes "n \<le> length (abData m)" and "length (abHeader m) = 3"
  shows "take (10 + n) (message_bytes seq m) =
    bMessageType m # le32_bytes (dwLength m) @ [0, seq] @ abHeader m @ take n (abData m)"
proof -
  have "10 + n = Suc (4 + Suc (Suc (3 + n)))" by simp
  moreover have "take (4 + k) (le32_bytes w @ xs) = le32_bytes w @ take k xs"
    "take (3 + k) (abHeader m @ xs) = abHeader m @ take k xs" for k w and xs :: bytes
    using assms by simp_all
  ultimately show ?thesis using assms
    by (simp only: message_bytes_def data_union_def take_Suc_Cons append.simps) simp
qed

lemma InversByteOrderShort_htons:
  "InversByteOrderShort (htons LittleEndian v) = v"
proof (rule bit_word_eqI)
  fix n assume "n < LENGTH(16)"
  moreover have "n < 8 \<or> 8 \<le> n" by linarith
  ultimately show "bit (InversByteOrderShort (htons LittleEndian v)) n = bit v n"
    by (elim disjE) (auto simp: InversByteOrderShort_def le16_val_def bit_simps)
qed

lemma byte_pos: "8 * k \<le> n \<Longrightarrow> n < 8 * k + 8 \<Longrightarrow> n div 8 = k \<and> n mod 8 = n - 8 * k" for k n :: nat
  by (metis add.commute div_nat_eqI minus_mult_div_eq_mod mult.commute mult_Suc_right)

lemma InversByteOrderLong_bit:
  assumes "n < 32"
  shows "bit (InversByteOrderLong v) n = bit v (8 * (3 - n div 8) + n mod 8)"
proof -
  have a: "(0x00ff0000 :: u32) = push_bit 16 (mask 8)" and b: "(0x0000ff00 :: u32) = push_bit 8 (mask 8)"
    by (simp_all add: mask_eq_exp_minus_1 push_bit_eq_mult)
  have m: "bit (0x00ff0000 :: u32) n \<longleftrightarrow> 16 \<le> n \<and> n < 24"
    "bit (0x0000ff00 :: u32) n \<longleftrightarrow> 8 \<le> n \<and> n < 16"
    unfolding a b using assms by (auto simp: bit_simps)
  consider "n < 8" | "8 \<le> n" "n < 16" | "16 \<le> n" "n < 24" | "24 \<le> n" by linarith
  then show ?thesis
  proof cases
    case 1
    then show ?thesis using assms m
      by (simp add: InversByteOrderLong_def bit_simps add.commute)
  next
    case 2
    then have d: "n div 8 = 1" "n mod 8 = n - 8" using byte_pos[of 1 n] by simp_all
    show ?thesis using 2 assms m
      by (auto simp: InversByteOrderLong_def bit_simps d add.commute dest: bit_imp_le_length)
  next
    case 3
    then have d: "n div 8 = 2" "n mod 8 = n - 16" using byte_pos[of 2 n] by simp_all
    show ?thesis using 3 assms m
      by (auto simp: InversByteOrderLong_def bit_simps d dest: bit_imp_le_length)
  next
    case 4
    then have d: "n div 8 = 3" "n mod 8 = n - 24" using byte_pos[of 3 n] assms by simp_all
    show ?thesis using 4 assms m
      by (auto simp: InversByteOrderLong_def bit_simps d dest: bit_imp_le_length)
  qed
qed

lemma htonl_bit:
  assumes "n < 32"
  shows "bit (htonl LittleEndian v) n = bit v (8 * (3 - n div 8) + n mod 8)"
proof -
  consider "n < 8" | "8 \<le> n" "n < 16" | "16 \<le> n" "n < 24" | "24 \<le> n" by linarith
  then show ?thesis
  proof cases
    case 1
    then show ?thesis using assms by (simp add: le32_val_def bit_simps)
  next
    case 2
    then have d: "n div 8 = 1" "n mod 8 = n - 8" using byte_pos[of 1 n] by simp_all
    show ?thesis using 2 by (auto simp: le32_val_def bit_simps d dest: bit_imp_le_length)
  next
    case 3
    then have d: "n div 8 = 2" "n mod 8 = n - 16" using byte_pos[of 2 n] by simp_all
    show ?thesis using 3 by (auto simp: le32_val_def bit_simps d dest: bit_imp_le_length)
  next
    case 4
    then have d: "n div 8 = 3" "n mod 8 = n - 24" using byte_pos[of 3 n] assms by simp_all
    show ?thesis using 4 assms by (auto simp: le32_val_def bit_simps d dest: bit_imp_le_length)
  qed
qed

lemma InversByteOrderLong_htonl: "InversByteOrderLong v = htonl LittleEndian v"
  by (rule bit_word_eqI) (simp add: InversByteOrderLong_bit htonl_bit del: htonl.simps)

lemma InversByteOrderLong_invol: "InversByteOrderLong (InversByteOrderLong v) = v"
proof (rule bit_word_eqI)
  fix n assume "n < LENGTH(32)"
  then have n: "n < 32" by simp
  let ?m = "8 * (3 - n div 8) + n mod 8"
  have q: "n div 8 \<le> 3" using n by (simp add: less_eq_div_iff_mult_less_eq div_le_mono[of n 31 8, simplified])
  have m: "?m < 32" "?m div 8 = 3 - n div 8" "?m mod 8 = n mod 8" using q by auto
  have "8 * (3 - ?m div 8) + ?m mod 8 = n" using q by (simp add: m(2,3))
  then show "bit (InversByteOrderLong (InversByteOrderLong v)) n = bit v n"
    using n m(1) by (simp add: InversByteOrderLong_bit)
qed

lemma InversByteOrderShort_invol: "InversByteOrderShort (InversByteOrderShort v) = v"
proof (rule bit_word_eqI)
  fix n assume "n < LENGTH(16)"
  moreover have "n < 8 \<or> 8 \<le> n" by linarith
  ultimately show "bit (InversByteOrderShort (InversByteOrderShort v)) n = bit v n"
    by (elim disjE) (auto simp: InversByteOrderShort_def bit_simps)
qed

lemma HostToReaderLong_LE [simp]: "HostToReaderLong LittleEndian v = v"
  unfolding HostToReaderLong_def InversByteOrderLong_htonl[symmetric] InversByteOrderLong_invol ..

lemma le32_bytes_inverse: "le32_bytes (InversByteOrderLong v) = rev (le32_bytes v)"
  unfolding InversByteOrderLong_htonl le32_bytes_def
  by (auto intro!: bit_word_eqI simp: le32_val_def bit_simps)

lemma le16_bytes_inverse: "le16_bytes (InversByteOrderShort v) = rev (le16_bytes v)"
  unfolding InversByteOrderShort_def le16_bytes_def
  by (auto intro!: bit_word_eqI simp: bit_simps)

text \<open>
  The conversion of every reader class puts integers on the wire in little-endian order
  on little-endian and on big-endian hosts alike, and converting what the reader sent back is the
  inverse conversion.
\<close>

theorem HostToReader_wire:
  "mem_long h (HostToReaderLong h v) = le32_bytes v
   \<and> mem_short h (HostToReaderShort h w) = le16_bytes w
   \<and> HostToReaderLong h (HostToReaderLong h v) = v
   \<and> HostToReaderShort h (HostToReaderShort h w) = w"
proof (cases h)
  case LittleEndian
  then show ?thesis
    by (simp add: HostToReaderShort_def InversByteOrderShort_htons del: htons.simps)
next
  case BigEndian
  then show ?thesis
    by (simp add: HostToReaderLong_def HostToReaderShort_def le32_bytes_inverse le16_bytes_inverse
        InversByteOrderLong_invol InversByteOrderShort_invol)
qed

end
