(* ===== verification/CJ_BaseReader.thy ===== *)
theory CJ_BaseReader
  imports CJ_Ccid
begin

text \<open>
  The state of a reader object and the operations of \<^verbatim>\<open>cjeca32/BaseReader.cpp\<close>: the TLV search, the
  module table, the guarded write to the communicator, and the scanning of an ATR (length check and
  interface bytes).

  One record holds the fields of \<^verbatim>\<open>CBaseReader\<close>, \<^verbatim>\<open>CCCIDReader\<close>, \<^verbatim>\<open>CEC30Reader\<close> and \<^verbatim>\<open>CECRReader\<close>; the
  field \<open>m_class\<close> is the dynamic type that decides virtual calls.  Four ghost fields make undefined
  behaviour visible: \<open>g_stack\<close> is what an uninitialised \<^verbatim>\<open>CCID_Response\<close> on the stack holds, \<open>g_over\<close>
  the bytes that follow an object (such as \<^verbatim>\<open>m_ATR\<close>) in memory, by their offset from its start,
  \<open>g_overrun\<close> records that a copy left the bounds of an object, and \<open>g_atr_overrun\<close> that it was the copy of
  an answer to select to \<^verbatim>\<open>m_ATR\<close>, which overwrites the members declared behind it (from
  \<^verbatim>\<open>m_Historical\<close> and \<^verbatim>\<open>m_PossibleProtocols\<close> on).  No operation clears the two flags.
\<close>

section \<open>State\<close>

record module_info =
  mi_ContentsMask :: u32
  mi_Status :: u32
  mi_ID :: u32
  mi_Variant :: u32
  mi_BaseAddr :: u32
  mi_CodeSize :: u32
  mi_Version :: u32
  mi_Revision :: u32
  mi_ReqVersion :: u32
  mi_ReqRevision :: u32
  mi_HeapSize :: u32
  mi_Description :: bytes
  mi_Date :: bytes
  mi_Time :: bytes

record reader_info =
  ri_ContentsMask :: u32
  ri_PID :: u32
  ri_HardwareMask :: u32
  ri_Version :: u32
  ri_HardwareVersion :: u32
  ri_FlashSize :: u32
  ri_HeapSize :: u32
  ri_Keys :: bytes
  ri_SeriaNumber :: bytes
  ri_ProductString :: bytes
  ri_ProductionDate :: bytes
  ri_ProductionTime :: bytes
  ri_TestDate :: bytes
  ri_TestTime :: bytes
  ri_CommissioningDate :: bytes
  ri_CommissioningTime :: bytes
  ri_CommunicationString :: string
  ri_HardwareString :: string

datatype apdu_norm = NORM_PCSC | NORM_ISO | NORM_EMV

datatype callback_event = ChangeEvent byte | KeyEvent byte

record reader =
  m_class :: reader_class
  m_pCommunicator :: "comm option"
  m_ReaderInfo :: reader_info
  m_pModuleInfo :: "module_info list option"
  m_ModuleInfoCount :: nat
  m_ReaderState :: u32
  m_ActiveProtocol :: u32
  m_PossibleProtocols :: u32
  m_ATR :: bytes
  m_ATR_Length :: nat
  m_Historical :: "nat option"
  m_Historical_Length :: nat
  m_TA1 :: byte
  m_TC1 :: byte
  m_TC2 :: byte
  m_TA3 :: byte
  m_TB3 :: byte
  m_TC3 :: byte
  m_ApduNorm :: apdu_norm
  m_bIsRF :: bool
  m_iic_offset_bytes :: byte
  m_iic_pagesize :: byte
  m_SequenceNo :: byte
  m_SerialNumber :: bytes
  m_KeyIntCallback :: bool
  m_ChangeIntCallback :: bool
  m_pApplicationResponse :: bytes
  cmd_buffer_len :: u32
  ifd_in_buffer_len :: u16
  environment :: "string \<Rightarrow> u32 option"
  package_version :: bytes
  g_events :: "callback_event list"
  g_stack :: bytes
  g_over :: "nat \<Rightarrow> byte"
  g_overrun :: bool
  g_atr_overrun :: bool

abbreviation (input) "SCARD_UNKNOWN \<equiv> (1 :: u32)"
abbreviation (input) "SCARD_ABSENT \<equiv> (2 :: u32)"
abbreviation (input) "SCARD_SWALLOWED \<equiv> (8 :: u32)"
abbreviation (input) "SCARD_POWERED \<equiv> (0x10 :: u32)"
abbreviation (input) "SCARD_NEGOTIABLE \<equiv> (0x20 :: u32)"
abbreviation (input) "SCARD_SPECIFIC \<equiv> (0x40 :: u32)"
abbreviation (input) "SCARD_PROTOCOL_T0 \<equiv> (1 :: u32)"
abbreviation (input) "SCARD_PROTOCOL_T1 \<equiv> (2 :: u32)"
abbreviation (input) "SCARD_PROTOCOL_RAW \<equiv> (4 :: u32)"
abbreviation (input) "SCARD_PROTOCOL_DEFAULT \<equiv> (0x80000000 :: u32)"
abbreviation (input) "SCARD_PROTOCOL_OPTIMAL \<equiv> (0 :: u32)"
abbreviation (input) "MODULE_ID_KERNEL \<equiv> (0x01000001 :: u32)"

definition GetEnviroment :: "reader \<Rightarrow> string \<Rightarrow> u32 \<Rightarrow> u32" where
  "GetEnviroment r name defval = (case environment r name of Some v \<Rightarrow> v | None \<Rightarrow> defval)"

section \<open>TLV search\<close>

text \<open>
  \<^verbatim>\<open>GetTag(start, len, tagvalue, &taglen)\<close>: the offset of the value and its length, or \<^verbatim>\<open>NULL\<close>.  The
  loop runs while more than two bytes are left, so an empty value at the very end is not found.
\<close>

function GetTag :: "bytes \<Rightarrow> nat \<Rightarrow> int \<Rightarrow> byte \<Rightarrow> (nat \<times> nat) option" where
  "GetTag buf start len tagvalue =
     (if len > 2 then
        (let tag = buf ! start; tlen = unat (buf ! (start + 1)) in
         if tag = tagvalue then Some (start + 2, tlen)
         else GetTag buf (start + 2 + tlen) (len - (int tlen + 2)) tagvalue)
      else None)"
  by pat_completeness auto
termination
proof (relation "measure (\<lambda>(buf, start, len, t). nat len)", simp, goal_cases)
  case (1 buf start len t x y)
  have "0 \<le> int (unat (buf ! (start + 1)))" by (rule of_nat_0_le_iff)
  with 1 show ?case by (simp del: of_nat_unat)
qed

declare GetTag.simps [simp del]

section \<open>Module table\<close>

text \<open>
  The loops compare entries while the index is below \<^verbatim>\<open>m_ModuleInfoCount\<close>; the result is the entry
  itself.
\<close>

fun find_entry :: "(module_info \<Rightarrow> bool) \<Rightarrow> nat \<Rightarrow> module_info list \<Rightarrow> module_info option" where
  "find_entry P 0 ms = None"
| "find_entry P (Suc n) [] = None"
| "find_entry P (Suc n) (m # ms) = (if P m then Some m else find_entry P n ms)"

definition FindModule :: "reader \<Rightarrow> u32 \<Rightarrow> module_info option" where
  "FindModule r ID = (case m_pModuleInfo r of None \<Rightarrow> None
     | Some ms \<Rightarrow> find_entry (\<lambda>m. mi_ID m = ID) (m_ModuleInfoCount r) ms)"

definition FindModuleWithMask :: "reader \<Rightarrow> u32 \<Rightarrow> u32 \<Rightarrow> module_info option" where
  "FindModuleWithMask r ID msk = (case m_pModuleInfo r of None \<Rightarrow> None
     | Some ms \<Rightarrow> find_entry (\<lambda>m. (mi_ID m AND msk) = ID) (m_ModuleInfoCount r) ms)"

abbreviation (input) "SCARD_AUTOALLOCATE \<equiv> (0xffffffff :: u32)"

datatype list_result = LIST_SUCCESS | SCARD_E_INSUFFICIENT_BUFFER

text \<open>\<^verbatim>\<open>CtListModules\<close>: the result, the new count, and the entries copied out.\<close>

definition CtListModules :: "reader \<Rightarrow> u32 \<Rightarrow> list_result \<times> u32 \<times> module_info list" where
  "CtListModules r Count =
     (let c = of_nat (m_ModuleInfoCount r);
          Count' = (if Count = SCARD_AUTOALLOCATE then c else Count) in
      if Count' < c then (SCARD_E_INSUFFICIENT_BUFFER, c, [])
      else (LIST_SUCCESS, c,
            take (m_ModuleInfoCount r) (case m_pModuleInfo r of None \<Rightarrow> [] | Some ms \<Rightarrow> ms)))"

section \<open>The guarded write\<close>

text \<open>\<^verbatim>\<open>GetReadersInputBufferSize\<close> is virtual: 1024 bytes, and 2048 for RFID readers with a kernel from 3.0.\<close>

definition is_rfid_class :: "reader_class \<Rightarrow> bool" where
  "is_rfid_class c \<longleftrightarrow> c = ECR \<or> c = ECM"

definition GetReadersInputBufferSize :: "reader \<Rightarrow> nat" where
  "GetReadersInputBufferSize r =
     (if is_rfid_class (m_class r) then
        (case FindModule r MODULE_ID_KERNEL of
           Some info \<Rightarrow> if mi_Version info \<ge> 0x30
                            \<or> mi_Version info = 0x30 \<and> mi_Revision info \<ge> 70 then 2048 else 1024
         | None \<Rightarrow> 1024)
      else 1024)"

definition ConnectionError :: "reader \<Rightarrow> reader" where
  "ConnectionError r = r\<lparr>m_pCommunicator := None\<rparr>"

definition Unconnect :: "reader \<Rightarrow> reader" where
  "Unconnect r = r\<lparr>m_pCommunicator := None\<rparr>"

definition reader_Write :: "reader \<Rightarrow> bytes \<Rightarrow> nat \<Rightarrow> cj_result \<times> reader" where
  "reader_Write r msg len = (case m_pCommunicator r of
      None \<Rightarrow> (CJ_ERR_DEVICE_LOST, r)
    | Some c \<Rightarrow>
        if len > GetReadersInputBufferSize r then (CJ_ERR_INTERNAL_BUFFER_OVERFLOW, r)
        else (case com_Write c (take len msg) of (res, c') \<Rightarrow>
          if res \<noteq> CJ_SUCCESS then (res, ConnectionError (r\<lparr>m_pCommunicator := Some c'\<rparr>))
          else (res, r\<lparr>m_pCommunicator := Some c'\<rparr>)))"

definition reader_IsConnected :: "reader \<Rightarrow> bool" where
  "reader_IsConnected r = (case m_pCommunicator r of None \<Rightarrow> False | Some c \<Rightarrow> com_IsConnected c)"

definition IsNotSet :: "bytes \<Rightarrow> nat \<Rightarrow> bool" where
  "IsNotSet p len = list_all (\<lambda>b. b = 0xff) (take len p)"

section \<open>Length check of an ATR\<close>

text \<open>\<^verbatim>\<open>GetBits\<close> shifts its argument to the right until it is zero.\<close>

function GetBits :: "byte \<Rightarrow> nat" where
  "GetBits v = (if v = 0 then 0
                else (if v AND 1 \<noteq> 0 then 1 else 0) + GetBits (drop_bit 1 v))"
  by pat_completeness auto
termination
proof (relation "measure unat", simp)
  fix v :: byte assume "v \<noteq> 0"
  then have "0 < unat v" by (simp add: unat_gt_0)
  moreover have "unat (drop_bit 1 v) = unat v div 2"
    by (metis drop_bit_eq_div power_one_right unat_drop_bit_eq)
  ultimately show "(drop_bit 1 v, v) \<in> measure unat" by simp
qed

declare GetBits.simps [simp del]

definition atr_at :: "reader \<Rightarrow> nat \<Rightarrow> byte" where
  "atr_at r i = (if i < 33 then m_ATR r ! i else g_over r i)"

lemma GetBits_pos: "w \<noteq> 0 \<Longrightarrow> 0 < GetBits w"
proof (induction w rule: GetBits.induct)
  case (1 w)
  show ?case
  proof (cases "w AND 1 = 0")
    case True
    have "drop_bit 1 w \<noteq> 0"
    proof
      assume "drop_bit 1 w = 0"
      then have "unat w div 2 = 0"
        by (metis drop_bit_eq_div power_one_right unat_0 unat_drop_bit_eq)
      then have "unat w = 0 \<or> unat w = 1" by linarith
      then have "w = 0 \<or> w = 1" by (metis unat_0 unat_1 word_unat_eq_iff)
      then show False using True 1 by auto
    qed
    then show ?thesis using 1 by (subst GetBits.simps) simp
  next
    case False
    then show ?thesis using 1 by (subst GetBits.simps) simp
  qed
qed

lemma GetBits_high: "v AND 0x80 \<noteq> 0 \<Longrightarrow> 0 < GetBits (v AND 0xf0)"
proof (rule GetBits_pos)
  assume "v AND 0x80 \<noteq> 0"
  moreover have "(v AND 0xf0) AND 0x80 = v AND 0x80" by (simp add: and.assoc)
  ultimately show "v AND 0xf0 \<noteq> 0" by (metis zero_and_eq)
qed

text \<open>
  The loop of \<^verbatim>\<open>check_len\<close> over the interface characters, on memory \<open>at\<close> with \<open>ptr\<close> the index of the
  current \<^verbatim>\<open>T0\<close> or \<^verbatim>\<open>TD\<close> byte.  It ends because a byte that continues the loop has bit 8 set and so
  counts at least one.  The result: \<^verbatim>\<open>len\<close>, \<^verbatim>\<open>len1\<close>, \<^verbatim>\<open>t1\<close> and \<^verbatim>\<open>*historical\<close>, if it was set.  The
  counters are bytes in the source; they stay below \<^verbatim>\<open>buf_len + 5\<close>, so they do not wrap.
\<close>

function check_loop ::
  "(nat \<Rightarrow> byte) \<Rightarrow> nat \<Rightarrow> nat \<Rightarrow> nat \<Rightarrow> nat \<Rightarrow> bool \<Rightarrow> nat \<times> nat \<times> bool \<times> nat option" where
  "check_loop at buf_len ptr len len1 t1 =
     (let v = GetBits (at ptr AND 0xf0); len' = len + v in
      if buf_len \<ge> len' \<and> at ptr AND 0x80 \<noteq> 0 then
        (let ptr' = ptr + v;
             hit = (\<not> t1 \<and> at ptr' AND 0x0f \<noteq> 0);
             len1' = (if hit then len1 + 1 else len1);
             t1' = (t1 \<or> hit) in
         if buf_len > len' then check_loop at buf_len ptr' len' len1' t1'
         else (len', len1', t1', None))
      else (len', len1, t1, Some (ptr + v + 1)))"
  by pat_completeness auto
termination
  by (relation "measure (\<lambda>(at, buf_len, ptr, len, len1, t1). buf_len - len)")
    (auto dest: GetBits_high)

declare check_loop.simps [simp del]

definition lrc :: "(nat \<Rightarrow> byte) \<Rightarrow> nat \<Rightarrow> byte" where
  "lrc at buf_len = foldl (XOR) 0 (map at [1..<buf_len])"

text \<open>\<^verbatim>\<open>check_len\<close>: 1 for a consistent ATR, 0 for a wrong check byte, 2 for a wrong length.\<close>

definition check_len :: "(nat \<Rightarrow> byte) \<Rightarrow> nat \<Rightarrow> nat \<times> nat option \<times> nat" where
  "check_len at buf_len =
     (let hist_len = unat (at 1 AND 0x0f) in
      case check_loop at buf_len 1 0 (hist_len + 2) False of (len, len1, t1, hist) \<Rightarrow>
        (if t1 then (if lrc at buf_len \<noteq> 0 then 0 else 1)
         else if buf_len \<noteq> len + len1 then
           (if buf_len = len + len1 + 1 then (if lrc at buf_len \<noteq> 0 then 0 else 1) else 2)
         else 1,
         hist, hist_len))"

section \<open>Interface bytes of an ATR\<close>

text \<open>What \<^verbatim>\<open>AnalyseATR\<close> reads out of the ATR before it decides on the state of the card.\<close>

record atr_params =
  ap_error :: nat
  ap_specific :: bool
  ap_protocol :: u32
  ap_TD1 :: byte
  ap_TA1 :: byte
  ap_TC1 :: byte
  ap_TC2 :: byte
  ap_TA3 :: byte
  ap_TB3 :: byte
  ap_TC3 :: byte

definition bit_of :: "byte \<Rightarrow> u32" where
  "bit_of n = push_bit (unat n) 1"

text \<open>
  Each interface byte is one step on the pair of the parameters read so far and the index \<^verbatim>\<open>ptr\<close> of
  the next byte; \<open>Dx\<close> is the last format byte.
\<close>

definition set_error :: "bool \<Rightarrow> atr_params \<Rightarrow> atr_params" where
  "set_error b s = (if b then s\<lparr>ap_error := 1\<rparr> else s)"

definition step_TA1 :: "(nat \<Rightarrow> byte) \<Rightarrow> byte \<Rightarrow> atr_params \<times> nat \<Rightarrow> atr_params \<times> nat" where
  "step_TA1 at Dx = (\<lambda>(s, p). if Dx AND 0x10 \<noteq> 0 then (s\<lparr>ap_TA1 := at p\<rparr>, p + 1) else (s, p))"

definition step_TB1 :: "(nat \<Rightarrow> byte) \<Rightarrow> bool \<Rightarrow> byte \<Rightarrow> atr_params \<times> nat \<Rightarrow> atr_params \<times> nat" where
  "step_TB1 at warm Dx = (\<lambda>(s, p).
     if Dx AND 0x20 \<noteq> 0 then (set_error (at p \<noteq> 0 \<and> \<not> warm) s, p + 1)
     else (set_error (\<not> warm) s, p))"

definition step_TC1 :: "(nat \<Rightarrow> byte) \<Rightarrow> byte \<Rightarrow> atr_params \<times> nat \<Rightarrow> atr_params \<times> nat" where
  "step_TC1 at Dx = (\<lambda>(s, p). if Dx AND 0x40 \<noteq> 0 then (s\<lparr>ap_TC1 := at p\<rparr>, p + 1) else (s, p))"

definition step_TA2 :: "(nat \<Rightarrow> byte) \<Rightarrow> byte \<Rightarrow> atr_params \<times> nat \<Rightarrow> atr_params \<times> nat" where
  "step_TA2 at Dx = (\<lambda>(s, p).
     if Dx AND 0x10 \<noteq> 0 then ((set_error (at p AND 0x10 \<noteq> 0) s)\<lparr>ap_specific := True\<rparr>, p + 1)
     else (s, p))"

definition step_TB2 :: "byte \<Rightarrow> atr_params \<times> nat \<Rightarrow> atr_params \<times> nat" where
  "step_TB2 Dx = (\<lambda>(s, p). if Dx AND 0x20 \<noteq> 0 then (set_error True s, p + 1) else (s, p))"

definition step_TC2 :: "(nat \<Rightarrow> byte) \<Rightarrow> byte \<Rightarrow> atr_params \<times> nat \<Rightarrow> atr_params \<times> nat" where
  "step_TC2 at Dx = (\<lambda>(s, p).
     if Dx AND 0x40 \<noteq> 0 then (set_error (at p = 0) (s\<lparr>ap_TC2 := at p\<rparr>), p + 1) else (s, p))"

definition step_TA3 :: "(nat \<Rightarrow> byte) \<Rightarrow> byte \<Rightarrow> atr_params \<times> nat \<Rightarrow> atr_params \<times> nat" where
  "step_TA3 at Dx = (\<lambda>(s, p).
     if Dx AND 0x10 \<noteq> 0 then (set_error (at p < 0x10 \<or> at p = 0xff) (s\<lparr>ap_TA3 := at p\<rparr>), p + 1)
     else (s, p))"

definition emv_TB3_bad :: "byte \<Rightarrow> byte \<Rightarrow> bool" where
  "emv_TB3_bad TB3 TC1 \<longleftrightarrow> TB3 > 0x45 \<or> TB3 AND 0x0f > 0x05
     \<or> (2 ^ unat (TB3 AND 0x0f) \<le> unat TC1 + 1 \<and> TC1 \<noteq> 0xff)"

definition step_TB3 :: "(nat \<Rightarrow> byte) \<Rightarrow> apdu_norm \<Rightarrow> byte \<Rightarrow> atr_params \<times> nat \<Rightarrow> atr_params \<times> nat" where
  "step_TB3 at norm Dx = (\<lambda>(s, p).
     if Dx AND 0x20 \<noteq> 0
     then (set_error (norm = NORM_EMV \<and> emv_TB3_bad (at p) (ap_TC1 s)) (s\<lparr>ap_TB3 := at p\<rparr>), p + 1)
     else (set_error (norm = NORM_EMV) s, p))"

definition step_TC3 :: "(nat \<Rightarrow> byte) \<Rightarrow> byte \<Rightarrow> atr_params \<times> nat \<Rightarrow> atr_params \<times> nat" where
  "step_TC3 at Dx = (\<lambda>(s, p).
     if Dx AND 0x40 \<noteq> 0 then (set_error (at p \<noteq> 0) (s\<lparr>ap_TC3 := at p\<rparr>), p) else (s, p))"

text \<open>The bytes behind \<^verbatim>\<open>TD2\<close>, and \<^verbatim>\<open>TD2\<close> itself.\<close>

definition scan_T1 :: "(nat \<Rightarrow> byte) \<Rightarrow> apdu_norm \<Rightarrow> byte \<Rightarrow> atr_params \<times> nat \<Rightarrow> atr_params \<times> nat" where
  "scan_T1 at norm Dx sp = step_TC3 at Dx (step_TB3 at norm Dx (step_TA3 at Dx sp))"

definition step_TD2 :: "(nat \<Rightarrow> byte) \<Rightarrow> apdu_norm \<Rightarrow> byte \<Rightarrow> atr_params \<times> nat \<Rightarrow> atr_params \<times> nat" where
  "step_TD2 at norm Dx = (\<lambda>(s, p).
     if Dx AND 0x80 \<noteq> 0 then
       (let D2 = at p;
            s1 = set_error (D2 AND 0x0f \<noteq> 1 \<and> (ap_protocol s \<noteq> 1 \<or> D2 AND 0x0e \<noteq> 0x0e)) s;
            s2 = s1\<lparr>ap_protocol := ap_protocol s1 OR bit_of (D2 AND 0x0f)\<rparr>
        in if D2 AND 0x0f = 1 then scan_T1 at norm D2 (s2, p + 1) else (s2, p + 1))
     else (set_error (ap_protocol s AND 2 \<noteq> 0) s, p))"

text \<open>\<^verbatim>\<open>TD1\<close> and the bytes behind it.\<close>

definition scan_TD1 :: "(nat \<Rightarrow> byte) \<Rightarrow> apdu_norm \<Rightarrow> byte \<Rightarrow> atr_params \<times> nat \<Rightarrow> atr_params \<times> nat" where
  "scan_TD1 at norm Dx = (\<lambda>(s, p).
     let s0 = s\<lparr>ap_TD1 := Dx, ap_protocol := bit_of (Dx AND 0x0f)\<rparr>;
         s1 = set_error (Dx AND 0x0f > 1) s0
     in step_TD2 at norm Dx (step_TC2 at Dx (step_TB2 Dx (step_TA2 at Dx (s1, p)))))"

definition atr_defaults :: atr_params where
  "atr_defaults = \<lparr>ap_error = 0, ap_specific = False, ap_protocol = 1, ap_TD1 = 0,
     ap_TA1 = 0x11, ap_TC1 = 0, ap_TC2 = 10, ap_TA3 = 0x20, ap_TB3 = 0x4d, ap_TC3 = 0\<rparr>"

definition scan_ATR :: "(nat \<Rightarrow> byte) \<Rightarrow> apdu_norm \<Rightarrow> bool \<Rightarrow> atr_params" where
  "scan_ATR at norm warm =
     (let T0 = at 1;
          (s, p) = step_TC1 at T0 (step_TB1 at warm T0 (step_TA1 at T0 (atr_defaults, 2)))
      in if T0 AND 0x80 \<noteq> 0 then fst (scan_TD1 at norm (at p) (s, p + 1)) else s)"

section \<open>Errors of the scan\<close>

text \<open>
  A step never clears an error, never raises one above 1, and leaves alone the format byte and the
  protocols already collected.
\<close>

definition scan_le :: "atr_params \<Rightarrow> atr_params \<Rightarrow> bool" where
  "scan_le s t \<longleftrightarrow> (ap_error s < 2 \<longrightarrow> ap_error t < 2) \<and> (ap_error t = 0 \<longrightarrow> ap_error s = 0)
     \<and> ap_TD1 t = ap_TD1 s \<and> (\<forall>m. ap_protocol s AND m \<noteq> 0 \<longrightarrow> ap_protocol t AND m \<noteq> 0)"

lemma scan_le_refl [simp]: "scan_le s s"
  by (simp add: scan_le_def)

lemma scan_le_trans: "scan_le s t \<Longrightarrow> scan_le t u \<Longrightarrow> scan_le s u"
  by (auto simp: scan_le_def)

lemma set_error_simps [simp]:
  "ap_TD1 (set_error b s) = ap_TD1 s" "ap_protocol (set_error b s) = ap_protocol s"
  "ap_specific (set_error b s) = ap_specific s" "ap_TC1 (set_error b s) = ap_TC1 s"
  "ap_error (set_error b s) = (if b then 1 else ap_error s)"
  by (simp_all add: set_error_def)

lemma step_le:
  "scan_le (fst sp) (fst (step_TA1 at Dx sp))" "scan_le (fst sp) (fst (step_TB1 at warm Dx sp))"
  "scan_le (fst sp) (fst (step_TC1 at Dx sp))" "scan_le (fst sp) (fst (step_TA2 at Dx sp))"
  "scan_le (fst sp) (fst (step_TB2 Dx sp))" "scan_le (fst sp) (fst (step_TC2 at Dx sp))"
  "scan_le (fst sp) (fst (step_TA3 at Dx sp))" "scan_le (fst sp) (fst (step_TB3 at norm Dx sp))"
  "scan_le (fst sp) (fst (step_TC3 at Dx sp))"
  by (auto simp: scan_le_def step_TA1_def step_TB1_def step_TC1_def step_TA2_def step_TB2_def
      step_TC2_def step_TA3_def step_TB3_def step_TC3_def split: prod.splits)

lemma scan_T1_le: "scan_le (fst sp) (fst (scan_T1 at norm Dx sp))"
  unfolding scan_T1_def by (meson scan_le_trans step_le)

lemma and_or_nonzero: "a AND m \<noteq> 0 \<Longrightarrow> (a OR b) AND m \<noteq> 0" for a b m :: u32
proof
  assume a: "a AND m \<noteq> 0" and b: "(a OR b) AND m = 0"
  have "(a AND m) OR (b AND m) = 0" using b by (simp add: bit.conj_disj_distrib2)
  then show False using a by (simp add: or_eq_0_iff)
qed

lemma step_TD2_le: "scan_le (fst sp) (fst (step_TD2 at norm Dx sp))"
proof (cases sp)
  case (Pair s p)
  let ?b = "at p AND 0x0f \<noteq> 1 \<and> (ap_protocol s \<noteq> 1 \<or> at p AND 0x0e \<noteq> 0x0e)"
  let ?s = "(set_error ?b s)\<lparr>ap_protocol := ap_protocol s OR bit_of (at p AND 0x0f)\<rparr>"
  have 1: "scan_le s ?s" by (simp add: scan_le_def and_or_nonzero)
  have 2: "scan_le ?s (fst (scan_T1 at norm (at p) (?s, p + 1)))"
    using scan_T1_le[of "(?s, p + 1)"] by simp
  have 3: "scan_le s (set_error (ap_protocol s AND 2 \<noteq> 0) s)" by (auto simp: scan_le_def)
  show ?thesis
    using 1 3 scan_le_trans[OF 1 2]
    by (simp only: Pair step_TD2_def Let_def prod.case set_error_simps fst_conv split: if_split) blast
qed

lemma scan_TD1_le:
  "scan_le (set_error (Dx AND 0x0f > 1) (s\<lparr>ap_TD1 := Dx, ap_protocol := bit_of (Dx AND 0x0f)\<rparr>))
     (fst (scan_TD1 at norm Dx (s, p)))"
proof -
  let ?s = "set_error (Dx AND 0x0f > 1) (s\<lparr>ap_TD1 := Dx, ap_protocol := bit_of (Dx AND 0x0f)\<rparr>)"
  have "scan_le (fst (?s, p)) (fst (step_TD2 at norm Dx (step_TC2 at Dx (step_TB2 Dx (step_TA2 at Dx (?s, p))))))"
    by (meson scan_le_trans step_le step_TD2_le)
  then show ?thesis by (simp add: scan_TD1_def Let_def)
qed

lemma bit_of_0 [simp]: "bit_of 0 = 1" and bit_of_1 [simp]: "bit_of 1 = 2"
  by (simp_all add: bit_of_def)

lemma scan_TD1_ok:
  assumes "ap_error (fst (scan_TD1 at norm Dx (s, p))) = 0"
  shows "Dx AND 0x0f \<le> 1" "ap_TD1 (fst (scan_TD1 at norm Dx (s, p))) = Dx"
    "ap_error s = 0"
    "bit_of (Dx AND 0x0f) AND 3 \<noteq> 0 \<Longrightarrow> ap_protocol (fst (scan_TD1 at norm Dx (s, p))) AND 3 \<noteq> 0"
  using assms scan_TD1_le[of Dx s at norm p] by (auto simp: scan_le_def split: if_splits)

lemma scan_prefix_le:
  "scan_le atr_defaults (fst (step_TC1 at T0 (step_TB1 at warm T0 (step_TA1 at T0 (atr_defaults, 2)))))"
  using scan_le_trans[OF scan_le_trans[OF step_le(1) step_le(2)] step_le(3),
      of "(atr_defaults, 2)"] by simp

lemma prefix_keeps:
  "ap_specific (fst (step_TC1 at T0 (step_TB1 at warm T0 (step_TA1 at T0 (atr_defaults, 2))))) = False"
  "ap_protocol (fst (step_TC1 at T0 (step_TB1 at warm T0 (step_TA1 at T0 (atr_defaults, 2))))) = 1"
  by (simp_all add: step_TC1_def step_TB1_def step_TA1_def atr_defaults_def split: prod.splits)

lemma scan_ATR_cases:
  fixes at norm warm
  defines "pre \<equiv> step_TC1 at (at 1) (step_TB1 at warm (at 1) (step_TA1 at (at 1) (atr_defaults, 2)))"
  shows "scan_ATR at norm warm =
    (if at 1 AND 0x80 \<noteq> 0 then fst (scan_TD1 at norm (at (snd pre)) (fst pre, snd pre + 1)) else fst pre)"
  by (simp add: scan_ATR_def pre_def Let_def split: prod.splits)

lemma scan_ATR_error: "ap_error (scan_ATR at norm warm) < 2"
proof -
  let ?pre = "step_TC1 at (at 1) (step_TB1 at warm (at 1) (step_TA1 at (at 1) (atr_defaults, 2)))"
  let ?Dx = "at (snd ?pre)"
  have 1: "ap_error (fst ?pre) < 2"
    using scan_prefix_le[of at "at 1" warm] by (simp add: scan_le_def atr_defaults_def)
  have "ap_error (set_error (?Dx AND 0x0f > 1)
      ((fst ?pre)\<lparr>ap_TD1 := ?Dx, ap_protocol := bit_of (?Dx AND 0x0f)\<rparr>)) < 2"
    using 1 by simp
  then have "ap_error (fst (scan_TD1 at norm ?Dx (fst ?pre, snd ?pre + 1))) < 2"
    using scan_TD1_le[of ?Dx "fst ?pre" at norm "snd ?pre + 1"] by (simp add: scan_le_def)
  with 1 show ?thesis unfolding scan_ATR_cases by simp
qed

text \<open>An ATR without error names T=0 or T=1, and its specific mode is one of them.\<close>

lemma scan_ATR_ok:
  assumes "ap_error (scan_ATR at norm warm) = 0"
  shows "ap_specific (scan_ATR at norm warm) \<Longrightarrow>
      ap_TD1 (scan_ATR at norm warm) AND 0x0f = 0 \<or> ap_TD1 (scan_ATR at norm warm) AND 0x0f = 1"
    and "ap_protocol (scan_ATR at norm warm) AND 3 \<noteq> 0"
proof -
  let ?pre = "step_TC1 at (at 1) (step_TB1 at warm (at 1) (step_TA1 at (at 1) (atr_defaults, 2)))"
  let ?Dx = "at (snd ?pre)"
  let ?td = "fst (scan_TD1 at norm ?Dx (fst ?pre, snd ?pre + 1))"
  have le1: "x \<le> 1 \<Longrightarrow> x = 0 \<or> x = 1" for x :: byte
    by unat_arith
  show "ap_protocol (scan_ATR at norm warm) AND 3 \<noteq> 0"
  proof (cases "at 1 AND 0x80 \<noteq> 0")
    case True
    then have e: "ap_error ?td = 0" using assms unfolding scan_ATR_cases by simp
    have "bit_of (?Dx AND 0x0f) AND 3 \<noteq> 0"
      using le1[OF scan_TD1_ok(1)[OF e]] by (elim disjE) simp_all
    then show ?thesis using scan_TD1_ok(4)[OF e] True unfolding scan_ATR_cases by simp
  next
    case False
    then show ?thesis unfolding scan_ATR_cases by (simp add: prefix_keeps(2))
  qed
  show "ap_TD1 (scan_ATR at norm warm) AND 0x0f = 0 \<or> ap_TD1 (scan_ATR at norm warm) AND 0x0f = 1"
    if sp: "ap_specific (scan_ATR at norm warm)"
  proof (cases "at 1 AND 0x80 \<noteq> 0")
    case True
    then have e: "ap_error ?td = 0" using assms unfolding scan_ATR_cases by simp
    show ?thesis using le1[OF scan_TD1_ok(1)[OF e]] scan_TD1_ok(2)[OF e] True
      unfolding scan_ATR_cases by simp
  next
    case False
    then show ?thesis using sp unfolding scan_ATR_cases by (simp add: prefix_keeps(1))
  qed
qed

end
