(* ===== verification/CJ_CcidReader.thy ===== *)
theory CJ_CcidReader
  imports CJ_BaseReader
begin

text \<open>
  \<^verbatim>\<open>cjeca32/CCIDReader.cpp\<close> without the CT-BCS command interpreter: the exchange of a CCID message for
  its response (\<^verbatim>\<open>Transfer\<close>), the interrupt callback, the slot state, the selection of a protocol and
  the buffer management.
\<close>

section \<open>Transfer\<close>

text \<open>The loop that skips responses with a wrong sequence number.\<close>

function read_seq :: "comm \<Rightarrow> byte \<Rightarrow> ccid_response \<Rightarrow> cj_result \<times> ccid_response \<times> comm" where
  "read_seq c seq Response =
     (if rsp_bSeq Response = seq then (CJ_SUCCESS, Response, c)
      else (case com_Read c Response CCID_RESPONSE_SIZE of (Res, Response', Length, c') \<Rightarrow>
              if Res \<noteq> CJ_SUCCESS then (CJ_ERR_SEQ, Response', c')
              else read_seq c' seq Response'))"
  by pat_completeness auto
termination
  by (relation "measure (\<lambda>(c, seq, R). com_fuel c)") (auto dest!: sym [THEN com_Read_fuel])

declare read_seq.simps [simp del]

text \<open>What a response does to the card state, and the next sequence number.\<close>

definition transfer_status :: "reader \<Rightarrow> ccid_response \<Rightarrow> reader" where
  "transfer_status r Response =
     (let r1 = (if rsp_bStatus Response AND 3 \<noteq> 0
                then r\<lparr>m_ActiveProtocol := 0, m_ATR_Length := 0\<rparr> else r);
          r2 = (if rsp_bStatus Response AND 3 = 2 then r1\<lparr>m_ReaderState := SCARD_ABSENT\<rparr> else r1)
      in r2\<lparr>m_SequenceNo := m_SequenceNo r2 + 1\<rparr>)"

definition Transfer :: "reader \<Rightarrow> ccid_message \<Rightarrow> cj_result \<times> ccid_response \<times> reader" where
  "Transfer r Message =
     (case m_pCommunicator r of
        None \<Rightarrow> (CJ_ERR_DEVICE_LOST, g_stack r, r)
      | Some _ \<Rightarrow>
          (case reader_Write r (message_bytes (m_SequenceNo r) Message) (unat (10 + dwLength Message)) of
             (Res, r1) \<Rightarrow>
             if Res \<noteq> CJ_SUCCESS then (Res, g_stack r, r1)
             else (case m_pCommunicator r1 of
                None \<Rightarrow> (CJ_ERR_DEVICE_LOST, g_stack r, r1)
              | Some c \<Rightarrow>
                  (case com_Read c (g_stack r) CCID_RESPONSE_SIZE of (Res2, R2, _, c2) \<Rightarrow>
                     if Res2 \<noteq> CJ_SUCCESS then (Res2, R2, r1\<lparr>m_pCommunicator := Some c2\<rparr>)
                     else (case read_seq c2 (m_SequenceNo r) R2 of (Res3, R3, c3) \<Rightarrow>
                       let r3 = r1\<lparr>m_pCommunicator := Some c3\<rparr> in
                       if Res3 \<noteq> CJ_SUCCESS then (Res3, R3, r3)
                       else (CJ_SUCCESS, R3, transfer_status r3 R3))))))"

section \<open>Interrupts\<close>

definition DoInterruptCallback :: "reader \<Rightarrow> bytes \<Rightarrow> reader" where
  "DoInterruptCallback r Data =
     (if length Data = 2 then
        (if Data ! 0 = RDR_TO_PC_NOTIFYSLOTCHANGE then
           (if m_ChangeIntCallback r
            then r\<lparr>g_events := g_events r @ [ChangeEvent (Data ! 1 AND 1)]\<rparr> else r)
         else if Data ! 0 = RDR_TO_PC_KEYEVENT then
           (if m_KeyIntCallback r then r\<lparr>g_events := g_events r @ [KeyEvent (Data ! 1)]\<rparr> else r)
         else r)
      else r)"

section \<open>Slot state\<close>

definition IfdGetState :: "reader \<Rightarrow> ifd_result \<times> u32 \<times> reader" where
  "IfdGetState r =
     (case Transfer r (ccid_msg PC_TO_RDR_GETSLOTSTATUS 0 [0, 0, 0] []) of (Res, Response, r1) \<Rightarrow>
        if Res = CJ_SUCCESS then
          (if rsp_bMessageType Response \<noteq> RDR_TO_PC_SLOTSTATUS
           then (STATUS_SUCCESS, SCARD_UNKNOWN, r1)
           else if rsp_bStatus Response AND 3 = 0 then (STATUS_SUCCESS, m_ReaderState r1, r1)
           else if rsp_bStatus Response AND 3 = 1
           then (STATUS_SUCCESS, SCARD_SWALLOWED, r1\<lparr>m_ReaderState := SCARD_SWALLOWED\<rparr>)
           else (STATUS_SUCCESS, SCARD_ABSENT, r1\<lparr>m_ReaderState := SCARD_ABSENT\<rparr>))
        else (STATUS_DEVICE_NOT_CONNECTED, SCARD_UNKNOWN, r1))"

section \<open>Protocol selection\<close>

definition hex_digit :: "nat \<Rightarrow> char" where
  "hex_digit n = ''0123456789ABCDEF'' ! n"

definition hex2 :: "byte \<Rightarrow> string" where
  "hex2 b = [hex_digit (unat b div 16), hex_digit (unat b mod 16)]"

definition bufferTA1 :: "reader \<Rightarrow> string" where
  "bufferTA1 r = ''ReplaceTA1_'' @ hex2 (m_TA1 r)"

definition bufferTC1 :: "reader \<Rightarrow> string" where
  "bufferTC1 r = ''ReplaceTC1_'' @ concat (map hex2 (take (m_ATR_Length r) (m_ATR r)))"

text \<open>
  The \<^verbatim>\<open>SetParameters\<close> message: the protocol and its parameters, or none when no requested protocol is
  possible.
\<close>

definition protocol_message :: "reader \<Rightarrow> u32 \<Rightarrow> (byte \<times> ccid_message) option" where
  "protocol_message r Protocol =
     (let TC1 = ucast (GetEnviroment r (bufferTC1 r) (ucast (m_TC1 r)));
          TA1 = ucast (GetEnviroment r (bufferTA1 r) (ucast (m_TA1 r))) in
      if Protocol AND SCARD_PROTOCOL_T0 \<noteq> 0 \<and> m_PossibleProtocols r AND SCARD_PROTOCOL_T0 \<noteq> 0 then
        Some (0, ccid_msg PC_TO_RDR_SETPARAMETERS 5 [0, 0, 0] [TA1, 0, TC1, m_TC2 r, 0])
      else if Protocol AND SCARD_PROTOCOL_T1 \<noteq> 0 \<and> m_PossibleProtocols r AND SCARD_PROTOCOL_T1 \<noteq> 0 then
        Some (1, ccid_msg PC_TO_RDR_SETPARAMETERS 7 [1, 0, 0] [TA1, 0, TC1, m_TB3 r, 0, m_TA3 r, 0])
      else None)"

definition ccid_IfdSetProtocol :: "reader \<Rightarrow> u32 \<Rightarrow> ifd_result \<times> u32 \<times> reader" where
  "ccid_IfdSetProtocol r Protocol =
     (if m_ReaderState r = SCARD_ABSENT then (STATUS_NO_MEDIA, 0, r)
      else if m_ReaderState r = SCARD_NEGOTIABLE then
        (if m_ATR r ! 0 = 0xff \<or> m_ATR r ! 0 AND 0xf0 = 0x80
         then (STATUS_SUCCESS, SCARD_PROTOCOL_RAW, r)
         else
           (let P = (if Protocol AND (SCARD_PROTOCOL_DEFAULT OR SCARD_PROTOCOL_OPTIMAL) \<noteq> 0
                     then Protocol OR (SCARD_PROTOCOL_T0 OR SCARD_PROTOCOL_T1) else Protocol) in
            case protocol_message r P of
              None \<Rightarrow> (STATUS_INVALID_DEVICE_REQUEST, 0, r)
            | Some (num, Message) \<Rightarrow>
                (case Transfer r Message of (Res, Response, r1) \<Rightarrow>
                   if Res = CJ_SUCCESS then
                     (if rsp_bStatus Response AND 3 = 2 then (STATUS_NO_MEDIA, 0, r1)
                      else if rsp_bStatus Response AND 3 = 1 \<or> rsp_bStatus Response AND 0x40 \<noteq> 0
                      then (STATUS_IO_TIMEOUT, 0, r1)
                      else
                        (let a = (if num = 0 then SCARD_PROTOCOL_T0 else SCARD_PROTOCOL_T1) in
                         (STATUS_SUCCESS, a, r1\<lparr>m_ActiveProtocol := a, m_ReaderState := SCARD_SPECIFIC\<rparr>)))
                   else (STATUS_DEVICE_NOT_CONNECTED, 0, r1))))
      else if m_ReaderState r = SCARD_SPECIFIC then
        (let P = (if Protocol AND (SCARD_PROTOCOL_DEFAULT OR SCARD_PROTOCOL_OPTIMAL) \<noteq> 0
                  then Protocol OR (SCARD_PROTOCOL_T0 OR SCARD_PROTOCOL_T1 OR SCARD_PROTOCOL_RAW)
                  else Protocol) in
         if m_ActiveProtocol r AND P \<noteq> 0 then (STATUS_SUCCESS, m_ActiveProtocol r, r)
         else (STATUS_NOT_SUPPORTED, 0, r))
      else (STATUS_IO_TIMEOUT, 0, r))"

section \<open>Input buffer\<close>

text \<open>
  \<^verbatim>\<open>CopyIfdInput\<close>, with an allocation that succeeds: \<^verbatim>\<open>ifd_in_buffer_len\<close> is a 16 bit field, and the
  copy leaves the buffer when the new size was cut.
\<close>

definition CopyIfdInput :: "reader \<Rightarrow> u32 \<Rightarrow> bool \<times> reader" where
  "CopyIfdInput r Length =
     (let r1 = (if unat (ifd_in_buffer_len r) < unat Length
                then r\<lparr>ifd_in_buffer_len := ucast (Length + 4096)\<rparr> else r) in
      (False, r1\<lparr>g_overrun := g_overrun r1 \<or> unat Length > unat (ifd_in_buffer_len r1)\<rparr>))"

definition TransformText :: "bytes \<Rightarrow> bytes" where
  "TransformText = map (\<lambda>b. if b = 0x0d then 0x0a else b)"

section \<open>Transfer: safety\<close>

text \<open>
  The invariant of a reader object that the exchange relies on: its communicator is sound, the
  buffers have their declared sizes, the ATR length is within the ATR buffer unless an answer to select
  was copied over its end.
\<close>

definition reader_inv :: "reader \<Rightarrow> bool" where
  "reader_inv r \<longleftrightarrow> (\<forall>c. m_pCommunicator r = Some c \<longrightarrow> com_inv c) \<and> length (g_stack r) = 2048
     \<and> length (m_ATR r) = 33 \<and> (m_ATR_Length r \<le> 33 \<or> g_atr_overrun r)"

lemma reader_Write_spec:
  assumes "reader_inv r" and "reader_Write r msg len = (Res, r')"
  shows "reader_inv r'
    \<and> (Res = CJ_SUCCESS \<longrightarrow> (\<exists>c c'. m_pCommunicator r = Some c \<and> com_Write c (take len msg) = (CJ_SUCCESS, c')
          \<and> r' = r\<lparr>m_pCommunicator := Some c'\<rparr> \<and> com_inv c' \<and> com_IsConnected c'
          \<and> len \<le> GetReadersInputBufferSize r))
    \<and> (Res \<noteq> CJ_SUCCESS \<longrightarrow> (Res = CJ_ERR_DEVICE_LOST \<and> r' = r\<lparr>m_pCommunicator := None\<rparr>)
          \<or> (Res = CJ_ERR_INTERNAL_BUFFER_OVERFLOW \<and> r' = r))"
proof (cases "m_pCommunicator r")
  case None
  then have "r = r\<lparr>m_pCommunicator := None\<rparr>" by simp
  then show ?thesis using None assms by (auto simp: reader_Write_def)
next
  case (Some c)
  obtain res c' where w: "com_Write c (take len msg) = (res, c')" by fastforce
  have "com_inv c" using assms(1) Some by (simp add: reader_inv_def)
  from com.wr_law[OF this w] Some w assms show ?thesis
    by (auto simp: reader_Write_def reader_inv_def ConnectionError_def split: if_splits)
qed

lemma read_seq_law:
  "com_inv c \<Longrightarrow> com_IsConnected c \<Longrightarrow> length R = 2048 \<Longrightarrow> read_seq c seq R = (Res, R', c') \<Longrightarrow>
     com_inv c' \<and> length R' = 2048 \<and> (Res = CJ_SUCCESS \<or> Res = CJ_ERR_SEQ)
     \<and> (Res = CJ_SUCCESS \<longrightarrow> rsp_bSeq R' = seq \<and> com_IsConnected c')
     \<and> (Res \<noteq> CJ_SUCCESS \<longrightarrow> \<not> com_IsConnected c')"
proof (induction c seq R arbitrary: Res R' c' rule: read_seq.induct)
  case (1 c seq R)
  show ?case
  proof (cases "rsp_bSeq R = seq")
    case True
    then show ?thesis using "1.prems" by (auto simp: read_seq.simps[of c])
  next
    case False
    obtain r1 R1 n1 c1 where rd: "com_Read c R CCID_RESPONSE_SIZE = (r1, R1, n1, c1)"
      by (metis prod_cases4)
    have law: "com_inv c1 \<and> length R1 = 2048 \<and> (r1 = CJ_SUCCESS \<longrightarrow> com_IsConnected c1)
       \<and> (r1 \<noteq> CJ_SUCCESS \<longrightarrow> \<not> com_IsConnected c1)"
      using com.rd_law[OF "1.prems"(1,2) _ rd] "1.prems"(3) by simp
    show ?thesis
    proof (cases "r1 = CJ_SUCCESS")
      case True
      then have "read_seq c1 seq R1 = (Res, R', c')"
        using False rd "1.prems"(4) by (simp add: read_seq.simps[of c])
      with "1.IH"[OF False rd[symmetric] refl refl] True law show ?thesis by simp
    next
      case ne: False
      then show ?thesis using False rd "1.prems"(4) law by (auto simp: read_seq.simps[of c])
    qed
  qed
qed

lemma transfer_status_simps [simp]:
  "m_pCommunicator (transfer_status r R) = m_pCommunicator r"
  "m_ATR (transfer_status r R) = m_ATR r" "g_stack (transfer_status r R) = g_stack r"
  "m_SequenceNo (transfer_status r R) = m_SequenceNo r + 1"
  "m_class (transfer_status r R) = m_class r"
  "m_PossibleProtocols (transfer_status r R) = m_PossibleProtocols r"
  "g_overrun (transfer_status r R) = g_overrun r" "g_atr_overrun (transfer_status r R) = g_atr_overrun r"
  "m_ATR_Length (transfer_status r R) = (if rsp_bStatus R AND 3 \<noteq> 0 then 0 else m_ATR_Length r)"
  "m_ActiveProtocol (transfer_status r R) = (if rsp_bStatus R AND 3 \<noteq> 0 then 0 else m_ActiveProtocol r)"
  "m_ReaderState (transfer_status r R) = (if rsp_bStatus R AND 3 = 2 then SCARD_ABSENT else m_ReaderState r)"
  by (simp_all add: transfer_status_def Let_def)

text \<open>The three ways \<^verbatim>\<open>Transfer\<close> can go: no communicator, a failed write, a message sent.\<close>

lemma Transfer_none:
  "m_pCommunicator r = None \<Longrightarrow> Transfer r m = (CJ_ERR_DEVICE_LOST, g_stack r, r)"
  by (simp add: Transfer_def)

lemma Transfer_wfail:
  "m_pCommunicator r = Some c \<Longrightarrow> Res \<noteq> CJ_SUCCESS \<Longrightarrow>
   reader_Write r (message_bytes (m_SequenceNo r) m) (unat (10 + dwLength m)) = (Res, r1) \<Longrightarrow>
   Transfer r m = (Res, g_stack r, r1)"
  by (simp add: Transfer_def)

lemma Transfer_sent:
  "m_pCommunicator r = Some c0 \<Longrightarrow>
   reader_Write r (message_bytes (m_SequenceNo r) m) (unat (10 + dwLength m))
     = (CJ_SUCCESS, r\<lparr>m_pCommunicator := Some c\<rparr>) \<Longrightarrow>
   com_Read c (g_stack r) CCID_RESPONSE_SIZE = (Res2, R2, n2, c2) \<Longrightarrow>
   Transfer r m = (if Res2 \<noteq> CJ_SUCCESS then (Res2, R2, r\<lparr>m_pCommunicator := Some c2\<rparr>)
     else (case read_seq c2 (m_SequenceNo r) R2 of (Res3, R3, c3) \<Rightarrow>
        if Res3 \<noteq> CJ_SUCCESS then (Res3, R3, r\<lparr>m_pCommunicator := Some c3\<rparr>)
        else (CJ_SUCCESS, R3, transfer_status (r\<lparr>m_pCommunicator := Some c3\<rparr>) R3)))"
  by (simp add: Transfer_def split: prod.splits)

lemma reader_inv_comm:
  "reader_inv r \<Longrightarrow> (\<And>x. c = Some x \<Longrightarrow> com_inv x) \<Longrightarrow> reader_inv (r\<lparr>m_pCommunicator := c\<rparr>)"
  by (simp add: reader_inv_def)

lemma reader_inv_status: "reader_inv r \<Longrightarrow> reader_inv (transfer_status r R)"
  by (simp add: reader_inv_def)

text \<open>Everything the callers of \<^verbatim>\<open>Transfer\<close> use, as one predicate of the result.\<close>

definition transfer_post :: "reader \<Rightarrow> cj_result \<Rightarrow> ccid_response \<Rightarrow> reader \<Rightarrow> bool" where
  "transfer_post r Res R r' \<longleftrightarrow> reader_inv r' \<and> length R = 2048
     \<and> (Res = CJ_SUCCESS \<longrightarrow> rsp_bSeq R = m_SequenceNo r
         \<and> (\<exists>c. r' = transfer_status (r\<lparr>m_pCommunicator := c\<rparr>) R))
     \<and> (Res \<noteq> CJ_SUCCESS \<longrightarrow> Res \<in> {CJ_ERR_DEVICE_LOST, CJ_ERR_SEQ, CJ_ERR_INTERNAL_BUFFER_OVERFLOW}
         \<and> (\<exists>c. r' = r\<lparr>m_pCommunicator := c\<rparr>)
         \<and> (Res = CJ_ERR_INTERNAL_BUFFER_OVERFLOW \<or> \<not> reader_IsConnected r'))"

lemma Transfer_sent_law:
  assumes "reader_inv r" and "m_pCommunicator r = Some c0"
    and w: "reader_Write r (message_bytes (m_SequenceNo r) m) (unat (10 + dwLength m))
      = (CJ_SUCCESS, r\<lparr>m_pCommunicator := Some c\<rparr>)" and "com_inv c" "com_IsConnected c"
    and t: "Transfer r m = (Res, R, r')"
  shows "transfer_post r Res R r'"
proof -
  obtain r2 R2 n2 c2 where rd: "com_Read c (g_stack r) CCID_RESPONSE_SIZE = (r2, R2, n2, c2)"
    by (metis prod_cases4)
  obtain r3 R3 c3 where sq: "read_seq c2 (m_SequenceNo r) R2 = (r3, R3, c3)" by (metis prod_cases3)
  have law2: "com_inv c2" "length R2 = 2048" "r2 = CJ_SUCCESS \<Longrightarrow> com_IsConnected c2"
     "r2 \<noteq> CJ_SUCCESS \<Longrightarrow> r2 = CJ_ERR_DEVICE_LOST \<and> \<not> com_IsConnected c2"
    using com.rd_law[OF assms(4,5) _ rd] assms(1) by (simp_all add: reader_inv_def)
  note eq = Transfer_sent[OF assms(2) w rd, unfolded t sq, simplified]
  show ?thesis
  proof (cases "r2 = CJ_SUCCESS")
    case False
    then have "Res = r2" "R = R2" "r' = r\<lparr>m_pCommunicator := Some c2\<rparr>" using eq by simp_all
    then show ?thesis using False law2 assms(1)
      by (auto simp: transfer_post_def reader_IsConnected_def intro: reader_inv_comm)
  next
    case True
    note law3 = read_seq_law[OF law2(1) law2(3)[OF True] law2(2) sq]
    show ?thesis
    proof (cases "r3 = CJ_SUCCESS")
      case False
      then have "Res = r3" "R = R3" "r' = r\<lparr>m_pCommunicator := Some c3\<rparr>" using eq True by simp_all
      then show ?thesis using False law3 assms(1)
        by (auto simp: transfer_post_def reader_IsConnected_def intro: reader_inv_comm)
    next
      case ok: True
      then have "Res = CJ_SUCCESS" "R = R3" "r' = transfer_status (r\<lparr>m_pCommunicator := Some c3\<rparr>) R3"
        using eq True by simp_all
      then show ?thesis using ok law3 assms(1)
        by (auto simp: transfer_post_def intro!: reader_inv_status reader_inv_comm)
    qed
  qed
qed

lemma Transfer_post:
  assumes "reader_inv r" and t: "Transfer r m = (Res, R, r')"
  shows "transfer_post r Res R r'"
proof (cases "m_pCommunicator r")
  case None
  then have "Res = CJ_ERR_DEVICE_LOST" "R = g_stack r" "r' = r" using t by (auto simp: Transfer_none)
  moreover have "\<exists>c. r = r\<lparr>m_pCommunicator := c\<rparr>" using None by (intro exI[of _ None]) simp
  ultimately show ?thesis using None assms(1)
    by (auto simp: transfer_post_def reader_inv_def reader_IsConnected_def)
next
  case (Some c0)
  obtain res r1 where w: "reader_Write r (message_bytes (m_SequenceNo r) m) (unat (10 + dwLength m))
      = (res, r1)" by fastforce
  note ws = reader_Write_spec[OF assms(1) w]
  show ?thesis
  proof (cases "res = CJ_SUCCESS")
    case False
    then have e: "Res = res" "R = g_stack r" "r' = r1"
      using t Transfer_wfail[OF Some False w] by simp_all
    have "\<exists>c. r = r\<lparr>m_pCommunicator := c\<rparr>" by (intro exI[of _ "m_pCommunicator r"]) simp
    then show ?thesis unfolding e using ws False assms(1)
      by (auto simp: transfer_post_def reader_IsConnected_def reader_inv_def)
  next
    case True
    then obtain c where "r1 = r\<lparr>m_pCommunicator := Some c\<rparr>" "com_inv c" "com_IsConnected c"
      using ws by blast
    then show ?thesis using Transfer_sent_law[OF assms(1) Some _ _ _ t] w True by simp
  qed
qed

lemmas Transfer_postD = Transfer_post [unfolded transfer_post_def]

lemma Transfer_frame:
  assumes "reader_inv r" and "Transfer r m = (Res, R, r')"
  shows "reader_inv r'" "m_ATR r' = m_ATR r" "m_class r' = m_class r" "g_overrun r' = g_overrun r"
    "m_PossibleProtocols r' = m_PossibleProtocols r" "g_stack r' = g_stack r" "length R = 2048"
  using Transfer_postD[OF assms] by auto

section \<open>Transfer: termination of its callers\<close>

text \<open>A successful exchange uses up some of what the line has to give.\<close>

definition rfuel :: "reader \<Rightarrow> nat" where
  "rfuel r = (case m_pCommunicator r of None \<Rightarrow> 0 | Some c \<Rightarrow> com_fuel c)"

lemma com_Write_fuel: "com_Write c m = (r, c') \<Longrightarrow> com_fuel c' \<le> com_fuel c"
proof (cases c)
  case (USB u)
  then show "com_Write c m = (r, c') \<Longrightarrow> com_fuel c' \<le> com_fuel c"
    by (auto simp: usb_Write_def Let_def ausb_bulk_write_def usb_Close_def
        split: prod.splits list.splits if_splits)
next
  case (Serial s)
  then show "com_Write c m = (r, c') \<Longrightarrow> com_fuel c' \<le> com_fuel c"
    by (auto split: prod.splits dest: serial_Write_size)
qed

lemma read_seq_fuel: "read_seq c seq R = (CJ_SUCCESS, R', c') \<Longrightarrow> com_fuel c' \<le> com_fuel c"
proof (induction c seq R arbitrary: R' c' rule: read_seq.induct)
  case (1 c seq R)
  obtain r1 R1 n1 c1 where rd: "com_Read c R CCID_RESPONSE_SIZE = (r1, R1, n1, c1)"
    by (metis prod_cases4)
  show ?case
  proof (cases "rsp_bSeq R = seq")
    case True
    then show ?thesis using "1.prems" by (simp add: read_seq.simps[of c])
  next
    case False
    then have "r1 = CJ_SUCCESS" "read_seq c1 seq R1 = (CJ_SUCCESS, R', c')"
      using "1.prems" rd by (auto simp: read_seq.simps[of c] split: if_splits)
    with "1.IH"[OF False rd[symmetric] refl refl] com_Read_fuel[of c R CCID_RESPONSE_SIZE R1 n1 c1] rd
    show ?thesis by simp
  qed
qed

lemma Transfer_fuel: "Transfer r m = (CJ_SUCCESS, R, r') \<Longrightarrow> rfuel r' < rfuel r"
  by (auto simp: Transfer_def reader_Write_def rfuel_def Let_def ConnectionError_def
      split: option.splits prod.splits if_splits
      dest!: com_Write_fuel com_Read_fuel read_seq_fuel)

section \<open>Transfer: function\<close>

text \<open>A response that carries the sequence number \<open>q\<close>, as it arrives in one bulk transfer.\<close>

definition answers :: "byte \<Rightarrow> bytes \<Rightarrow> bool" where
  "answers q bs \<longleftrightarrow> 7 \<le> length bs \<and> length bs \<le> 2048 \<and> bs ! 6 = q"

lemma usb_read_one:
  assumes "u_devHandle u" and "u_in u = Some bs # rest" and "length bs \<le> 2048" and "length R = 2048"
  shows "com_Read (USB u) R CCID_RESPONSE_SIZE
    = (CJ_SUCCESS, overlay 0 bs R, length bs, USB (u\<lparr>u_in := rest\<rparr>))"
  using assms by (simp add: usb_Read_def ausb_bulk_read_def base_com_result_def usb_IsConnected_def)

lemma overlay_seq: "7 \<le> length bs \<Longrightarrow> rsp_bSeq (overlay 0 bs R) = bs ! 6"
  by (simp add: rsp_bSeq_def overlay_def nth_append)

lemma read_seq_usb:
  assumes "u_devHandle u" and "u_in u = map Some skipped @ Some good # rest"
    and "\<forall>x \<in> set skipped. \<exists>q. q \<noteq> seq \<and> answers q x" and "answers seq good"
    and "length R = 2048" and "rsp_bSeq R \<noteq> seq"
  shows "\<exists>R'. read_seq (USB u) seq R = (CJ_SUCCESS, R', USB (u\<lparr>u_in := rest\<rparr>)) \<and> length R' = 2048
     \<and> take (length good) R' = good"
  using assms
proof (induction skipped arbitrary: u R)
  case Nil
  then have g: "length good \<le> 2048" "7 \<le> length good" "good ! 6 = seq" by (simp_all add: answers_def)
  have rd: "com_Read (USB u) R CCID_RESPONSE_SIZE
      = (CJ_SUCCESS, overlay 0 good R, length good, USB (u\<lparr>u_in := rest\<rparr>))"
    using usb_read_one[OF Nil.prems(1) _ g(1) Nil.prems(5)] Nil.prems(2) by simp
  have "read_seq (USB (u\<lparr>u_in := rest\<rparr>)) seq (overlay 0 good R)
      = (CJ_SUCCESS, overlay 0 good R, USB (u\<lparr>u_in := rest\<rparr>))"
    using overlay_seq[OF g(2)] g(3) by (simp add: read_seq.simps)
  then show ?case
    using Nil.prems rd g by (subst read_seq.simps) (simp add: take_overlay_zero)
next
  case (Cons x skipped)
  obtain q where q: "q \<noteq> seq" "length x \<le> 2048" "7 \<le> length x" "x ! 6 = q"
    using Cons.prems(3) by (auto simp: answers_def)
  let ?u = "u\<lparr>u_in := map Some skipped @ Some good # rest\<rparr>"
  have rd: "com_Read (USB u) R CCID_RESPONSE_SIZE = (CJ_SUCCESS, overlay 0 x R, length x, USB ?u)"
    using usb_read_one[OF Cons.prems(1) _ q(2) Cons.prems(5)] Cons.prems(2) by simp
  have "\<exists>R'. read_seq (USB ?u) seq (overlay 0 x R) = (CJ_SUCCESS, R', USB (?u\<lparr>u_in := rest\<rparr>))
      \<and> length R' = 2048 \<and> take (length good) R' = good"
    using Cons.IH[of ?u "overlay 0 x R"] Cons.prems q overlay_seq[OF q(3), of R] by auto
  then show ?case
    using Cons.prems(6) rd by (subst read_seq.simps) simp
qed

lemma reader_Write_usb:
  assumes "m_pCommunicator r = Some (USB u)" and "u_devHandle u" and "u_out u = []"
    and "n \<le> GetReadersInputBufferSize r"
  shows "reader_Write r msg n = (CJ_SUCCESS,
    r\<lparr>m_pCommunicator := Some (USB (u\<lparr>u_sent := u_sent u @ [take n msg]\<rparr>))\<rparr>)"
  using assms by (simp add: reader_Write_def usb_Write_def base_com_result_def usb_IsConnected_def
      ausb_bulk_write_def)

lemma Transfer_usb_run:
  assumes "m_pCommunicator r = Some (USB u)" and "u_devHandle u" and "u_out u = []"
    and "length (g_stack r) = 2048"
    and "unat (10 + dwLength m) \<le> GetReadersInputBufferSize r"
    and "u_in u = map Some skipped @ Some good # rest"
    and "\<forall>x \<in> set skipped. \<exists>q. q \<noteq> m_SequenceNo r \<and> answers q x" and "answers (m_SequenceNo r) good"
  shows "\<exists>R r'. Transfer r m = (CJ_SUCCESS, R, r') \<and> take (length good) R = good
     \<and> m_SequenceNo r' = m_SequenceNo r + 1
     \<and> m_pCommunicator r' = Some (USB (u\<lparr>u_in := rest,
          u_sent := u_sent u @ [take (unat (10 + dwLength m)) (message_bytes (m_SequenceNo r) m)]\<rparr>))"
proof -
  define sent where "sent = take (unat (10 + dwLength m)) (message_bytes (m_SequenceNo r) m)"
  let ?u = "u\<lparr>u_sent := u_sent u @ [sent]\<rparr>"
  note w = reader_Write_usb[OF assms(1-3,5), of "message_bytes (m_SequenceNo r) m", folded sent_def]
  obtain x xs where u_in: "u_in ?u = Some x # map Some xs @ rest" and x: "length x \<le> 2048" "7 \<le> length x"
    and split: "(x = good \<and> xs = []) \<or>
      (\<exists>sk. skipped = x # sk \<and> xs = sk @ [good] \<and> x ! 6 \<noteq> m_SequenceNo r)"
  proof (cases skipped)
    case Nil
    then show ?thesis using that[of good "[]"] assms(6,8) by (simp add: answers_def)
  next
    case (Cons y sk)
    then show ?thesis using that[of y "sk @ [good]"] assms(6,7) by (auto simp: answers_def)
  qed
  let ?R = "overlay 0 x (g_stack r)" and ?u2 = "?u\<lparr>u_in := map Some xs @ rest\<rparr>"
  have rd: "com_Read (USB ?u) (g_stack r) CCID_RESPONSE_SIZE = (CJ_SUCCESS, ?R, length x, USB ?u2)"
    using usb_read_one[of ?u x "map Some xs @ rest" "g_stack r"] u_in x assms(2,4) by simp
  have "\<exists>R'. read_seq (USB ?u2) (m_SequenceNo r) ?R = (CJ_SUCCESS, R', USB (?u2\<lparr>u_in := rest\<rparr>))
      \<and> take (length good) R' = good"
    using split
  proof
    assume "x = good \<and> xs = []"
    then show ?thesis using overlay_seq[OF x(2), of "g_stack r"] assms(8)
      by (simp add: read_seq.simps answers_def take_overlay_zero)
  next
    assume "\<exists>sk. skipped = x # sk \<and> xs = sk @ [good] \<and> x ! 6 \<noteq> m_SequenceNo r"
    then obtain sk where sk: "skipped = x # sk" "xs = sk @ [good]" "x ! 6 \<noteq> m_SequenceNo r" by blast
    then show ?thesis
      using read_seq_usb[of ?u2 sk good rest "m_SequenceNo r" ?R] assms(2,4,7,8) x
        overlay_seq[OF x(2), of "g_stack r"] by auto
  qed
  then show ?thesis
    using Transfer_sent[OF assms(1) w rd] by (auto simp: sent_def)
qed

text \<open>
  Property C15.  \<^verbatim>\<open>Transfer\<close> over USB sends the message once, with the current sequence number, reads over
  every response that carries another number, and returns the first one that carries it: its bytes
  stand at the start of the response buffer, later transfers stay unread, and the sequence number
  advances by one.
\<close>

theorem Transfer_usb_exchange:
  assumes "m_pCommunicator r = Some (USB u)" and "u_devHandle u" and "u_out u = []"
    and "length (g_stack r) = 2048"
    and "unat (10 + dwLength m) \<le> GetReadersInputBufferSize r"
    and "u_in u = map Some skipped @ Some good # rest"
    and "\<forall>x \<in> set skipped. \<exists>q. q \<noteq> m_SequenceNo r \<and> answers q x" and "answers (m_SequenceNo r) good"
  shows "\<exists>R r'. Transfer r m = (CJ_SUCCESS, R, r') \<and> take (length good) R = good
     \<and> m_SequenceNo r' = m_SequenceNo r + 1
     \<and> m_pCommunicator r' = Some (USB (u\<lparr>u_in := rest,
          u_sent := u_sent u @ [take (unat (10 + dwLength m)) (message_bytes (m_SequenceNo r) m)]\<rparr>))"
  by (rule Transfer_usb_run[OF assms])

text \<open>A reader to evaluate the definitions on.\<close>

definition info0 :: reader_info where
  "info0 = \<lparr>ri_ContentsMask = 0, ri_PID = 0, ri_HardwareMask = 0, ri_Version = 0, ri_HardwareVersion = 0,
     ri_FlashSize = 0, ri_HeapSize = 0, ri_Keys = [], ri_SeriaNumber = [], ri_ProductString = [], ri_ProductionDate = [],
     ri_ProductionTime = [], ri_TestDate = [], ri_TestTime = [], ri_CommissioningDate = [],
     ri_CommissioningTime = [], ri_CommunicationString = [], ri_HardwareString = []\<rparr>"

definition reader0 :: "reader_class \<Rightarrow> comm option \<Rightarrow> reader" where
  "reader0 cls c = \<lparr>m_class = cls, m_pCommunicator = c, m_ReaderInfo = info0, m_pModuleInfo = None,
     m_ModuleInfoCount = 0, m_ReaderState = 0, m_ActiveProtocol = 0, m_PossibleProtocols = 0,
     m_ATR = replicate 33 0, m_ATR_Length = 0, m_Historical = None, m_Historical_Length = 0,
     m_TA1 = 0, m_TC1 = 0, m_TC2 = 0, m_TA3 = 0, m_TB3 = 0, m_TC3 = 0, m_ApduNorm = NORM_PCSC,
     m_bIsRF = False, m_iic_offset_bytes = 0, m_iic_pagesize = 0, m_SequenceNo = 0,
     m_SerialNumber = [], m_KeyIntCallback = False, m_ChangeIntCallback = False,
     m_pApplicationResponse = [],     cmd_buffer_len = 0, ifd_in_buffer_len = 0, environment = (\<lambda>_. None), package_version = [0x33, 0x2e, 0x33, 0x2e, 0x36], g_events = [],
     g_stack = replicate 2048 0, g_over = (\<lambda>_. 0), g_overrun = False, g_atr_overrun = False\<rparr>"

definition slot_status :: "byte \<Rightarrow> byte \<Rightarrow> bytes" where
  "slot_status seq status = [0x81, 0, 0, 0, 0, 0, seq, status, 0, 0]"

lemma slot_status_answers: "answers seq (slot_status seq st)" "length (slot_status seq st) = 10"
  by (simp_all add: answers_def slot_status_def)

lemma Transfer_usb_exchange_witness:
  "\<exists>R r'. Transfer (reader0 ECA (Some (USB (usb0 [Some (slot_status 7 0), Some (slot_status 0 1)]))))
        (ccid_msg PC_TO_RDR_GETSLOTSTATUS 0 [0, 0, 0] []) = (CJ_SUCCESS, R, r')
     \<and> take 10 R = slot_status 0 1 \<and> m_SequenceNo r' = 1"
proof -
  let ?u = "usb0 [Some (slot_status 7 0), Some (slot_status 0 1)]"
  let ?r = "reader0 ECA (Some (USB ?u))" and ?m = "ccid_msg PC_TO_RDR_GETSLOTSTATUS 0 [0, 0, 0] []"
  have "\<exists>q. q \<noteq> m_SequenceNo ?r \<and> answers q (slot_status 7 0)"
    by (intro exI[of _ 7]) (simp add: slot_status_answers reader0_def)
  then show ?thesis
    using Transfer_usb_exchange[of ?r ?u ?m "[slot_status 7 0]" "slot_status 0 1" "[]"]
    by (auto simp: reader0_def usb0_def slot_status_answers GetReadersInputBufferSize_def is_rfid_class_def)
qed

text \<open>
  Property C16.  Whatever the device answers, \<^verbatim>\<open>Transfer\<close> keeps the reader sound (in particular it never
  reads from a closed USB handle), returns success only with the response to its own sequence
  number, and fails only with one of three codes; a failed exchange leaves the sequence number and
  the card state as they were, and unless the message was too long the reader is disconnected.
\<close>

theorem Transfer_sound:
  assumes "reader_inv r"
  shows "case Transfer r m of (Res, R, r') \<Rightarrow>
     reader_inv r' \<and> (\<forall>u. m_pCommunicator r' = Some (USB u) \<longrightarrow> \<not> u_null_read u)
     \<and> (if Res = CJ_SUCCESS then rsp_bSeq R = m_SequenceNo r \<and> m_SequenceNo r' = m_SequenceNo r + 1
            \<and> (rsp_bStatus R AND 3 \<noteq> 0 \<longrightarrow> m_ActiveProtocol r' = 0 \<and> m_ATR_Length r' = 0)
        else Res \<in> {CJ_ERR_DEVICE_LOST, CJ_ERR_SEQ, CJ_ERR_INTERNAL_BUFFER_OVERFLOW}
            \<and> m_SequenceNo r' = m_SequenceNo r \<and> m_ReaderState r' = m_ReaderState r
            \<and> (Res = CJ_ERR_INTERNAL_BUFFER_OVERFLOW \<or> \<not> reader_IsConnected r'))"
proof -
  obtain Res R r' where t: "Transfer r m = (Res, R, r')" by (metis prod_cases3)
  note p = Transfer_postD[OF assms t]
  have "\<not> u_null_read u" if "m_pCommunicator r' = Some (USB u)" for u
    using p that by (auto simp: reader_inv_def usb_inv_def)
  then show ?thesis using p unfolding t by (auto split: if_splits)
qed

lemma reader0_inv: "reader_inv (reader0 cls (Some (USB (usb0 i))))" "reader_inv (reader0 cls None)"
  by (simp_all add: reader_inv_def reader0_def usb0_def usb_inv_def)

lemma Transfer_sound_witness:
  "case Transfer (reader0 ECA (Some (USB (usb0 [])))) (ccid_msg PC_TO_RDR_GETSLOTSTATUS 0 [0, 0, 0] [])
     of (Res, R, r') \<Rightarrow> reader_inv r' \<and> (Res \<noteq> CJ_SUCCESS \<longrightarrow> m_SequenceNo r' = 0)"
  using Transfer_sound[OF reader0_inv(1)[of ECA "[]"],
      of "ccid_msg PC_TO_RDR_GETSLOTSTATUS 0 [0, 0, 0] []"]
  by (auto simp: reader0_def split: prod.splits if_splits)

section \<open>Protocol selection: correctness\<close>

lemma protocol_message_cases:
  assumes "protocol_message r P = Some (num, m)"
  shows "(num = 0 \<and> P AND 1 \<noteq> 0 \<and> m_PossibleProtocols r AND 1 \<noteq> 0)
     \<or> (num = 1 \<and> P AND 2 \<noteq> 0 \<and> m_PossibleProtocols r AND 2 \<noteq> 0)"
  using assms by (auto simp: protocol_message_def Let_def split: if_splits)

text \<open>
  Property C20.  When \<^verbatim>\<open>IfdSetProtocol\<close> succeeds on a negotiable card with an asynchronous ATR, the
  protocol it reports is T=0 or T=1, is one the ATR offers and the caller asked for (or asked for the
  default), has become the active protocol, and the card is in the specific state; when it fails the
  reported protocol is 0.
\<close>

theorem IfdSetProtocol_sound:
  assumes "reader_inv r" and "m_ReaderState r = SCARD_NEGOTIABLE"
    and "m_ATR r ! 0 \<noteq> 0xff" and "m_ATR r ! 0 AND 0xf0 \<noteq> 0x80"
    and "ccid_IfdSetProtocol r Protocol = (Res, P, r')"
  shows "reader_inv r' \<and> (Res = STATUS_SUCCESS \<longrightarrow>
       P \<in> {SCARD_PROTOCOL_T0, SCARD_PROTOCOL_T1} \<and> P AND m_PossibleProtocols r \<noteq> 0
       \<and> (P AND Protocol \<noteq> 0 \<or> Protocol AND SCARD_PROTOCOL_DEFAULT \<noteq> 0)
       \<and> m_ActiveProtocol r' = P \<and> m_ReaderState r' = SCARD_SPECIFIC)
     \<and> (Res \<noteq> STATUS_SUCCESS \<longrightarrow> P = 0)"
proof -
  let ?P = "if Protocol AND 0x80000000 \<noteq> 0 then Protocol OR 3 else Protocol"
  show ?thesis
  proof (cases "protocol_message r ?P")
    case None
    then show ?thesis using assms by (auto simp: ccid_IfdSetProtocol_def Let_def split: if_splits)
  next
    case (Some nm)
    obtain num m where nm: "nm = (num, m)" by fastforce
    obtain R1 Rsp r1 where t: "Transfer r m = (R1, Rsp, r1)" by (metis prod_cases3)
    have inv: "reader_inv r1" by (rule Transfer_frame(1)[OF assms(1) t])
    have pm: "(num = 0 \<and> ?P AND 1 \<noteq> 0 \<and> m_PossibleProtocols r AND 1 \<noteq> 0)
       \<or> (num = 1 \<and> ?P AND 2 \<noteq> 0 \<and> m_PossibleProtocols r AND 2 \<noteq> 0)"
      using protocol_message_cases[of r ?P num m] Some nm by simp
    have inv': "reader_inv (r1\<lparr>m_ActiveProtocol := a, m_ReaderState := b\<rparr>)" for a b
      using inv by (simp add: reader_inv_def)
    show ?thesis
      using assms(2-5) Some nm t inv inv' pm
      by (auto simp: ccid_IfdSetProtocol_def Let_def and.commute split: if_splits)
  qed
qed

lemma IfdSetProtocol_sound_witness:
  "let r = (reader0 ECA (Some (USB (usb0 [Some (slot_status 0 0)]))))
        \<lparr>m_ReaderState := SCARD_NEGOTIABLE, m_ATR := 0x3b # replicate 32 0, m_PossibleProtocols := 3\<rparr>
   in case ccid_IfdSetProtocol r SCARD_PROTOCOL_T1 of (Res, P, r') \<Rightarrow>
        reader_inv r' \<and> (Res = STATUS_SUCCESS \<longrightarrow> P = SCARD_PROTOCOL_T1 \<and> m_ReaderState r' = SCARD_SPECIFIC)"
proof -
  let ?r = "(reader0 ECA (Some (USB (usb0 [Some (slot_status 0 0)]))))
        \<lparr>m_ReaderState := SCARD_NEGOTIABLE, m_ATR := 0x3b # replicate 32 0, m_PossibleProtocols := 3\<rparr>"
  have "reader_inv ?r" by (simp add: reader_inv_def reader0_def usb0_def usb_inv_def)
  from IfdSetProtocol_sound[OF this, of SCARD_PROTOCOL_T1] show ?thesis
    by (auto simp: reader0_def split: prod.splits)
qed

end
