(* ===== verification/CJ_Power.thy ===== *)
theory CJ_Power
  imports CJ_CcidReader
begin

text \<open>
  Powering a card: \<^verbatim>\<open>CEC30Reader::IfdPower\<close> with its retry loop, \<^verbatim>\<open>CBaseReader::AnalyseATR\<close>, and the
  overriding versions of the e-com(a) and of the RFID reader.

  \<^verbatim>\<open>IfdPower\<close> and \<^verbatim>\<open>AnalyseATR\<close> call each other; the inner call always has the mode
  \<^verbatim>\<open>SCARD_POWER_DOWN\<close>, for which \<^verbatim>\<open>IfdPower\<close> neither loops nor analyses an ATR, so the power-down
  request is a definition of its own.
\<close>

abbreviation (input) "SCARD_POWER_DOWN \<equiv> (0 :: u32)"
abbreviation (input) "SCARD_COLD_RESET \<equiv> (1 :: u32)"
abbreviation (input) "SCARD_WARM_RESET \<equiv> (2 :: u32)"

section \<open>Power down\<close>

definition power_message :: "byte \<Rightarrow> u32 \<Rightarrow> ccid_message" where
  "power_message typ Timeout = ccid_msg typ 4 [1, 0, 0] (le32_bytes Timeout)"

definition power_error :: "byte \<Rightarrow> ifd_result" where
  "power_error e = (if e = 0xfe then STATUS_NO_MEDIA
     else if e = 0xf6 then STATUS_UNRECOGNIZED_MEDIA
     else if e = 0xef then STATUS_CANCELLED
     else STATUS_IO_TIMEOUT)"

definition ec30_power_down :: "reader \<Rightarrow> u32 \<Rightarrow> ifd_result \<times> reader" where
  "ec30_power_down r Timeout =
     (case Transfer r (power_message PC_TO_RDR_ICCPOWEROFF Timeout) of (Res, Response, r1) \<Rightarrow>
        if Res = CJ_SUCCESS then
          (if rsp_bMessageType Response \<noteq> RDR_TO_PC_SLOTSTATUS then (STATUS_DEVICE_NOT_CONNECTED, r1)
           else if rsp_bStatus Response AND 0x40 \<noteq> 0 then (power_error (rsp_bError Response), r1)
           else (STATUS_SUCCESS, r1))
        else (STATUS_DEVICE_NOT_CONNECTED, r1))"

text \<open>The virtual call: the RFID reader also forgets that the card was a contactless one.\<close>

definition power_down :: "reader \<Rightarrow> u32 \<Rightarrow> ifd_result \<times> reader" where
  "power_down r Timeout = (case ec30_power_down r Timeout of (Res, r1) \<Rightarrow>
     (Res, if is_rfid_class (m_class r) then r1\<lparr>m_bIsRF := False\<rparr> else r1))"

section \<open>Analysis of the ATR\<close>

definition SetSyncParameters :: "reader \<Rightarrow> byte \<Rightarrow> u16 \<Rightarrow> cj_result \<times> reader" where
  "SetSyncParameters r AddrByteCount PageSize =
     (case Transfer r (ccid_msg PC_TO_RDR_SETPARAMETERS 3 [2, 0, 0] (AddrByteCount # le16_bytes PageSize))
      of (Res, _, r1) \<Rightarrow> (Res, r1))"

text \<open>
  The geometry of an I2C card from the second ATR byte.  The shift count of the source is the field
  minus one; for a field of 0 the shift is undefined, which the ghost flag records.
\<close>

definition iic_geometry :: "reader \<Rightarrow> reader" where
  "iic_geometry r =
     (let a = m_ATR r ! 1; k = unat (a AND 0x07); f = unat (drop_bit 3 (a AND 0x78));
          page = (if k > 3 then 2 ^ (k - 3) else 1);
          r1 = r\<lparr>m_iic_pagesize := of_nat page\<rparr> in
      if f = 0 then r1\<lparr>m_iic_offset_bytes := 1, g_overrun := True\<rparr>
      else r1\<lparr>m_iic_offset_bytes := (if page * (128 * 2 ^ (f - 1)) > 2048 then 2 else 1)\<rparr>)"

text \<open>The state of the card after the scan, for an asynchronous ATR without error.\<close>

definition decide_async :: "reader \<Rightarrow> atr_params \<Rightarrow> nat \<times> reader" where
  "decide_async r ap =
     (if ap_specific ap then
        (if ap_TD1 ap AND 0x0f = 0 then
           (0, r\<lparr>m_PossibleProtocols := SCARD_PROTOCOL_T0, m_ActiveProtocol := SCARD_PROTOCOL_T0,
                 m_ReaderState := SCARD_SPECIFIC\<rparr>)
         else if ap_TD1 ap AND 0x0f = 1 then
           (0, r\<lparr>m_PossibleProtocols := SCARD_PROTOCOL_T1, m_ActiveProtocol := SCARD_PROTOCOL_T1,
                 m_ReaderState := SCARD_SPECIFIC\<rparr>)
         else (1, r))
      else
        (let r1 = (if ap_protocol ap AND 1 \<noteq> 0 then
                     r\<lparr>m_PossibleProtocols := m_PossibleProtocols r OR SCARD_PROTOCOL_T0,
                       m_ReaderState := SCARD_NEGOTIABLE\<rparr> else r);
             r2 = (if ap_protocol ap AND 2 \<noteq> 0 then
                     r1\<lparr>m_PossibleProtocols := m_PossibleProtocols r1 OR SCARD_PROTOCOL_T1,
                        m_ReaderState := SCARD_NEGOTIABLE\<rparr> else r1)
         in (0, r2)))"

text \<open>The synchronous and contactless cards, tried when the asynchronous analysis failed.\<close>

definition decide_sync :: "reader \<Rightarrow> reader" where
  "decide_sync r =
     (let a0 = m_ATR r ! 0 in
      if m_ATR_Length r = 4 \<and> (a0 = 0x2c \<or> a0 = 0x92 \<or> a0 = 0xa2 \<or> a0 = 0x82) then
        (let r1 = r\<lparr>m_Historical_Length := 0, m_PossibleProtocols := SCARD_PROTOCOL_RAW,
                    m_ActiveProtocol := SCARD_PROTOCOL_RAW, m_ReaderState := SCARD_SPECIFIC\<rparr>;
             r2 = (if a0 = 0x82 then iic_geometry r1 else r1)
         in snd (SetSyncParameters r2 (m_iic_offset_bytes r2) (ucast (m_iic_pagesize r2))))
      else if m_ATR_Length r = 4 \<and> (a0 = 0xff \<or> a0 AND 0xf0 = 0x80) then
        r\<lparr>m_Historical_Length := 0, m_PossibleProtocols := SCARD_PROTOCOL_RAW,
          m_ActiveProtocol := SCARD_PROTOCOL_RAW, m_ReaderState := SCARD_NEGOTIABLE\<rparr>
      else if a0 = 0x41 then
        r\<lparr>m_Historical_Length := 0, m_Historical := None, m_PossibleProtocols := SCARD_PROTOCOL_RAW,
          m_ActiveProtocol := SCARD_PROTOCOL_RAW, m_ReaderState := SCARD_SPECIFIC\<rparr>
      else r)"

definition atr_reset :: "reader \<Rightarrow> reader" where
  "atr_reset r = r\<lparr>m_PossibleProtocols := 0, m_ReaderState := SCARD_POWERED, m_TA1 := 0x11, m_TC1 := 0,
     m_TC2 := 10, m_TA3 := 0x20, m_TB3 := 0x4d, m_TC3 := 0, m_ActiveProtocol := 0\<rparr>"

definition AnalyseATR :: "reader \<Rightarrow> bool \<Rightarrow> nat \<times> reader" where
  "AnalyseATR r warm =
     (let r0 = atr_reset r in
      if m_ATR_Length r0 > 0 \<and> (m_ATR r0 ! 0 = 0x3b \<or> m_ATR r0 ! 0 = 0x3f) then
        (case check_len (atr_at r0) (m_ATR_Length r0) of (chk, hist, hlen) \<Rightarrow>
           let r1 = r0\<lparr>m_Historical_Length := hlen,
                       m_Historical := (case hist of Some h \<Rightarrow> Some h | None \<Rightarrow> m_Historical r0)\<rparr>;
               ap = (if chk = 1 then scan_ATR (atr_at r0) (m_ApduNorm r0) warm else atr_defaults);
               r2 = (if chk = 1 then r1\<lparr>m_TA1 := ap_TA1 ap, m_TC1 := ap_TC1 ap, m_TC2 := ap_TC2 ap,
                       m_TA3 := ap_TA3 ap, m_TB3 := ap_TB3 ap, m_TC3 := ap_TC3 ap\<rparr> else r1);
               error = (if chk = 1 then ap_error ap else if chk = 2 then 1 else 2) in
           if error = 2 \<or> (error = 1 \<and> warm) then (2, decide_sync (snd (power_down r2 0)))
           else if error = 0 then decide_async r2 ap
           else (error, decide_sync r2))
      else (2, decide_sync r0))"

section \<open>The retry of a reset\<close>

lemma decide_async_no_error:
  assumes "ap_specific ap \<longrightarrow> ap_TD1 ap AND 0x0f = 0 \<or> ap_TD1 ap AND 0x0f = 1"
  shows "fst (decide_async r ap) = 0"
  using assms by (auto simp: decide_async_def Let_def)

text \<open>After a second, warm attempt the analysis never asks for another one.\<close>

lemma AnalyseATR_warm: "fst (AnalyseATR r True) \<noteq> 1"
proof -
  let ?r0 = "atr_reset r"
  obtain chk hist hlen where c: "check_len (atr_at ?r0) (m_ATR_Length ?r0) = (chk, hist, hlen)"
    by (metis prod_cases3)
  let ?ap = "scan_ATR (atr_at ?r0) (m_ApduNorm ?r0) True"
  have "fst (decide_async q ?ap) = 0" if "ap_error ?ap = 0" for q
    using scan_ATR_ok(1)[OF that] by (intro decide_async_no_error) auto
  moreover have "ap_error ?ap < 2" by (rule scan_ATR_error)
  moreover have "fst (decide_async q atr_defaults) = 0" for q
    by (rule decide_async_no_error) (simp add: atr_defaults_def)
  ultimately show ?thesis by (simp add: AnalyseATR_def Let_def c)
qed

lemma AnalyseATR_again: "AnalyseATR r (\<not> first) = (Suc 0, r') \<Longrightarrow> first"
  using AnalyseATR_warm[of r] by (cases first) auto

text \<open>
  The loop of \<^verbatim>\<open>CEC30Reader::IfdPower\<close> for a reset; \<open>first\<close> is the flag of the source, \<^verbatim>\<open>warm\<close> its
  negation in the loop body.  The result: the status, the bytes stored through \<^verbatim>\<open>ATR\<close>, the value of
  \<^verbatim>\<open>*ATR_Length\<close> and the reader.
\<close>

function power_loop :: "reader \<Rightarrow> u32 \<Rightarrow> bool \<Rightarrow> ifd_result \<times> bytes \<times> nat \<times> reader" where
  "power_loop r Timeout first =
     (case Transfer r (power_message PC_TO_RDR_ICCPOWERON Timeout) of (Res, Response, r1) \<Rightarrow>
        if Res = CJ_SUCCESS then
          (if rsp_bMessageType Response \<noteq> RDR_TO_PC_DATABLOCK
           then (STATUS_DEVICE_NOT_CONNECTED, [], 0, r1)
           else if rsp_bStatus Response AND 0x40 \<noteq> 0
           then (power_error (rsp_bError Response), [], 0, r1)
           else
             (let n = min (unat (rsp_dwLength Response)) 33;
                  atr = take n (rsp_data Response);
                  r2 = r1\<lparr>m_ATR_Length := n, m_ATR := overlay 0 atr (m_ATR r1)\<rparr> in
              case AnalyseATR r2 (\<not> first) of (error, r3) \<Rightarrow>
                if error = 1 then power_loop r3 Timeout False
                else (STATUS_SUCCESS, atr, n, r3)))
        else (STATUS_DEVICE_NOT_CONNECTED, [], 0, r1))"
  by pat_completeness auto
termination
  by (relation "measure (\<lambda>(r, t, first). if first then 1 else (0 :: nat))")
    (auto dest!: sym [THEN AnalyseATR_again])

declare power_loop.simps [simp del]

text \<open>Only a reset touches \<^verbatim>\<open>*ATR_Length\<close>; for the other modes it keeps the value \<open>orig\<close> the caller stored.\<close>

definition ec30_IfdPower :: "reader \<Rightarrow> u32 \<Rightarrow> nat \<Rightarrow> u32 \<Rightarrow> ifd_result \<times> bytes \<times> nat \<times> reader" where
  "ec30_IfdPower r Mode orig Timeout =
     (if Mode = SCARD_COLD_RESET \<or> Mode = SCARD_WARM_RESET
      then power_loop (snd (power_down r 0)) Timeout True
      else if Mode = SCARD_POWER_DOWN
      then (case ec30_power_down r Timeout of (Res, r1) \<Rightarrow> (Res, [], orig, r1))
      else (STATUS_INVALID_PARAMETER, [], orig, r))"

section \<open>The e-com(a)\<close>

definition memcmp_less :: "bytes \<Rightarrow> bytes \<Rightarrow> bool" where
  "memcmp_less xs ys \<longleftrightarrow> (\<exists>i < length ys. take i xs = take i ys \<and> xs ! i < ys ! i)"

text \<open>
  Readers tested up to the third of May 2007 refuse every card.  \<open>sub d o n\<close> are the \<open>n\<close> bytes of a
  date string from offset \<open>o\<close>.
\<close>

definition sub :: "bytes \<Rightarrow> nat \<Rightarrow> nat \<Rightarrow> bytes" where
  "sub d k n = take n (drop k d)"

definition old_test_date :: "bytes \<Rightarrow> bool" where
  "old_test_date d \<longleftrightarrow> sub d 6 4 = [0x32, 0x30, 0x30, 0x37]
     \<and> (memcmp_less (sub d 3 2) [0x30, 0x35]
        \<or> sub d 3 2 = [0x30, 0x35]
          \<and> (memcmp_less (sub d 0 2) [0x30, 0x33] \<or> sub d 0 2 = [0x30, 0x33]))"

definition eca_IfdPower :: "reader \<Rightarrow> u32 \<Rightarrow> nat \<Rightarrow> u32 \<Rightarrow> ifd_result \<times> bytes \<times> nat \<times> reader" where
  "eca_IfdPower r Mode orig Timeout =
     (if (Mode = SCARD_COLD_RESET \<or> Mode = SCARD_WARM_RESET) \<and> old_test_date (ri_TestDate (m_ReaderInfo r))
      then (STATUS_UNRECOGNIZED_MEDIA, [], 0, r)
      else ec30_IfdPower r Mode orig Timeout)"

section \<open>The RFID reader\<close>

text \<open>
  The check byte over the ATR, appended to it; with a length behind the 33 bytes of \<^verbatim>\<open>m_ATR\<close> it is stored
  outside of them.
\<close>

definition ecr_tck :: "reader \<Rightarrow> reader" where
  "ecr_tck r = r\<lparr>m_ATR := (m_ATR r)[m_ATR_Length r := lrc (\<lambda>i. m_ATR r ! i) (m_ATR_Length r)],
                 m_ATR_Length := m_ATR_Length r + 1\<rparr>"

text \<open>The common end of both card types: the copy to the caller and the state of the card.\<close>

definition ecr_finish ::
  "reader \<Rightarrow> ifd_result \<Rightarrow> nat \<Rightarrow> bytes \<Rightarrow> nat \<Rightarrow> ifd_result \<times> bytes \<times> nat \<times> reader" where
  "ecr_finish r Result orig atr n =
     (let r1 = ecr_tck r in
      if orig < m_ATR_Length r1 then (STATUS_BUFFER_TOO_SMALL, atr, n, r1)
      else (Result, take (m_ATR_Length r1) (m_ATR r1), m_ATR_Length r1,
            r1\<lparr>m_PossibleProtocols := SCARD_PROTOCOL_T1, m_ActiveProtocol := SCARD_PROTOCOL_T1,
               m_ReaderState := SCARD_SPECIFIC, m_bIsRF := True\<rparr>))"

text \<open>
  The ATR of a type A card with ISO 14443-4 support, built from its ATS: the length byte of the ATS
  is reduced by the format bytes in 8 bit arithmetic.  A length byte below that count wraps to at least
  251: the copy then fills \<^verbatim>\<open>m_ATR\<close> to its end and overwrites the members behind it, and
  \<^verbatim>\<open>m_ATR_Length\<close> becomes 255 or more.
\<close>

definition ats_skip :: "byte \<Rightarrow> nat" where
  "ats_skip t0 = GetBits (drop_bit 4 (t0 AND 0x70))"

definition ecr_ats_atr :: "reader \<Rightarrow> bytes \<Rightarrow> reader" where
  "ecr_ats_atr r d =
     (let i = ats_skip (d ! 2); n = d ! 0 - of_nat (2 + i) in
      r\<lparr>m_ATR := overlay 4 (take 29 (take (unat n) (drop (3 + i) d)))
                   (overlay 0 [0x3b, 0x80 OR n, 0x80, 0x01] (m_ATR r)),
        m_ATR_Length := unat n + 4,
        g_overrun := g_overrun r \<or> 33 \<le> 4 + unat n,
        g_atr_overrun := g_atr_overrun r \<or> 33 \<le> 4 + unat n\<rparr>)"

text \<open>The fixed ATR of a storage card, with the card name after the SAK byte.\<close>

definition ecr_storage_atr :: "reader \<Rightarrow> reader" where
  "ecr_storage_atr r =
     (let sak = m_ATR r ! 1 AND 0xdf;
          name = (if sak = 0x08 then [0x03, 0x00, 0x01]
                  else if sak = 0x09 then [0x03, 0x00, 0x26]
                  else if sak = 0x18 then [0x03, 0x00, 0x02] else [0x00, 0x00, 0x00]) in
      r\<lparr>m_ATR := overlay 0 ([0x3b, 0x8f, 0x80, 0x01, 0x80, 0x4f, 0x0c, 0xA0, 0x00, 0x00, 0x03, 0x06]
                            @ name @ [0x00, 0x00, 0x00, 0x00]) (m_ATR r),
        m_ATR_Length := 19\<rparr>)"

definition ecr_typeA ::
  "reader \<Rightarrow> ifd_result \<Rightarrow> nat \<Rightarrow> bytes \<Rightarrow> nat \<Rightarrow> ifd_result \<times> bytes \<times> nat \<times> reader" where
  "ecr_typeA r0 Result orig atr n =
     (let r = r0\<lparr>m_SerialNumber := take (m_ATR_Length r0 - 3) (drop 3 (m_ATR r0))\<rparr>;
          a1 = m_ATR r ! 1;
          select = (a1 AND 0x20 \<noteq> 0
            \<and> \<not> ((a1 = 0x28 \<or> a1 = 0x38) \<and> GetEnviroment r ''PrefereMifareClasic'' 0 \<noteq> 0)) in
      if select then
        (case Transfer r (ccid_msg PC_TO_RDR_SETPARAMETERS 0 [3, 0, 0] []) of (Res, Response, r1) \<Rightarrow>
           if Res = CJ_SUCCESS then
             (if rsp_bStatus Response AND 3 = 2 then (STATUS_NO_MEDIA, atr, n, r1)
              else if rsp_bStatus Response AND 3 = 1 \<or> rsp_bStatus Response AND 0x40 \<noteq> 0
              then (STATUS_IO_TIMEOUT, atr, n, r1)
              else if rsp_data Response ! 0 > 15
              then (STATUS_NO_MEDIA, atr, n,
                    r1\<lparr>m_ATR := overlay 0 [0x3b, 0x80, 0x80, 0x01] (m_ATR r1)\<rparr>)
              else ecr_finish (ecr_ats_atr r1 (rsp_data Response)) Result orig atr n)
           else (STATUS_DEVICE_NOT_CONNECTED, atr, n, r1))
      else ecr_finish (ecr_storage_atr r) Result orig atr n)"

definition ecr_typeB ::
  "reader \<Rightarrow> ifd_result \<Rightarrow> nat \<Rightarrow> bytes \<Rightarrow> nat \<Rightarrow> ifd_result \<times> bytes \<times> nat \<times> reader" where
  "ecr_typeB r Result orig atr n =
     ecr_finish (r\<lparr>m_SerialNumber := take 4 (m_ATR r),
        m_ATR := overlay 0 ([0x3b, 0x88, 0x80, 0x01] @ take 8 (drop 1 (m_ATR r))) (m_ATR r),
        m_ATR_Length := 12\<rparr>) Result orig atr n"

text \<open>
  \<^verbatim>\<open>CECRReader::IfdPower\<close>.  The condition of the source groups as \<open>(A \<and> B) \<or> C\<close>: a warm reset is
  processed even when it failed.
\<close>

definition ecr_IfdPower :: "reader \<Rightarrow> u32 \<Rightarrow> nat \<Rightarrow> u32 \<Rightarrow> ifd_result \<times> bytes \<times> nat \<times> reader" where
  "ecr_IfdPower r Mode orig Timeout =
     (case ec30_IfdPower r Mode orig Timeout of (Result, atr, n, r1) \<Rightarrow>
        let r2 = r1\<lparr>m_bIsRF := False\<rparr> in
        if (Result = STATUS_SUCCESS \<and> Mode = SCARD_COLD_RESET \<or> Mode = SCARD_WARM_RESET)
           \<and> 6 \<le> m_ATR_Length r2 \<and> m_ATR_Length r2 \<le> 12
        then (if m_ATR r2 ! 0 = 0x41 then ecr_typeA r2 Result orig atr n
              else if m_ATR r2 ! 0 = 0x42 then ecr_typeB r2 Result orig atr n
              else (Result, atr, n, r2))
        else (Result, atr, n, r2))"

section \<open>Virtual dispatch\<close>

definition IfdPower :: "reader \<Rightarrow> u32 \<Rightarrow> nat \<Rightarrow> u32 \<Rightarrow> ifd_result \<times> bytes \<times> nat \<times> reader" where
  "IfdPower r Mode orig Timeout =
     (if m_class r = ECA then eca_IfdPower r Mode orig Timeout
      else if is_rfid_class (m_class r) then ecr_IfdPower r Mode orig Timeout
      else ec30_IfdPower r Mode orig Timeout)"

section \<open>The card state invariant\<close>

text \<open>
  The active protocol is none or one the card offers, unless the members behind \<^verbatim>\<open>m_ATR\<close> were overwritten,
  which can happen in an RFID reader only.
\<close>

definition card_inv :: "reader \<Rightarrow> bool" where
  "card_inv r \<longleftrightarrow> reader_inv r
     \<and> (m_ActiveProtocol r AND m_PossibleProtocols r = m_ActiveProtocol r \<or> g_atr_overrun r)
     \<and> (g_atr_overrun r \<longrightarrow> is_rfid_class (m_class r))"

lemma card_inv_reader: "card_inv r \<Longrightarrow> reader_inv r"
  by (simp add: card_inv_def)

lemma Transfer_card:
  assumes "card_inv r" and "Transfer r m = (Res, R, r')"
  shows "card_inv r'" "m_class r' = m_class r" "length R = 2048" "m_ATR r' = m_ATR r"
    "m_ATR_Length r' \<le> m_ATR_Length r"
proof -
  note p = Transfer_postD[OF card_inv_reader[OF assms(1)] assms(2)]
  show "card_inv r'" using p assms(1) unfolding card_inv_def by (auto split: if_splits)
  show "m_class r' = m_class r" "length R = 2048" "m_ATR r' = m_ATR r"
    using p by auto
  show "m_ATR_Length r' \<le> m_ATR_Length r" using p by (auto split: if_splits)
qed

lemma card_inv_updates:
  "card_inv (r\<lparr>m_bIsRF := b\<rparr>) = card_inv r"
  "card_inv (r\<lparr>m_Historical_Length := hl\<rparr>) = card_inv r"
  "card_inv (r\<lparr>m_Historical := h\<rparr>) = card_inv r"
  "card_inv (r\<lparr>m_ReaderState := st\<rparr>) = card_inv r"
  "card_inv (r\<lparr>m_SerialNumber := sn\<rparr>) = card_inv r"
  "card_inv (r\<lparr>m_iic_pagesize := ps\<rparr>) = card_inv r"
  "card_inv (r\<lparr>m_iic_offset_bytes := ob\<rparr>) = card_inv r"
  "card_inv (r\<lparr>g_overrun := ov\<rparr>) = card_inv r"
  "card_inv (r\<lparr>m_TA1 := a, m_TC1 := b1, m_TC2 := b2, m_TA3 := b3, m_TB3 := b4, m_TC3 := b5\<rparr>) = card_inv r"
  "card_inv r \<Longrightarrow> card_inv (r\<lparr>m_PossibleProtocols := pp, m_ActiveProtocol := pp\<rparr>)"
  by (simp_all add: card_inv_def reader_inv_def)

lemma ec30_power_down_card:
  "card_inv r \<Longrightarrow> ec30_power_down r t = (Res, r') \<Longrightarrow> card_inv r' \<and> m_class r' = m_class r \<and> m_ATR r' = m_ATR r"
  by (auto simp: ec30_power_down_def split: prod.splits if_splits dest: Transfer_card)

lemma power_down_card:
  "card_inv r \<Longrightarrow> card_inv (snd (power_down r t)) \<and> m_class (snd (power_down r t)) = m_class r"
  by (auto simp: power_down_def card_inv_updates split: prod.splits dest: ec30_power_down_card)

lemma SetSyncParameters_card:
  "card_inv r \<Longrightarrow> card_inv (snd (SetSyncParameters r n p)) \<and> m_class (snd (SetSyncParameters r n p)) = m_class r"
  by (auto simp: SetSyncParameters_def split: prod.splits dest: Transfer_card)

lemma iic_geometry_card: "card_inv (iic_geometry r) = card_inv r \<and> m_class (iic_geometry r) = m_class r"
  by (simp add: iic_geometry_def Let_def card_inv_updates)

lemma card_inv_raw:
  "card_inv r \<Longrightarrow> card_inv (r\<lparr>m_Historical_Length := h, m_PossibleProtocols := pp, m_ActiveProtocol := pp,
     m_ReaderState := st\<rparr>)"
  "card_inv r \<Longrightarrow> card_inv (r\<lparr>m_Historical_Length := h, m_Historical := hi, m_PossibleProtocols := pp,
     m_ActiveProtocol := pp, m_ReaderState := st\<rparr>)"
  "card_inv r \<Longrightarrow> card_inv (r\<lparr>m_PossibleProtocols := pp, m_ActiveProtocol := pp, m_ReaderState := st\<rparr>)"
  by (simp_all add: card_inv_def reader_inv_def)

lemma decide_sync_card: "card_inv r \<Longrightarrow> card_inv (decide_sync r) \<and> m_class (decide_sync r) = m_class r"
proof -
  assume r: "card_inv r"
  let ?r1 = "r\<lparr>m_Historical_Length := 0, m_PossibleProtocols := SCARD_PROTOCOL_RAW,
     m_ActiveProtocol := SCARD_PROTOCOL_RAW, m_ReaderState := SCARD_SPECIFIC\<rparr>"
  have "card_inv (if b then iic_geometry ?r1 else ?r1)" for b
    using card_inv_raw(1)[OF r] iic_geometry_card by simp
  then show ?thesis
    using r by (auto simp: decide_sync_def Let_def SetSyncParameters_card iic_geometry_card card_inv_raw)
qed

lemma decide_async_card:
  "card_inv r \<Longrightarrow> m_ActiveProtocol r = 0 \<Longrightarrow>
     card_inv (snd (decide_async r ap)) \<and> m_class (snd (decide_async r ap)) = m_class r"
  by (simp add: decide_async_def Let_def card_inv_raw) (simp add: card_inv_def reader_inv_def)

lemma atr_reset_card:
  "card_inv r \<Longrightarrow> card_inv (atr_reset r)" "m_ActiveProtocol (atr_reset r) = 0"
  "m_class (atr_reset r) = m_class r"
  by (simp_all add: card_inv_def reader_inv_def atr_reset_def)

lemma AnalyseATR_card:
  assumes "card_inv r"
  shows "card_inv (snd (AnalyseATR r warm)) \<and> m_class (snd (AnalyseATR r warm)) = m_class r"
proof -
  let ?r0 = "atr_reset r"
  obtain chk hist hlen where c: "check_len (atr_at ?r0) (m_ATR_Length ?r0) = (chk, hist, hlen)"
    by (metis prod_cases3)
  let ?ap = "if chk = 1 then scan_ATR (atr_at ?r0) (m_ApduNorm ?r0) warm else atr_defaults"
  define r1 where "r1 = ?r0\<lparr>m_Historical_Length := hlen,
                       m_Historical := (case hist of Some h \<Rightarrow> Some h | None \<Rightarrow> m_Historical ?r0)\<rparr>"
  define r2 where "r2 = (if chk = 1 then r1\<lparr>m_TA1 := ap_TA1 ?ap, m_TC1 := ap_TC1 ?ap, m_TC2 := ap_TC2 ?ap,
                       m_TA3 := ap_TA3 ?ap, m_TB3 := ap_TB3 ?ap, m_TC3 := ap_TC3 ?ap\<rparr> else r1)"
  have r2: "card_inv r2" "m_ActiveProtocol r2 = 0" "m_class r2 = m_class r"
    using atr_reset_card(1)[OF assms] atr_reset_card(2,3)[of r]
    by (simp_all add: r2_def r1_def card_inv_updates)
  have s0: "card_inv (decide_sync ?r0)" "m_class (decide_sync ?r0) = m_class r"
    using decide_sync_card[OF atr_reset_card(1)[OF assms]] atr_reset_card(3) by auto
  have s1: "card_inv (decide_sync r2)" "m_class (decide_sync r2) = m_class r"
    using decide_sync_card[OF r2(1)] r2 by auto
  have s2: "card_inv (decide_sync (snd (power_down r2 0)))"
    "m_class (decide_sync (snd (power_down r2 0))) = m_class r"
    using decide_sync_card[of "snd (power_down r2 0)"] power_down_card[OF r2(1)] r2 by auto
  have a: "card_inv (snd (decide_async r2 ?ap))" "m_class (snd (decide_async r2 ?ap)) = m_class r"
    using decide_async_card[OF r2(1,2)] r2 by auto
  have "snd (AnalyseATR r warm)
      \<in> {decide_sync ?r0, decide_sync r2, decide_sync (snd (power_down r2 0)), snd (decide_async r2 ?ap)}"
    by (simp add: AnalyseATR_def Let_def c flip: r1_def) (simp add: r2_def)
  then show ?thesis using s0 s1 s2 a by auto
qed

section \<open>Soundness of the power functions\<close>

lemma store_ATR_card:
  assumes "card_inv r" and "n \<le> 33" and "length atr = n"
  shows "card_inv (r\<lparr>m_ATR_Length := n, m_ATR := overlay 0 atr (m_ATR r)\<rparr>)"
  using assms by (simp add: card_inv_def reader_inv_def)

lemma power_loop_card:
  "card_inv r \<Longrightarrow> power_loop r t first = (Res, atr, n, r') \<Longrightarrow>
     card_inv r' \<and> m_class r' = m_class r \<and> length atr = n \<and> n \<le> 33"
proof (induction r t first arbitrary: Res atr n r' rule: power_loop.induct)
  case (1 r t first)
  obtain R1 Rsp r1 where t: "Transfer r (power_message PC_TO_RDR_ICCPOWERON t) = (R1, Rsp, r1)"
    by (metis prod_cases3)
  note tc = Transfer_card[OF "1.prems"(1) t]
  define m where "m = min (unat (rsp_dwLength Rsp)) 33"
  define a where "a = take m (rsp_data Rsp)"
  define r2 where "r2 = r1\<lparr>m_ATR_Length := m, m_ATR := overlay 0 a (m_ATR r1)\<rparr>"
  have la: "length a = m" "m \<le> 33" using tc(3) by (auto simp: a_def m_def rsp_data_def)
  have c2: "card_inv r2" "m_class r2 = m_class r"
    using store_ATR_card[OF tc(1) la(2,1)] tc(2) by (simp_all add: r2_def)
  obtain e r3 where an: "AnalyseATR r2 (\<not> first) = (e, r3)" by fastforce
  have c3: "card_inv r3" "m_class r3 = m_class r" using AnalyseATR_card[OF c2(1), of "\<not> first"] an c2 by auto
  show ?case
  proof (cases "R1 = CJ_SUCCESS \<and> rsp_bMessageType Rsp = RDR_TO_PC_DATABLOCK \<and> rsp_bStatus Rsp AND 0x40 = 0")
    case False
    then show ?thesis using "1.prems"(2) t tc
      by (subst (asm) power_loop.simps) (auto split: if_splits)
  next
    case True
    show ?thesis
    proof (cases "e = 1")
      case False
      then have "atr = a" "n = m" "r' = r3" using True "1.prems"(2) t an
        by (subst (asm) power_loop.simps, simp add: Let_def m_def a_def r2_def)+
      then show ?thesis using c3 la by simp
    next
      case e: True
      then have "power_loop r3 t False = (Res, atr, n, r')" using True "1.prems"(2) t an
        by (subst (asm) power_loop.simps) (simp add: Let_def m_def a_def r2_def)
      moreover note IH = "1.IH"[OF t[symmetric] refl _ _ _ m_def a_def r2_def an[symmetric] e c3(1)]
      ultimately show ?thesis using True c3(2) by auto
    qed
  qed
qed

text \<open>
  What a power function hands out: a reset reports the bytes it stored, at most 33 of them (or, after the
  wrap described above, a length of 256 or more when the caller announced that much room); the other
  modes store nothing and leave the caller's length alone.
\<close>

abbreviation is_reset :: "u32 \<Rightarrow> bool" where
  "is_reset Mode \<equiv> Mode = SCARD_COLD_RESET \<or> Mode = SCARD_WARM_RESET"

definition atr_out :: "u32 \<Rightarrow> nat \<Rightarrow> bytes \<Rightarrow> nat \<Rightarrow> reader \<Rightarrow> bool" where
  "atr_out Mode orig atr n r' \<longleftrightarrow>
     (if is_reset Mode then length atr = n \<and> n \<le> 33 \<or> 256 \<le> n \<and> n \<le> orig \<and> g_atr_overrun r'
      else atr = [] \<and> n = orig)"

lemma ec30_IfdPower_card:
  "card_inv r \<Longrightarrow> ec30_IfdPower r Mode orig t = (Res, atr, n, r') \<Longrightarrow>
     card_inv r' \<and> m_class r' = m_class r \<and> atr_out Mode orig atr n r'
     \<and> (is_reset Mode \<longrightarrow> length atr = n \<and> n \<le> 33)"
  using power_loop_card[of "snd (power_down r 0)" t True Res atr n r'] power_down_card[of r 0]
  by (auto simp: ec30_IfdPower_def atr_out_def split: if_splits prod.splits dest: ec30_power_down_card)

text \<open>The state before the check byte is appended: room for it, or a length that wrapped.\<close>

definition tck_ok :: "reader \<Rightarrow> bool" where
  "tck_ok r \<longleftrightarrow> m_ATR_Length r < 33 \<or> 255 \<le> m_ATR_Length r \<and> g_atr_overrun r"

lemma ecr_finish_card:
  assumes "card_inv r" and "tck_ok r" and "length atr = n" and "n \<le> 33" and "is_reset Mode"
    and "ecr_finish r Result orig atr n = (Res, atr', n', r')"
  shows "card_inv r' \<and> m_class r' = m_class r \<and> atr_out Mode orig atr' n' r'"
proof -
  have c: "card_inv (ecr_tck r)" and m: "m_class (ecr_tck r) = m_class r"
    "m_ATR_Length (ecr_tck r) \<le> 33 \<or> 256 \<le> m_ATR_Length (ecr_tck r) \<and> g_atr_overrun (ecr_tck r)"
    "length (m_ATR (ecr_tck r)) = 33"
    using assms(1,2) by (auto simp: ecr_tck_def card_inv_def reader_inv_def tck_ok_def)
  have "card_inv ((ecr_tck r)\<lparr>m_PossibleProtocols := SCARD_PROTOCOL_T1, m_ActiveProtocol := SCARD_PROTOCOL_T1,
     m_ReaderState := SCARD_SPECIFIC, m_bIsRF := True\<rparr>)"
    using c by (simp add: card_inv_def reader_inv_def)
  then show ?thesis
    using assms(3-6) c m by (auto simp: ecr_finish_def Let_def atr_out_def split: if_splits)
qed

lemma unat_of_nat_byte: "k < 256 \<Longrightarrow> unat (of_nat k :: byte) = k"
  by (simp add: unat_of_nat take_bit_eq_mod)

lemma ats_length_wrap:
  fixes d0 :: byte and i :: nat
  assumes "\<not> 15 < d0" and "i \<le> 3"
  shows "unat (d0 - of_nat (2 + i)) + 4 < 33 \<or> 255 \<le> unat (d0 - of_nat (2 + i)) + 4"
proof -
  have u: "unat (of_nat (2 + i) :: byte) = 2 + i"
    using assms(2) by (intro unat_of_nat_byte) simp
  have d: "unat d0 \<le> 15" using assms(1) by (simp add: word_less_nat_alt not_less)
  show ?thesis
  proof (cases "2 + i \<le> unat d0")
    case True
    then have "unat (d0 - of_nat (2 + i)) = unat d0 - (2 + i)"
      using u by (simp add: unat_sub word_le_nat_alt del: of_nat_add)
    then show ?thesis using d by linarith
  next
    case False
    then have "unat (d0 - of_nat (2 + i)) = 256 + unat d0 - (2 + i)"
      using u unat_sub_if_size[of d0 "of_nat (2 + i)"] by (simp add: word_size del: of_nat_add)
    then show ?thesis using assms(2) by linarith
  qed
qed

lemma GetBits_bound: "unat v < 2 ^ k \<Longrightarrow> GetBits v \<le> k"
proof (induction k arbitrary: v)
  case 0
  then have "v = 0" by (simp add: unat_eq_zero)
  then show ?case by (simp add: GetBits.simps)
next
  case (Suc k)
  have "unat (drop_bit 1 v) = unat v div 2"
    by (simp add: drop_bit_Suc unat_div)
  then have "GetBits (drop_bit 1 v) \<le> k" using Suc by simp
  then show ?case by (subst GetBits.simps) simp
qed

lemma ats_skip_bound: "ats_skip t0 \<le> 3"
proof -
  have "unat (t0 AND 0x70) \<le> 0x70" using word_and_le1[of t0 "0x70"] by (simp add: word_le_nat_alt)
  then have "unat (drop_bit 4 (t0 AND 0x70)) < 2 ^ 3"
    by (simp add: drop_bit_eq_div unat_div)
  then show ?thesis unfolding ats_skip_def by (rule GetBits_bound)
qed

lemma ecr_ats_atr_card:
  assumes "card_inv r" and "is_rfid_class (m_class r)" and "\<not> 15 < d ! 0"
  shows "card_inv (ecr_ats_atr r d) \<and> m_class (ecr_ats_atr r d) = m_class r \<and> tck_ok (ecr_ats_atr r d)"
  using assms ats_length_wrap[OF assms(3) ats_skip_bound[of "d ! 2"]]
  by (auto simp: ecr_ats_atr_def Let_def card_inv_def reader_inv_def tck_ok_def min_le_iff_disj)

lemma ecr_storage_atr_card:
  "card_inv r \<Longrightarrow> card_inv (ecr_storage_atr r) \<and> m_class (ecr_storage_atr r) = m_class r
     \<and> tck_ok (ecr_storage_atr r)"
  by (auto simp: ecr_storage_atr_def Let_def card_inv_def reader_inv_def tck_ok_def)

lemma ecr_typeA_card:
  assumes "card_inv r" and "is_rfid_class (m_class r)" and "length atr = n" and "n \<le> 33" and "is_reset Mode"
    and "ecr_typeA r Result orig atr n = (Res, atr', n', r')"
  shows "card_inv r' \<and> m_class r' = m_class r \<and> atr_out Mode orig atr' n' r'"
proof -
  let ?r = "r\<lparr>m_SerialNumber := take (m_ATR_Length r - 3) (drop 3 (m_ATR r))\<rparr>"
  have c: "card_inv ?r" using assms(1) by (simp add: card_inv_updates)
  obtain R1 Rsp r1 where t: "Transfer ?r (ccid_msg PC_TO_RDR_SETPARAMETERS 0 [3, 0, 0] []) = (R1, Rsp, r1)"
    by (metis prod_cases3)
  note tc = Transfer_card[OF c t]
  have c1: "card_inv (r1\<lparr>m_ATR := overlay 0 [0x3b, 0x80, 0x80, 0x01] (m_ATR r1)\<rparr>)"
    using tc(1) by (simp add: card_inv_def reader_inv_def)
  have cl: "m_class r1 = m_class r" using tc(2) by simp
  have out: "atr_out Mode orig atr n q" for q using assms(3-5) by (simp add: atr_out_def)
  note ats = ecr_ats_atr_card[OF tc(1), of "rsp_data Rsp"] and st = ecr_storage_atr_card[OF c]
  note fin = ecr_finish_card[OF _ _ assms(3-5)]
  show ?thesis
    using assms(2,6) tc(1) c1 t ats st cl out
      fin[of "ecr_ats_atr r1 (rsp_data Rsp)" Result orig Res atr' n' r']
      fin[of "ecr_storage_atr ?r" Result orig Res atr' n' r']
    by (auto simp: ecr_typeA_def Let_def split: if_splits)
qed

lemma ecr_typeB_card:
  assumes "card_inv r" and "length atr = n" and "n \<le> 33" and "is_reset Mode"
    and "ecr_typeB r Result orig atr n = (Res, atr', n', r')"
  shows "card_inv r' \<and> m_class r' = m_class r \<and> atr_out Mode orig atr' n' r'"
proof -
  let ?r = "r\<lparr>m_SerialNumber := take 4 (m_ATR r),
        m_ATR := overlay 0 ([0x3b, 0x88, 0x80, 0x01] @ take 8 (drop 1 (m_ATR r))) (m_ATR r),
        m_ATR_Length := 12\<rparr>"
  have c: "card_inv ?r" using assms(1) by (simp add: card_inv_def reader_inv_def)
  have l: "tck_ok ?r" by (simp add: tck_ok_def)
  have f: "ecr_finish ?r Result orig atr n = (Res, atr', n', r')"
    using assms(5) by (simp only: ecr_typeB_def)
  show ?thesis using ecr_finish_card[OF c l assms(2-4) f] by simp
qed

lemma ecr_IfdPower_card:
  assumes "card_inv r" and "is_rfid_class (m_class r)" and "ecr_IfdPower r Mode orig t = (Res, atr, n, r')"
  shows "card_inv r' \<and> m_class r' = m_class r \<and> atr_out Mode orig atr n r'"
proof -
  obtain R1 a1 n1 r1 where p: "ec30_IfdPower r Mode orig t = (R1, a1, n1, r1)" by (metis prod_cases4)
  note pc = ec30_IfdPower_card[OF assms(1) p]
  let ?r2 = "r1\<lparr>m_bIsRF := False\<rparr>"
  have c2: "card_inv ?r2" using pc by (simp add: card_inv_updates)
  have rf: "is_rfid_class (m_class ?r2)" using pc assms(2) by simp
  have out: "atr_out Mode orig a1 n1 ?r2" using pc by (simp add: atr_out_def)
  show ?thesis
    using assms(3) p pc c2 out ecr_typeA_card[OF c2 rf, of a1 n1 Mode R1 orig Res atr n r']
      ecr_typeB_card[OF c2, of a1 n1 Mode R1 orig Res atr n r']
    by (auto simp: ecr_IfdPower_def Let_def split: if_splits)
qed

lemma IfdPower_card:
  assumes "card_inv r" and "IfdPower r Mode orig Timeout = (Res, atr, n, r')"
  shows "card_inv r' \<and> m_class r' = m_class r \<and> atr_out Mode orig atr n r'"
proof -
  let ?old = "is_reset Mode \<and> old_test_date (ri_TestDate (m_ReaderInfo r))"
  consider "m_class r = ECA" ?old | "m_class r = ECA" "\<not> ?old" | "m_class r \<noteq> ECA" "is_rfid_class (m_class r)"
    | "m_class r \<noteq> ECA" "\<not> is_rfid_class (m_class r)" by blast
  then show ?thesis
  proof cases
    case 1
    then have "atr = []" "n = 0" "r' = r" using assms(2) by (simp_all add: IfdPower_def eca_IfdPower_def)
    then show ?thesis using 1 assms(1) by (simp add: atr_out_def)
  next
    case 2
    then have "ec30_IfdPower r Mode orig Timeout = (Res, atr, n, r')"
      using assms(2) by (simp only: IfdPower_def eca_IfdPower_def if_True if_False refl)
    then show ?thesis using ec30_IfdPower_card[OF assms(1)] by blast
  next
    case 3
    then have "ecr_IfdPower r Mode orig Timeout = (Res, atr, n, r')" using assms(2) by (simp add: IfdPower_def)
    then show ?thesis by (rule ecr_IfdPower_card[OF assms(1) 3(2)])
  next
    case 4
    then have "ec30_IfdPower r Mode orig Timeout = (Res, atr, n, r')" using assms(2) by (simp add: IfdPower_def)
    then show ?thesis using ec30_IfdPower_card[OF assms(1)] by blast
  qed
qed

text \<open>
  Property C29.  Powering a card with any mode, on every reader class and for every behaviour of the
  device, keeps the reader sound: unless an answer to select with a length byte that wraps was copied
  over the end of \<^verbatim>\<open>m_ATR\<close> (\<open>g_atr_overrun\<close>, RFID readers only), the ATR length is at most 33 and the
  protocol that is active is none or one the card offers.  A reset with at most 255 bytes announced
  hands out an ATR of the reported length, at most 33 bytes, even then; power down and unknown modes
  store nothing and leave the caller's length as it was.
\<close>

theorem IfdPower_sound:
  assumes "card_inv r" and "IfdPower r Mode orig Timeout = (Res, atr, n, r')"
  shows "card_inv r' \<and> m_class r' = m_class r
     \<and> (\<not> g_atr_overrun r' \<longrightarrow> m_ATR_Length r' \<le> 33
          \<and> m_ActiveProtocol r' AND m_PossibleProtocols r' = m_ActiveProtocol r')
     \<and> (is_reset Mode \<longrightarrow> orig < 256 \<or> \<not> g_atr_overrun r' \<longrightarrow> length atr = n \<and> n \<le> 33)
     \<and> (\<not> is_reset Mode \<longrightarrow> atr = [] \<and> n = orig)"
  using IfdPower_card[OF assms] by (auto simp: atr_out_def card_inv_def reader_inv_def split: if_splits)

lemma reader0_card: "card_inv (reader0 cls (Some (USB (usb0 i))))" "card_inv (reader0 cls None)"
  using reader0_inv by (simp_all add: card_inv_def reader0_def)

lemma IfdPower_sound_witness:
  "case IfdPower (reader0 ECR (Some (USB (usb0 [Some (slot_status 0 1)])))) SCARD_COLD_RESET 33 0
     of (Res, atr, n, r') \<Rightarrow> card_inv r' \<and> length atr = n \<and> n \<le> 33"
proof -
  obtain Res atr n r' where e: "IfdPower (reader0 ECR (Some (USB (usb0 [Some (slot_status 0 1)]))))
      SCARD_COLD_RESET 33 0 = (Res, atr, n, r')" by (metis prod_cases4)
  show ?thesis unfolding e prod.case using IfdPower_sound[OF reader0_card(1) e] by auto
qed

end
