(* ===== verification/CJ_Transmit.thy ===== *)
theory CJ_Transmit
  imports CJ_Power
begin

text \<open>
  Transmission of APDUs: \<^verbatim>\<open>CEC30Reader::ccidTransmit\<close>, \<^verbatim>\<open>IfdTransmit\<close> with its protocol header and
  \<^verbatim>\<open>_IfdTransmit\<close> with the reader's own commands and the T=0 handling, together with the versions the
  derived classes override, and the protocol selection of the RFID reader.

  A response is the pair of the bytes written to the caller's buffer and the length reported through
  \<^verbatim>\<open>*response_len\<close>: the two are kept apart because the code does not always keep them equal.
\<close>

type_synonym transmit_result = "ifd_result \<times> bytes \<times> u16 \<times> reader"

section \<open>One block\<close>

abbreviation (input) "ICC_MUTE \<equiv> (0xfe :: byte)"

text \<open>
  The copy of \<^verbatim>\<open>Response.dwLength\<close> bytes out of the 2038 byte data union; a length that is larger
  reads behind the response object.
\<close>

definition ccidTransmit :: "reader \<Rightarrow> bytes \<Rightarrow> u16 \<Rightarrow> transmit_result" where
  "ccidTransmit r cmd cap =
     (if length cmd > 1014 then (STATUS_BUFFER_OVERFLOW, [], 0, r)
      else (case Transfer r (ccid_msg PC_TO_RDR_XFRBLOCK (length cmd) [0, 0, 0] cmd) of (Res, Response, r1) \<Rightarrow>
        if Res = CJ_SUCCESS then
          (if rsp_bMessageType Response \<noteq> RDR_TO_PC_DATABLOCK
           then (STATUS_DEVICE_PROTOCOL_ERROR, [], 0, snd (power_down r1 0))
           else if rsp_bStatus Response AND 0x40 \<noteq> 0 then
             (if rsp_bError Response = ICC_MUTE
              then (STATUS_IO_TIMEOUT, [], 0, snd (power_down r1 0))
              else (STATUS_DEVICE_PROTOCOL_ERROR, [], 0, snd (power_down r1 0)))
           else if unat (rsp_dwLength Response) > unat cap then (STATUS_BUFFER_TOO_SMALL, [], 0, r1)
           else (STATUS_SUCCESS, take (unat (rsp_dwLength Response)) (rsp_data Response),
                 ucast (rsp_dwLength Response),
                 r1\<lparr>g_overrun := g_overrun r1 \<or> unat (rsp_dwLength Response) > 2038\<rparr>))
        else (STATUS_DEVICE_NOT_CONNECTED, [], cap, r1)))"

lemma ccidTransmit_fuel:
  "ccidTransmit r cmd cap = (STATUS_SUCCESS, d, n, r') \<Longrightarrow> rfuel r' < rfuel r"
  by (auto simp: ccidTransmit_def rfuel_def split: if_splits prod.splits dest!: Transfer_fuel)

section \<open>T=0\<close>

text \<open>
  The receive buffer \<^verbatim>\<open>rbuffer\<close> has 258 bytes; reads behind it see \<open>g_over\<close>.
\<close>

definition rb_at :: "reader \<Rightarrow> bytes \<Rightarrow> nat \<Rightarrow> byte" where
  "rb_at r rb i = (if i < length rb then rb ! i else g_over r i)"

definition rb_init :: "reader \<Rightarrow> bytes" where
  "rb_init r = take 258 (g_stack r)"

text \<open>
  Commands without data: the inner loop repeats the command with the length the card asks for
  (\<^verbatim>\<open>6Cxx\<close>), the outer one fetches the rest of a chained answer (\<^verbatim>\<open>61xx\<close>).  Both end at once for the
  PC/SC norm.  \<open>Inr\<close> is a return out of the loop.
\<close>

function t0_inner ::
  "reader \<Rightarrow> bytes \<Rightarrow> byte \<Rightarrow> bytes \<Rightarrow> nat \<Rightarrow> (bytes \<times> nat \<times> reader) + (ifd_result \<times> bool \<times> reader)" where
  "t0_inner r head Le rb rlen =
     (if rlen = 2 \<and> rb ! 0 = 0x6C then
        (let La = rb ! 1 in
         case ccidTransmit r (head @ [La]) 258 of (Result, d, n, r1) \<Rightarrow>
           if Result \<noteq> STATUS_SUCCESS then Inr (Result, False, r1)
           else
             (let rb1 = overlay 0 d rb; rlen1 = unat n in
              if m_ApduNorm r1 = NORM_PCSC then Inl (rb1, rlen1, r1)
              else if rlen1 < 2 then Inr (STATUS_IO_TIMEOUT, True, r1)
              else if Le \<noteq> 0 \<and> Le < La
              then t0_inner r1 head Le (overlay (unat Le) [rb1 ! unat La, rb1 ! (unat La + 1)] rb1) (unat Le + 2)
              else t0_inner r1 head Le rb1 rlen1))
      else Inl (rb, rlen, r))"
  by pat_completeness auto
termination
  by (relation "measure (\<lambda>(r, head, Le, rb, rlen). rfuel r)")
    (auto dest!: sym [THEN ccidTransmit_fuel])

declare t0_inner.simps [simp del]

lemma t0_inner_stop: "\<not> (rlen = 2 \<and> rb ! 0 = 0x6C) \<Longrightarrow> t0_inner r head Le rb rlen = Inl (rb, rlen, r)"
  by (subst t0_inner.simps) (simp only: if_False)

lemma t0_inner_go:
  "rb ! 0 = 0x6C \<Longrightarrow> ccidTransmit r (head @ [rb ! 1]) 258 = (Result, d, n, r1) \<Longrightarrow>
   t0_inner r head Le rb 2 =
     (if Result \<noteq> STATUS_SUCCESS then Inr (Result, False, r1)
      else if m_ApduNorm r1 = NORM_PCSC then Inl (overlay 0 d rb, unat n, r1)
      else if unat n < 2 then Inr (STATUS_IO_TIMEOUT, True, r1)
      else if Le \<noteq> 0 \<and> Le < rb ! 1
      then t0_inner r1 head Le (overlay (unat Le) [overlay 0 d rb ! unat (rb ! 1),
             overlay 0 d rb ! (unat (rb ! 1) + 1)] (overlay 0 d rb)) (unat Le + 2)
      else t0_inner r1 head Le (overlay 0 d rb) (unat n))"
  by (subst t0_inner.simps) (simp add: Let_def)

lemma t0_inner_fuel: "t0_inner r head Le rb rlen = Inl (rb', rlen', r') \<Longrightarrow> rfuel r' \<le> rfuel r"
proof (induction r head Le rb rlen arbitrary: rb' rlen' r' rule: t0_inner.induct)
  case (1 r head Le rb rlen)
  show ?case
  proof (cases "rlen = 2 \<and> rb ! 0 = 0x6C")
    case False
    then show ?thesis using "1.prems" t0_inner_stop[OF False] by simp
  next
    case True
    obtain Result d n r1 where t: "ccidTransmit r (head @ [rb ! 1]) 258 = (Result, d, n, r1)"
      by (metis prod_cases4)
    have eq: "t0_inner r head Le rb rlen = Inl (rb', rlen', r')" by (rule "1.prems")
    note go = t0_inner_go[of rb r head Result d n r1 Le]
    have ok: "Result = STATUS_SUCCESS" using eq go t True by (auto split: if_splits)
    have f: "rfuel r1 < rfuel r" using ccidTransmit_fuel t ok by simp
    show ?thesis
      using eq go t True ok f "1.IH"[OF True refl t[symmetric] refl refl _ refl refl]
      by (fastforce split: if_splits)
  qed
qed

lemma t0_inner_fuel_6C:
  assumes "t0_inner r head Le (overlay 0 [0x6C, x] rb) 2 = Inl (rb', rlen', r')"
  shows "rfuel r' < rfuel r"
proof -
  let ?rb = "overlay 0 [0x6C, x] rb"
  have h: "?rb ! 0 = 0x6C" by (simp add: overlay_def)
  obtain Result d n r1 where t: "ccidTransmit r (head @ [?rb ! 1]) 258 = (Result, d, n, r1)"
    by (metis prod_cases4)
  note go = t0_inner_go[OF h t, of Le]
  have ok: "Result = STATUS_SUCCESS" using assms go by (auto split: if_splits)
  have f: "rfuel r1 < rfuel r" using ccidTransmit_fuel t ok by simp
  have "r' = r1 \<or> (\<exists>a b. t0_inner r1 head Le a b = Inl (rb', rlen', r'))"
    using assms go ok by (auto split: if_splits)
  then show ?thesis using f by (auto dest!: t0_inner_fuel)
qed

function t0_chain ::
  "reader \<Rightarrow> bytes \<Rightarrow> bytes \<Rightarrow> nat \<Rightarrow> bytes \<Rightarrow> u16 \<Rightarrow> u16 \<Rightarrow> transmit_result" where
  "t0_chain r head rb rlen out ges_len cap =
     (if rb_at r rb (rlen - 2) = 0x61 then
        (let Le = rb_at r rb (rlen - 1);
             rb1 = overlay 0 [0x6C, Le] rb in
         case t0_inner r head Le rb1 2 of
           Inr (Result, zero, r1) \<Rightarrow> (Result, out, if zero then 0 else cap, r1)
         | Inl (rb2, rlen2, r1) \<Rightarrow>
             if unat ges_len + rlen2 > unat cap then (STATUS_BUFFER_TOO_SMALL, out, 0, r1)
             else
               (let out1 = take (unat ges_len) out @ take rlen2 rb2;
                    ges1 = ges_len + of_nat rlen2 - 2 in
                if m_ApduNorm r1 = NORM_PCSC then (STATUS_SUCCESS, out1, ges1 + 2, r1)
                else t0_chain r1 [0x00, 0xc0, 0x00, 0x00] rb2 rlen2 out1 ges1 cap))
      else (STATUS_SUCCESS, out, ges_len + 2, r))"
  by pat_completeness auto
termination
  by (relation "measure (\<lambda>(r, head, rb, rlen, out, ges, cap). rfuel r)")
    (auto dest!: sym [THEN t0_inner_fuel_6C] t0_inner_fuel_6C)

declare t0_chain.simps [simp del]

text \<open>A command without data: the loops start as if the card had announced \<^verbatim>\<open>cmd[4]\<close> bytes.\<close>

definition t0_case2 :: "reader \<Rightarrow> bytes \<Rightarrow> u16 \<Rightarrow> transmit_result" where
  "t0_case2 r cmd cap = t0_chain r (take 4 cmd) (overlay 0 [0x61, cmd ! 4] (rb_init r)) 2 [] 0 cap"

text \<open>
  A command with data and an expected length: it is sent without the length; a warning is answered
  with one GET RESPONSE, \<^verbatim>\<open>61xx\<close> and \<^verbatim>\<open>6Cxx\<close> with as many as the card asks for.  \<open>rptr\<close> is the offset of
  the pointer in \<^verbatim>\<open>rbuffer\<close>.  \<^verbatim>\<open>rest_size\<close> and \<^verbatim>\<open>tot_size\<close> are 32 bit.
\<close>

function t0_fetch ::
  "reader \<Rightarrow> byte \<Rightarrow> bytes \<Rightarrow> nat \<Rightarrow> nat \<Rightarrow> u32 \<Rightarrow> u32 \<Rightarrow> (bytes \<times> u32 \<times> reader) + (ifd_result \<times> reader)" where
  "t0_fetch r last_byte rb rptr rlen rest_size tot_size =
     (if rlen \<ge> 2 \<and> (rb_at r rb (rptr + rlen - 2) = 0x61 \<or> rb_at r rb (rptr + rlen - 2) = 0x6C) then
        (let rptr1 = rptr + rlen - 2;
             Le = (if last_byte < rb_at r rb (rptr1 + rlen - 1) \<and> last_byte \<noteq> 0 then last_byte
                   else rb_at r rb (rptr1 + 1)) in
         case ccidTransmit r [0x00, 0xC0, 0x00, 0x00, Le] (ucast rest_size) of (Result, d, n, r1) \<Rightarrow>
           if Result \<noteq> STATUS_SUCCESS then Inr (Result, r1)
           else t0_fetch r1 last_byte (overlay rptr1 d rb) rptr1 (unat n)
                  (rest_size - (ucast n - 2)) (tot_size + (ucast n - 2)))
      else Inl (rb, tot_size, r))"
  by pat_completeness auto
termination
  by (relation "measure (\<lambda>(r, l, rb, rptr, rlen, rest, tot). rfuel r)")
    (auto dest!: sym [THEN ccidTransmit_fuel])

declare t0_fetch.simps [simp del]

definition is_warning :: "bytes \<Rightarrow> bool" where
  "is_warning rb \<longleftrightarrow> (rb ! 0 AND 0xf0 = 0x90 \<and> (rb ! 0 \<noteq> 0x90 \<or> rb ! 1 \<noteq> 0x00))
     \<or> rb ! 0 = 0x62 \<or> rb ! 0 = 0x63"

text \<open>The last part: what the loops left in \<^verbatim>\<open>rbuffer\<close> goes to the caller.\<close>

definition t0_deliver :: "(bytes \<times> u32 \<times> reader) + (ifd_result \<times> reader) \<Rightarrow> u16 \<Rightarrow> transmit_result" where
  "t0_deliver res cap = (case res of
      Inr (Result, r1) \<Rightarrow> (Result, [], 0, r1)
    | Inl (rb, tot_size, r1) \<Rightarrow>
        if unat (tot_size + 2) > unat cap then (STATUS_BUFFER_TOO_SMALL, [], 0, r1)
        else (STATUS_SUCCESS, take (unat (tot_size + 2)) rb, ucast (tot_size + 2), r1))"

definition t0_case4 :: "reader \<Rightarrow> bytes \<Rightarrow> u16 \<Rightarrow> transmit_result" where
  "t0_case4 r cmd cap =
     (let le = last cmd in
      case ccidTransmit r (butlast cmd) 258 of (Result, d, n, r1) \<Rightarrow>
        if Result \<noteq> STATUS_SUCCESS then (Result, [], 0, r1)
        else
          (let rb = overlay 0 d (rb_init r); rlen = unat n;
               rest_size = 258 - (ucast n - 2); tot_size = ucast n - 2 in
           if rlen = 2 \<and> is_warning rb then
             (case ccidTransmit r1 [0x00, 0xC0, 0x00, 0x00, le] (ucast rest_size) of (Result2, d2, n2, r2) \<Rightarrow>
                if Result2 \<noteq> STATUS_SUCCESS then (Result2, [], 0, r2)
                else t0_deliver (t0_fetch r2 le (overlay 0 d2 rb) 0 (unat n2)
                       (rest_size - (ucast n2 - 2)) (tot_size + (ucast n2 - 2))) cap)
           else t0_deliver (t0_fetch r1 le rb (rlen - 2) rlen rest_size tot_size) cap))"

section \<open>Commands the driver answers itself\<close>

fun dec_digits :: "nat \<Rightarrow> bytes" where
  "dec_digits n = (if n < 10 then [0x30 + of_nat n] else dec_digits (n div 10) @ [0x30 + of_nat (n mod 10)])"

declare dec_digits.simps [simp del]

definition hex_byte :: "nat \<Rightarrow> byte" where
  "hex_byte d = (if d < 10 then 0x30 + of_nat d else 0x37 + of_nat d)"

fun hex_digits :: "nat \<Rightarrow> bytes" where
  "hex_digits n = (if n < 16 then [hex_byte n] else hex_digits (n div 16) @ [hex_byte (n mod 16)])"

declare hex_digits.simps [simp del]

text \<open>\<^verbatim>\<open>sprintf(\"%04X\")\<close>.\<close>

definition sprintf_04X :: "nat \<Rightarrow> bytes" where
  "sprintf_04X n = (let d = hex_digits n in replicate (4 - length d) 0x30 @ d)"

definition is_info_cmd :: "bytes \<Rightarrow> bool" where
  "is_info_cmd cmd \<longleftrightarrow> length cmd = 5 \<and> cmd ! 0 = 0xff \<and> cmd ! 1 = 0x9a \<and> cmd ! 2 = 0x01 \<and> cmd ! 4 = 0"

text \<open>An answer \<open>d\<close> that needs \<open>need\<close> bytes of room and is reported with the length \<open>n\<close>.\<close>

definition info_answer :: "reader \<Rightarrow> u16 \<Rightarrow> nat \<Rightarrow> bytes \<Rightarrow> nat \<Rightarrow> transmit_result" where
  "info_answer r cap need d n =
     (if unat cap \<ge> need then (STATUS_SUCCESS, d, of_nat n, r) else (STATUS_BUFFER_TOO_SMALL, [], 0, r))"

definition ec30_info :: "reader \<Rightarrow> byte \<Rightarrow> u16 \<Rightarrow> transmit_result option" where
  "ec30_info r code cap =
     (let ps = ri_ProductString (m_ReaderInfo r); ver = ri_Version (m_ReaderInfo r);
          pv = package_version r in
      if code = 1 then Some (info_answer r cap 12
          [0x52, 0x45, 0x49, 0x4e, 0x45, 0x52, 0x20, 0x53, 0x43, 0x54, 0x90, 0x00] 12)
      else if code = 2 then Some (info_answer r cap 6 [0x30, 0x43, 0x34, 0x42, 0x90, 0x00] 6)
      else if code = 3 then Some (info_answer r cap (length ps + 2) (ps @ [0x90, 0x00]) (length ps + 2))
      else if code = 4 then Some (info_answer r cap 6
          (sprintf_04X (unat (ri_PID (m_ReaderInfo r))) @ [0x90, 0x00]) 6)
      else if code = 6 then Some (info_answer r cap 5
          (dec_digits (unat (drop_bit 4 ver)) @ [0x2e] @ dec_digits (unat (ver AND 0x0f)) @ [0x90, 0x00]) 5)
      else if code = 7 then Some (info_answer r cap (length pv + 2) (pv @ [0x90, 0x00]) (length pv + 2))
      else if code = 8 then Some (info_answer r cap 6 [0x37, 0x36, 0x38, 0x90, 0x00] 5)
      else if code = 9 then Some (info_answer r cap 8 [0x34, 0x32, 0x34, 0x32, 0x35, 0x30, 0x90, 0x00] 18)
      else None)"

section \<open>Transmission of one command\<close>

definition ec30_IfdTransmit_raw :: "reader \<Rightarrow> bytes \<Rightarrow> u16 \<Rightarrow> transmit_result" where
  "ec30_IfdTransmit_raw r cmd cap =
     (case (if is_info_cmd cmd then ec30_info r (cmd ! 3) cap else None) of
        Some res \<Rightarrow> res
      | None \<Rightarrow>
          if m_ActiveProtocol r = SCARD_PROTOCOL_T0 \<and> \<not> m_bIsRF r then
            (if length cmd = 4 then ccidTransmit r (cmd @ [0]) cap
             else if length cmd = 5 then t0_case2 r cmd cap
             else if length cmd = 5 + unat (cmd ! 4) \<and> cmd ! 4 \<noteq> 0 then ccidTransmit r cmd cap
             else if length cmd = 6 + unat (cmd ! 4) \<and> cmd ! 4 \<noteq> 0 then t0_case4 r cmd cap
             else (STATUS_INVALID_PARAMETER, [], cap, r))
          else ccidTransmit r cmd cap)"

text \<open>The classes with their own product id, and the UID and ATS commands of the RFID reader.\<close>

definition pid_answer :: "nat \<Rightarrow> reader \<Rightarrow> bytes \<Rightarrow> u16 \<Rightarrow> transmit_result" where
  "pid_answer pid r cmd cap =
     (if is_info_cmd cmd \<and> cmd ! 3 = 4
      then info_answer r cap 6 (sprintf_04X pid @ [0x90, 0x00]) 6
      else ec30_IfdTransmit_raw r cmd cap)"

definition ecp_IfdTransmit_raw :: "reader \<Rightarrow> bytes \<Rightarrow> u16 \<Rightarrow> transmit_result" where
  "ecp_IfdTransmit_raw = pid_answer 0x0420"

definition sec_IfdTransmit_raw :: "reader \<Rightarrow> bytes \<Rightarrow> u16 \<Rightarrow> transmit_result" where
  "sec_IfdTransmit_raw = pid_answer 0x0410"

text \<open>\<^verbatim>\<open>FF CA\<close>: \<open>src\<close> is the serial number or the historical bytes, \<open>le\<close> the expected length.\<close>

definition ecr_get_data :: "reader \<Rightarrow> bytes \<Rightarrow> nat \<Rightarrow> u16 \<Rightarrow> transmit_result" where
  "ecr_get_data r src le cap =
     (let n = length src in
      if unat cap \<ge> n + 2 \<and> (le = 0 \<or> le \<ge> n) then
        (if le \<noteq> 0 \<and> le > n
         then (STATUS_SUCCESS, src @ replicate (le - n) 0 @ [0x62, 0x82], of_nat (le + 2),
               r\<lparr>g_overrun := g_overrun r \<or> le + 2 > unat cap\<rparr>)
         else (STATUS_SUCCESS, src @ [0x90, 0x00], of_nat (n + 2), r))
      else if unat cap \<ge> 2 then (STATUS_SUCCESS, [0x6C, of_nat n], 2, r)
      else (STATUS_BUFFER_TOO_SMALL, [], cap, r))"

definition ecr_name :: bytes where
  "ecr_name = [0x63, 0x79, 0x62, 0x65, 0x72, 0x4a, 0x61, 0x63, 0x6b, 0x20, 0x52, 0x46, 0x49, 0x44, 0x20,
     0x6b, 0x6f, 0x6d, 0x66, 0x6f, 0x72, 0x74, 0x20, 0x28, 0x54, 0x65, 0x73, 0x74, 0x29]"

definition ecr_IfdTransmit_raw :: "reader \<Rightarrow> bytes \<Rightarrow> u16 \<Rightarrow> transmit_result" where
  "ecr_IfdTransmit_raw r cmd cap =
     (if is_info_cmd cmd \<and> cmd ! 3 = 3 then info_answer r cap 31 (ecr_name @ [0x90, 0x00]) 31
      else if is_info_cmd cmd \<and> cmd ! 3 = 4
      then info_answer r cap 6 (sprintf_04X 0x0450 @ [0x90, 0x00]) 6
      else if m_bIsRF r \<and> length cmd = 5 \<and> cmd ! 0 = 0xff \<and> cmd ! 1 = 0xca \<and> cmd ! 2 \<le> 0x01 \<and> cmd ! 3 = 0 then
        (if cmd ! 2 = 0 then ecr_get_data r (m_SerialNumber r) (unat (cmd ! 4)) cap
         else ecr_get_data r (take (m_ATR_Length r - 5) (drop 4 (m_ATR r))) (unat (cmd ! 4)) cap)
      else ecp_IfdTransmit_raw r cmd cap)"

definition IfdTransmit_raw :: "reader \<Rightarrow> bytes \<Rightarrow> u16 \<Rightarrow> transmit_result" where
  "IfdTransmit_raw r cmd cap =
     (if is_rfid_class (m_class r) then ecr_IfdTransmit_raw r cmd cap
      else if m_class r = ECP \<or> m_class r = ECB then ecp_IfdTransmit_raw r cmd cap
      else if m_class r = SEC then sec_IfdTransmit_raw r cmd cap
      else ec30_IfdTransmit_raw r cmd cap)"

section \<open>Transmission with a protocol header\<close>

text \<open>\<^verbatim>\<open>SCARD_IO_REQUEST\<close>: two 64 bit words, the protocol and the length of the header.\<close>

fun le_nat :: "bytes \<Rightarrow> nat" where
  "le_nat [] = 0"
| "le_nat (b # bs) = unat b + 256 * le_nat bs"

definition io_dwProtocol :: "bytes \<Rightarrow> nat" where "io_dwProtocol cmd = le_nat (take 8 cmd)"
definition io_cbPciLength :: "bytes \<Rightarrow> nat" where "io_cbPciLength cmd = le_nat (take 8 (drop 8 cmd))"

definition IfdTransmit :: "reader \<Rightarrow> bytes \<Rightarrow> u16 \<Rightarrow> transmit_result" where
  "IfdTransmit r cmd cap =
     (let ResponseLength = cap - 16 in
      if length cmd \<le> 16 then (STATUS_INVALID_PARAMETER, [], 0, r)
      else if length cmd \<le> io_cbPciLength cmd then (STATUS_INVALID_PARAMETER, [], 0, r)
      else if io_dwProtocol cmd \<noteq> unat (m_ActiveProtocol r) then (STATUS_INVALID_PARAMETER, [], 0, r)
      else if m_ReaderState r \<noteq> SCARD_SPECIFIC then (STATUS_INVALID_DEVICE_STATE, [], 0, r)
      else (case IfdTransmit_raw r (drop (io_cbPciLength cmd) cmd) ResponseLength of (Res, d, n, r1) \<Rightarrow>
        if Res = STATUS_SUCCESS
        then (STATUS_SUCCESS, take 8 cmd @ [16, 0, 0, 0, 0, 0, 0, 0] @ d, n + 16, r1)
        else (Res, [], 0, r1)))"

section \<open>Protocol selection of the RFID reader\<close>

definition ecr_IfdSetProtocol :: "reader \<Rightarrow> u32 \<Rightarrow> ifd_result \<times> u32 \<times> reader" where
  "ecr_IfdSetProtocol r Protocol =
     (if m_bIsRF r then
        (if m_ReaderState r = SCARD_ABSENT then (STATUS_NO_MEDIA, 0, r)
         else if m_ReaderState r = SCARD_NEGOTIABLE then
           (let P = (if Protocol AND (SCARD_PROTOCOL_DEFAULT OR SCARD_PROTOCOL_OPTIMAL) \<noteq> 0
                     then Protocol OR (SCARD_PROTOCOL_T0 OR SCARD_PROTOCOL_T1) else Protocol) in
            if P AND SCARD_PROTOCOL_T0 \<noteq> 0 \<and> m_PossibleProtocols r AND SCARD_PROTOCOL_T0 \<noteq> 0
            then (STATUS_SUCCESS, SCARD_PROTOCOL_T0,
                  r\<lparr>m_ActiveProtocol := SCARD_PROTOCOL_T0, m_ReaderState := SCARD_SPECIFIC\<rparr>)
            else if P AND SCARD_PROTOCOL_T1 \<noteq> 0 \<and> m_PossibleProtocols r AND SCARD_PROTOCOL_T1 \<noteq> 0
            then (STATUS_SUCCESS, SCARD_PROTOCOL_T1,
                  r\<lparr>m_ActiveProtocol := SCARD_PROTOCOL_T1, m_ReaderState := SCARD_SPECIFIC\<rparr>)
            else (STATUS_INVALID_DEVICE_REQUEST, 0, r))
         else if m_ReaderState r = SCARD_SPECIFIC then
           (let P = (if Protocol AND (SCARD_PROTOCOL_DEFAULT OR SCARD_PROTOCOL_OPTIMAL) \<noteq> 0
                     then Protocol OR (SCARD_PROTOCOL_T0 OR SCARD_PROTOCOL_T1 OR SCARD_PROTOCOL_RAW)
                     else Protocol) in
            if m_ActiveProtocol r AND P \<noteq> 0 then (STATUS_SUCCESS, m_ActiveProtocol r, r)
            else (STATUS_NOT_SUPPORTED, 0, r))
         else (STATUS_IO_TIMEOUT, 0, r))
      else ccid_IfdSetProtocol r Protocol)"

definition IfdSetProtocol :: "reader \<Rightarrow> u32 \<Rightarrow> ifd_result \<times> u32 \<times> reader" where
  "IfdSetProtocol r Protocol =
     (if is_rfid_class (m_class r) then ecr_IfdSetProtocol r Protocol else ccid_IfdSetProtocol r Protocol)"

section \<open>Soundness\<close>

lemma card_inv_overrun: "card_inv (r\<lparr>g_overrun := b\<rparr>) = card_inv r"
  by (rule card_inv_updates)

lemma ccidTransmit_card:
  assumes "card_inv r" and "ccidTransmit r cmd cap = (Res, d, n, r')"
  shows "card_inv r' \<and> m_class r' = m_class r \<and> length d \<le> unat cap
     \<and> (Res = STATUS_SUCCESS \<longrightarrow> unat n \<le> unat cap \<and> (\<not> g_overrun r' \<longrightarrow> length d = unat n))"
proof (cases "length cmd > 1014")
  case True
  then show ?thesis using assms by (auto simp: ccidTransmit_def)
next
  case False
  obtain R Rsp r1 where t: "Transfer r (ccid_msg PC_TO_RDR_XFRBLOCK (length cmd) [0, 0, 0] cmd) = (R, Rsp, r1)"
    by (metis prod_cases3)
  note tc = Transfer_card[OF assms(1) t]
  have pd: "card_inv (snd (power_down r1 0))" "m_class (snd (power_down r1 0)) = m_class r"
    using power_down_card[OF tc(1), of 0] tc(2) by auto
  have len: "length (rsp_data Rsp) = 2038" using tc(3) by (simp add: rsp_data_def)
  have n: "unat (ucast w :: u16) = unat w" if "unat w \<le> unat cap" for w :: u32
  proof -
    have "unat w < 65536" using that u16_bound[of cap] by simp
    then show ?thesis by (simp add: unsigned_ucast_eq take_bit_nat_eq_self)
  qed
  show ?thesis
    using assms(2) False t tc(1,2) pd len n[of "rsp_dwLength Rsp"]
    by (auto simp: ccidTransmit_def card_inv_overrun split: if_splits)
qed

definition inner_post :: "reader_class \<Rightarrow> (bytes \<times> nat \<times> reader) + (ifd_result \<times> bool \<times> reader) \<Rightarrow> bool" where
  "inner_post cls res = (case res of
      Inl (rb', rlen', r') \<Rightarrow> card_inv r' \<and> m_class r' = cls \<and> length rb' = 258
    | Inr (Res, z, r') \<Rightarrow> card_inv r' \<and> m_class r' = cls \<and> Res \<noteq> STATUS_SUCCESS)"

lemma inner_post_simps [simp]:
  "inner_post cls (Inl (rb, n, r)) = (card_inv r \<and> m_class r = cls \<and> length rb = 258)"
  "inner_post cls (Inr (Res, z, r)) = (card_inv r \<and> m_class r = cls \<and> Res \<noteq> STATUS_SUCCESS)"
  by (simp_all add: inner_post_def)

lemma t0_inner_card:
  "card_inv r \<Longrightarrow> length rb = 258 \<Longrightarrow> inner_post (m_class r) (t0_inner r head Le rb rlen)"
proof (induction r head Le rb rlen rule: t0_inner.induct)
  case (1 r head Le rb rlen)
  show ?case
  proof (cases "rlen = 2 \<and> rb ! 0 = 0x6C")
    case False
    then show ?thesis using "1.prems" t0_inner_stop[OF False] by simp
  next
    case True
    obtain Res d n r1 where t: "ccidTransmit r (head @ [rb ! 1]) 258 = (Res, d, n, r1)"
      by (metis prod_cases4)
    note c = ccidTransmit_card[OF "1.prems"(1) t]
    have l: "length (overlay 0 d rb) = 258" using c "1.prems"(2) by simp
    have l3: "length (overlay (unat Le) [x, y] (overlay 0 d rb)) = 258" for x y
      using l byte_bound[of Le] by simp
    note IH = "1.IH"[OF True refl t[symmetric] refl refl _ refl refl]
    show ?thesis
      using t0_inner_go[of rb r head Res d n r1 Le] True t c l l3 IH by (auto split: if_splits)
  qed
qed

lemma u16_ges:
  fixes g cap :: u16
  assumes "unat g + k \<le> unat cap"
  shows "unat (g + of_nat k - 2 + 2) = unat g + k"
proof -
  have "unat g + k < 65536" using assms u16_bound[of cap] by simp
  then have "unat (g + of_nat k) = unat g + k"
    by (simp add: unat_word_ariths unat_of_nat take_bit_nat_eq_self)
  then show ?thesis by simp
qed

lemma t0_chain_card:
  "card_inv r \<Longrightarrow> length rb = 258 \<Longrightarrow> (ges_len = 0 \<and> out = [] \<and> rb_at r rb (rlen - 2) = 0x61)
     \<or> (unat (ges_len + 2) \<le> unat cap \<and> length out \<le> unat cap) \<Longrightarrow>
   t0_chain r head rb rlen out ges_len cap = (Res, d, n, r') \<Longrightarrow>
     card_inv r' \<and> m_class r' = m_class r \<and> length d \<le> unat cap
     \<and> (Res = STATUS_SUCCESS \<longrightarrow> unat n \<le> unat cap)"
proof (induction r head rb rlen out ges_len cap arbitrary: Res d n r' rule: t0_chain.induct)
  case (1 r head rb rlen out ges_len cap)
  show ?case
  proof (cases "rb_at r rb (rlen - 2) = 0x61")
    case False
    then show ?thesis using "1.prems" by (auto simp: t0_chain.simps[of r])
  next
    case True
    let ?Le = "rb_at r rb (rlen - 1)"
    let ?rb1 = "overlay 0 [0x6C, ?Le] rb"
    have l1: "length ?rb1 = 258" using "1.prems"(2) by simp
    note ip = t0_inner_card[OF "1.prems"(1) l1, of head ?Le 2]
    show ?thesis
    proof (cases "t0_inner r head ?Le ?rb1 2")
      case (Inr e)
      obtain R z r1 where e: "e = (R, z, r1)" by (metis prod_cases3)
      then have "Res = R" "r' = r1" "d = out"
        using "1.prems"(4) True Inr by (simp_all add: t0_chain.simps[of r])
      then show ?thesis using ip Inr e "1.prems"(3) by auto
    next
      case (Inl x)
      obtain rb2 rlen2 r1 where x: "x = (rb2, rlen2, r1)" by (metis prod_cases3)
      have c1: "card_inv r1" "m_class r1 = m_class r" "length rb2 = 258" using ip Inl x by simp_all
      let ?out1 = "take (unat ges_len) out @ take rlen2 rb2" and ?ges1 = "ges_len + of_nat rlen2 - 2"
      show ?thesis
      proof (cases "unat ges_len + rlen2 > unat cap")
        case big: True
        then have "Res = STATUS_BUFFER_TOO_SMALL" "r' = r1" "d = out"
          using "1.prems"(4) True Inl x by (simp_all add: t0_chain.simps[of r])
        then show ?thesis using c1 "1.prems"(3) by auto
      next
        case fits: False
        then have g: "unat (?ges1 + 2) = unat ges_len + rlen2"
          using u16_ges[of ges_len rlen2 cap] by simp
        have o: "length ?out1 \<le> unat cap" using fits by simp
        show ?thesis
        proof (cases "m_ApduNorm r1 = NORM_PCSC")
          case True
          then have "d = ?out1" "n = ?ges1 + 2" "r' = r1"
            using "1.prems"(4) \<open>rb_at r rb (rlen - 2) = 0x61\<close> Inl x fits
            by (simp_all add: t0_chain.simps[of r] Let_def)
          then show ?thesis using c1 o g fits by simp
        next
          case norm: False
          then have eq: "t0_chain r1 [0x00, 0xc0, 0x00, 0x00] rb2 rlen2 ?out1 ?ges1 cap = (Res, d, n, r')"
            using "1.prems"(4) True Inl x fits by (simp add: t0_chain.simps[of r] Let_def)
          have pre: "unat (?ges1 + 2) \<le> unat cap \<and> length ?out1 \<le> unat cap"
            using g o fits by simp
          from "1.IH"[OF True refl refl Inl x[symmetric] refl fits refl refl norm c1(1,3) disjI2[OF pre] eq]
          show ?thesis using c1(2) by simp
        qed
      qed
    qed
  qed
qed

lemma t0_fetch_stop:
  "\<not> (rlen \<ge> 2 \<and> (rb_at r rb (rptr + rlen - 2) = 0x61 \<or> rb_at r rb (rptr + rlen - 2) = 0x6C)) \<Longrightarrow>
   t0_fetch r l rb rptr rlen rest tot = Inl (rb, tot, r)"
  by (subst t0_fetch.simps) (simp only: if_False)

lemma t0_fetch_go:
  "rlen \<ge> 2 \<and> (rb_at r rb (rptr + rlen - 2) = 0x61 \<or> rb_at r rb (rptr + rlen - 2) = 0x6C) \<Longrightarrow>
   ccidTransmit r [0x00, 0xC0, 0x00, 0x00,
      if l < rb_at r rb (rptr + rlen - 2 + rlen - 1) \<and> l \<noteq> 0 then l else rb_at r rb (rptr + rlen - 2 + 1)]
      (ucast rest) = (Res, d, n, r1) \<Longrightarrow>
   t0_fetch r l rb rptr rlen rest tot =
     (if Res \<noteq> STATUS_SUCCESS then Inr (Res, r1)
      else t0_fetch r1 l (overlay (rptr + rlen - 2) d rb) (rptr + rlen - 2) (unat n)
             (rest - (ucast n - 2)) (tot + (ucast n - 2)))"
  by (subst t0_fetch.simps) (simp only: if_True Let_def prod.case simp_thms)

definition fetch_post :: "reader_class \<Rightarrow> (bytes \<times> u32 \<times> reader) + (ifd_result \<times> reader) \<Rightarrow> bool" where
  "fetch_post cls res = (case res of
      Inl (rb', tot, r') \<Rightarrow> card_inv r' \<and> m_class r' = cls
    | Inr (Res, r') \<Rightarrow> card_inv r' \<and> m_class r' = cls \<and> Res \<noteq> STATUS_SUCCESS)"

lemma t0_fetch_card:
  "card_inv r \<Longrightarrow> fetch_post (m_class r) (t0_fetch r l rb rptr rlen rest tot)"
proof (induction r l rb rptr rlen rest tot rule: t0_fetch.induct)
  case (1 r l rb rptr rlen rest tot)
  let ?p = "rptr + rlen - 2"
  let ?Le = "if l < rb_at r rb (?p + rlen - 1) \<and> l \<noteq> 0 then l else rb_at r rb (?p + 1)"
  obtain Res d n r1 where t: "ccidTransmit r [0x00, 0xC0, 0x00, 0x00, ?Le] (ucast rest) = (Res, d, n, r1)"
    by (metis prod_cases4)
  note c = ccidTransmit_card[OF "1.prems" t]
  show ?case
  proof (cases "rlen \<ge> 2 \<and> (rb_at r rb ?p = 0x61 \<or> rb_at r rb ?p = 0x6C)")
    case False
    then show ?thesis using "1.prems" by (simp only: t0_fetch_stop[OF False]) (simp add: fetch_post_def)
  next
    case True
    note IH = "1.IH"[OF True refl refl t[symmetric] refl refl]
    show ?thesis
    proof (cases "Res = STATUS_SUCCESS")
      case False
      then show ?thesis using c by (simp only: t0_fetch_go[OF True t]) (simp add: fetch_post_def)
    next
      case ok: True
      then have "fetch_post (m_class r1) (t0_fetch r1 l (overlay ?p d rb) ?p (unat n)
          (rest - (ucast n - 2)) (tot + (ucast n - 2)))" using IH c by simp
      then show ?thesis using c ok by (simp only: t0_fetch_go[OF True t]) simp
    qed
  qed
qed

lemma ucast_u16_le: "unat w \<le> unat c \<Longrightarrow> unat (ucast w :: u16) \<le> unat c" for w :: u32 and c :: u16
  by (simp add: unsigned_ucast_eq take_bit_nat_def)

definition transmit_post :: "reader_class \<Rightarrow> u16 \<Rightarrow> transmit_result \<Rightarrow> bool" where
  "transmit_post cls cap res = (case res of (Res, d, n, r') \<Rightarrow> card_inv r' \<and> m_class r' = cls
     \<and> (Res = STATUS_SUCCESS \<longrightarrow> unat n \<le> unat cap \<and> length d \<le> unat cap))"

lemma t0_deliver_post: "fetch_post cls res \<Longrightarrow> transmit_post cls cap (t0_deliver res cap)"
  by (auto simp: t0_deliver_def fetch_post_def transmit_post_def ucast_u16_le
      split: sum.splits prod.splits if_splits)

lemma ccidTransmit_post: "card_inv r \<Longrightarrow> transmit_post (m_class r) cap (ccidTransmit r cmd cap)"
  by (cases "ccidTransmit r cmd cap") (simp add: transmit_post_def ccidTransmit_card)

lemma t0_case2_post:
  assumes "card_inv r"
  shows "transmit_post (m_class r) cap (t0_case2 r cmd cap)"
proof -
  obtain Res d n r' where t: "t0_case2 r cmd cap = (Res, d, n, r')" by (metis prod_cases4)
  have "length (overlay 0 [0x61, cmd ! 4] (rb_init r)) = 258"
    using assms by (simp add: rb_init_def card_inv_def reader_inv_def)
  moreover have "rb_at r (overlay 0 [0x61, cmd ! 4] (rb_init r)) (2 - 2) = 0x61"
    by (simp add: rb_at_def overlay_def)
  ultimately show ?thesis
    using t0_chain_card[OF assms, of "overlay 0 [0x61, cmd ! 4] (rb_init r)" 0 "[]" 2 cap "take 4 cmd" Res d n r']
      t by (auto simp: t0_case2_def transmit_post_def)
qed

lemma t0_case4_post:
  assumes "card_inv r"
  shows "transmit_post (m_class r) cap (t0_case4 r cmd cap)"
proof -
  obtain R d n r1 where t: "ccidTransmit r (butlast cmd) 258 = (R, d, n, r1)" by (metis prod_cases4)
  note c = ccidTransmit_card[OF assms t]
  obtain R2 d2 n2 r2 where t2: "ccidTransmit r1 [0x00, 0xC0, 0x00, 0x00, last cmd]
      (ucast (258 - (ucast n - 2) :: u32)) = (R2, d2, n2, r2)" by (metis prod_cases4)
  have c1: "card_inv r1" "m_class r1 = m_class r" using c by simp_all
  note c2 = ccidTransmit_card[OF c1(1) t2]
  have f1: "transmit_post (m_class r) cap (t0_deliver (t0_fetch r1 l rb p k a b) cap)" for l rb p k a b
    using t0_deliver_post[OF t0_fetch_card[OF c1(1)]] c1(2) by simp
  have f2: "transmit_post (m_class r) cap (t0_deliver (t0_fetch r2 l rb p k a b) cap)" for l rb p k a b
    using t0_deliver_post[OF t0_fetch_card[of r2]] c2 c1(2) by simp
  have e: "transmit_post (m_class r) cap (R, [], 0, r1)" if "R \<noteq> STATUS_SUCCESS"
    using c1 that by (simp add: transmit_post_def)
  have e2: "transmit_post (m_class r) cap (R2, [], 0, r2)" if "R2 \<noteq> STATUS_SUCCESS"
    using c2 c1(2) that by (simp add: transmit_post_def)
  show ?thesis
    unfolding t0_case4_def Let_def t prod.case t2
    by (cases "R = STATUS_SUCCESS"; cases "R2 = STATUS_SUCCESS") (simp_all add: f1 f2 e e2)
qed

text \<open>
  The two commands the driver answers itself and whose reported length can exceed the buffer: \<^verbatim>\<open>FF 9A 01 09\<close>,
  and on an RFID reader \<^verbatim>\<open>FF CA\<close> with an expected length for which there is no room.
\<close>

definition untested_length :: "reader_class \<Rightarrow> bytes \<Rightarrow> u16 \<Rightarrow> bool" where
  "untested_length cls apdu cap \<longleftrightarrow> is_info_cmd apdu \<and> apdu ! 3 = 9
     \<or> is_rfid_class cls \<and> length apdu = 5 \<and> apdu ! 0 = 0xff \<and> apdu ! 1 = 0xca \<and> unat cap < unat (apdu ! 4) + 2"

definition raw_post :: "reader_class \<Rightarrow> bytes \<Rightarrow> u16 \<Rightarrow> transmit_result \<Rightarrow> bool" where
  "raw_post cls cmd cap res = (case res of (Res, d, n, r') \<Rightarrow> card_inv r' \<and> m_class r' = cls
     \<and> (Res = STATUS_SUCCESS \<longrightarrow> unat n \<le> unat cap \<or> untested_length cls cmd cap))"

lemma raw_postI: "transmit_post cls cap res \<Longrightarrow> raw_post cls cmd cap res"
  by (cases res) (simp add: transmit_post_def raw_post_def)

lemma info_answer_post:
  assumes "card_inv r" and "n \<le> need" and "n < 65536"
  shows "raw_post (m_class r) cmd cap (info_answer r cap need d n)"
  using assms by (simp add: info_answer_def raw_post_def unat_of_nat_u16)

lemma ec30_info_post:
  assumes "card_inv r" and "ec30_info r (cmd ! 3) cap = Some res" and "is_info_cmd cmd"
  shows "raw_post (m_class r) cmd cap res"
proof -
  have big: "raw_post (m_class r) cmd cap (info_answer r cap k d k)" for k d
  proof (cases "unat cap \<ge> k")
    case True
    then have "k < 65536" using u16_bound[of cap] by simp
    then show ?thesis using info_answer_post[OF assms(1)] by simp
  next
    case False
    then show ?thesis using assms(1) by (simp add: info_answer_def raw_post_def)
  qed
  have nine: "raw_post (m_class r) cmd cap (info_answer r cap k d n)" if "cmd ! 3 = 9" for k d n
    using assms(1,3) that by (simp add: info_answer_def raw_post_def untested_length_def)
  have eight: "raw_post (m_class r) cmd cap (info_answer r cap 6 d 5)" for d
    using info_answer_post[OF assms(1)] by simp
  show ?thesis
    using assms(2) big nine eight by (auto simp: ec30_info_def Let_def split: if_splits)
qed

lemma ec30_raw_post:
  assumes "card_inv r"
  shows "raw_post (m_class r) cmd cap (ec30_IfdTransmit_raw r cmd cap)"
proof (cases "if is_info_cmd cmd then ec30_info r (cmd ! 3) cap else None")
  case (Some res)
  then show ?thesis using ec30_info_post[OF assms] by (auto simp: ec30_IfdTransmit_raw_def split: if_splits)
next
  case None
  have "raw_post (m_class r) cmd cap (STATUS_INVALID_PARAMETER, [], cap, r)"
    using assms by (simp add: raw_post_def)
  then show ?thesis
    unfolding ec30_IfdTransmit_raw_def None
    using raw_postI[OF ccidTransmit_post[OF assms]] raw_postI[OF t0_case2_post[OF assms]]
      raw_postI[OF t0_case4_post[OF assms]] by simp
qed

lemma pid_answer_post:
  "card_inv r \<Longrightarrow> raw_post (m_class r) cmd cap (pid_answer pid r cmd cap)"
  by (simp add: pid_answer_def ec30_raw_post info_answer_post)

lemma ecr_get_data_post:
  assumes "card_inv r" and "le < 256" and "unat cap < le + 2 \<Longrightarrow> untested_length (m_class r) cmd cap"
  shows "raw_post (m_class r) cmd cap (ecr_get_data r src le cap)"
proof -
  have "unat (of_nat (length src + 2) :: u16) \<le> unat cap" if "length src + 2 \<le> unat cap"
    using that u16_bound[of cap] unat_of_nat_u16[of "length src + 2"] by simp
  moreover have "unat (of_nat (le + 2) :: u16) = le + 2"
    using assms(2) by (intro unat_of_nat_u16) simp
  moreover have "le + 2 \<le> unat cap \<or> untested_length (m_class r) cmd cap" using assms(3) by linarith
  ultimately show ?thesis using assms(1)
    by (auto simp: ecr_get_data_def Let_def raw_post_def card_inv_overrun)
qed

lemma ecr_raw_post:
  assumes "card_inv r" and "is_rfid_class (m_class r)"
  shows "raw_post (m_class r) cmd cap (ecr_IfdTransmit_raw r cmd cap)"
proof -
  have 1: "raw_post (m_class r) cmd cap (info_answer r cap 31 d 31)"
    "raw_post (m_class r) cmd cap (info_answer r cap 6 d 6)" for d
    using info_answer_post[OF assms(1)] by simp_all
  have 2: "raw_post (m_class r) cmd cap (ecr_get_data r src (unat (cmd ! 4)) cap)"
    if "length cmd = 5 \<and> cmd ! 0 = 0xff \<and> cmd ! 1 = 0xca" for src
    using ecr_get_data_post[OF assms(1) byte_bound] that assms(2) by (simp add: untested_length_def)
  show ?thesis
    unfolding ecr_IfdTransmit_raw_def ecp_IfdTransmit_raw_def using 1 2 pid_answer_post[OF assms(1)] by presburger
qed

lemma IfdTransmit_raw_post:
  assumes "card_inv r"
  shows "raw_post (m_class r) cmd cap (IfdTransmit_raw r cmd cap)"
proof (cases "is_rfid_class (m_class r)")
  case True
  then show ?thesis using ecr_raw_post[OF assms] by (simp add: IfdTransmit_raw_def)
next
  case False
  then show ?thesis
    unfolding IfdTransmit_raw_def ecp_IfdTransmit_raw_def sec_IfdTransmit_raw_def
    using pid_answer_post[OF assms] ec30_raw_post[OF assms] by presburger
qed

text \<open>
  Property C30.  \<^verbatim>\<open>IfdTransmit\<close> lets a command through only when the card is in the specific state and
  the protocol in the header is the active one; otherwise the reader is left alone.  With a response
  buffer of at least 16 bytes (the room of the header), a successful call never reports more than the
  buffer holds, except for two commands the driver answers itself without a sufficient test:
  \<^verbatim>\<open>FF 9A 01 09\<close>, and on an RFID reader \<^verbatim>\<open>FF CA\<close> with an expected length that does not fit.
\<close>

theorem IfdTransmit_sound:
  assumes "card_inv r" and "16 \<le> unat cap" and "IfdTransmit r cmd cap = (Res, d, n, r')"
  shows "card_inv r'
    \<and> (m_ReaderState r \<noteq> SCARD_SPECIFIC \<or> io_dwProtocol cmd \<noteq> unat (m_ActiveProtocol r) \<longrightarrow>
        Res \<noteq> STATUS_SUCCESS \<and> r' = r)
    \<and> (Res = STATUS_SUCCESS \<and> \<not> untested_length (m_class r) (drop (io_cbPciLength cmd) cmd) (cap - 16) \<longrightarrow>
        unat n \<le> unat cap)"
proof -
  let ?apdu = "drop (io_cbPciLength cmd) cmd"
  obtain R1 d1 n1 r1 where t: "IfdTransmit_raw r ?apdu (cap - 16) = (R1, d1, n1, r1)" by (metis prod_cases4)
  have p: "card_inv r1"
    "R1 = STATUS_SUCCESS \<Longrightarrow> unat n1 \<le> unat (cap - 16) \<or> untested_length (m_class r) ?apdu (cap - 16)"
    using IfdTransmit_raw_post[OF assms(1), of ?apdu "cap - 16"] by (simp_all add: raw_post_def t)
  have c: "unat (cap - 16) = unat cap - 16" using assms(2) by (simp add: unat_sub word_le_nat_alt)
  have "unat (n1 + 16) \<le> unat cap" if "unat n1 \<le> unat (cap - 16)"
  proof -
    have le: "unat n1 + unat (16 :: u16) \<le> unat cap" using that c assms(2) by simp
    then have "unat n1 + unat (16 :: u16) < 2 ^ LENGTH(16)" using u16_bound[of cap] by simp
    then show ?thesis using le by (simp add: unat_word_ariths)
  qed
  then show ?thesis
    using assms(1,3) t p by (auto simp: IfdTransmit_def Let_def split: if_splits)
qed

definition pci_cmd :: "bytes \<Rightarrow> bytes" where
  "pci_cmd apdu = [2, 0, 0, 0, 0, 0, 0, 0, 16, 0, 0, 0, 0, 0, 0, 0] @ apdu"

definition reader_T1 :: "reader_class \<Rightarrow> bytes option list \<Rightarrow> reader" where
  "reader_T1 cls i = (reader0 cls (Some (USB (usb0 i))))\<lparr>m_ReaderState := SCARD_SPECIFIC,
     m_ActiveProtocol := SCARD_PROTOCOL_T1, m_PossibleProtocols := SCARD_PROTOCOL_T1\<rparr>"

lemma reader_T1_card: "card_inv (reader_T1 cls i)"
  by (simp add: card_inv_def reader_inv_def reader_T1_def reader0_def usb0_def usb_inv_def)

lemma IfdTransmit_sound_witness:
  "case IfdTransmit (reader_T1 ECA []) (pci_cmd [0xff, 0x9a, 1, 2, 0]) 30 of (Res, d, n, r') \<Rightarrow>
     card_inv r' \<and> (Res = STATUS_SUCCESS \<longrightarrow> unat n \<le> 30)"
proof -
  obtain Res d n r' where t: "IfdTransmit (reader_T1 ECA []) (pci_cmd [0xff, 0x9a, 1, 2, 0]) 30 = (Res, d, n, r')"
    by (metis prod_cases4)
  have c: "16 \<le> unat (30 :: u16)" by simp
  have "drop (io_cbPciLength (pci_cmd [0xff, 0x9a, 1, 2, 0])) (pci_cmd [0xff, 0x9a, 1, 2, 0]) = [0xff, 0x9a, 1, 2, 0]"
    by (simp add: pci_cmd_def io_cbPciLength_def)
  then have "\<not> untested_length (m_class (reader_T1 ECA []))
     (drop (io_cbPciLength (pci_cmd [0xff, 0x9a, 1, 2, 0])) (pci_cmd [0xff, 0x9a, 1, 2, 0])) (30 - 16)"
    by (simp add: untested_length_def is_info_cmd_def)
  then show ?thesis unfolding t prod.case using IfdTransmit_sound[OF reader_T1_card c t] by simp
qed

text \<open>
  A response buffer with no room for the 16 byte header is not refused: the remaining
  room is computed in 16 bit arithmetic and wraps, so that with a capacity of 0 the call reports
  success and 22 bytes.
\<close>

theorem IfdTransmit_small_buffer:
  "(\<forall>cap :: u16. unat cap < 16 \<longrightarrow> unat (cap - 16) = unat cap + 65520)
   \<and> (case IfdTransmit (reader_T1 ECA []) (pci_cmd [0xff, 0x9a, 1, 2, 0]) 0 of (Res, d, n, r') \<Rightarrow>
        Res = STATUS_SUCCESS \<and> length d = 22 \<and> n = 22)"
proof
  show "\<forall>cap :: u16. unat cap < 16 \<longrightarrow> unat (cap - 16) = unat cap + 65520"
    by (simp add: unat_sub_if_size word_size)
  show "case IfdTransmit (reader_T1 ECA []) (pci_cmd [0xff, 0x9a, 1, 2, 0]) 0 of (Res, d, n, r') \<Rightarrow>
        Res = STATUS_SUCCESS \<and> length d = 22 \<and> n = 22"
    by (simp add: IfdTransmit_def IfdTransmit_raw_def ec30_IfdTransmit_raw_def ec30_info_def Let_def
        info_answer_def is_info_cmd_def pci_cmd_def io_cbPciLength_def io_dwProtocol_def
        reader_T1_def reader0_def is_rfid_class_def)
qed

lemma IfdTransmit_small_buffer_witness:
  "unat (0 - 16 :: u16) = 65520"
  using IfdTransmit_small_buffer by auto

text \<open>
  Property C31.  For a command with data and expected length over T=0, when the card answers the bare
  command with \<^verbatim>\<open>61xx\<close>, the driver fetches the answer with one GET RESPONSE for the expected length
  or the announced one, whichever is smaller (0 expects everything), and hands exactly that answer
  to the caller.
\<close>

theorem t0_get_response:
  assumes "ccidTransmit r (butlast cmd) 258 = (STATUS_SUCCESS, [0x61, xx], 2, r1)"
    and "ccidTransmit r1 [0x00, 0xC0, 0x00, 0x00, if last cmd < xx \<and> last cmd \<noteq> 0 then last cmd else xx] 258
          = (STATUS_SUCCESS, d, n, r2)"
    and "length (g_stack r) = 2048" and "length d = unat n" and "2 \<le> unat n" and "unat n \<le> 258"
    and "d ! (unat n - 2) \<noteq> 0x61" and "d ! (unat n - 2) \<noteq> 0x6C" and "unat n \<le> unat cap"
  shows "t0_case4 r cmd cap = (STATUS_SUCCESS, d, n, r2)"
proof -
  let ?rb = "overlay 0 [0x61, xx] (rb_init r)"
  have at: "rb_at r1 ?rb 0 = 0x61" "rb_at r1 ?rb 1 = xx" and nw: "\<not> is_warning ?rb"
    by (simp_all add: rb_at_def overlay_def is_warning_def)
  have rb2: "rb_at r2 (overlay 0 d ?rb) (unat n - 2) = d ! (unat n - 2)"
  proof -
    have "unat n - 2 < length d" using assms(4,5) by linarith
    then show ?thesis by (simp add: rb_at_def overlay_def nth_append)
  qed
  have c: "2 \<le> (2 :: nat) \<and> (rb_at r1 ?rb (0 + 2 - 2) = 0x61 \<or> rb_at r1 ?rb (0 + 2 - 2) = 0x6C)"
    using at by simp
  have g: "ccidTransmit r1 [0x00, 0xC0, 0x00, 0x00,
      if last cmd < rb_at r1 ?rb (0 + 2 - 2 + 2 - 1) \<and> last cmd \<noteq> 0 then last cmd
      else rb_at r1 ?rb (0 + 2 - 2 + 1)] (ucast (258 :: u32)) = (STATUS_SUCCESS, d, n, r2)"
  proof -
    have i: "0 + 2 - 2 + 2 - 1 = (1 :: nat)" "0 + 2 - 2 + 1 = (1 :: nat)" "ucast (258 :: u32) = (258 :: u16)"
      by simp_all
    show ?thesis unfolding i at by (rule assms(2))
  qed
  have "t0_fetch r2 (last cmd) (overlay 0 d ?rb) 0 (unat n) (258 - (ucast n - 2)) (ucast n - 2)
      = Inl (overlay 0 d ?rb, ucast n - 2, r2)"
    by (rule t0_fetch_stop) (use rb2 assms(7,8) in simp)
  then have f: "t0_fetch r1 (last cmd) ?rb 0 2 258 0 = Inl (overlay 0 d ?rb, ucast n - 2, r2)"
    using t0_fetch_go[OF c g, of 0] by simp
  have uc: "(ucast (ucast n :: u32) :: u16) = n"
    by (rule bit_word_eqI) (simp add: bit_simps)
  have u: "unat (ucast n - 2 + 2 :: u32) = unat n" "ucast (ucast n - 2 + 2 :: u32) = n"
    using u16_bound[of n] uc by (simp_all only: diff_add_cancel)
      (simp add: unsigned_ucast_eq take_bit_nat_eq_self)
  have "take (unat n) (overlay 0 d ?rb) = d" using assms(4) by (metis take_overlay_zero)
  then have "t0_deliver (Inl (overlay 0 d ?rb, ucast n - 2, r2)) cap = (STATUS_SUCCESS, d, n, r2)"
    using u assms(9) by (simp add: t0_deliver_def)
  then show ?thesis
    using assms(1) nw f by (simp add: t0_case4_def Let_def)
qed

definition data_block :: "byte \<Rightarrow> bytes \<Rightarrow> bytes" where
  "data_block seq d = [0x80, of_nat (length d), 0, 0, 0, 0, seq, 0, 0, 0] @ d"

definition t0_cmd :: bytes where
  "t0_cmd = [0x00, 0xa4, 0x04, 0x00, 1, 0x55, 0]"

definition t0_reader :: reader where
  "t0_reader = reader0 ECA (Some (USB (usb0
     [Some (data_block 0 [0x61, 3]), Some (data_block 1 [1, 2, 3, 0x90, 0])])))"

lemma t0_get_response_witness:
  "case t0_case4 t0_reader t0_cmd 258 of (Res, d, n, r') \<Rightarrow>
     Res = STATUS_SUCCESS \<and> d = [1, 2, 3, 0x90, 0] \<and> n = 5"
proof -
  obtain R1 d1 n1 r1 where 1: "ccidTransmit t0_reader (butlast t0_cmd) 258 = (R1, d1, n1, r1)"
    by (metis prod_cases4)
  have "(case ccidTransmit t0_reader (butlast t0_cmd) 258 of (R, d, n, _) \<Rightarrow> (R, d, n))
      = (STATUS_SUCCESS, [0x61, 3], 2)" by code_simp
  with 1 have 1: "ccidTransmit t0_reader (butlast t0_cmd) 258 = (STATUS_SUCCESS, [0x61, 3], 2, r1)" by simp
  obtain R2 d2 n2 r2 where 2: "ccidTransmit r1 [0x00, 0xC0, 0x00, 0x00, 3] 258 = (R2, d2, n2, r2)"
    by (metis prod_cases4)
  have "(case ccidTransmit (snd (snd (snd (ccidTransmit t0_reader (butlast t0_cmd) 258))))
        [0x00, 0xC0, 0x00, 0x00, 3] 258 of (R, d, n, _) \<Rightarrow> (R, d, n))
      = (STATUS_SUCCESS, [1, 2, 3, 0x90, 0], 5)" by code_simp
  with 1 2 have 2: "ccidTransmit r1 [0x00, 0xC0, 0x00, 0x00, 3] 258
      = (STATUS_SUCCESS, [1, 2, 3, 0x90, 0], 5, r2)" by simp
  have "length (g_stack t0_reader) = 2048" "last t0_cmd = 0"
    by (simp_all add: t0_reader_def reader0_def t0_cmd_def)
  then show ?thesis
    using t0_get_response[OF 1, of "[1, 2, 3, 0x90, 0]" 5 r2 258] 2 by simp
qed

end
