(* ===== verification/CJ_EC30.thy ===== *)
theory CJ_EC30
  imports CJ_Transmit
begin

text \<open>
  The services of \<^verbatim>\<open>cjeca32/EC30Reader.cpp\<close> that go through the escape command: the command itself,
  application data, the reader and module information, loading and managing modules, and the settings
  of the reader.
\<close>

section \<open>The escape command\<close>

text \<open>
  The pair \<^verbatim>\<open>ResponseData\<close>/\<^verbatim>\<open>ResponseLen\<close>: absent, a length only, or a buffer of a capacity.  The result
  carries \<^verbatim>\<open>*Result\<close> if it was stored, the bytes copied to the buffer and the new \<^verbatim>\<open>*ResponseLen\<close>.
\<close>

datatype resp_arg = NoResponse | LengthOnly u32 | Buffer u32

fun resp_cap :: "resp_arg \<Rightarrow> u32" where
  "resp_cap NoResponse = 0"
| "resp_cap (LengthOnly n) = n"
| "resp_cap (Buffer n) = n"

type_synonym escape_result = "cj_result \<times> u32 option \<times> bytes \<times> u32 \<times> reader"

definition escape_message :: "u32 \<Rightarrow> u16 \<Rightarrow> bytes \<Rightarrow> ccid_message" where
  "escape_message ApplicationID Function InputData =
     ccid_msg PC_TO_RDR_ESCAPE (6 + length InputData) [0, 0, 0]
       (le32_bytes ApplicationID @ le16_bytes Function @ InputData)"

text \<open>
  What is done with the response.  \<open>dwLength - 4\<close> is computed in 32 bit arithmetic; the ghost flag
  records a copy that leaves the caller's buffer or the response object.
\<close>

definition escape_response :: "reader \<Rightarrow> ccid_response \<Rightarrow> resp_arg \<Rightarrow> escape_result" where
  "escape_response r Response arg =
     (let dw = rsp_dwLength Response; nResult = rsp_escResult Response; n = dw - 4;
          finish = (\<lambda>d m r'. if nResult \<noteq> 0 then (CJ_ERR_CHECK_RESULT, Some nResult, d, 0, r')
                             else (CJ_SUCCESS, Some nResult, d, m, r')) in
      case arg of
        NoResponse \<Rightarrow>
          if dw \<noteq> 4 then (CJ_ERR_RBUFFER_TO_SMALL, Some nResult, [], 0, r\<lparr>m_pCommunicator := None\<rparr>)
          else finish [] 0 r
      | LengthOnly cap \<Rightarrow>
          if dw > cap + 4 then (CJ_ERR_RBUFFER_TO_SMALL, Some nResult, [], n, r)
          else finish [] n r
      | Buffer cap \<Rightarrow>
          if dw > cap + 4 then (CJ_ERR_RBUFFER_TO_SMALL, Some nResult, [], 0, r\<lparr>m_pCommunicator := None\<rparr>)
          else finish (take (unat n) (rsp_escData Response)) n
                 (r\<lparr>g_overrun := g_overrun r \<or> n > cap \<or> unat n > 2034\<rparr>))"

definition Escape :: "reader \<Rightarrow> u32 \<Rightarrow> u16 \<Rightarrow> bytes \<Rightarrow> resp_arg \<Rightarrow> escape_result" where
  "Escape r ApplicationID Function InputData arg =
     (if length InputData > 1008 then (CJ_ERR_INTERNAL_BUFFER_OVERFLOW, None, [], resp_cap arg, r)
      else (case Transfer r (escape_message ApplicationID Function InputData) of (Res, Response, r1) \<Rightarrow>
        if Res \<noteq> CJ_SUCCESS then (Res, None, [], 0, r1)
        else if rsp_bMessageType Response \<noteq> RDR_TO_PC_ESCAPE
        then (CJ_ERR_DEVICE_LOST, None, [], 0, r1\<lparr>m_pCommunicator := None\<rparr>)
        else escape_response r1 Response arg))"

abbreviation (input) "CCID_ESCAPE_UPDATE \<equiv> (0x01 :: u16)"
abbreviation (input) "CCID_ESCAPE_VERIFY \<equiv> (0x02 :: u16)"
abbreviation (input) "CCID_ESCAPE_UPDATE_START \<equiv> (0x04 :: u16)"
abbreviation (input) "CCID_ESCAPE_GET_INFO \<equiv> (0x05 :: u16)"
abbreviation (input) "CCID_ESCAPE_SET_DATE_TIME \<equiv> (0x06 :: u16)"
abbreviation (input) "CCID_ESCAPE_SET_SERNUMBER \<equiv> (0x07 :: u16)"
abbreviation (input) "CCID_ESCAPE_MODULE_DELETE \<equiv> (0x10 :: u16)"
abbreviation (input) "CCID_ESCAPE_MODULE_ENUM \<equiv> (0x12 :: u16)"
abbreviation (input) "CCID_ESCAPE_MODULE_INFO \<equiv> (0x13 :: u16)"
abbreviation (input) "CCID_ESCAPE_MODULE_REACTIVATE \<equiv> (0x14 :: u16)"
abbreviation (input) "CCID_ESCAPE_MODULE_DEACTIVATE \<equiv> (0x15 :: u16)"
abbreviation (input) "CCID_ESCAPE_MODULE_DELALL \<equiv> (0x16 :: u16)"
abbreviation (input) "CCID_ESCAPE_MODULE_SET_SILENT_MODE \<equiv> (0x17 :: u16)"
abbreviation (input) "CCID_ESCAPE_MODULE_SET_FLASH_MASK \<equiv> (0x19 :: u16)"
abbreviation (input) "CCID_ESCAPE_GET_KEYINFO \<equiv> (0x20 :: u16)"
abbreviation (input) "CCID_ESCAPE_UPDATE_KEY \<equiv> (0x21 :: u16)"
abbreviation (input) "CCID_ESCAPE_VERIFY_KEY \<equiv> (0x22 :: u16)"
abbreviation (input) "CCID_ESCAPE_SELF_TEST \<equiv> (0x23 :: u16)"
abbreviation (input) "CCID_ESCAPE_SHOW_AUTH \<equiv> (0x24 :: u16)"
abbreviation (input) "CCID_ESCAPE_SET_MODULESTORE_INFO \<equiv> (0x26 :: u16)"
abbreviation (input) "CCID_ESCAPE_GET_MODULESTORE_INFO \<equiv> (0x27 :: u16)"
abbreviation (input) "CCID_ESCAPE_DSP_CONTRAST \<equiv> (0x30 :: u16)"
abbreviation (input) "CCID_ESCAPE_SELECT_SM_MODULE \<equiv> (0x50 :: u16)"

section \<open>Application data\<close>

text \<open>
  \<^verbatim>\<open>m_pApplicationResponse\<close> grows on demand and is not cleared; fresh memory holds \<open>g_over\<close>.
  \<open>rsp_cap\<close> and \<open>err_cap\<close> are \<^verbatim>\<open>*ResponseLen\<close> and \<^verbatim>\<open>*ApplicationErrorLength\<close>, \<open>None\<close> for a \<^verbatim>\<open>NULL\<close>
  pointer; the result gives the copied data with the new lengths.  The failure branches store
  through both pointers: where one is \<^verbatim>\<open>NULL\<close> the ghost flag is set.
\<close>

definition app_buffer :: "reader \<Rightarrow> nat \<Rightarrow> reader" where
  "app_buffer r need =
     (if length (m_pApplicationResponse r) < need
      then r\<lparr>m_pApplicationResponse := map (g_over r) [0..<need + 1024]\<rparr> else r)"

definition low16 :: "u32 option \<Rightarrow> nat" where
  "low16 c = (case c of None \<Rightarrow> 0 | Some n \<Rightarrow> unat (ucast n :: u16))"

type_synonym app_result =
  "cj_result \<times> u32 option \<times> bytes \<times> u32 option \<times> bytes \<times> u32 option \<times> reader"

definition app_fail :: "cj_result \<Rightarrow> u32 option \<Rightarrow> u32 option \<Rightarrow> u32 option \<Rightarrow> bytes \<Rightarrow> reader \<Rightarrow> app_result" where
  "app_fail Res Result rsp_cap err_cap err r =
     (Res, Result, [], map_option (\<lambda>_. 0) rsp_cap, err, map_option (\<lambda>_. 0) err_cap, r)"

definition app_too_small :: "u32 option \<Rightarrow> u32 option \<Rightarrow> u32 option \<Rightarrow> bytes \<Rightarrow> reader \<Rightarrow> app_result" where
  "app_too_small Result rsp_cap err_cap err r =
     app_fail CJ_ERR_RBUFFER_TO_SMALL Result rsp_cap err_cap err
       (r\<lparr>g_overrun := g_overrun r \<or> rsp_cap = None \<or> err_cap = None\<rparr>)"

text \<open>
  What is done with the answer in \<^verbatim>\<open>m_pApplicationResponse\<close>: two 16 bit lengths, the response, the error
  data.  Neither length is compared with the size of the buffer: a copy that leaves it sets the
  ghost flag.
\<close>

definition app_answer :: "reader \<Rightarrow> u32 option \<Rightarrow> u32 option \<Rightarrow> u32 option \<Rightarrow> app_result" where
  "app_answer r Result rsp_cap err_cap =
     (let buf = m_pApplicationResponse r;
          wLenRsp = unat (le16_val (buf ! 0) (buf ! 1));
          wLenErr = unat (le16_val (buf ! 2) (buf ! 3)) in
      if err_cap \<noteq> None \<and> wLenErr > unat (the err_cap) then app_too_small Result rsp_cap err_cap [] r
      else
        (let err = (if err_cap = None then [] else take wLenErr (drop (4 + wLenRsp) buf));
             r1 = r\<lparr>g_overrun := g_overrun r
                     \<or> (err_cap \<noteq> None \<and> wLenErr > 0 \<and> 4 + wLenRsp + wLenErr > length buf)\<rparr> in
         if rsp_cap \<noteq> None \<and> wLenRsp > unat (the rsp_cap) then app_too_small Result rsp_cap err_cap err r1
         else
           (CJ_SUCCESS, Result,
            (if rsp_cap = None then [] else take wLenRsp (drop 4 buf)), map_option (\<lambda>_. of_nat wLenRsp) rsp_cap,
            err, map_option (\<lambda>_. of_nat wLenErr) err_cap,
            r1\<lparr>g_overrun := g_overrun r1 \<or> (rsp_cap \<noteq> None \<and> wLenRsp > 0 \<and> 4 + wLenRsp > length buf)\<rparr>)))"

definition CtApplicationData ::
  "reader \<Rightarrow> u32 \<Rightarrow> u16 \<Rightarrow> bytes \<Rightarrow> u32 option \<Rightarrow> u32 option \<Rightarrow> app_result" where
  "CtApplicationData r ApplicationID Function InputData rsp_cap err_cap =
     (let need = low16 rsp_cap + low16 err_cap + 4 in
      case Escape (app_buffer r need) ApplicationID Function InputData (Buffer (of_nat need)) of
        (Res, Result, d, _, r1) \<Rightarrow>
        let r2 = r1\<lparr>m_pApplicationResponse := overlay 0 d (m_pApplicationResponse r1)\<rparr> in
        if Res \<noteq> CJ_SUCCESS then app_fail Res Result rsp_cap err_cap [] r2
        else app_answer r2 Result rsp_cap err_cap)"

section \<open>Reader information\<close>

text \<open>
  \<^verbatim>\<open>cjeca_Info\<close> has 100 bytes: the kernel version at offset 4, the hardware version at 12, three dates of
  20 bytes each at 16 (the date in the first ten bytes, the time at offset 12), the serial number
  with one character in every second byte at 76.
\<close>

definition GetReaderInfo :: "reader \<Rightarrow> cj_result \<times> bytes \<times> reader" where
  "GetReaderInfo r =
     (case Escape r MODULE_ID_KERNEL CCID_ESCAPE_GET_INFO [] (Buffer 100) of (Res, _, d, _, r1) \<Rightarrow>
        (Res, overlay 0 d (replicate 100 0xff), r1))"

definition GetKeyInfo :: "reader \<Rightarrow> cj_result \<times> bytes \<times> reader" where
  "GetKeyInfo r =
     (case Escape r MODULE_ID_KERNEL CCID_ESCAPE_GET_KEYINFO [] (Buffer 4) of (Res, _, d, _, r1) \<Rightarrow>
        (Res, overlay 0 d (replicate 4 0xff), r1))"

definition SetCommunicationString :: "comm \<Rightarrow> reader_info \<Rightarrow> reader_info" where
  "SetCommunicationString c info = (case c of
      USB u \<Rightarrow> info\<lparr>ri_PID := ucast (u_pid u), ri_CommunicationString := ''USB'', ri_ContentsMask := 0x1001\<rparr>
    | Serial s \<Rightarrow> info\<lparr>ri_PID := 0x0400, ri_CommunicationString := ''COM'', ri_ContentsMask := 0x1001\<rparr>)"

fun SetHWString :: "reader_class \<Rightarrow> string" where
  "SetHWString ECA = ''ECA_''" | "SetHWString ECB = ''ECB_''" | "SetHWString ECF = ''ECF_''"
| "SetHWString ECP = ''ECP_''" | "SetHWString ECR = ''ECR_''" | "SetHWString EFB = ''EFB_''"
| "SetHWString ECM = ''ECM_''" | "SetHWString SEC = ''SEC_''"

definition empty_info :: reader_info where
  "empty_info = \<lparr>ri_ContentsMask = 0, ri_PID = 0, ri_HardwareMask = 0, ri_Version = 0,
     ri_HardwareVersion = 0, ri_FlashSize = 0, ri_HeapSize = 0, ri_Keys = [0, 0, 0, 0],
     ri_SeriaNumber = replicate 11 0, ri_ProductString = [], ri_ProductionDate = replicate 11 0,
     ri_ProductionTime = replicate 6 0, ri_TestDate = replicate 11 0, ri_TestTime = replicate 6 0,
     ri_CommissioningDate = replicate 11 0, ri_CommissioningTime = replicate 6 0,
     ri_CommunicationString = [], ri_HardwareString = []\<rparr>"

definition info_date :: "bytes \<Rightarrow> nat \<Rightarrow> bytes" where
  "info_date d k = take 10 (drop (16 + 20 * k) d) @ [0]"

definition info_time :: "bytes \<Rightarrow> nat \<Rightarrow> bytes" where
  "info_time d k = take 5 (drop (16 + 20 * k + 12) d) @ [0]"

definition ec30_BuildReaderInfo :: "reader \<Rightarrow> cj_result \<times> reader" where
  "ec30_BuildReaderInfo r =
     (case GetReaderInfo (r\<lparr>m_ReaderInfo := empty_info\<rparr>) of (Res, d, r1) \<Rightarrow>
        if Res \<noteq> CJ_SUCCESS then (Res, r1)
        else (case m_pCommunicator r1 of
            None \<Rightarrow> (CJ_ERR_DEVICE_LOST, r1)
          | Some c \<Rightarrow>
              (let i1 = SetCommunicationString c (m_ReaderInfo r1);
                   i2 = i1\<lparr>ri_ContentsMask := ri_ContentsMask i1 OR 0x8E7E, ri_HardwareMask := 0x30301,
                          ri_Version := ucast (d ! 4),
                          ri_HardwareVersion := le32_val (d ! 12) (d ! 13) (d ! 14) (d ! 15),
                          ri_FlashSize := 256 * 1024, ri_HeapSize := 16 * 48\<rparr> in
               case GetKeyInfo (r1\<lparr>m_ReaderInfo := i2\<rparr>) of (_, keys, r2) \<Rightarrow>
                 (CJ_SUCCESS,
                  r2\<lparr>m_ReaderInfo := i2\<lparr>ri_Keys := keys,
                     ri_SeriaNumber := map (\<lambda>i. d ! (76 + 2 * i)) [0..<10] @ [0],
                     ri_ProductionDate := info_date d 0, ri_ProductionTime := info_time d 0,
                     ri_TestDate := info_date d 1, ri_TestTime := info_time d 1,
                     ri_CommissioningDate := info_date d 2, ri_CommissioningTime := info_time d 2,
                     ri_HardwareString := SetHWString (m_class r) @ ri_CommunicationString i2\<rparr>\<rparr>))))"

text \<open>The virtual version: the classes derived from the e-com plus add to the hardware mask.\<close>

definition is_ecp_class :: "reader_class \<Rightarrow> bool" where
  "is_ecp_class c \<longleftrightarrow> c = ECP \<or> c = ECB \<or> is_rfid_class c"

definition add_hardware :: "u32 \<Rightarrow> reader \<Rightarrow> reader" where
  "add_hardware m r =
     r\<lparr>m_ReaderInfo := (m_ReaderInfo r)\<lparr>ri_HardwareMask := ri_HardwareMask (m_ReaderInfo r) OR m\<rparr>\<rparr>"

definition ecp_BuildReaderInfo :: "reader \<Rightarrow> cj_result \<times> reader" where
  "ecp_BuildReaderInfo r = (case ec30_BuildReaderInfo r of (Res, r1) \<Rightarrow> (Res, add_hardware 0x1800 r1))"

definition ecr_BuildReaderInfo :: "reader \<Rightarrow> cj_result \<times> reader" where
  "ecr_BuildReaderInfo r = (case ecp_BuildReaderInfo r of (Res, r1) \<Rightarrow> (Res, add_hardware 0x6000 r1))"

definition BuildReaderInfo :: "reader \<Rightarrow> cj_result \<times> reader" where
  "BuildReaderInfo r =
     (if is_rfid_class (m_class r) then ecr_BuildReaderInfo r
      else if is_ecp_class (m_class r) then ecp_BuildReaderInfo r
      else ec30_BuildReaderInfo r)"

section \<open>Module information\<close>

definition le32_at :: "bytes \<Rightarrow> nat \<Rightarrow> u32" where
  "le32_at d i = le32_val (d ! i) (d ! (i + 1)) (d ! (i + 2)) (d ! (i + 3))"

text \<open>\<^verbatim>\<open>GetModuleIDs\<close>: the result, the identifiers (at most 32), the reader.\<close>

definition GetModuleIDs :: "reader \<Rightarrow> cj_result \<times> u32 list \<times> reader" where
  "GetModuleIDs r =
     (case Escape r MODULE_ID_KERNEL CCID_ESCAPE_MODULE_ENUM [] (Buffer 132) of (Res, _, d, _, r1) \<Rightarrow>
        if Res \<noteq> CJ_SUCCESS then (Res, [], r1)
        else (let help = overlay 0 d (take 132 (g_stack r));
                  n = min (unat (le32_at help 0)) 32
              in (Res, map (\<lambda>i. le32_at help (4 * i)) [1..<n + 1], r1)))"

definition mi_fill :: "u32 \<Rightarrow> byte \<Rightarrow> module_info" where
  "mi_fill w b = \<lparr>mi_ContentsMask = w, mi_Status = w, mi_ID = w, mi_Variant = w, mi_BaseAddr = w,
     mi_CodeSize = w, mi_Version = w, mi_Revision = w, mi_ReqVersion = w, mi_ReqRevision = w,
     mi_HeapSize = w, mi_Description = replicate 17 b, mi_Date = replicate 12 b, mi_Time = replicate 6 b\<rparr>"

text \<open>
  \<^verbatim>\<open>cjeca_ModuleInfo\<close> has 60 bytes: status, identifier, base address and code size, the date at 16 and the
  time at 28, versions from 36 on, the description at 44.
\<close>

definition GetModuleInfo :: "reader \<Rightarrow> u32 \<Rightarrow> cj_result \<times> module_info \<times> reader" where
  "GetModuleInfo r ID =
     (case Escape r MODULE_ID_KERNEL CCID_ESCAPE_MODULE_INFO (le32_bytes ID) (Buffer 60) of (Res, _, d, _, r1) \<Rightarrow>
        if Res \<noteq> CJ_SUCCESS then (Res, mi_fill 0xffffffff 0xff, r1)
        else
          (let m = overlay 0 d (take 60 (g_stack r)) in
           (Res,
            \<lparr>mi_ContentsMask = 0xfff, mi_Status = le32_at m 0, mi_ID = le32_at m 4,
             mi_Variant = ucast (m ! 41), mi_BaseAddr = le32_at m 8, mi_CodeSize = le32_at m 12,
             mi_Version = ucast (m ! 36), mi_Revision = ucast (m ! 37), mi_ReqVersion = ucast (m ! 38),
             mi_ReqRevision = ucast (m ! 39), mi_HeapSize = ucast (m ! 40),
             mi_Description = take 16 (drop 44 m) @ [0], mi_Date = take 11 (drop 16 m) @ [0],
             mi_Time = take 5 (drop 28 m) @ [0]\<rparr>, r1)))"

text \<open>
  \<^verbatim>\<open>BuildModuleInfo\<close>: the table gets one entry for the kernel and one for each module; the loop stops at
  the first entry the reader does not give, and the entries behind it stay uninitialised.
\<close>

fun module_loop :: "reader \<Rightarrow> u32 list \<Rightarrow> module_info list \<Rightarrow> cj_result \<times> module_info list \<times> reader" where
  "module_loop r [] acc = (CJ_SUCCESS, acc, r)"
| "module_loop r (ID # IDs) acc =
     (case GetModuleInfo r ID of (Res, info, r1) \<Rightarrow>
        if Res \<noteq> CJ_SUCCESS
        then (Res, acc @ [info] @ replicate (length IDs) (mi_fill (ucast (g_over r 0)) (g_over r 0)), r1)
        else module_loop r1 IDs (acc @ [info]))"

definition BuildModuleInfo :: "reader \<Rightarrow> cj_result \<times> reader" where
  "BuildModuleInfo r =
     (case GetModuleIDs r of (Res, IDs, r1) \<Rightarrow>
        if Res \<noteq> CJ_SUCCESS then (Res, r1\<lparr>m_ModuleInfoCount := 0\<rparr>)
        else (case module_loop r1 (MODULE_ID_KERNEL # IDs) [] of (Res2, infos, r2) \<Rightarrow>
          (Res2, r2\<lparr>m_ModuleInfoCount := length IDs + 1, m_pModuleInfo := Some infos\<rparr>)))"

section \<open>Managing modules and settings\<close>

text \<open>\<^verbatim>\<open>SetFlashMask\<close> is virtual: only the e-com(f) family sends a mask before it writes to the flash.\<close>

definition SetFlashMask :: "reader \<Rightarrow> cj_result \<times> reader" where
  "SetFlashMask r =
     (if m_class r = ECF \<or> m_class r = EFB
      then (case Escape r MODULE_ID_KERNEL CCID_ESCAPE_MODULE_SET_FLASH_MASK (le32_bytes 0xa374b516) NoResponse
            of (Res, _, _, _, r1) \<Rightarrow> (Res, r1))
      else (CJ_SUCCESS, r))"

text \<open>The flash mask, then one command; the result carries \<^verbatim>\<open>*Result\<close> if it was stored.\<close>

definition flash_command :: "reader \<Rightarrow> u16 \<Rightarrow> bytes \<Rightarrow> cj_result \<times> u32 option \<times> reader" where
  "flash_command r Function InputData =
     (case SetFlashMask r of (Res, r1) \<Rightarrow>
        if Res \<noteq> CJ_SUCCESS then (Res, None, r1)
        else (case Escape r1 MODULE_ID_KERNEL Function InputData NoResponse of (Res2, Result, _, _, r2) \<Rightarrow>
          (Res2, Result, r2)))"

definition module_command :: "reader \<Rightarrow> u16 \<Rightarrow> bytes \<Rightarrow> cj_result \<times> u32 option \<times> reader" where
  "module_command r Function InputData =
     (case SetFlashMask r of (Res, r1) \<Rightarrow>
        if Res \<noteq> CJ_SUCCESS then (Res, None, r1)
        else (case Escape r1 MODULE_ID_KERNEL Function InputData NoResponse of (Res2, Result, _, _, r2) \<Rightarrow>
          (Res2, Result, snd (BuildModuleInfo r2))))"

definition CtDeleteALLModules :: "reader \<Rightarrow> cj_result \<times> u32 option \<times> reader" where
  "CtDeleteALLModules r = module_command r CCID_ESCAPE_MODULE_DELALL []"

definition CtDeleteModule :: "reader \<Rightarrow> u32 \<Rightarrow> cj_result \<times> u32 option \<times> reader" where
  "CtDeleteModule r ModuleID = module_command r CCID_ESCAPE_MODULE_DELETE (le32_bytes ModuleID)"

definition CtActivateModule :: "reader \<Rightarrow> u32 \<Rightarrow> cj_result \<times> u32 option \<times> reader" where
  "CtActivateModule r ModuleID = module_command r CCID_ESCAPE_MODULE_REACTIVATE (le32_bytes ModuleID)"

definition CtDeactivateModule :: "reader \<Rightarrow> u32 \<Rightarrow> cj_result \<times> u32 option \<times> reader" where
  "CtDeactivateModule r ModuleID = module_command r CCID_ESCAPE_MODULE_DEACTIVATE (le32_bytes ModuleID)"

datatype contrast =
  ContrastVeryLow | ContrastLow | ContrastMedium | ContrastHigh | ContrastVeryHigh

fun eca_contrast :: "contrast \<Rightarrow> byte" where
  "eca_contrast ContrastVeryLow = 70"
| "eca_contrast ContrastLow = 100"
| "eca_contrast ContrastMedium = 120"
| "eca_contrast ContrastHigh = 160"
| "eca_contrast ContrastVeryHigh = 255"

fun ecp_contrast :: "contrast \<Rightarrow> byte" where
  "ecp_contrast ContrastVeryLow = 70"
| "ecp_contrast ContrastLow = 100"
| "ecp_contrast ContrastMedium = 120"
| "ecp_contrast ContrastHigh = 160"
| "ecp_contrast ContrastVeryHigh = 255"

fun ecf_contrast :: "contrast \<Rightarrow> byte" where
  "ecf_contrast ContrastVeryLow = 40"
| "ecf_contrast ContrastLow = 30"
| "ecf_contrast ContrastMedium = 20"
| "ecf_contrast ContrastHigh = 10"
| "ecf_contrast ContrastVeryHigh = 0"

fun sec_contrast :: "contrast \<Rightarrow> byte" where
  "sec_contrast ContrastVeryLow = 0"
| "sec_contrast ContrastLow = 70"
| "sec_contrast ContrastMedium = 120"
| "sec_contrast ContrastHigh = 160"
| "sec_contrast ContrastVeryHigh = 255"

definition contrast_value :: "reader_class \<Rightarrow> contrast \<Rightarrow> byte" where
  "contrast_value cls =
     (if cls = ECF \<or> cls = EFB then ecf_contrast else if cls = SEC then sec_contrast
      else if is_ecp_class cls then ecp_contrast else eca_contrast)"

definition CtSetContrast :: "reader \<Rightarrow> contrast \<Rightarrow> cj_result \<times> u32 option \<times> reader" where
  "CtSetContrast r c = flash_command r CCID_ESCAPE_DSP_CONTRAST [contrast_value (m_class r) c]"

text \<open>The silent mode: the byte sent is the byte the answer overwrites.\<close>

definition CtSetSilentMode :: "reader \<Rightarrow> bool \<Rightarrow> cj_result \<times> bool option \<times> u32 option \<times> reader" where
  "CtSetSilentMode r mode =
     (case SetFlashMask r of (Res, r1) \<Rightarrow>
        if Res \<noteq> CJ_SUCCESS then (Res, None, None, r1)
        else (let b = (if mode then 1 else 0) in
          case Escape r1 MODULE_ID_KERNEL CCID_ESCAPE_MODULE_SET_SILENT_MODE [b] (Buffer 1) of
            (Res2, Result, d, _, r2) \<Rightarrow> (Res2, Some (overlay 0 d [b] ! 0 \<noteq> 0), Result, r2)))"

text \<open>\<^verbatim>\<open>CtGetSilentMode\<close> sends the set command with an uninitialised byte.\<close>

definition CtGetSilentMode :: "reader \<Rightarrow> cj_result \<times> bool \<times> u32 option \<times> reader" where
  "CtGetSilentMode r =
     (let b = g_over r 0 in
      case Escape r MODULE_ID_KERNEL CCID_ESCAPE_MODULE_SET_SILENT_MODE [b] (Buffer 1) of
        (Res, Result, d, _, r1) \<Rightarrow> (Res, overlay 0 d [b] ! 0 \<noteq> 0, Result, r1))"

definition CtShowAuth :: "reader \<Rightarrow> u32 option \<times> reader" where
  "CtShowAuth r = (case Escape r MODULE_ID_KERNEL CCID_ESCAPE_SHOW_AUTH [] NoResponse of
     (_, Result, _, _, r1) \<Rightarrow> (Result, r1))"

section \<open>Loading a module\<close>

text \<open>
  \<^verbatim>\<open>CtLoadModule\<close> sends the first 256 bytes as the start command and the rest in blocks of 256 bytes.
  The block structure has a 16 bit length and 256 bytes of data and is always sent whole; the bytes
  behind a short last block are those of the block before (or of the stack).
\<close>

function load_blocks :: "reader \<Rightarrow> bytes \<Rightarrow> bytes \<Rightarrow> cj_result \<times> u32 option \<times> reader" where
  "load_blocks r prev pData =
     (if pData = [] then (CJ_SUCCESS, None, r)
      else
        (let chunk = take 256 pData; blk = overlay 0 chunk prev in
         case flash_command r CCID_ESCAPE_UPDATE (le16_bytes (of_nat (length chunk)) @ blk) of (Res, Result, r1) \<Rightarrow>
           if Res \<noteq> CJ_SUCCESS then (Res, Result, r1)
           else load_blocks r1 blk (drop 256 pData)))"
  by pat_completeness auto
termination by (relation "measure (\<lambda>(r, prev, d). length d)") auto

declare load_blocks.simps [simp del]

definition CtLoadModule :: "reader \<Rightarrow> bytes \<Rightarrow> bytes \<Rightarrow> cj_result \<times> u32 option \<times> reader" where
  "CtLoadModule r pData pSgn =
     (if length pData < 258 then (CJ_ERR_WRONG_SIZE, None, r)
      else (case flash_command r CCID_ESCAPE_UPDATE_START (take 256 pData) of (Res, Result, r1) \<Rightarrow>
        if Res \<noteq> CJ_SUCCESS then (Res, Result, r1)
        else (case load_blocks r1 (take 256 (g_stack r)) (drop 256 pData) of (Res2, Result2, r2) \<Rightarrow>
          if Res2 \<noteq> CJ_SUCCESS then (Res2, Result2, r2)
          else
            (let Verify = le32_bytes (of_nat (length pSgn))
                            @ take 768 (overlay 0 (take 768 pSgn) (take 768 (g_stack r)));
                 r3 = r2\<lparr>g_overrun := g_overrun r2 \<or> length pSgn > 768\<rparr> in
             case flash_command r3 CCID_ESCAPE_VERIFY Verify of (Res3, Result3, r4) \<Rightarrow>
               if Res3 \<noteq> CJ_SUCCESS then (Res3, Result3, r4)
               else (Res3, Result3, snd (BuildModuleInfo (snd (BuildReaderInfo r4))))))))"

section \<open>Dates, serial number and start-up\<close>

text \<open>
  The local time and the seed of the serial number come from the C library: they are arguments.
  \<open>date_time\<close> is the structure \<^verbatim>\<open>_SetDateTime\<close>: a number, the date and the time as strings, with reserved
  bytes that stay uninitialised.
\<close>

record tm =
  tm_mday :: nat
  tm_mon :: nat
  tm_year :: nat
  tm_hour :: nat
  tm_min :: nat

definition zero_pad :: "nat \<Rightarrow> nat \<Rightarrow> bytes" where
  "zero_pad w n = (let d = dec_digits n in replicate (w - length d) 0x30 @ d)"

definition date_time :: "reader \<Rightarrow> tm \<Rightarrow> byte \<Rightarrow> bytes" where
  "date_time r t Nr =
     Nr # (overlay 0 (zero_pad 2 (tm_mday t) @ [0x2e] @ zero_pad 2 (tm_mon t + 1) @ [0x2e]
                      @ zero_pad 4 (tm_year t + 1900) @ [0])
            (overlay 12 (zero_pad 2 (tm_hour t) @ [0x3a] @ zero_pad 2 (tm_min t) @ [0])
              (take 20 (g_stack r))))"

definition SetDate :: "reader \<Rightarrow> tm \<Rightarrow> byte \<Rightarrow> reader" where
  "SetDate r t Nr = snd (snd (flash_command r CCID_ESCAPE_SET_DATE_TIME (date_time r t Nr)))"

definition CtSelfTest :: "reader \<Rightarrow> tm \<Rightarrow> cj_result \<times> reader" where
  "CtSelfTest r t =
     (case SetFlashMask r of (Res, r1) \<Rightarrow>
        if Res \<noteq> CJ_SUCCESS then (Res, r1)
        else (case Escape r1 MODULE_ID_KERNEL CCID_ESCAPE_SELF_TEST (date_time r t 0) NoResponse of
            (Res2, Result, _, _, r2) \<Rightarrow>
          if Res2 \<noteq> CJ_SUCCESS then (CJ_ERR_DEVICE_LOST, r2)
          else ((case Result of None \<Rightarrow> 0 | Some v \<Rightarrow> sint v), r2)))"

text \<open>Ten decimal digits of the seed, lowest first, each followed by a zero byte.\<close>

definition serial_digits :: "64 word \<Rightarrow> bytes" where
  "serial_digits seed =
     concat (map (\<lambda>i. [0x30 + of_nat (unat seed div 10 ^ i mod 10), 0]) [0..<10])"

definition SetSerialNumber :: "reader \<Rightarrow> 64 word \<Rightarrow> reader" where
  "SetSerialNumber r seed = snd (snd (flash_command r CCID_ESCAPE_SET_SERNUMBER (serial_digits seed)))"

definition SetReaderConstants :: "reader \<Rightarrow> tm \<Rightarrow> 64 word \<Rightarrow> bool \<times> reader" where
  "SetReaderConstants r t seed =
     (let LocalInfo = GetEnviroment r ''pinpad2_info'' 0xffffffff;
          i = m_ReaderInfo r;
          test = (LocalInfo AND 2 \<noteq> 0 \<and> IsNotSet (ri_TestDate i) 10 \<and> IsNotSet (ri_TestTime i) 5);
          comm = (LocalInfo AND 8 \<noteq> 0 \<and> IsNotSet (ri_CommissioningDate i) 10 \<and> IsNotSet (ri_CommissioningTime i) 5);
          ser = (LocalInfo AND 4 \<noteq> 0 \<and> IsNotSet (ri_SeriaNumber i) 10);
          r1 = (if test then SetDate r t 1 else r);
          r2 = (if comm then SetDate r1 t 2 else r1);
          r3 = (if ser then SetSerialNumber r2 seed else r2)
      in (test \<or> comm \<or> ser, r3))"

definition base_PostCreate :: "reader \<Rightarrow> cj_result \<times> reader" where
  "base_PostCreate r =
     (case BuildReaderInfo r of (Res, r1) \<Rightarrow>
        if Res = CJ_SUCCESS then BuildModuleInfo r1 else (Res, r1))"

definition PostCreate :: "reader \<Rightarrow> tm \<Rightarrow> 64 word \<Rightarrow> cj_result \<times> reader" where
  "PostCreate r t seed =
     (case base_PostCreate r of (Res, r1) \<Rightarrow>
        if Res = CJ_SUCCESS
        then (case SetReaderConstants r1 t seed of (rebuild, r2) \<Rightarrow>
          if rebuild then BuildReaderInfo r2 else (Res, r2))
        else (Res, r1))"

section \<open>Module files\<close>

text \<open>
  \<^verbatim>\<open>tFileHeader\<close> starts with six fields of type \<^verbatim>\<open>unsigned long\<close>, 8 bytes each on the 64 bit platforms: the
  module identifier is read at 32, the code size at 40, the versions from 48 on, the compilation date
  at 56, the time at 68 and the description at 80; the structure has 96 bytes, \<^verbatim>\<open>cj_ModuleInfo\<close> has 84.
  The result: the code, the information and \<^verbatim>\<open>*EstimatedUpdateTime\<close>.
\<close>

definition CtGetModuleInfoFromFile :: "bytes \<Rightarrow> nat \<Rightarrow> module_info \<Rightarrow> cj_result \<times> module_info \<times> nat" where
  "CtGetModuleInfoFromFile d SizeOfStruct Info =
     (if length d < 96 then (CJ_ERR_WRONG_SIZE, Info, 8000)
      else if SizeOfStruct < 84 then (CJ_ERR_RBUFFER_TO_SMALL, Info, 8000)
      else
        (let Info1 = Info\<lparr>mi_ContentsMask := 0xff6, mi_ID := le32_at d 32, mi_CodeSize := le32_at d 40,
               mi_Date := take 11 (drop 56 d) @ [0], mi_Description := take 16 (drop 80 d) @ [0],
               mi_HeapSize := ucast (d ! 53), mi_ReqRevision := ucast (d ! 52), mi_ReqVersion := ucast (d ! 51),
               mi_Revision := ucast (d ! 49), mi_Time := take 5 (drop 68 d) @ [0],
               mi_Variant := ucast (d ! 50), mi_Version := ucast (d ! 48)\<rparr>
         in (CJ_SUCCESS, Info1, if mi_ID Info1 = MODULE_ID_KERNEL then 8000 else 6000)))"

section \<open>Keyboard, display, module store\<close>

abbreviation (input) "MODULE_ID_MKT_COMP \<equiv> (0x01000002 :: u32)"
abbreviation (input) "SCARD_E_UNSUPPORTED \<equiv> (0x8010001F - 0x100000000 :: cj_result)"

text \<open>\<^verbatim>\<open>cjInput\<close>: the result, the key if one was stored, the reader.\<close>

definition cjInput :: "reader \<Rightarrow> byte \<Rightarrow> bytes \<Rightarrow> cj_result \<times> bytes \<times> reader" where
  "cjInput r timeout tag50 =
     (if FindModule r MODULE_ID_MKT_COMP = None then (CJ_ERR_WRONG_PARAMETER, [], r)
      else if length tag50 > 64 then (CJ_ERR_RBUFFER_TO_SMALL, [], r)
      else (case CtApplicationData r MODULE_ID_MKT_COMP 0 (timeout # tag50) (Some 1) (Some 1) of
        (Res, _, key, _, _, _, r1) \<Rightarrow> (Res, key, r1)))"

definition cjOutput :: "reader \<Rightarrow> byte \<Rightarrow> bytes \<Rightarrow> cj_result \<times> reader" where
  "cjOutput r timeout tag50 =
     (if length tag50 > 64 then (CJ_ERR_RBUFFER_TO_SMALL, r)
      else (case CtApplicationData r MODULE_ID_MKT_COMP 1 (timeout # tag50) None (Some 1) of
        (Res, _, _, _, _, _, r1) \<Rightarrow> (Res, r1)))"

text \<open>
  The module store: a kernel older than 3.0 or with a revision below 43 does not support it.  The
  source does not test whether the kernel is in the module table; without it the ghost flag is set.
\<close>

definition CtSetModulestoreInfo :: "reader \<Rightarrow> bytes \<Rightarrow> cj_result \<times> reader" where
  "CtSetModulestoreInfo r StoreInfo = (case FindModule r MODULE_ID_KERNEL of
      None \<Rightarrow> (SCARD_E_UNSUPPORTED, r\<lparr>g_overrun := True\<rparr>)
    | Some Info \<Rightarrow>
        if mi_Version Info < 0x30 \<or> mi_Revision Info < 43 then (SCARD_E_UNSUPPORTED, r)
        else (case Escape (snd (SetFlashMask r)) MODULE_ID_KERNEL CCID_ESCAPE_SET_MODULESTORE_INFO StoreInfo
            NoResponse of (Res, _, _, _, r1) \<Rightarrow> (Res, r1)))"

text \<open>\<open>null\<close>: \<^verbatim>\<open>StoreInfo\<close> is \<^verbatim>\<open>NULL\<close>.  The result: code, data, \<^verbatim>\<open>*InfoLength\<close>, reader.\<close>

definition CtGetModulestoreInfo :: "reader \<Rightarrow> bool \<Rightarrow> byte \<Rightarrow> cj_result \<times> bytes \<times> byte \<times> reader" where
  "CtGetModulestoreInfo r null InfoLength = (case FindModule r MODULE_ID_KERNEL of
      None \<Rightarrow> (SCARD_E_UNSUPPORTED, [], 0, r\<lparr>g_overrun := True\<rparr>)
    | Some Info \<Rightarrow>
        if mi_Version Info < 0x30 \<or> mi_Revision Info < 43 then (SCARD_E_UNSUPPORTED, [], 0, r)
        else (case Escape r MODULE_ID_KERNEL CCID_ESCAPE_GET_MODULESTORE_INFO []
              (if null then LengthOnly (ucast InfoLength) else Buffer (ucast InfoLength)) of
            (Res, _, d, Len, r1) \<Rightarrow>
          (Res, d, if Res = CJ_SUCCESS \<or> Res = CJ_ERR_RBUFFER_TO_SMALL \<and> null then ucast Len else InfoLength,
           r1)))"

text \<open>\<^verbatim>\<open>tSMSelect\<close> has two fields of type \<^verbatim>\<open>unsigned long\<close>, sent with 8 bytes each on 64 bit platforms.\<close>

definition SetSMModeAndCount :: "reader \<Rightarrow> u32 \<Rightarrow> u32 \<Rightarrow> cj_result \<times> reader" where
  "SetSMModeAndCount r ModuleID Count =
     (case Escape r MODULE_ID_KERNEL CCID_ESCAPE_SELECT_SM_MODULE
        (le32_bytes ModuleID @ [0, 0, 0, 0] @ le32_bytes Count @ [0, 0, 0, 0]) NoResponse of
        (Res, _, _, _, r1) \<Rightarrow> (Res, r1))"

end
