(* ===== verification/CJ_Keys.thy ===== *)
theory CJ_Keys
  imports CJ_EC30
begin

text \<open>
  The key update of \<^verbatim>\<open>cjeca32/EC30Reader.cpp\<close>: the check of a key file
  (\<^verbatim>\<open>_CtIsKeyUpdateRecommended\<close>), and \<^verbatim>\<open>CtKeyUpdate\<close>, which sends the keys the reader needs.

  The code walks over the file with a pointer and a remaining length.  The model keeps both: \<open>mem\<close> is
  the memory, addressed from the start of the file, so that a read behind the end of the file is a
  read of \<open>mem\<close> like any other and its absence is something to prove.
\<close>

section \<open>The check of a key file\<close>

definition mem_at :: "(nat \<Rightarrow> byte) \<Rightarrow> nat \<Rightarrow> nat \<Rightarrow> bytes" where
  "mem_at mem p n = map mem [p..<p + n]"

definition short_at :: "(nat \<Rightarrow> byte) \<Rightarrow> nat \<Rightarrow> nat" where
  "short_at mem p = unat (le16_val (mem p) (mem (p + 1)))"

text \<open>
  The tests of one entry, in the order of the source.  \<open>p\<close> is the start of the entry in the first
  definition and its body (\<open>p + 5\<close>) in the others.
\<close>

definition head_ok :: "(nat \<Rightarrow> byte) \<Rightarrow> nat \<Rightarrow> nat \<Rightarrow> bool \<Rightarrow> bool" where
  "head_ok mem p len IsRoot \<longleftrightarrow>
     \<not> (len < 23 \<or> (\<not> IsRoot \<and> len < 36))
     \<and> mem_at mem p 3 = [0x7F, 0x21, 0x82]
     \<and> \<not> (short_at mem (p + 3) < 18 \<or> (\<not> IsRoot \<and> short_at mem (p + 3) < 31))
     \<and> \<not> (len - 5 < short_at mem (p + 3))
     \<and> mem_at mem (p + 5) 8 = [0x52, 0x04, 0x65, 0x63, 0x6f, 0x6d, 0x51, 0x02]
     \<and> mem_at mem (p + 15) 2 = [0x81, 0x82]"

definition body_ok :: "(nat \<Rightarrow> byte) \<Rightarrow> nat \<Rightarrow> nat \<Rightarrow> bool \<Rightarrow> bool" where
  "body_ok mem q hlen IsRoot \<longleftrightarrow>
     (let help1 = short_at mem (q + 12) in
      \<not> (hlen < 17 + help1 \<or> (\<not> IsRoot \<and> hlen < 30 + help1) \<or> help1 < 1)
      \<and> (let help2 = unat (mem (q + 15 + help1)) in
         \<not> (mem (q + 14 + help1) \<noteq> 0x82 \<or> IsRoot \<and> 16 + help1 + help2 \<noteq> hlen
            \<or> \<not> IsRoot \<and> hlen < 29 + help1 + help2 \<or> help2 < 1)))"

definition key_end :: "(nat \<Rightarrow> byte) \<Rightarrow> nat \<Rightarrow> nat" where
  "key_end mem q = q + 16 + short_at mem (q + 12) + unat (mem (q + 15 + short_at mem (q + 12)))"

definition cert_ok :: "(nat \<Rightarrow> byte) \<Rightarrow> nat \<Rightarrow> nat \<Rightarrow> bool" where
  "cert_ok mem q hlen \<longleftrightarrow>
     (let s = key_end mem q; help3 = short_at mem (s + 2) in
      mem_at mem s 2 = [0x83, 0x82]
      \<and> \<not> (help3 < 9 \<or> s - q + 4 + help3 \<noteq> hlen)
      \<and> mem_at mem (s + 4) 2 = [0x51, 0x02]
      \<and> mem_at mem (s + 8) 2 = [0x84, 0x82]
      \<and> help3 = short_at mem (s + 10) + 8)"

text \<open>
  Whether the reader wants the key \<open>k\<close> in version \<open>v\<close>; \<open>keys\<close> are the two keys of the reader, number
  and version each.  The first test is for a newer version, the second for an empty slot.
\<close>

definition wants_newer :: "bytes \<Rightarrow> byte \<Rightarrow> byte \<Rightarrow> bool" where
  "wants_newer keys k v \<longleftrightarrow> k = keys ! 0 \<and> v > keys ! 1 \<or> k = keys ! 2 \<and> v > keys ! 3"

definition empty_slot :: "bytes \<Rightarrow> bool" where
  "empty_slot keys \<longleftrightarrow> keys ! 0 = 0xff \<and> keys ! 1 = 0xff \<or> keys ! 2 = 0xff \<and> keys ! 3 = 0xff"

record key_state =
  ks_KV :: "byte \<Rightarrow> byte"
  ks_recommended :: bool
  ks_time :: u32

definition key_note :: "bytes \<Rightarrow> byte \<Rightarrow> byte \<Rightarrow> key_state \<Rightarrow> key_state" where
  "key_note keys k v st =
     (let st1 = (if wants_newer keys k v
                 then st\<lparr>ks_time := ks_time st + 5000, ks_recommended := True\<rparr> else st)
      in if empty_slot keys \<and> ks_KV st k = 0
         then st1\<lparr>ks_time := ks_time st1 + 1000, ks_recommended := True\<rparr> else st1)"

function key_scan ::
  "bytes \<Rightarrow> (nat \<Rightarrow> byte) \<Rightarrow> nat \<Rightarrow> nat \<Rightarrow> bool \<Rightarrow> key_state \<Rightarrow> cj_result \<times> key_state" where
  "key_scan keys mem p len IsRoot st =
     (if len = 0 then (CJ_SUCCESS, st)
      else if \<not> head_ok mem p len IsRoot then (CJ_ERR_DATA_CORRUPT, st)
      else
        (let hlen = short_at mem (p + 3); q = p + 5; k = mem (q + 8); v = mem (q + 9) in
         if ks_KV st k \<ge> v then (CJ_ERR_DATA_CORRUPT, st)
         else
           (let st1 = key_note keys k v st in
            if \<not> body_ok mem q hlen IsRoot then (CJ_ERR_DATA_CORRUPT, st1)
            else
              (let st2 = st1\<lparr>ks_KV := (ks_KV st1)(k := v)\<rparr> in
               if \<not> IsRoot \<and> \<not> cert_ok mem q hlen then (CJ_ERR_DATA_CORRUPT, st2)
               else key_scan keys mem (q + hlen) (len - 5 - hlen) False st2))))"
  by pat_completeness auto
termination
  by (relation "measure (\<lambda>(keys, mem, p, len, IsRoot, st). len)") auto

declare key_scan.simps [simp del]

definition key_state0 :: key_state where
  "key_state0 = \<lparr>ks_KV = (\<lambda>_. 0), ks_recommended = False, ks_time = 0\<rparr>"

definition data_mem :: "reader \<Rightarrow> bytes \<Rightarrow> nat \<Rightarrow> byte" where
  "data_mem r d i = (if i < length d then d ! i else g_over r i)"

definition CtIsKeyUpdateRecommended_raw :: "reader \<Rightarrow> bytes \<Rightarrow> cj_result \<times> key_state" where
  "CtIsKeyUpdateRecommended_raw r pData =
     key_scan (ri_Keys (m_ReaderInfo r)) (data_mem r pData) 0 (length pData) True key_state0"

definition CtIsKeyUpdateRecommended :: "reader \<Rightarrow> bytes \<Rightarrow> cj_result \<times> u32" where
  "CtIsKeyUpdateRecommended r pData =
     (case CtIsKeyUpdateRecommended_raw r pData of (Res, st) \<Rightarrow> (Res, ks_time st))"

section \<open>The update\<close>

abbreviation (input) "ECA_MODULE_ERR_OUT_OF_RESOURCE \<equiv> (6 :: u32)"

text \<open>Two commands with the flash mask before each, then the new key information is read.\<close>

definition key_send :: "reader \<Rightarrow> bytes \<Rightarrow> bytes \<Rightarrow> cj_result \<times> u32 option \<times> reader" where
  "key_send r update verify =
     (case flash_command r CCID_ESCAPE_UPDATE_KEY update of (Res, Result, r1) \<Rightarrow>
        if Res \<noteq> CJ_SUCCESS then (Res, Result, r1)
        else (case flash_command r1 CCID_ESCAPE_VERIFY_KEY verify of (Res2, Result2, r2) \<Rightarrow>
          if Res2 \<noteq> CJ_SUCCESS then (Res2, (case Result2 of None \<Rightarrow> Result | Some v \<Rightarrow> Some v), r2)
          else (CJ_SUCCESS, Result2, snd (BuildReaderInfo r2))))"

text \<open>
  One entry: \<open>Inr\<close> is a return out of the loop with the code and \<^verbatim>\<open>*Result\<close>, \<open>Inl\<close> goes on.  \<open>len\<close> is the
  remaining length behind the five bytes of the entry's head, which a root key is verified with.
\<close>

definition key_apply ::
  "reader \<Rightarrow> (nat \<Rightarrow> byte) \<Rightarrow> (byte \<Rightarrow> byte) \<Rightarrow> nat \<Rightarrow> nat \<Rightarrow> bool
    \<Rightarrow> (u32 option \<times> reader) + (cj_result \<times> u32 option \<times> reader)" where
  "key_apply r mem KV q len IsRoot =
     (let s = key_end mem q; klen = s - q; k = mem (q + 8); v = mem (q + 9);
          keys = ri_Keys (m_ReaderInfo r);
          go = (\<lambda>res. case res of (Res, Result, r1) \<Rightarrow>
                  if Res \<noteq> CJ_SUCCESS then Inr (Res, Result, r1) else Inl (Result, r1));
          update = le32_bytes (of_nat klen) @ mem_at mem q klen in
      if empty_slot keys \<and> KV k = v then
        (if klen > 800 then Inr (CJ_ERR_CHECK_RESULT, Some ECA_MODULE_ERR_OUT_OF_RESOURCE, r)
         else go (key_send r update (le32_bytes (of_nat len))))
      else if \<not> IsRoot then
        (let help3 = short_at mem (s + 2) in
         if wants_newer keys k v then
           (if mem (s + 6) = keys ! 0 \<and> mem (s + 7) = keys ! 1 \<or> mem (s + 6) = keys ! 2 \<and> mem (s + 7) = keys ! 3 then
              (if klen > 800 \<or> help3 > 796
               then Inr (CJ_ERR_CHECK_RESULT, Some ECA_MODULE_ERR_OUT_OF_RESOURCE, r)
               else go (key_send r update (le32_bytes (of_nat (help3 + 4)) @ mem_at mem s (help3 + 4))))
            else Inr (CJ_ERR_DATA_CORRUPT, None, r))
         else Inl (None, r))
      else Inl (None, r))"

text \<open>
  The loop; it is entered only for a file that passed the check, whose entries end exactly at the
  end of the file.
\<close>

function key_loop ::
  "reader \<Rightarrow> (nat \<Rightarrow> byte) \<Rightarrow> (byte \<Rightarrow> byte) \<Rightarrow> nat \<Rightarrow> nat \<Rightarrow> bool \<Rightarrow> u32 option
    \<Rightarrow> cj_result \<times> u32 option \<times> reader" where
  "key_loop r mem KV p len IsRoot Result =
     (if len = 0 then (CJ_SUCCESS, Result, r)
      else
        (let hlen = short_at mem (p + 3); q = p + 5 in
         case key_apply r mem KV q (len - 5) IsRoot of
           Inr (Res, Result1, r1) \<Rightarrow> (Res, (case Result1 of None \<Rightarrow> Result | Some v \<Rightarrow> Some v), r1)
         | Inl (Result1, r1) \<Rightarrow>
             key_loop r1 mem KV (q + hlen) (len - 5 - hlen) False
               (case Result1 of None \<Rightarrow> Result | Some v \<Rightarrow> Some v)))"
  by pat_completeness auto
termination
  by (relation "measure (\<lambda>(r, mem, KV, p, len, IsRoot, Result). len)") auto

declare key_loop.simps [simp del]

definition CtKeyUpdate :: "reader \<Rightarrow> bytes \<Rightarrow> cj_result \<times> u32 option \<times> reader" where
  "CtKeyUpdate r pData =
     (case CtIsKeyUpdateRecommended_raw r pData of (Res, st) \<Rightarrow>
        if ks_recommended st then
          (if Res \<noteq> CJ_SUCCESS then (Res, Some 0, r)
           else key_loop r (data_mem r pData) (ks_KV st) 0 (length pData) True (Some 0))
        else (CJ_SUCCESS, Some 0, r))"

section \<open>No read outside the file\<close>

definition agree :: "(nat \<Rightarrow> byte) \<Rightarrow> (nat \<Rightarrow> byte) \<Rightarrow> nat \<Rightarrow> nat \<Rightarrow> bool" where
  "agree mem mem' p n \<longleftrightarrow> (\<forall>i. p \<le> i \<and> i < p + n \<longrightarrow> mem i = mem' i)"

lemma agreeD: "agree mem mem' p n \<Longrightarrow> p \<le> i \<Longrightarrow> i < p + n \<Longrightarrow> mem' i = mem i"
  by (simp add: agree_def)

lemma agree_mono: "agree mem mem' p n \<Longrightarrow> p \<le> q \<Longrightarrow> q + k \<le> p + n \<Longrightarrow> agree mem mem' q k"
  by (simp add: agree_def)

lemma mem_at_agree: "agree mem mem' p n \<Longrightarrow> p \<le> q \<Longrightarrow> q + k \<le> p + n \<Longrightarrow> mem_at mem' q k = mem_at mem q k"
  by (auto simp: mem_at_def agree_def)

lemma short_at_agree: "agree mem mem' p n \<Longrightarrow> p \<le> q \<Longrightarrow> q + 2 \<le> p + n \<Longrightarrow> short_at mem' q = short_at mem q"
  by (simp add: short_at_def agree_def)

lemma head_ok_agree:
  assumes "agree mem mem' p len"
  shows "head_ok mem' p len IsRoot = head_ok mem p len IsRoot"
proof (cases "len < 23")
  case False
  have "mem_at mem' p 3 = mem_at mem p 3" "short_at mem' (p + 3) = short_at mem (p + 3)"
    "mem_at mem' (p + 5) 8 = mem_at mem (p + 5) 8" "mem_at mem' (p + 15) 2 = mem_at mem (p + 15) 2"
    using False by (auto intro!: mem_at_agree[OF assms] short_at_agree[OF assms])
  then show ?thesis by (simp add: head_ok_def)
qed (simp add: head_ok_def)

text \<open>What the head promises: the body lies in the file and is long enough for the fixed fields.\<close>

lemma head_okD:
  "head_ok mem p len IsRoot \<Longrightarrow> 5 + short_at mem (p + 3) \<le> len \<and> 18 \<le> short_at mem (p + 3)"
  by (auto simp: head_ok_def)

lemma body_ok_agree:
  assumes "agree mem mem' q hlen" and "18 \<le> hlen"
  shows "body_ok mem' q hlen IsRoot = body_ok mem q hlen IsRoot"
proof -
  have 1: "short_at mem' (q + 12) = short_at mem (q + 12)"
    using assms by (intro short_at_agree[OF assms(1)]) auto
  show ?thesis
  proof (cases "hlen < 17 + short_at mem (q + 12)")
    case False
    then have "mem' (q + 15 + short_at mem (q + 12)) = mem (q + 15 + short_at mem (q + 12))"
      "mem' (q + 14 + short_at mem (q + 12)) = mem (q + 14 + short_at mem (q + 12))"
      by (auto intro!: agreeD[OF assms(1)])
    then show ?thesis by (simp add: body_ok_def 1 Let_def)
  qed (simp add: body_ok_def 1 Let_def)
qed

lemma key_end_agree:
  assumes "agree mem mem' q hlen" and "body_ok mem q hlen IsRoot"
  shows "key_end mem' q = key_end mem q" "key_end mem q \<le> q + hlen"
    "\<not> IsRoot \<Longrightarrow> key_end mem q + 13 \<le> q + hlen" "q + 16 \<le> key_end mem q"
proof -
  have h: "17 + short_at mem (q + 12) \<le> hlen" using assms(2) by (auto simp: body_ok_def Let_def)
  have 1: "short_at mem' (q + 12) = short_at mem (q + 12)"
    using h by (intro short_at_agree[OF assms(1)]) auto
  have 2: "mem' (q + 15 + short_at mem (q + 12)) = mem (q + 15 + short_at mem (q + 12))"
    using h by (auto intro!: agreeD[OF assms(1)])
  show "key_end mem' q = key_end mem q" by (simp only: key_end_def 1 2)
  show "key_end mem q \<le> q + hlen" "\<not> IsRoot \<Longrightarrow> key_end mem q + 13 \<le> q + hlen"
    using assms(2) by (auto simp: body_ok_def key_end_def Let_def)
  show "q + 16 \<le> key_end mem q" by (simp add: key_end_def)
qed

lemma cert_ok_agree:
  assumes "agree mem mem' q hlen" and "body_ok mem q hlen False"
  shows "cert_ok mem' q hlen = cert_ok mem q hlen"
proof -
  note e = key_end_agree[OF assms]
  let ?s = "key_end mem q"
  have "mem_at mem' (?s + k) 2 = mem_at mem (?s + k) 2" "short_at mem' (?s + k) = short_at mem (?s + k)"
    if "k \<le> 10" for k
    using e(3,4) that by (auto intro!: mem_at_agree[OF assms(1)] short_at_agree[OF assms(1)])
  from this[of 0] this[of 2] this[of 4] this[of 8] this[of 10] show ?thesis
    by (simp add: cert_ok_def e(1) Let_def)
qed

lemma key_scan_agree:
  "agree mem mem' p len \<Longrightarrow> key_scan keys mem' p len IsRoot st = key_scan keys mem p len IsRoot st"
proof (induction keys mem p len IsRoot st rule: key_scan.induct)
  case (1 keys mem p len IsRoot st)
  let ?hlen = "short_at mem (p + 3)"
  show ?case
  proof (cases "len \<noteq> 0 \<and> head_ok mem p len IsRoot")
    case False
    then show ?thesis using head_ok_agree[OF "1.prems", of IsRoot]
      by (subst (1 2) key_scan.simps) auto
  next
    case True
    then have len: "len \<noteq> 0" and hd: "head_ok mem p len IsRoot" by auto
    note hd' = head_okD[OF hd]
    have ag: "agree mem mem' (p + 5) ?hlen" using hd' by (intro agree_mono[OF "1.prems"]) auto
    have m: "mem' (13 + p) = mem (13 + p)" "mem' (14 + p) = mem (14 + p)"
      "short_at mem' (p + 3) = ?hlen"
      using hd' by (auto intro!: agreeD[OF "1.prems"] short_at_agree[OF "1.prems"])
    have b: "body_ok mem' (p + 5) ?hlen IsRoot = body_ok mem (p + 5) ?hlen IsRoot"
      using hd' by (intro body_ok_agree[OF ag]) auto
    have c: "cert_ok mem' (p + 5) ?hlen = cert_ok mem (p + 5) ?hlen"
      if "body_ok mem (p + 5) ?hlen IsRoot" "\<not> IsRoot"
      using cert_ok_agree[OF ag] that by simp
    have rest: "agree mem mem' (p + 5 + ?hlen) (len - 5 - ?hlen)"
      using hd' by (intro agree_mono[OF "1.prems"]) auto
    note IH = "1.IH"[OF len _ refl refl refl refl _ refl _ refl _ rest]
    show ?thesis
      using IH len hd b c head_ok_agree[OF "1.prems", of IsRoot] m
      by (cases IsRoot; subst (1 2) key_scan.simps) (auto simp: Let_def)
  qed
qed

section \<open>The format of a key file\<close>

text \<open>
  A key file is a sequence of entries.  Each has a key number, a version, a modulus and an exponent;
  every entry but the first one, the root, is certified: the number and version of the signing key
  and a signature.
\<close>

record key_entry =
  ke_nr :: byte
  ke_ver :: byte
  ke_modulus :: bytes
  ke_exponent :: bytes
  ke_cert :: "(byte \<times> byte \<times> bytes) option"

fun enc_cert :: "(byte \<times> byte \<times> bytes) option \<Rightarrow> bytes" where
  "enc_cert None = []"
| "enc_cert (Some (n, v, sig)) =
     [0x83, 0x82] @ le16_bytes (of_nat (length sig + 8)) @ [0x51, 0x02, n, v, 0x84, 0x82]
     @ le16_bytes (of_nat (length sig)) @ sig"

definition enc_body :: "key_entry \<Rightarrow> bytes" where
  "enc_body e =
     [0x52, 0x04, 0x65, 0x63, 0x6f, 0x6d, 0x51, 0x02, ke_nr e, ke_ver e, 0x81, 0x82]
     @ le16_bytes (of_nat (length (ke_modulus e))) @ ke_modulus e
     @ [0x82, of_nat (length (ke_exponent e))] @ ke_exponent e @ enc_cert (ke_cert e)"

definition enc_entry :: "key_entry \<Rightarrow> bytes" where
  "enc_entry e = [0x7F, 0x21, 0x82] @ le16_bytes (of_nat (length (enc_body e))) @ enc_body e"

definition wf_entry :: "bool \<Rightarrow> key_entry \<Rightarrow> bool" where
  "wf_entry IsRoot e \<longleftrightarrow> ke_modulus e \<noteq> [] \<and> ke_exponent e \<noteq> [] \<and> length (ke_exponent e) < 256
     \<and> length (enc_body e) < 65536
     \<and> (case ke_cert e of None \<Rightarrow> IsRoot | Some (n, v, sig) \<Rightarrow> \<not> IsRoot \<and> sig \<noteq> [])"

text \<open>The versions of one key number grow from entry to entry, from 0 on.\<close>

fun wf_file :: "bool \<Rightarrow> (byte \<Rightarrow> byte) \<Rightarrow> key_entry list \<Rightarrow> bool" where
  "wf_file IsRoot KV [] \<longleftrightarrow> True"
| "wf_file IsRoot KV (e # es) \<longleftrightarrow> wf_entry IsRoot e \<and> KV (ke_nr e) < ke_ver e
     \<and> wf_file False (KV(ke_nr e := ke_ver e)) es"

definition holds :: "(nat \<Rightarrow> byte) \<Rightarrow> nat \<Rightarrow> bytes \<Rightarrow> bool" where
  "holds mem p xs \<longleftrightarrow> mem_at mem p (length xs) = xs"

lemma length_mem_at [simp]: "length (mem_at mem p n) = n"
  by (simp add: mem_at_def)

lemma mem_at_Nil: "mem_at mem p n = [] \<longleftrightarrow> n = 0"
  by (auto simp: mem_at_def)

lemma mem_at_add: "mem_at mem p (a + b) = mem_at mem p a @ mem_at mem (p + a) b"
proof -
  have "[p..<p + (a + b)] = [p..<p + a] @ [p + a..<p + a + b]"
    using upt_add_eq_append[of p "p + a" b] by (simp add: add.assoc)
  then show ?thesis by (simp add: mem_at_def)
qed

lemma mem_at_Suc: "mem_at mem p (Suc n) = mem p # mem_at mem (p + 1) n"
proof -
  have "[p..<p + Suc n] = p # [p + 1..<p + 1 + n]" by (simp add: upt_conv_Cons del: upt_Suc)
  then show ?thesis by (simp add: mem_at_def del: upt_Suc)
qed

lemma mem_at_0: "mem_at mem p 0 = []" by (simp add: mem_at_def)

lemma holds_append: "holds mem p (xs @ ys) \<longleftrightarrow> holds mem p xs \<and> holds mem (p + length xs) ys"
  by (simp add: holds_def mem_at_add)

lemma holds_Cons: "holds mem p (x # xs) \<longleftrightarrow> mem p = x \<and> holds mem (p + 1) xs"
  by (simp add: holds_def mem_at_Suc)

lemma holds_Nil: "holds mem p []"
  by (simp add: holds_def mem_at_def)

lemma holds_mem_at: "holds mem p (mem_at mem p n)"
  by (simp add: holds_def)

lemma le16_bytes_val: "le16_bytes (le16_val a b) = [a, b]"
proof -
  have "ucast (le16_val a b) = a" "ucast (drop_bit 8 (le16_val a b)) = b"
    by (rule bit_word_eqI, auto simp: le16_val_def bit_simps dest: bit_imp_le_length)+
  then show ?thesis by (simp add: le16_bytes_def)
qed

lemma holds_short:
  assumes "n < 65536"
  shows "holds mem p (le16_bytes (of_nat n)) \<longleftrightarrow> short_at mem p = n"
proof -
  have "holds mem p (le16_bytes w) \<longleftrightarrow> le16_val (mem p) (mem (p + 1)) = w" for w
  proof
    show "holds mem p (le16_bytes w) \<Longrightarrow> le16_val (mem p) (mem (p + 1)) = w"
      by (simp add: le16_bytes_def holds_Cons le16_round)
    show "le16_val (mem p) (mem (p + 1)) = w \<Longrightarrow> holds mem p (le16_bytes w)"
      using le16_bytes_val[of "mem p" "mem (p + 1)"] by (auto simp: holds_Cons holds_Nil)
  qed
  moreover have "unat w = n \<longleftrightarrow> w = of_nat n" for w :: u16
    using assms by (metis of_nat_unat ucast_id unat_of_nat_u16)
  ultimately show ?thesis by (simp add: short_at_def)
qed

lemmas holds_simps = holds_append holds_Cons holds_Nil

lemma enc_len: "length (enc_body e) = 16 + length (ke_modulus e) + length (ke_exponent e) + length (enc_cert (ke_cert e))"
  by (simp add: enc_body_def)

lemma short_at_bound: "short_at mem p < 65536"
  by (simp add: short_at_def u16_bound)

lemma mem_at_eq: "mem_at mem p n = xs \<longleftrightarrow> holds mem p xs \<and> length xs = n"
  by (auto simp: holds_def)

text \<open>The checks of the parser accept every printed entry.\<close>

lemma enc_cert_len: "length (enc_cert (Some (n, v, sig))) = 12 + length sig"
  by simp

lemma entry_accepted:
  assumes "wf_entry IsRoot e" and "holds mem p (enc_entry e)" and "length (enc_entry e) \<le> len"
  shows "head_ok mem p len IsRoot" "short_at mem (p + 3) = length (enc_body e)"
    "mem (p + 13) = ke_nr e" "mem (p + 14) = ke_ver e"
    "body_ok mem (p + 5) (length (enc_body e)) IsRoot"
    "\<not> IsRoot \<Longrightarrow> cert_ok mem (p + 5) (length (enc_body e))"
proof -
  let ?m = "length (ke_modulus e)" and ?x = "length (ke_exponent e)"
  have b: "length (enc_body e) < 65536" and m: "1 \<le> ?m" and x: "1 \<le> ?x" "?x < 256"
    using assms(1) by (auto simp: wf_entry_def Suc_le_eq)
  have len: "5 + length (enc_body e) \<le> len" using assms(3) by (simp add: enc_entry_def)
  have h: "holds mem p [0x7F, 0x21, 0x82]" "short_at mem (p + 3) = length (enc_body e)"
    "holds mem (p + 5) (enc_body e)"
    using assms(2) holds_short[OF b, of mem "p + 3"] by (simp_all add: enc_entry_def holds_simps eval_nat_numeral)
  show "short_at mem (p + 3) = length (enc_body e)" by (rule h)
  have m16: "?m < 65536" using b by (simp add: enc_len)
  have f: "holds mem (p + 5) [0x52, 0x04, 0x65, 0x63, 0x6f, 0x6d, 0x51, 0x02]"
    "mem (p + 13) = ke_nr e" "mem (p + 14) = ke_ver e" "holds mem (p + 15) [0x81, 0x82]"
    "short_at mem (p + 17) = ?m"
    using h(3) holds_short[OF m16, of mem "p + 17"]
    by (simp_all add: enc_body_def holds_simps eval_nat_numeral)
  show "mem (p + 13) = ke_nr e" "mem (p + 14) = ke_ver e" by (rule f)+
  have ux: "unat (of_nat ?x :: byte) = ?x" using x(2) by (simp add: unat_of_nat take_bit_nat_eq_self)
  have g: "mem (p + 19 + ?m) = 0x82" "mem (p + 20 + ?m) = of_nat ?x"
    "holds mem (p + 21 + ?m + ?x) (enc_cert (ke_cert e))"
    using h(3) by (simp_all add: enc_body_def holds_simps eval_nat_numeral)
  have e: "enc_cert (ke_cert e) = [] \<and> IsRoot \<or> 13 \<le> length (enc_cert (ke_cert e)) \<and> \<not> IsRoot"
    using assms(1) by (auto simp: wf_entry_def Suc_le_eq split: option.splits)
  have s1: "short_at mem (p + 5 + 12) = ?m" using f(5) by (simp add: add.assoc)
  have s2: "unat (mem (p + 5 + 15 + ?m)) = ?x" "mem (p + 5 + 14 + ?m) = 0x82"
    using g(1,2) ux by (simp_all add: add.assoc)
  show "body_ok mem (p + 5) (length (enc_body e)) IsRoot"
    using e m x by (simp only: body_ok_def s1 s2 Let_def enc_len) auto
  show "head_ok mem p len IsRoot"
    using e m x len h f by (simp only: head_ok_def mem_at_eq h(2)) (auto simp: enc_len)
  show "cert_ok mem (p + 5) (length (enc_body e))" if nr: "\<not> IsRoot"
  proof -
    obtain n v sig where c: "ke_cert e = Some (n, v, sig)" "sig \<noteq> []"
      using assms(1) nr by (auto simp: wf_entry_def split: option.splits)
    have s: "key_end mem (p + 5) = p + 21 + ?m + ?x" by (simp only: key_end_def s1 s2)
    define s where "s = p + 21 + ?m + ?x"
    have l: "length sig + 8 < 65536" "length sig < 65536" using b c by (simp_all add: enc_len)
    have "holds mem s [0x83, 0x82]" "short_at mem (s + 2) = length sig + 8"
      "holds mem (s + 4) [0x51, 0x02]" "holds mem (s + 8) [0x84, 0x82]" "short_at mem (s + 10) = length sig"
      using g(3) c holds_short[OF l(1), of mem "s + 2"] holds_short[OF l(2), of mem "s + 10"]
      unfolding s_def[symmetric] by (simp_all add: holds_simps eval_nat_numeral)
    then show ?thesis using c s
      by (simp add: cert_ok_def mem_at_eq Let_def s_def[symmetric] enc_len) (simp add: s_def Suc_le_eq)
  qed
qed

text \<open>And whatever passes the checks is a printed entry.\<close>

definition parsed :: "(nat \<Rightarrow> byte) \<Rightarrow> nat \<Rightarrow> bool \<Rightarrow> key_entry" where
  "parsed mem q IsRoot =
     (let n1 = short_at mem (q + 12); n2 = unat (mem (q + 15 + n1)); s = key_end mem q in
      \<lparr>ke_nr = mem (q + 8), ke_ver = mem (q + 9), ke_modulus = mem_at mem (q + 14) n1,
       ke_exponent = mem_at mem (q + 16 + n1) n2,
       ke_cert = (if IsRoot then None
                  else Some (mem (s + 6), mem (s + 7), mem_at mem (s + 12) (short_at mem (s + 10))))\<rparr>)"

lemma parsed_body:
  assumes "body_ok mem q hlen IsRoot" and "\<not> IsRoot \<Longrightarrow> cert_ok mem q hlen"
  shows "length (enc_body (parsed mem q IsRoot)) = hlen"
  using assms
  by (auto simp: enc_len parsed_def Let_def body_ok_def cert_ok_def key_end_def split: if_splits)

lemma parsed_cert:
  assumes "cert_ok mem q hlen"
  shows "holds mem (key_end mem q) (enc_cert (ke_cert (parsed mem q False)))"
proof -
  define s where "s = key_end mem q"
  have c: "holds mem s [0x83, 0x82]" "short_at mem (s + 2) = short_at mem (s + 10) + 8"
    "holds mem (s + 4) [0x51, 0x02]" "holds mem (s + 8) [0x84, 0x82]"
    using assms by (simp_all add: cert_ok_def Let_def mem_at_eq s_def)
  have l: "short_at mem (s + 10) + 8 < 65536" "short_at mem (s + 10) < 65536"
    using short_at_bound[of mem "s + 2"] c(2) by simp_all
  have h: "holds mem (s + 2) (le16_bytes (of_nat (short_at mem (s + 10) + 8)))"
    "holds mem (s + 10) (le16_bytes (of_nat (short_at mem (s + 10))))"
    "holds mem (s + 12) (mem_at mem (s + 12) (short_at mem (s + 10)))"
    using c(2) holds_short[OF l(1), of mem "s + 2"] holds_short[OF l(2), of mem "s + 10"]
    by (simp_all add: holds_mem_at)
  define sig where "sig = mem_at mem (s + 12) (short_at mem (s + 10))"
  have "ke_cert (parsed mem q False) = Some (mem (s + 6), mem (s + 7), sig)"
    by (simp add: parsed_def Let_def s_def sig_def)
  moreover have "length sig = short_at mem (s + 10)" by (simp add: sig_def)
  moreover have "holds mem (s + 2) (le16_bytes (of_nat (length sig + 8)))"
    "holds mem (s + 10) (le16_bytes (of_nat (length sig)))" "holds mem (s + 12) sig"
    using h by (simp_all add: sig_def)
  ultimately show ?thesis using c(1,3,4)
    unfolding s_def[symmetric] by (simp add: holds_simps eval_nat_numeral)
qed

lemma parsed_holds:
  assumes "head_ok mem p len IsRoot" and "body_ok mem (p + 5) (short_at mem (p + 3)) IsRoot"
    and "\<not> IsRoot \<Longrightarrow> cert_ok mem (p + 5) (short_at mem (p + 3))"
  shows "holds mem p (enc_entry (parsed mem (p + 5) IsRoot))" "wf_entry IsRoot (parsed mem (p + 5) IsRoot)"
proof -
  let ?e = "parsed mem (p + 5) IsRoot" and ?hlen = "short_at mem (p + 3)"
  define n1 where "n1 = short_at mem (p + 17)"
  define n2 where "n2 = unat (mem (p + 20 + n1))"
  have len: "length (enc_body ?e) = ?hlen" by (rule parsed_body) (use assms in auto)
  have hd: "holds mem p [0x7F, 0x21, 0x82]" "holds mem (p + 5) [0x52, 0x04, 0x65, 0x63, 0x6f, 0x6d, 0x51, 0x02]"
    "holds mem (p + 15) [0x81, 0x82]"
    using assms(1) by (simp_all add: head_ok_def mem_at_eq)
  have i: "p + 5 + 12 = p + 17" "p + 5 + 15 + n1 = p + 20 + n1" "p + 5 + 14 + n1 = p + 19 + n1"
    "p + 5 + 14 = p + 19" "p + 5 + 16 + n1 = p + 21 + n1" "p + 5 + 8 = p + 13" "p + 5 + 9 = p + 14" by simp_all
  have bd: "mem (p + 19 + n1) = 0x82" "1 \<le> n1" "1 \<le> n2"
    using assms(2) unfolding body_ok_def Let_def i n1_def[symmetric] n2_def[symmetric] by auto
  have en: "key_end mem (p + 5) = p + 21 + n1 + n2"
    unfolding key_end_def i n1_def[symmetric] n2_def[symmetric] by simp
  have e: "ke_nr ?e = mem (p + 13)" "ke_ver ?e = mem (p + 14)" "ke_modulus ?e = mem_at mem (p + 19) n1"
    "ke_exponent ?e = mem_at mem (p + 21 + n1) n2"
    unfolding parsed_def Let_def i n1_def[symmetric] n2_def[symmetric] by simp_all
  have ce: "holds mem (p + 21 + n1 + n2) (enc_cert (ke_cert ?e))"
    using parsed_cert[of mem "p + 5" ?hlen] assms(3) en
    by (cases IsRoot) (auto simp: parsed_def Let_def holds_Nil)
  have sh: "holds mem (p + 17) (le16_bytes (of_nat n1))" "holds mem (p + 3) (le16_bytes (of_nat ?hlen))"
    using holds_short short_at_bound n1_def by blast+
  have n2: "mem (p + 20 + n1) = of_nat n2" by (simp add: n2_def)
  define md ex where "md = mem_at mem (p + 19) n1" and "ex = mem_at mem (p + 21 + n1) n2"
  have hm: "holds mem (p + 19) md" "length md = n1" "holds mem (p + 21 + n1) ex" "length ex = n2"
    by (simp_all add: md_def ex_def holds_mem_at)
  note e = e[folded md_def ex_def]
  have "holds mem (p + 5) (enc_body E)"
    if "ke_nr E = mem (p + 13)" "ke_ver E = mem (p + 14)" "ke_modulus E = md" "ke_exponent E = ex"
      "holds mem (p + 21 + n1 + n2) (enc_cert (ke_cert E))" for E
    using hd sh n2 bd that hm by (simp add: enc_body_def holds_simps eval_nat_numeral)
  from this[OF e ce] have "holds mem (p + 5) (enc_body ?e)" .
  then show "holds mem p (enc_entry ?e)"
    using hd sh(2) unfolding enc_entry_def len by (simp add: holds_simps eval_nat_numeral)
  have "n2 < 256" by (simp add: n2_def byte_bound)
  moreover have "case ke_cert ?e of None \<Rightarrow> IsRoot | Some (n, v, sig) \<Rightarrow> \<not> IsRoot \<and> sig \<noteq> []"
  proof (cases IsRoot)
    case False
    have "1 \<le> short_at mem (key_end mem (p + 5) + 10)"
      using assms(3)[OF False] by (auto simp: cert_ok_def Let_def)
    then show ?thesis using False by (simp add: parsed_def Let_def mem_at_Nil)
  qed (simp add: parsed_def Let_def)
  ultimately show "wf_entry IsRoot ?e"
    using bd hm(2,4) len short_at_bound[of mem "p + 3"] by (auto simp: wf_entry_def e mem_at_Nil)
qed

section \<open>The parser accepts exactly the printed files\<close>

lemma enc_entry_len: "length (enc_entry e) = 5 + length (enc_body e)"
  by (simp add: enc_entry_def)

lemma key_note_KV: "ks_KV (key_note keys k v st) = ks_KV st"
  by (simp add: key_note_def Let_def)

lemma key_scan_entry:
  assumes "wf_entry IsRoot e" and "holds mem p (enc_entry e)" and "length (enc_entry e) \<le> len"
  shows "key_scan keys mem p len IsRoot st =
    (if ks_KV st (ke_nr e) \<ge> ke_ver e then (CJ_ERR_DATA_CORRUPT, st)
     else key_scan keys mem (p + length (enc_entry e)) (len - length (enc_entry e)) False
            ((key_note keys (ke_nr e) (ke_ver e) st)\<lparr>ks_KV := (ks_KV st)(ke_nr e := ke_ver e)\<rparr>))"
proof -
  note a = entry_accepted[OF assms]
  have k: "mem (p + 5 + 8) = ke_nr e" "mem (p + 5 + 9) = ke_ver e" using a(3,4) by (simp_all add: add.commute)
  have len: "len \<noteq> 0" using assms(3) by (simp add: enc_entry_len)
  have c: "\<not> (\<not> IsRoot \<and> \<not> cert_ok mem (p + 5) (length (enc_body e)))" using a(6) by blast
  show ?thesis
    unfolding key_scan.simps[of keys mem p len] Let_def a(2) k key_note_KV enc_entry_len
    using a(1,5) len c by (auto simp: add.assoc)
qed

lemma mem_at_appendD:
  assumes "mem_at mem p len = xs @ ys"
  shows "holds mem p xs" "length xs \<le> len" "mem_at mem (p + length xs) (len - length xs) = ys"
proof -
  have "len = length xs + length ys" using arg_cong[OF assms, of length] by simp
  then show "holds mem p xs" "length xs \<le> len" "mem_at mem (p + length xs) (len - length xs) = ys"
    using assms by (simp_all add: holds_def mem_at_add)
qed

lemma key_scan_sound:
  "fst (key_scan keys mem p len IsRoot st) = CJ_SUCCESS \<Longrightarrow>
     \<exists>es. mem_at mem p len = concat (map enc_entry es) \<and> wf_file IsRoot (ks_KV st) es"
proof (induction keys mem p len IsRoot st rule: key_scan.induct)
  case (1 keys mem p len IsRoot st)
  show ?case
  proof (cases "len = 0")
    case True
    then show ?thesis by (intro exI[of _ "[]"]) (simp add: mem_at_0)
  next
    case False
    let ?hlen = "short_at mem (p + 3)" and ?k = "mem (p + 5 + 8)" and ?v = "mem (p + 5 + 9)"
    let ?st1 = "key_note keys ?k ?v st"
    let ?st2 = "?st1\<lparr>ks_KV := (ks_KV ?st1)(?k := ?v)\<rparr>"
    have hd: "head_ok mem p len IsRoot" and v: "\<not> ?v \<le> ks_KV st ?k"
      and bd: "body_ok mem (p + 5) ?hlen IsRoot" and ce: "\<not> (\<not> IsRoot \<and> \<not> cert_ok mem (p + 5) ?hlen)"
      and ok: "fst (key_scan keys mem (p + 5 + ?hlen) (len - 5 - ?hlen) False ?st2) = CJ_SUCCESS"
      using "1.prems" False by (subst (asm) key_scan.simps, force simp: Let_def split: if_splits)+
    obtain es where es: "mem_at mem (p + 5 + ?hlen) (len - 5 - ?hlen) = concat (map enc_entry es)"
      "wf_file False (ks_KV ?st2) es"
      using "1.IH"[OF False _ refl refl refl refl v refl _ refl ce ok] hd bd by blast
    let ?e = "parsed mem (p + 5) IsRoot"
    have e: "holds mem p (enc_entry ?e)" "wf_entry IsRoot ?e"
      using parsed_holds[OF hd bd] ce by auto
    have el: "length (enc_entry ?e) = 5 + ?hlen"
      using parsed_body[OF bd] ce by (auto simp: enc_entry_len)
    have kv: "ke_nr ?e = ?k" "ke_ver ?e = ?v" by (simp_all add: parsed_def Let_def)
    have "5 + ?hlen \<le> len" using head_okD[OF hd] by simp
    then have "mem_at mem p len = mem_at mem p (5 + ?hlen) @ mem_at mem (p + 5 + ?hlen) (len - 5 - ?hlen)"
      using mem_at_add[of mem p "5 + ?hlen" "len - 5 - ?hlen"] by (simp add: add.assoc)
    then have "mem_at mem p len = enc_entry ?e @ concat (map enc_entry es)"
      using e(1) es(1) el by (simp add: holds_def)
    moreover have "wf_file IsRoot (ks_KV st) (?e # es)"
      using e(2) es(2) v kv by (simp add: key_note_KV not_le)
    ultimately show ?thesis by (intro exI[of _ "?e # es"]) simp
  qed
qed

lemma key_scan_complete:
  "mem_at mem p len = concat (map enc_entry es) \<Longrightarrow> wf_file IsRoot (ks_KV st) es \<Longrightarrow>
     fst (key_scan keys mem p len IsRoot st) = CJ_SUCCESS"
proof (induction es arbitrary: p len IsRoot st)
  case Nil
  then show ?case by (simp add: key_scan.simps mem_at_Nil)
next
  case (Cons e es)
  let ?n = "length (enc_entry e)"
  note s = mem_at_appendD[OF Cons.prems(1)[unfolded list.map concat.simps]]
  have w: "wf_entry IsRoot e" "ks_KV st (ke_nr e) < ke_ver e"
    "wf_file False ((ks_KV st)(ke_nr e := ke_ver e)) es"
    using Cons.prems(2) by simp_all
  have n: "\<not> ke_ver e \<le> ks_KV st (ke_nr e)" using w(2) by simp
  show ?case
    unfolding key_scan_entry[OF w(1) s(1,2)] if_not_P[OF n]
    by (rule Cons.IH[OF s(3)]) (use w(3) in \<open>simp add: fun_upd_def\<close>)
qed

lemma mem_at_data: "mem_at (data_mem r d) 0 (length d) = d"
  by (rule nth_equalityI) (simp_all add: mem_at_def data_mem_def)

text \<open>
  Property C32.  The check of a key file accepts exactly the files that are a sequence of well-formed
  entries: a root key, then certified keys, with all lengths consistent and growing versions of every
  key number.
\<close>

theorem key_file_accepted:
  "fst (CtIsKeyUpdateRecommended r pData) = CJ_SUCCESS \<longleftrightarrow>
     (\<exists>es. pData = concat (map enc_entry es) \<and> wf_file True (\<lambda>_. 0) es)"
proof -
  have "fst (CtIsKeyUpdateRecommended r pData)
      = fst (key_scan (ri_Keys (m_ReaderInfo r)) (data_mem r pData) 0 (length pData) True key_state0)"
    by (simp add: CtIsKeyUpdateRecommended_def CtIsKeyUpdateRecommended_raw_def split: prod.split)
  then show ?thesis
    using key_scan_sound[of _ "data_mem r pData" 0 "length pData" True key_state0]
      key_scan_complete[of "data_mem r pData" 0 "length pData" _ True key_state0]
    by (auto simp: mem_at_data key_state0_def)
qed

text \<open>
  Property C33.  The check never looks at memory behind the file: its result, the recommendation and
  the update time are the same whatever follows the file.
\<close>

theorem key_check_in_bounds:
  "CtIsKeyUpdateRecommended_raw (r\<lparr>g_over := over\<rparr>) pData = CtIsKeyUpdateRecommended_raw r pData"
proof -
  have "agree (data_mem r pData) (data_mem (r\<lparr>g_over := over\<rparr>) pData) 0 (length pData)"
    by (simp add: agree_def data_mem_def)
  then show ?thesis by (simp add: CtIsKeyUpdateRecommended_raw_def key_scan_agree)
qed

lemma key_note_recommended:
  "ks_recommended (key_note keys k v st)
     \<longleftrightarrow> ks_recommended st \<or> wants_newer keys k v \<or> empty_slot keys \<and> ks_KV st k = 0"
  by (auto simp: key_note_def Let_def)

lemma key_scan_recommended:
  "mem_at mem p len = concat (map enc_entry es) \<Longrightarrow> wf_file IsRoot (ks_KV st) es \<Longrightarrow>
     ks_recommended (snd (key_scan keys mem p len IsRoot st)) \<longleftrightarrow>
       ks_recommended st \<or> (\<exists>e \<in> set es. wants_newer keys (ke_nr e) (ke_ver e))
       \<or> empty_slot keys \<and> (\<exists>e \<in> set es. ks_KV st (ke_nr e) = 0)"
proof (induction es arbitrary: p len IsRoot st)
  case Nil
  then show ?case by (simp add: key_scan.simps mem_at_Nil)
next
  case (Cons e es)
  let ?n = "length (enc_entry e)"
  let ?st = "(key_note keys (ke_nr e) (ke_ver e) st)\<lparr>ks_KV := (ks_KV st)(ke_nr e := ke_ver e)\<rparr>"
  note s = mem_at_appendD[OF Cons.prems(1)[unfolded list.map concat.simps]]
  have w: "wf_entry IsRoot e" "ks_KV st (ke_nr e) < ke_ver e" "wf_file False (ks_KV ?st) es"
    using Cons.prems(2) by (simp_all add: fun_upd_def)
  have n: "\<not> ke_ver e \<le> ks_KV st (ke_nr e)" using w(2) by simp
  have pos: "ke_ver e \<noteq> 0" using w(2) by auto
  show ?case
    unfolding key_scan_entry[OF w(1) s(1,2)] if_not_P[OF n] Cons.IH[OF s(3) w(3)]
    using pos by (auto simp: key_note_recommended) metis
qed

text \<open>
  Property C34.  For an accepted file the update is recommended exactly when some entry is a newer
  version of one of the reader's two keys, or a key slot of the reader is empty and the file is not.
\<close>

theorem key_update_recommended_iff:
  assumes "pData = concat (map enc_entry es)" and "wf_file True (\<lambda>_. 0) es"
  shows "ks_recommended (snd (CtIsKeyUpdateRecommended_raw r pData)) \<longleftrightarrow>
     (\<exists>e \<in> set es. wants_newer (ri_Keys (m_ReaderInfo r)) (ke_nr e) (ke_ver e))
     \<or> empty_slot (ri_Keys (m_ReaderInfo r)) \<and> es \<noteq> []"
  using key_scan_recommended[OF trans[OF mem_at_data assms(1)], of True key_state0] assms(2)
  by (simp add: CtIsKeyUpdateRecommended_raw_def key_state0_def Bex_def ex_in_conv)

definition root_key :: key_entry where
  "root_key = \<lparr>ke_nr = 1, ke_ver = 2, ke_modulus = [7, 7], ke_exponent = [3], ke_cert = None\<rparr>"

definition keys_reader :: "bytes \<Rightarrow> reader" where
  "keys_reader keys = (reader0 ECA None)\<lparr>m_ReaderInfo := (m_ReaderInfo (reader0 ECA None))\<lparr>ri_Keys := keys\<rparr>\<rparr>"

lemma key_update_recommended_iff_witness:
  "ks_recommended (snd (CtIsKeyUpdateRecommended_raw (keys_reader [1, 1, 0, 0]) (enc_entry root_key)))
   \<and> \<not> ks_recommended (snd (CtIsKeyUpdateRecommended_raw (keys_reader [1, 2, 0, 0]) (enc_entry root_key)))"
proof -
  have "enc_entry root_key = concat (map enc_entry [root_key])" by simp
  moreover have "wf_file True (\<lambda>_. 0) [root_key]"
    by (simp add: root_key_def wf_entry_def enc_len)
  ultimately show ?thesis
    using key_update_recommended_iff[of "enc_entry root_key" "[root_key]"]
    by (simp add: keys_reader_def wants_newer_def empty_slot_def root_key_def)
qed

text \<open>
  A corrupt file in which no wanted key was seen before the defect is not reported:
  \<^verbatim>\<open>CtKeyUpdate\<close> looks at the result of the check only when the update is recommended, and
  answers success without sending anything.
\<close>

theorem CtKeyUpdate_corrupt_success:
  "fst (CtIsKeyUpdateRecommended r [0x00]) = CJ_ERR_DATA_CORRUPT \<and> CtKeyUpdate r [0x00] = (CJ_SUCCESS, Some 0, r)"
proof -
  have "CtIsKeyUpdateRecommended_raw r [0x00] = (CJ_ERR_DATA_CORRUPT, key_state0)"
    by (simp add: CtIsKeyUpdateRecommended_raw_def key_scan.simps head_ok_def)
  then show ?thesis by (simp add: CtIsKeyUpdateRecommended_def CtKeyUpdate_def key_state0_def)
qed

end
