(* ===== verification/CJ_Services.thy ===== *)
theory CJ_Services
  imports CJ_Keys
begin

text \<open>
  What the services of \<^verbatim>\<open>cjeca32/EC30Reader.cpp\<close> keep, proved once for all of them, and what the escape
  command and the loading of a module do.
\<close>

section \<open>Clients of the escape command\<close>

text \<open>
  Every service of this component reaches the reader through \<^verbatim>\<open>Escape\<close> and changes, apart from that,
  only the reader information, the module table, the application buffer and the ghost flag.  A
  preorder on readers that holds across these changes therefore holds across every service.
\<close>

locale escape_client =
  fixes R :: "reader \<Rightarrow> reader \<Rightarrow> bool"
  assumes R_refl: "R r r"
    and R_trans: "R r1 r2 \<Longrightarrow> R r2 r3 \<Longrightarrow> R r1 r3"
    and R_escape: "Escape r app f d arg = (Res, Result, out, n, r') \<Longrightarrow> R r r'"
    and R_info: "R r (r\<lparr>m_ReaderInfo := i\<rparr>)"
    and R_app: "R r (r\<lparr>m_pApplicationResponse := buf\<rparr>)"
    and R_flag: "R r (r\<lparr>g_overrun := g_overrun r \<or> c\<rparr>)"
    and R_modules: "length l \<le> 33 \<Longrightarrow> R r (r\<lparr>m_ModuleInfoCount := length l, m_pModuleInfo := Some l\<rparr>)"
    and R_no_modules: "R r (r\<lparr>m_ModuleInfoCount := 0\<rparr>)"
begin

lemma R_flag_True: "R r (r\<lparr>g_overrun := True\<rparr>)"
  using R_flag[of r True] by simp

lemma step_escape: "Escape r app f d arg = (Res, Result, out, n, r') \<Longrightarrow> R r0 r \<Longrightarrow> R r0 r'"
  by (blast intro: R_trans R_escape)

lemma step_info: "R r0 r \<Longrightarrow> R r0 (r\<lparr>m_ReaderInfo := i\<rparr>)"
  by (blast intro: R_trans R_info)

lemma step_app: "R r0 r \<Longrightarrow> R r0 (r\<lparr>m_pApplicationResponse := b\<rparr>)"
  by (blast intro: R_trans R_app)

lemma step_flag: "R r0 r \<Longrightarrow> R r0 (r\<lparr>g_overrun := g_overrun r \<or> c\<rparr>)"
  by (blast intro: R_trans R_flag)

lemma flash_mask: "SetFlashMask r = (Res, r') \<Longrightarrow> R r r'"
  by (auto simp: SetFlashMask_def R_refl split: if_splits prod.splits dest: R_escape)

lemma flash: "flash_command r f d = (Res, Result, r') \<Longrightarrow> R r r'"
  by (auto simp: flash_command_def split: if_splits prod.splits dest: flash_mask intro: step_escape)

lemma ec30_info: "ec30_BuildReaderInfo r = (Res, r') \<Longrightarrow> R r r'"
  by (auto simp: ec30_BuildReaderInfo_def GetReaderInfo_def GetKeyInfo_def Let_def
      intro!: step_info R_refl elim!: step_escape split: if_splits prod.splits option.splits)

lemma add_hw: "R r0 r \<Longrightarrow> R r0 (add_hardware m r)"
  by (simp add: add_hardware_def step_info)

lemma reader_info: "BuildReaderInfo r = (Res, r') \<Longrightarrow> R r r'"
  by (auto simp: BuildReaderInfo_def ecr_BuildReaderInfo_def ecp_BuildReaderInfo_def
      split: if_splits prod.splits dest: ec30_info intro: add_hw)

lemma module_ids: "GetModuleIDs r = (Res, IDs, r') \<Longrightarrow> R r r' \<and> length IDs \<le> 32"
  by (auto simp: GetModuleIDs_def Let_def split: if_splits prod.splits dest: R_escape)

lemma module_one: "GetModuleInfo r i = (Res, m, r') \<Longrightarrow> R r r'"
  by (auto simp: GetModuleInfo_def Let_def split: if_splits prod.splits dest: R_escape)

lemma modules_loop:
  "module_loop r IDs acc = (Res, infos, r') \<Longrightarrow> R r r' \<and> length infos = length acc + length IDs"
proof (induction r IDs acc rule: module_loop.induct)
  case (2 r i IDs acc)
  obtain R1 m r1 where m: "GetModuleInfo r i = (R1, m, r1)" by (metis prod_cases3)
  then show ?case
    using 2 module_one[OF m] by (auto split: if_splits intro: R_trans)
qed (simp add: R_refl)

lemma module_info: "BuildModuleInfo r = (Res, r') \<Longrightarrow> R r r'"
proof -
  assume b: "BuildModuleInfo r = (Res, r')"
  obtain R1 IDs r1 where i: "GetModuleIDs r = (R1, IDs, r1)" by (metis prod_cases3)
  obtain R2 infos r2 where l: "module_loop r1 (MODULE_ID_KERNEL # IDs) [] = (R2, infos, r2)"
    by (metis prod_cases3)
  note i' = module_ids[OF i] and l' = modules_loop[OF l]
  have "length infos \<le> 33" using i' l' by simp
  from R_modules[OF this, of r2] i' l' b i l show ?thesis
    by (auto simp: BuildModuleInfo_def split: if_splits intro: R_trans R_no_modules)
qed

lemma reader_info_snd: "R r0 r \<Longrightarrow> R r0 (snd (BuildReaderInfo r))"
  by (metis R_trans reader_info prod.collapse)

lemma module_info_snd: "R r0 r \<Longrightarrow> R r0 (snd (BuildModuleInfo r))"
  by (metis R_trans module_info prod.collapse)

lemma step_flash: "flash_command r f d = (Res, Result, r') \<Longrightarrow> R r0 r \<Longrightarrow> R r0 r'"
  by (blast intro: R_trans flash)

lemma step_flash_snd: "R r0 r \<Longrightarrow> R r0 (snd (snd (flash_command r f d)))"
  by (cases "flash_command r f d") (auto dest: flash intro: R_trans)

lemma module_cmd: "module_command r f d = (Res, Result, r') \<Longrightarrow> R r r'"
  by (auto simp: module_command_def split: if_splits prod.splits dest!: flash_mask R_escape
      intro: module_info_snd R_trans)

lemma load: "load_blocks r prev d = (Res, Result, r') \<Longrightarrow> R r r'"
proof (induction r prev d arbitrary: Res Result r' rule: load_blocks.induct)
  case (1 r prev d)
  obtain R1 x r1 where f: "flash_command r CCID_ESCAPE_UPDATE
      (le16_bytes (of_nat (length (take 256 d))) @ overlay 0 (take 256 d) prev) = (R1, x, r1)"
    by (metis prod_cases3)
  show ?case
  proof (cases "d = [] \<or> R1 \<noteq> CJ_SUCCESS")
    case True
    then show ?thesis using "1.prems" f flash[OF f]
      by (subst (asm) load_blocks.simps) (auto simp: Let_def R_refl split: if_splits)
  next
    case False
    then have "load_blocks r1 (overlay 0 (take 256 d) prev) (drop 256 d) = (Res, Result, r')"
      using "1.prems" f by (subst (asm) load_blocks.simps) (simp add: Let_def)
    then have "R r1 r'" using "1.IH"[OF _ refl refl f[symmetric]] False by blast
    then show ?thesis using flash[OF f] R_trans by blast
  qed
qed

lemma load_module: "CtLoadModule r d sig = (Res, Result, r') \<Longrightarrow> R r r'"
  by (auto simp: CtLoadModule_def Let_def R_refl split: if_splits prod.splits dest: flash
      intro!: reader_info_snd module_info_snd elim!: step_flash intro: step_flag R_trans load)

lemma set_date: "R r0 r \<Longrightarrow> R r0 (SetDate r t k)"
  by (simp add: SetDate_def step_flash_snd)

lemma set_serial: "R r0 r \<Longrightarrow> R r0 (SetSerialNumber r seed)"
  by (simp add: SetSerialNumber_def step_flash_snd)

lemma reader_constants: "SetReaderConstants r t seed = (b, r') \<Longrightarrow> R r r'"
proof -
  have "R r0 (if c then SetDate r1 t k else r1)" "R r0 (if c then SetSerialNumber r1 seed else r1)"
    if "R r0 r1" for r0 r1 c k
    using that by (simp_all add: set_date set_serial)
  moreover assume "SetReaderConstants r t seed = (b, r')"
  ultimately show ?thesis unfolding SetReaderConstants_def Let_def by (blast intro: R_refl)
qed

lemma post_create: "PostCreate r t seed = (Res, r') \<Longrightarrow> R r r'"
  by (auto simp: PostCreate_def base_PostCreate_def split: if_splits prod.splits
      dest!: reader_info module_info reader_constants intro: R_trans)

lemma app_data:
  "CtApplicationData r a f d rc ec = (Res, Result, x1, x2, x3, x4, r') \<Longrightarrow> R r r'"
proof -
  assume c: "CtApplicationData r a f d rc ec = (Res, Result, x1, x2, x3, x4, r')"
  let ?need = "low16 rc + low16 ec + 4"
  have b: "R r (app_buffer r ?need)" by (simp add: app_buffer_def R_app R_refl)
  obtain R1 v out n r1 where e: "Escape (app_buffer r ?need) a f d (Buffer (of_nat ?need)) = (R1, v, out, n, r1)"
    by (metis prod_cases5)
  have "R r (r1\<lparr>m_pApplicationResponse := overlay 0 out (m_pApplicationResponse r1)\<rparr>)" (is "R r ?r2")
    using step_app step_escape[OF e b] by blast
  then have "R r (?r2\<lparr>g_overrun := g_overrun ?r2 \<or> c\<rparr>)"
    "R r ((?r2\<lparr>g_overrun := g_overrun ?r2 \<or> c\<rparr>)\<lparr>g_overrun := (g_overrun ?r2 \<or> c) \<or> c'\<rparr>)" for c c'
    using step_flag[of r ?r2 "c \<or> c'"] step_flag[of r ?r2 c] by (simp_all add: disj_assoc)
  then show ?thesis
    using c e \<open>R r ?r2\<close> step_flag[OF \<open>R r ?r2\<close>, of True]
    by (auto simp: CtApplicationData_def app_answer_def app_fail_def app_too_small_def Let_def disj_assoc
        split: if_splits)
qed

lemma key_send_R: "key_send r u v = (Res, Result, r') \<Longrightarrow> R r r'"
  by (auto simp: key_send_def split: if_splits prod.splits dest!: flash intro: reader_info_snd R_trans)

lemma key_apply_R:
  "key_apply r mem KV q len root = Inl (Result, r') \<Longrightarrow> R r r'"
  "key_apply r mem KV q len root = Inr (Res, Result, r') \<Longrightarrow> R r r'"
  by (auto simp: key_apply_def Let_def R_refl split: if_splits prod.splits dest: key_send_R)

lemma key_loop_R: "key_loop r mem KV p len root Result0 = (Res, Result, r') \<Longrightarrow> R r r'"
proof (induction r mem KV p len root Result0 arbitrary: Res Result r' rule: key_loop.induct)
  case (1 r mem KV p len root Result0)
  show ?case
  proof (cases "len = 0")
    case True
    then show ?thesis using "1.prems" by (simp add: key_loop.simps R_refl)
  next
    case False
    show ?thesis
    proof (cases "key_apply r mem KV (p + 5) (len - 5) root")
      case (Inl x)
      obtain v r1 where x: "x = (v, r1)" by fastforce
      have "R r1 r'"
        using "1.prems" False Inl x
        by (subst (asm) key_loop.simps)
          (auto simp: Let_def intro: "1.IH"[OF False refl refl Inl x[symmetric]])
      then show ?thesis using key_apply_R(1)[of r mem KV "p + 5" "len - 5" root v r1] Inl x R_trans by blast
    next
      case (Inr y)
      obtain R1 v r1 where y: "y = (R1, v, r1)" by (metis prod_cases3)
      then show ?thesis
        using key_apply_R(2)[of r mem KV "p + 5" "len - 5" root R1 v r1] Inr "1.prems" False
        by (subst (asm) key_loop.simps) (auto simp: Let_def)
    qed
  qed
qed

lemma key_update: "CtKeyUpdate r d = (Res, Result, r') \<Longrightarrow> R r r'"
  by (auto simp: CtKeyUpdate_def R_refl split: if_splits prod.splits dest: key_loop_R)

end

section \<open>Sessions of services\<close>

text \<open>One call of a service the driver offers to its clients.\<close>

inductive service :: "reader \<Rightarrow> reader \<Rightarrow> bool" where
  service_create: "PostCreate r t seed = (Res, r') \<Longrightarrow> service r r'"
| service_application: "CtApplicationData r a f d rc ec = (Res, Result, x1, x2, x3, x4, r') \<Longrightarrow> service r r'"
| service_load: "CtLoadModule r d sig = (Res, Result, r') \<Longrightarrow> service r r'"
| service_delete_all: "CtDeleteALLModules r = (Res, Result, r') \<Longrightarrow> service r r'"
| service_delete: "CtDeleteModule r i = (Res, Result, r') \<Longrightarrow> service r r'"
| service_activate: "CtActivateModule r i = (Res, Result, r') \<Longrightarrow> service r r'"
| service_deactivate: "CtDeactivateModule r i = (Res, Result, r') \<Longrightarrow> service r r'"
| service_contrast: "CtSetContrast r c = (Res, Result, r') \<Longrightarrow> service r r'"
| service_set_silent: "CtSetSilentMode r b = (Res, m, Result, r') \<Longrightarrow> service r r'"
| service_get_silent: "CtGetSilentMode r = (Res, b, Result, r') \<Longrightarrow> service r r'"
| service_show_auth: "CtShowAuth r = (Result, r') \<Longrightarrow> service r r'"
| service_self_test: "CtSelfTest r t = (Res, r') \<Longrightarrow> service r r'"
| service_input: "cjInput r tm tag50 = (Res, key, r') \<Longrightarrow> service r r'"
| service_output: "cjOutput r tm tag50 = (Res, r') \<Longrightarrow> service r r'"
| service_set_store: "CtSetModulestoreInfo r d = (Res, r') \<Longrightarrow> service r r'"
| service_get_store: "CtGetModulestoreInfo r b n = (Res, d, m, r') \<Longrightarrow> service r r'"
| service_sm_mode: "SetSMModeAndCount r i c = (Res, r') \<Longrightarrow> service r r'"
| service_key_update: "CtKeyUpdate r d = (Res, Result, r') \<Longrightarrow> service r r'"

context escape_client
begin

lemma service_R: "service r r' \<Longrightarrow> R r r'"
proof (induction rule: service.induct)
  case (service_set_silent r b Res m Result r')
  then show ?case
    by (auto simp: CtSetSilentMode_def Let_def split: if_splits prod.splits dest: flash_mask elim!: step_escape)
next
  case (service_set_store r d Res r')
  have "R r (snd (SetFlashMask r))" by (metis flash_mask prod.collapse)
  with service_set_store show ?case
    by (auto simp: CtSetModulestoreInfo_def R_refl R_flag_True split: if_splits prod.splits option.splits
        elim!: step_escape)
next
  case (service_self_test r t Res r')
  then show ?case
    by (auto simp: CtSelfTest_def split: if_splits prod.splits dest: flash_mask elim!: step_escape)
qed (auto simp: CtDeleteALLModules_def CtDeleteModule_def CtActivateModule_def CtDeactivateModule_def
      CtSetContrast_def CtGetSilentMode_def CtShowAuth_def cjInput_def cjOutput_def CtGetModulestoreInfo_def
      SetSMModeAndCount_def Let_def R_refl R_flag_True split: if_splits prod.splits option.splits
      dest: post_create app_data load_module module_cmd flash key_update R_escape)

lemma session_R: "service\<^sup>*\<^sup>* r r' \<Longrightarrow> R r r'"
  by (induction rule: rtranclp_induct) (auto intro: R_refl R_trans service_R)

end

section \<open>What the services keep\<close>

text \<open>The count of the module table never exceeds the table, so that a search stays inside it.\<close>

definition modules_inv :: "reader \<Rightarrow> bool" where
  "modules_inv r \<longleftrightarrow> m_ModuleInfoCount r \<le> 33
     \<and> m_ModuleInfoCount r \<le> (case m_pModuleInfo r of None \<Rightarrow> 0 | Some l \<Rightarrow> length l)"

definition sound :: "reader \<Rightarrow> reader \<Rightarrow> bool" where
  "sound r r' \<longleftrightarrow> (card_inv r \<longrightarrow> card_inv r' \<and> m_class r' = m_class r \<and> m_ATR r' = m_ATR r
     \<and> (g_overrun r \<longrightarrow> g_overrun r') \<and> (modules_inv r \<longrightarrow> modules_inv r'))"

lemma sound_trans: "sound r1 r2 \<Longrightarrow> sound r2 r3 \<Longrightarrow> sound r1 r3"
  by (simp add: sound_def)

lemma sound_frame:
  "sound r (r\<lparr>m_ReaderInfo := i\<rparr>)" "sound r (r\<lparr>m_pApplicationResponse := buf\<rparr>)"
  "sound r (r\<lparr>g_overrun := g_overrun r \<or> c\<rparr>)" "sound r (r\<lparr>m_ModuleInfoCount := 0\<rparr>)"
  "sound r (r\<lparr>m_pCommunicator := None\<rparr>)" "sound r r"
  by (simp_all add: sound_def modules_inv_def card_inv_def reader_inv_def)

lemma sound_modules:
  "length l \<le> 33 \<Longrightarrow> sound r (r\<lparr>m_ModuleInfoCount := length l, m_pModuleInfo := Some l\<rparr>)"
  by (simp add: sound_def modules_inv_def card_inv_def reader_inv_def)

lemma Transfer_modules:
  "Transfer r m = (Res, Rsp, r') \<Longrightarrow> m_ModuleInfoCount r' = m_ModuleInfoCount r \<and> m_pModuleInfo r' = m_pModuleInfo r"
  by (auto simp: Transfer_def reader_Write_def ConnectionError_def transfer_status_def Let_def
      split: option.splits prod.splits if_splits)

lemma Transfer_keeps: "Transfer r m = (Res, Rsp, r') \<Longrightarrow> sound r r'"
  using Transfer_modules[of r m Res Rsp r'] Transfer_frame[OF card_inv_reader, of r m Res Rsp r']
    Transfer_card[of r m Res Rsp r']
  by (simp add: sound_def modules_inv_def)

lemma escape_response_keeps: "escape_response r Rsp arg = (Res, Result, out, n, r') \<Longrightarrow> sound r r'"
  by (cases arg) (auto simp: escape_response_def Let_def sound_frame split: if_splits)

lemma Escape_keeps: "Escape r app f d arg = (Res, Result, out, n, r') \<Longrightarrow> sound r r'"
  by (auto simp: Escape_def sound_frame split: if_splits prod.splits
      dest!: Transfer_keeps escape_response_keeps intro: sound_trans sound_frame)

interpretation keep: escape_client sound
  by (rule escape_client.intro)
    (blast intro: sound_trans sound_frame sound_modules Escape_keeps)+

text \<open>The settings of the client: no service touches them.\<close>

definition same_settings :: "reader \<Rightarrow> reader \<Rightarrow> bool" where
  "same_settings r r' \<longleftrightarrow> m_ApduNorm r' = m_ApduNorm r \<and> m_KeyIntCallback r' = m_KeyIntCallback r
     \<and> m_ChangeIntCallback r' = m_ChangeIntCallback r \<and> environment r' = environment r
     \<and> g_events r' = g_events r"

lemma Transfer_settings: "Transfer r m = (Res, Rsp, r') \<Longrightarrow> same_settings r r'"
  by (auto simp: Transfer_def reader_Write_def ConnectionError_def transfer_status_def Let_def same_settings_def
      split: option.splits prod.splits if_splits)

lemma Escape_settings: "Escape r app f d arg = (Res, Result, out, n, r') \<Longrightarrow> same_settings r r'"
  by (auto simp: Escape_def escape_response_def Let_def split: if_splits prod.splits resp_arg.splits
      dest!: Transfer_settings) (auto simp: same_settings_def)

interpretation settings: escape_client same_settings
proof
  show "Escape r app f d arg = (Res, Result, out, n, r') \<Longrightarrow> same_settings r r'" for r app f d arg Res Result out n r'
    by (rule Escape_settings)
qed (simp_all add: same_settings_def)

text \<open>
  Property C24.  Any sequence of services, whatever the device answers, keeps the invariant of the
  reader object, the class and the stored ATR, keeps the module table consistent with its count and
  leaves the settings of the client alone.
\<close>

theorem services_sound:
  assumes "service\<^sup>*\<^sup>* r r'" and "card_inv r" and "modules_inv r"
  shows "card_inv r' \<and> modules_inv r' \<and> m_class r' = m_class r \<and> m_ATR r' = m_ATR r
     \<and> m_ApduNorm r' = m_ApduNorm r \<and> m_KeyIntCallback r' = m_KeyIntCallback r
     \<and> m_ChangeIntCallback r' = m_ChangeIntCallback r \<and> environment r' = environment r"
  using keep.session_R[OF assms(1)] settings.session_R[OF assms(1)] assms(2,3)
  by (simp add: sound_def same_settings_def)

lemma services_sound_witness:
  "case CtDeleteALLModules (reader0 ECA (Some (USB (usb0 [])))) of (Res, Result, r') \<Rightarrow>
     card_inv r' \<and> modules_inv r' \<and> m_class r' = ECA"
proof -
  let ?r = "reader0 ECA (Some (USB (usb0 [])))"
  obtain Res Result r' where c: "CtDeleteALLModules ?r = (Res, Result, r')" by (metis prod_cases3)
  have "modules_inv ?r" by (simp add: modules_inv_def reader0_def)
  from services_sound[OF r_into_rtranclp[of service, OF service_delete_all[OF c]] reader0_card(1) this]
  show ?thesis unfolding c prod.case by (simp add: reader0_def)
qed

section \<open>The escape command\<close>

definition escape_ok :: "byte \<Rightarrow> bytes" where
  "escape_ok seq = [RDR_TO_PC_ESCAPE, 4, 0, 0, 0, 0, seq, 0, 0, 0, 0, 0, 0, 0]"

definition escape_frame :: "byte \<Rightarrow> u32 \<Rightarrow> u16 \<Rightarrow> bytes \<Rightarrow> bytes" where
  "escape_frame seq app f d =
     PC_TO_RDR_ESCAPE # le32_bytes (of_nat (6 + length d)) @ [0, seq, 0, 0, 0] @ le32_bytes app @ le16_bytes f @ d"

lemma escape_message_size:
  assumes "length d \<le> 1008"
  shows "unat (10 + dwLength (escape_message app f d)) = 16 + length d"
    "unat (10 + dwLength (escape_message app f d)) \<le> GetReadersInputBufferSize r"
proof -
  show dw: "unat (10 + dwLength (escape_message app f d)) = 16 + length d"
    using assms by (simp add: escape_message_def unat_word_ariths unat_of_nat take_bit_nat_eq_self)
  show "unat (10 + dwLength (escape_message app f d)) \<le> GetReadersInputBufferSize r"
    using assms unfolding dw by (simp add: GetReadersInputBufferSize_def split: option.splits)
qed

lemma escape_frame_sent:
  "length d \<le> 1008 \<Longrightarrow> take (unat (10 + dwLength (escape_message app f d))) (message_bytes seq (escape_message app f d))
     = escape_frame seq app f d"
  using message_bytes_prefix[of "6 + length d" "escape_message app f d" seq]
  by (simp only: escape_message_size) (simp add: escape_message_def escape_frame_def)

lemma escape_transfer_usb:
  assumes "m_pCommunicator r = Some (USB u)" and "u_devHandle u" and "u_out u = []" and "card_inv r"
    and "length d \<le> 1008" and "u_in u = Some good # rest" and "answers (m_SequenceNo r) good"
  shows "\<exists>R r'. Transfer r (escape_message app f d) = (CJ_SUCCESS, R, r') \<and> take (length good) R = good
     \<and> m_SequenceNo r' = m_SequenceNo r + 1
     \<and> m_pCommunicator r' = Some (USB (u\<lparr>u_in := rest,
          u_sent := u_sent u @ [escape_frame (m_SequenceNo r) app f d]\<rparr>))"
proof -
  have st: "length (g_stack r) = 2048" using assms(4) by (simp add: card_inv_def reader_inv_def)
  have i: "u_in u = map Some [] @ Some good # rest" using assms(6) by simp
  show ?thesis
    using Transfer_usb_run[OF assms(1-3) st escape_message_size(2)[OF assms(5)] i _ assms(7)]
    by (simp add: escape_frame_sent[OF assms(5)])
qed

lemma take_nth_eq: "take (length good) R = good \<Longrightarrow> i < length good \<Longrightarrow> R ! i = good ! i"
  by (metis nth_take)

text \<open>The response of a device: the result code and the data \<open>p\<close>.\<close>

definition escape_reply :: "byte \<Rightarrow> u32 \<Rightarrow> bytes \<Rightarrow> bytes" where
  "escape_reply seq res p =
     RDR_TO_PC_ESCAPE # le32_bytes (of_nat (4 + length p)) @ [0, seq, 0, 0, 0] @ le32_bytes res @ p"

lemma escape_reply_fields:
  assumes "length R = 2048" and "take (length (escape_reply seq res p)) R = escape_reply seq res p"
    and "length p \<le> 2034"
  shows "rsp_bMessageType R = RDR_TO_PC_ESCAPE" "unat (rsp_dwLength R) = 4 + length p"
    "rsp_escResult R = res" "take (length p) (rsp_escData R) = p"
proof -
  have l: "length (escape_reply seq res p) = 14 + length p" by (simp add: escape_reply_def le32_bytes_def)
  have n: "R ! i = escape_reply seq res p ! i" if "i < 14" for i
    using take_nth_eq[OF assms(2)] that l by simp
  show "rsp_bMessageType R = RDR_TO_PC_ESCAPE" using n[of 0] by (simp add: rsp_defs escape_reply_def)
  have "rsp_dwLength R = of_nat (4 + length p)"
    using n[of 1] n[of 2] n[of 3] n[of 4]
    by (simp add: rsp_defs escape_reply_def le32_bytes_def le32_round)
  then show "unat (rsp_dwLength R) = 4 + length p"
    using assms(3) by (simp add: unat_of_nat take_bit_nat_eq_self del: of_nat_add)
  show "rsp_escResult R = res"
    using n[of 10] n[of 11] n[of 12] n[of 13]
    by (simp add: rsp_defs escape_reply_def le32_bytes_def le32_round)
  have "drop 14 (take (14 + length p) R) = p"
    using assms(2) unfolding l by (simp add: escape_reply_def le32_bytes_def)
  then show "take (length p) (rsp_escData R) = p" by (simp add: rsp_escData_def drop_take)
qed

text \<open>
  Property C27.  \<^verbatim>\<open>Escape\<close> with a response buffer, over USB: the device receives exactly the command
  frame, and with a result code and up to 2034 bytes of data in its answer the caller gets those data
  and their length when they fit its buffer and the result is 0; a nonzero result is handed over with
  the length cleared; data that do not fit are not copied at all and cost the connection.  No copy
  leaves a buffer.  (Commands with more than 1008 bytes of data are refused before anything is sent.)
\<close>

theorem Escape_exchange:
  assumes "m_pCommunicator r = Some (USB u)" and "u_devHandle u" and "u_out u = []" and "card_inv r"
    and "length d \<le> 1008" and "u_in u = Some (escape_reply (m_SequenceNo r) res p) # rest"
    and "length p \<le> 2034" and "unat cap + 4 < 2 ^ 32"
  shows "\<exists>r'. Escape r app f d (Buffer cap) =
       (if unat cap < length p then (CJ_ERR_RBUFFER_TO_SMALL, Some res, [], 0, r')
        else if res \<noteq> 0 then (CJ_ERR_CHECK_RESULT, Some res, p, 0, r')
        else (CJ_SUCCESS, Some 0, p, of_nat (length p), r'))
     \<and> g_overrun r' = g_overrun r \<and> card_inv r' \<and> m_SequenceNo r' = m_SequenceNo r + 1
     \<and> m_pCommunicator r' = (if unat cap < length p then None
         else Some (USB (u\<lparr>u_in := rest, u_sent := u_sent u @ [escape_frame (m_SequenceNo r) app f d]\<rparr>)))"
proof -
  let ?good = "escape_reply (m_SequenceNo r) res p"
  have an: "answers (m_SequenceNo r) ?good"
    using assms(7) by (simp add: answers_def escape_reply_def le32_bytes_def)
  obtain R r1 where t: "Transfer r (escape_message app f d) = (CJ_SUCCESS, R, r1)" "take (length ?good) R = ?good"
    "m_SequenceNo r1 = m_SequenceNo r + 1"
    "m_pCommunicator r1 = Some (USB (u\<lparr>u_in := rest,
          u_sent := u_sent u @ [escape_frame (m_SequenceNo r) app f d]\<rparr>))"
    using escape_transfer_usb[OF assms(1-6) an] by blast
  note tc = Transfer_card[OF assms(4) t(1)]
  have ov: "g_overrun r1 = g_overrun r" using Transfer_frame(4)[OF card_inv_reader[OF assms(4)] t(1)] .
  note rs = escape_reply_fields[OF tc(3) t(2) assms(7)]
  have c4: "unat (cap + 4) = unat cap + 4" using assms(8) by (simp add: unat_word_ariths)
  have big: "rsp_dwLength R > cap + 4 \<longleftrightarrow> unat cap < length p"
    using rs(2) c4 by (simp add: word_less_nat_alt)
  have n: "rsp_dwLength R - 4 = of_nat (length p)" "unat (rsp_dwLength R - 4) = length p"
  proof -
    have "rsp_dwLength R = of_nat (unat (rsp_dwLength R))" by simp
    then have "rsp_dwLength R = of_nat (4 + length p)" unfolding rs(2) .
    then show "rsp_dwLength R - 4 = of_nat (length p)" by simp
    then show "unat (rsp_dwLength R - 4) = length p"
      using assms(7) by (simp add: unat_of_nat take_bit_nat_eq_self)
  qed
  have fits: "\<not> of_nat (length p) > cap" "\<not> unat (of_nat (length p) :: u32) > 2034" if "\<not> unat cap < length p"
    using that n assms(7) by (simp_all add: word_less_nat_alt flip: n(1))
  show ?thesis
  proof (cases "unat cap < length p")
    case True
    then have "Escape r app f d (Buffer cap) = (CJ_ERR_RBUFFER_TO_SMALL, Some res, [], 0, r1\<lparr>m_pCommunicator := None\<rparr>)"
      using assms(5) t(1) rs big by (simp add: Escape_def escape_response_def Let_def)
    moreover have "card_inv (r1\<lparr>m_pCommunicator := None\<rparr>)"
      using tc(1) by (simp add: card_inv_def reader_inv_def)
    ultimately show ?thesis using True t(3) ov by (intro exI[of _ "r1\<lparr>m_pCommunicator := None\<rparr>"]) simp
  next
    case False
    then have "Escape r app f d (Buffer cap) =
        (if res \<noteq> 0 then (CJ_ERR_CHECK_RESULT, Some res, p, 0, r1)
         else (CJ_SUCCESS, Some 0, p, of_nat (length p), r1))"
      using assms(5) t(1) rs big n fits[OF False]
      by (simp add: Escape_def escape_response_def Let_def)
    then show ?thesis using False t(3,4) ov tc(1) by (intro exI[of _ r1]) simp
  qed
qed

lemma Escape_exchange_witness:
  "\<exists>r'. Escape (reader0 ECA (Some (USB (usb0 [Some (escape_reply 0 0 [7, 8, 9])])))) 1 2 [5] (Buffer 2)
       = (CJ_ERR_RBUFFER_TO_SMALL, Some 0, [], 0, r') \<and> m_pCommunicator r' = None"
  using Escape_exchange[of "reader0 ECA (Some (USB (usb0 [Some (escape_reply 0 0 [7, 8, 9])])))"
      "usb0 [Some (escape_reply 0 0 [7, 8, 9])]" "[5]" 0 "[7, 8, 9]" "[]" 2 1 2] reader0_card(1)[of ECA]
  by (auto simp: reader0_def usb0_def)

text \<open>
  A response that claims fewer than the four bytes of the result code is not rejected:
  the length of the data wraps around in 32 bit arithmetic, and the copy leaves every buffer, which
  the ghost flag records.
\<close>

theorem Escape_short_answer:
  assumes "m_pCommunicator r = Some (USB u)" and "u_devHandle u" and "u_out u = []" and "card_inv r"
    and "length d \<le> 1008" and "u_in u = Some good # rest" and "answers (m_SequenceNo r) good"
    and "good ! 0 = RDR_TO_PC_ESCAPE" and "le32_val (good ! 1) (good ! 2) (good ! 3) (good ! 4) < 4"
    and "unat cap \<le> 65536" and "Escape r app f d (Buffer cap) = (Res, Result, out, n, r')"
  shows "g_overrun r'"
proof -
  obtain R r1 where t: "Transfer r (escape_message app f d) = (CJ_SUCCESS, R, r1)" "take (length good) R = good"
    using escape_transfer_usb[OF assms(1-7)] by blast
  have "R ! i = good ! i" if "i < 7" for i
    using that assms(7) take_nth_eq[OF t(2), of i] by (simp add: answers_def)
  then have rs: "rsp_bMessageType R = RDR_TO_PC_ESCAPE" "rsp_dwLength R < 4"
    using assms(8,9) by (simp_all add: rsp_defs)
  have dw: "unat (rsp_dwLength R) < 4" using rs(2) by (simp add: word_less_nat_alt)
  have "unat (cap + 4) = unat cap + 4" using assms(10) by (simp add: unat_word_ariths)
  then have 1: "\<not> rsp_dwLength R > cap + 4" using dw by (simp add: word_less_nat_alt)
  have 2: "unat (rsp_dwLength R - 4) > 2034" using dw by (simp add: unat_sub_if_size word_size)
  show ?thesis
    using assms(5,11) t(1) rs(1) 1 2
    by (auto simp: Escape_def escape_response_def Let_def split: if_splits)
qed

lemma Escape_short_answer_witness:
  "g_overrun (snd (snd (snd (snd (Escape (reader0 ECA (Some (USB (usb0
     [Some [RDR_TO_PC_ESCAPE, 0, 0, 0, 0, 0, 0, 0, 0, 0]])))) MODULE_ID_KERNEL CCID_ESCAPE_GET_INFO [] (Buffer 100))))))"
proof -
  let ?good = "[RDR_TO_PC_ESCAPE, 0, 0, 0, 0, 0, 0, 0, 0, 0] :: bytes"
  let ?r = "reader0 ECA (Some (USB (usb0 [Some ?good])))"
  obtain Res Result out n r' where
    e: "Escape ?r MODULE_ID_KERNEL CCID_ESCAPE_GET_INFO [] (Buffer 100) = (Res, Result, out, n, r')"
    by (metis prod_cases5)
  have "g_overrun r'"
    by (rule Escape_short_answer[OF _ _ _ reader0_card(1) _ _ _ _ _ _ e, where u = "usb0 [Some ?good]" and good = ?good and rest = "[]"])
      (simp_all add: reader0_def usb0_def answers_def le32_val_def)
  then show ?thesis by (simp add: e)
qed

section \<open>Loading a module\<close>

lemma Escape_ok_usb:
  assumes "m_pCommunicator r = Some (USB u)" and "u_devHandle u" and "u_out u = []" and "card_inv r"
    and "length d \<le> 1008" and "u_in u = Some (escape_ok (m_SequenceNo r)) # rest"
  shows "\<exists>r'. Escape r app f d NoResponse = (CJ_SUCCESS, Some 0, [], 0, r') \<and> card_inv r'
     \<and> m_class r' = m_class r \<and> m_SequenceNo r' = m_SequenceNo r + 1
     \<and> m_pCommunicator r' = Some (USB (u\<lparr>u_in := rest,
          u_sent := u_sent u @ [escape_frame (m_SequenceNo r) app f d]\<rparr>))"
proof -
  let ?good = "escape_ok (m_SequenceNo r)"
  have an: "answers (m_SequenceNo r) ?good" and l: "length ?good = 14"
    by (simp_all add: answers_def escape_ok_def)
  obtain R r' where t: "Transfer r (escape_message app f d) = (CJ_SUCCESS, R, r')" "take (length ?good) R = ?good"
    "m_SequenceNo r' = m_SequenceNo r + 1"
    "m_pCommunicator r' = Some (USB (u\<lparr>u_in := rest,
          u_sent := u_sent u @ [escape_frame (m_SequenceNo r) app f d]\<rparr>))"
    using escape_transfer_usb[OF assms an] by blast
  have rs: "rsp_bMessageType R = RDR_TO_PC_ESCAPE" "rsp_dwLength R = 4" "rsp_escResult R = 0"
    using take_nth_eq[OF t(2)] l by (simp_all add: rsp_defs) (simp_all add: escape_ok_def le32_val_def)
  have "Escape r app f d NoResponse = (CJ_SUCCESS, Some 0, [], 0, r')"
    using assms(5) t(1) rs by (simp add: Escape_def escape_response_def)
  then show ?thesis using t Transfer_card[OF assms(4) t(1)] by auto
qed

text \<open>
  What the device finds in an update frame: the data length at offset 16, the data behind it.
\<close>

definition block_data :: "bytes \<Rightarrow> bytes" where
  "block_data fr = take (unat (le16_val (fr ! 16) (fr ! 17))) (drop 18 fr)"

definition blocks :: "nat \<Rightarrow> nat" where
  "blocks n = (n + 255) div 256"

lemma block_data_frame:
  assumes "length chunk \<le> 256"
  shows "block_data (escape_frame seq app f (le16_bytes (of_nat (length chunk)) @ overlay 0 chunk prev)) = chunk"
proof -
  have l: "length [0, seq, 0, 0, 0] = 5" by simp
  have "unat (of_nat (length chunk) :: u16) = length chunk" using assms by (intro unat_of_nat_u16) simp
  then show ?thesis
    by (simp add: block_data_def escape_frame_def le32_bytes_def le16_bytes_def le16_round overlay_def)
qed

lemma blocks_step: "0 < n \<Longrightarrow> blocks n = Suc (blocks (n - 256))"
proof (cases "n \<le> 256")
  case False
  then have "n + 255 = (n - 256 + 255) + 256" by simp
  then show ?thesis unfolding blocks_def by (metis add_diff_cancel_right' div_add_self2 plus_1_eq_Suc
      add.commute zero_neq_numeral)
next
  case True
  assume "0 < n"
  with True have "256 \<le> n + 255" "n + 255 < 512" by simp_all
  then have "(n + 255) div 256 = 1" by simp
  then show ?thesis using True by (simp add: blocks_def)
qed

lemma upt_answers:
  "map (\<lambda>i. g (s + of_nat i)) [0..<Suc k] = g s # map (\<lambda>i. g (s + 1 + of_nat i)) [0..<k]" for s :: byte
  by (simp add: upt_conv_Cons map_Suc_upt[symmetric] add.assoc del: upt_Suc)

text \<open>
  Property C28.  Round trip of a module upload: over a line on which every command is acknowledged, the
  loop of \<^verbatim>\<open>CtLoadModule\<close> succeeds, sends one frame for each started 256 bytes, and the data fields of the
  frames, read back the way the device reads them, are the module.
\<close>

theorem load_blocks_roundtrip:
  assumes "m_pCommunicator r = Some (USB u)" and "u_devHandle u" and "u_out u = []" and "card_inv r"
    and "m_class r \<notin> {ECF, EFB}" and "length prev = 256"
    and "u_in u = map (\<lambda>i. Some (escape_ok (m_SequenceNo r + of_nat i))) [0..<blocks (length pData)] @ rest"
  shows "\<exists>Result r' frames. load_blocks r prev pData = (CJ_SUCCESS, Result, r')
     \<and> m_pCommunicator r' = Some (USB (u\<lparr>u_in := rest, u_sent := u_sent u @ frames\<rparr>))
     \<and> concat (map block_data frames) = pData \<and> length frames = blocks (length pData)"
  using assms
proof (induction "length pData" arbitrary: r u prev pData rule: less_induct)
  case less
  show ?case
  proof (cases "pData = []")
    case True
    then show ?thesis using less.prems by (simp add: load_blocks.simps blocks_def)
  next
    case False
    let ?chunk = "take 256 pData" and ?blk = "overlay 0 (take 256 pData) prev"
    let ?d = "le16_bytes (of_nat (length ?chunk)) @ ?blk"
    have k: "blocks (length pData) = Suc (blocks (length (drop 256 pData)))"
      using False blocks_step[of "length pData"] by simp
    have blk: "length ?blk = 256" using less.prems(6) by (simp add: length_overlay)
    have d: "length ?d \<le> 1008" using blk by simp
    have "u_in u = Some (escape_ok (m_SequenceNo r))
        # map (\<lambda>i. Some (escape_ok (m_SequenceNo r + 1 + of_nat i))) [0..<blocks (length (drop 256 pData))] @ rest"
      using less.prems(7) unfolding k upt_answers[where g = "\<lambda>x. Some (escape_ok x)"] append_Cons .
    from Escape_ok_usb[OF less.prems(1-4) d this, of MODULE_ID_KERNEL CCID_ESCAPE_UPDATE]
    obtain r1 where e: "Escape r MODULE_ID_KERNEL CCID_ESCAPE_UPDATE ?d NoResponse = (CJ_SUCCESS, Some 0, [], 0, r1)"
      "card_inv r1" "m_class r1 = m_class r" "m_SequenceNo r1 = m_SequenceNo r + 1"
      "m_pCommunicator r1 = Some (USB (u\<lparr>u_in := map (\<lambda>i. Some (escape_ok (m_SequenceNo r + 1 + of_nat i)))
            [0..<blocks (length (drop 256 pData))] @ rest,
          u_sent := u_sent u @ [escape_frame (m_SequenceNo r) MODULE_ID_KERNEL CCID_ESCAPE_UPDATE ?d]\<rparr>))"
      (is "_ = Some (USB ?u1)")
      by blast
    have fl: "flash_command r CCID_ESCAPE_UPDATE ?d = (CJ_SUCCESS, Some 0, r1)"
      using e(1) less.prems(5) by (simp add: flash_command_def SetFlashMask_def)
    have "length (drop 256 pData) < length pData" using False by simp
    from less.hyps[OF this e(5) _ _ e(2) _ blk] obtain Result r' frames where
      ih: "load_blocks r1 ?blk (drop 256 pData) = (CJ_SUCCESS, Result, r')"
        "m_pCommunicator r' = Some (USB (?u1\<lparr>u_in := rest, u_sent := u_sent ?u1 @ frames\<rparr>))"
        "concat (map block_data frames) = drop 256 pData" "length frames = blocks (length (drop 256 pData))"
      using less.prems(2,3,5) e(3,4) by auto
    have "load_blocks r prev pData = (CJ_SUCCESS, Result, r')"
      using False fl ih(1) by (subst load_blocks.simps) (simp add: Let_def)
    then show ?thesis
      using ih(2-4) k block_data_frame[of ?chunk]
      by (intro exI[of _ Result] exI[of _ r'] exI[of _ "escape_frame (m_SequenceNo r) MODULE_ID_KERNEL CCID_ESCAPE_UPDATE ?d # frames"])
        simp
  qed
qed

lemma load_blocks_roundtrip_witness:
  "\<exists>Result r' frames. load_blocks (reader0 ECA (Some (USB (usb0 [Some (escape_ok 0)])))) (replicate 256 0) [1, 2, 3]
       = (CJ_SUCCESS, Result, r') \<and> concat (map block_data frames) = [1, 2, 3] \<and> length frames = 1"
proof -
  have "u_in (usb0 [Some (escape_ok 0)])
      = map (\<lambda>i. Some (escape_ok (m_SequenceNo (reader0 ECA (Some (USB (usb0 [Some (escape_ok 0)])))) + of_nat i)))
          [0..<blocks (length [1 :: byte, 2, 3])] @ []"
    by (simp add: usb0_def reader0_def blocks_def)
  from load_blocks_roundtrip[OF _ _ _ reader0_card(1) _ _ this, of "replicate 256 0"] show ?thesis
    by (auto simp: reader0_def usb0_def blocks_def)
qed
end
