(* ===== verification/CJ_Secure.thy ===== *)
theory CJ_Secure
  imports CJ_Services
begin

text \<open>
  PIN entry at the reader: the secure CCID command of \<^verbatim>\<open>cjeca32/CCIDReader.cpp\<close> and its variant with
  display texts of \<^verbatim>\<open>cjeca32/EC30Reader.cpp\<close>, the direct PC/SC functions of \<^verbatim>\<open>IfdVendor\<close>, PACE of
  \<^verbatim>\<open>cjeca32/ECRReader.cpp\<close> and the calls of the light terminal module.
\<close>

section \<open>Results of a PIN entry\<close>

abbreviation (input) "XFR_PARITY_ERROR \<equiv> (0xfd :: byte)"
abbreviation (input) "DEACTIVATED_PROTOCOL \<equiv> (0xf3 :: byte)"
abbreviation (input) "PIN_TIMEOUT \<equiv> (0xf0 :: byte)"
abbreviation (input) "PIN_CANCELED \<equiv> (0xef :: byte)"
abbreviation (input) "PIN_DIFFERENT \<equiv> (0xee :: byte)"
abbreviation (input) "EXT_ERROR \<equiv> (0xc0 :: byte)"
abbreviation (input) "MODULE_READY \<equiv> (0xa55a55aa :: u32)"
abbreviation (input) "MODULE_ID_KT_LIGHT \<equiv> (0x02000003 :: u32)"
abbreviation (input) "MODULE_ID_KT_LIGHT_GC \<equiv> (0x02000103 :: u32)"

text \<open>The result, the bytes copied to the caller's buffer \<^verbatim>\<open>in\<close>, the new \<^verbatim>\<open>*in_len\<close>, the reader.\<close>

type_synonym secure_result = "cj_result \<times> bytes \<times> int \<times> reader"

text \<open>
  The copy of the response: the length is compared as a signed number, so that one with the top bit
  set passes the test; the ghost flag records a copy that leaves the caller's or the response buffer.
\<close>

definition secure_copy :: "cj_result \<Rightarrow> bytes \<Rightarrow> u32 \<Rightarrow> int \<Rightarrow> reader \<Rightarrow> secure_result" where
  "secure_copy code d dw in_len r =
     (if in_len < sint dw then (CJ_ERR_RBUFFER_TO_SMALL, [], in_len, r)
      else (code, take (unat dw) d, sint dw,
            r\<lparr>g_overrun := g_overrun r \<or> in_len < int (unat dw) \<or> length d < unat dw\<rparr>))"

text \<open>
  The error codes shared by the three result functions; \<open>deact\<close> is what a deactivated card gives, \<open>None\<close>
  where the code falls through to the copy.
\<close>

definition secure_error ::
  "byte \<Rightarrow> nat \<Rightarrow> cj_result option \<Rightarrow> bytes \<Rightarrow> u32 \<Rightarrow> int \<Rightarrow> reader \<Rightarrow> secure_result" where
  "secure_error e offs deact d dw in_len r =
     (let fail = (\<lambda>c. (c, [], in_len, r)) in
      if e = XFR_PARITY_ERROR then fail CJ_ERR_PARITY
      else if e = ICC_MUTE then fail CJ_ERR_TIMEOUT
      else if e = PIN_TIMEOUT then fail CJ_ERR_PIN_TIMEOUT
      else if e = PIN_CANCELED then fail CJ_ERR_PIN_CANCELED
      else if e = PIN_DIFFERENT then fail CJ_ERR_PIN_DIFFERENT
      else if e = EXT_ERROR then secure_copy CJ_ERR_PIN_EXTENDED d dw in_len r
      else if e = 5 then fail CJ_ERR_WRONG_PARAMETER
      else if unat e = 21 + offs then fail CJ_ERR_WRONG_PARAMETER
      else if unat e = 26 + offs then fail CJ_ERR_CONDITION_OF_USE
      else if e = DEACTIVATED_PROTOCOL
      then (case deact of Some c \<Rightarrow> fail c | None \<Rightarrow> secure_copy CJ_SUCCESS d dw in_len r)
      else fail CJ_ERR_LEN)"

definition status_icc :: "byte \<Rightarrow> cj_result option" where
  "status_icc st = (if st AND 2 \<noteq> 0 then Some CJ_ERR_NO_ICC
                    else if st AND 1 \<noteq> 0 then Some CJ_ERR_NO_ACTIVE_ICC else None)"

definition ccid_ExecuteSecureResult :: "reader \<Rightarrow> ccid_response \<Rightarrow> int \<Rightarrow> nat \<Rightarrow> secure_result" where
  "ccid_ExecuteSecureResult r Response in_len offs =
     (let st = rsp_bStatus Response in
      case status_icc st of
        Some c \<Rightarrow> (c, [], in_len, r)
      | None \<Rightarrow>
          if st AND 0x40 \<noteq> 0
          then secure_error (rsp_bError Response) offs (status_icc st) (rsp_data Response) (rsp_dwLength Response)
                 in_len r
          else secure_copy CJ_SUCCESS (rsp_data Response) (rsp_dwLength Response) in_len r)"

text \<open>\<^verbatim>\<open>Version<0x30 || Version==0x30 && Revision<=40\<close>\<close>

definition old_kernel :: "module_info \<Rightarrow> bool" where
  "old_kernel Info \<longleftrightarrow> mi_Version Info < 0x30 \<or> mi_Version Info = 0x30 \<and> mi_Revision Info \<le> 40"

definition ExecuteSecureResult :: "reader \<Rightarrow> ccid_response \<Rightarrow> int \<Rightarrow> nat \<Rightarrow> secure_result" where
  "ExecuteSecureResult r Response in_len offs = (case FindModule r MODULE_ID_KERNEL of
      None \<Rightarrow> (CJ_ERR_LEN, [], in_len, r)
    | Some Info \<Rightarrow>
        if old_kernel Info then ccid_ExecuteSecureResult r Response in_len offs
        else if rsp_bStatus Response AND 0x40 \<noteq> 0
        then secure_error (rsp_bError Response) offs (status_icc (rsp_bStatus Response)) (rsp_data Response)
               (rsp_dwLength Response) in_len r
        else secure_copy CJ_SUCCESS (rsp_data Response) (rsp_dwLength Response) in_len r)"

text \<open>The same for the application command: the card state is that of the reader object.\<close>

definition state_icc :: "reader \<Rightarrow> cj_result option" where
  "state_icc r = (if m_ReaderState r = SCARD_ABSENT then Some CJ_ERR_NO_ICC
                  else if m_ReaderState r \<noteq> SCARD_SPECIFIC then Some CJ_ERR_NO_ACTIVE_ICC else None)"

definition ExecuteApplSecureResult ::
  "reader \<Rightarrow> byte \<Rightarrow> u32 \<Rightarrow> bytes \<Rightarrow> u32 \<Rightarrow> int \<Rightarrow> nat \<Rightarrow> secure_result" where
  "ExecuteApplSecureResult r Error ErrorLength RespData RespDataLen in_len offs =
     (case FindModule r MODULE_ID_KERNEL of
        None \<Rightarrow> (CJ_ERR_LEN, [], in_len, r)
      | Some Info \<Rightarrow>
          if old_kernel Info \<and> state_icc r \<noteq> None then (the (state_icc r), [], in_len, r)
          else if ErrorLength \<noteq> 0
          then secure_error Error offs (state_icc r) RespData RespDataLen in_len r
          else secure_copy CJ_SUCCESS RespData RespDataLen in_len r)"

section \<open>PIN verification and modification\<close>

text \<open>
  The arguments of \<^verbatim>\<open>cjccid_SecurePV\<close> and \<^verbatim>\<open>cjccid_SecureMV\<close> that end up in the command: \<open>pr_out\<close> is the
  command template for the card.
\<close>

record pin_request =
  pr_Timeout :: byte
  pr_PinPosition :: byte
  pr_PinType :: byte
  pr_PinLengthSize :: byte
  pr_PinLength :: byte
  pr_PinLengthPosition :: byte
  pr_Min :: byte
  pr_Max :: byte
  pr_Condition :: byte
  pr_Prologue :: bytes
  pr_NumberMessage :: byte
  pr_out :: bytes

record modify_request = pin_request +
  pr_ConfirmPIN :: byte
  pr_OffsetOld :: byte
  pr_OffsetNew :: byte
  pr_MessageIndexes :: bytes

definition pin_format :: "byte \<Rightarrow> 'a pin_request_scheme \<Rightarrow> bytes" where
  "pin_format PINOperation p =
     [PINOperation, pr_Timeout p, 0x80 OR push_bit 3 (pr_PinPosition p) OR pr_PinType p,
      push_bit 4 (pr_PinLengthSize p) OR pr_PinLength p, pr_PinLengthPosition p]"

definition pin_digits :: "'a pin_request_scheme \<Rightarrow> bytes" where
  "pin_digits p = le16_bytes (push_bit 8 (ucast (pr_Min p)) + ucast (pr_Max p))"

text \<open>The structure \<^verbatim>\<open>Secure\<close> with its variants \<^verbatim>\<open>Verify\<close> and \<^verbatim>\<open>Modify\<close>, up to the end of the template.\<close>

definition verify_data :: "'a pin_request_scheme \<Rightarrow> byte \<Rightarrow> bytes" where
  "verify_data p MessageIndex =
     pin_format 0 p @ pin_digits p @ [pr_Condition p, pr_NumberMessage p] @ le16_bytes 0x0409
     @ [MessageIndex] @ pr_Prologue p @ pr_out p"

definition modify_data :: "modify_request \<Rightarrow> bytes" where
  "modify_data p =
     pin_format 1 p @ [pr_OffsetOld p, pr_OffsetNew p] @ pin_digits p
     @ [pr_ConfirmPIN p, pr_Condition p, pr_NumberMessage p] @ le16_bytes 0x0409
     @ pr_MessageIndexes p @ pr_Prologue p @ pr_out p"

definition secure_message :: "nat \<Rightarrow> bytes \<Rightarrow> ccid_message" where
  "secure_message n d = ccid_msg PC_TO_RDR_SECURE n [0, 0, 0] d"

definition module_ready :: "reader \<Rightarrow> u32 \<Rightarrow> bool" where
  "module_ready r ID = (case FindModule r ID of None \<Rightarrow> False | Some Info \<Rightarrow> mi_Status Info = MODULE_READY)"

definition ccid_SecurePV :: "reader \<Rightarrow> 'a pin_request_scheme \<Rightarrow> byte \<Rightarrow> int \<Rightarrow> secure_result" where
  "ccid_SecurePV r p MessageIndex in_len =
     (let r1 = (if module_ready r MODULE_ID_KT_LIGHT_GC
                then snd (SetSMModeAndCount r MODULE_ID_KT_LIGHT_GC 1) else r) in
      case Transfer r1 (secure_message (length (pr_out p) + 15) (verify_data p MessageIndex)) of (Res, Response, r2) \<Rightarrow>
        if Res \<noteq> CJ_SUCCESS then (Res, [], in_len, r2)
        else ExecuteSecureResult r2 Response in_len 0)"

definition ccid_SecureMV :: "reader \<Rightarrow> modify_request \<Rightarrow> int \<Rightarrow> secure_result" where
  "ccid_SecureMV r p in_len =
     (case Transfer r (secure_message (length (pr_out p) + 20) (modify_data p)) of (Res, Response, r1) \<Rightarrow>
        if Res \<noteq> CJ_SUCCESS then (Res, [], in_len, r1)
        else ExecuteSecureResult r1 Response in_len 5)"

text \<open>
  The classes of the e-com family: at most 15 digits, and with a text for the display the request goes
  to the module for the display as application data, in front of it one counted text per step.
\<close>

definition cap15 :: "byte \<Rightarrow> byte" where
  "cap15 m = (if m > 15 then 15 else m)"

definition appl_secure :: "reader \<Rightarrow> bytes \<Rightarrow> int \<Rightarrow> nat \<Rightarrow> secure_result" where
  "appl_secure r buffer in_len offs =
     (case CtApplicationData (r\<lparr>g_overrun := g_overrun r \<or> length buffer > 1000\<rparr>) MODULE_ID_MKT_COMP 2 buffer
         (Some 1000) (Some 1) of
        (Res, _, RespData, RespDataLen, err, ErrorLength, r1) \<Rightarrow>
          if Res \<noteq> CJ_SUCCESS then (Res, [], in_len, r1)
          else ExecuteApplSecureResult r1 (case err of [] \<Rightarrow> g_over r1 0 | e # _ \<Rightarrow> e) (the ErrorLength)
                 RespData (the RespDataLen) in_len offs)"

definition SecurePV :: "reader \<Rightarrow> 'a pin_request_scheme \<Rightarrow> byte \<Rightarrow> bytes option \<Rightarrow> int \<Rightarrow> secure_result" where
  "SecurePV r p MessageIndex Text in_len =
     (let p' = p\<lparr>pr_Max := cap15 (pr_Max p)\<rparr> in
      case Text of
        None \<Rightarrow> ccid_SecurePV r p' MessageIndex in_len
      | Some t \<Rightarrow>
          if t = [] \<or> FindModule r MODULE_ID_MKT_COMP = None then ccid_SecurePV r p' MessageIndex in_len
          else appl_secure r (of_nat (length t) # t @ [0, 0] @ verify_data p' MessageIndex) in_len 0)"

definition SecureMV :: "reader \<Rightarrow> modify_request \<Rightarrow> bytes list \<Rightarrow> int \<Rightarrow> secure_result" where
  "SecureMV r p Texts in_len =
     (let p' = p\<lparr>pr_Max := cap15 (pr_Max p)\<rparr> in
      if Texts = [] \<or> FindModule r MODULE_ID_MKT_COMP = None then ccid_SecureMV r p' in_len
      else appl_secure r
             (concat (map (\<lambda>t. of_nat (length t) # t) Texts) @ replicate (3 - length Texts) 0 @ modify_data p')
             in_len 5)"

section \<open>Direct PIN functions\<close>

text \<open>\<^verbatim>\<open>IfdVendor\<close> gives a status, the bytes stored in \<^verbatim>\<open>Output\<close> and the new \<^verbatim>\<open>*OutputLength\<close>.\<close>

type_synonym vendor_result = "ifd_result \<times> bytes \<times> u32 \<times> reader"

definition direct_copy :: "reader \<Rightarrow> ccid_response \<Rightarrow> u32 \<Rightarrow> vendor_result" where
  "direct_copy r Response cap =
     (if cap < rsp_dwLength Response then (STATUS_BUFFER_TOO_SMALL, [], 0, r)
      else (STATUS_SUCCESS, take (unat (rsp_dwLength Response)) (rsp_data Response), rsp_dwLength Response,
            r\<lparr>g_overrun := g_overrun r \<or> unat (rsp_dwLength Response) > 2038\<rparr>))"

text \<open>
  What the two functions do with the response; they differ in the positions a wrong parameter and a
  violated condition are reported with (21 and 26, or 26 and 31).
\<close>

definition direct_answer :: "reader \<Rightarrow> cj_result \<Rightarrow> ccid_response \<Rightarrow> u32 \<Rightarrow> nat \<Rightarrow> vendor_result" where
  "direct_answer r Res Response cap offs =
     (let e = rsp_bError Response; st = rsp_bStatus Response; sw = (\<lambda>a b. (STATUS_SUCCESS, [a, b], 2, r)) in
      if Res \<noteq> CJ_SUCCESS
      then (if Res = CJ_ERR_DEVICE_LOST then STATUS_DEVICE_NOT_CONNECTED else STATUS_DEVICE_PROTOCOL_ERROR, [], 0, r)
      else if st AND 0x40 \<noteq> 0 then
        (if e = XFR_PARITY_ERROR then (STATUS_IO_TIMEOUT, [], 0, r)
         else if e = ICC_MUTE then (STATUS_IO_TIMEOUT, [], 0, r)
         else if e = PIN_TIMEOUT then sw 0x64 0x00
         else if e = PIN_CANCELED then sw 0x64 0x01
         else if e = PIN_DIFFERENT then sw 0x64 0x02
         else if e = EXT_ERROR then direct_copy r Response cap
         else if e = 5 then sw 0x6B 0x80
         else if unat e = 21 + offs then sw 0x64 0x02
         else if unat e = 26 + offs then sw 0x69 0x85
         else if e = DEACTIVATED_PROTOCOL then
           (if st AND 2 \<noteq> 0 then (STATUS_NO_MEDIA, [], 0, r)
            else if st AND 1 \<noteq> 0 then (STATUS_INVALID_DEVICE_STATE, [], 0, r)
            else direct_copy r Response cap)
         else sw 0x6B 0x80)
      else direct_copy r Response cap)"

text \<open>The kernel of the reader has to have version 3.0 with revision 42, or a later one.\<close>

definition direct_supported :: "reader \<Rightarrow> bool" where
  "direct_supported r = (case FindModule r MODULE_ID_KERNEL of None \<Rightarrow> False
     | Some Info \<Rightarrow> \<not> (mi_Version Info < 0x30 \<or> mi_Version Info = 0x30 \<and> mi_Revision Info < 42))"

text \<open>
  \<^verbatim>\<open>PIN_VERIFY_STRUCTURE\<close> is packed: the data length is at offset 15, the data at 19; all fields from the
  digits on have the order of the CCID structure.  The second timer is not used.
\<close>

definition IfdVerifyPinDirect :: "reader \<Rightarrow> bytes \<Rightarrow> u32 \<Rightarrow> vendor_result" where
  "IfdVerifyPinDirect r Input cap =
     (if \<not> direct_supported r then (STATUS_NOT_SUPPORTED, [], cap, r)
      else
        (let ready = module_ready r MODULE_ID_KT_LIGHT_GC;
             ul = unat (le32_at Input 15);
             r1 = (if ready then snd (SetSMModeAndCount r MODULE_ID_KT_LIGHT_GC 1) else r) in
         if ul > 245 then (STATUS_INVALID_BUFFER_SIZE, [], cap, r1)
         else if cap < 2 then (STATUS_BUFFER_TOO_SMALL, [], cap, r1)
         else (case Transfer r1 (secure_message (ul + 15)
               ([0, Input ! 0, Input ! 2, Input ! 3, Input ! 4] @ take 10 (drop 5 Input) @ take ul (drop 19 Input))) of
             (Res, Response, r2) \<Rightarrow>
           direct_answer (if ready then snd (SetSMModeAndCount r2 0 0) else r2) Res Response cap 0)))"

definition IfdModifyPinDirect :: "reader \<Rightarrow> bytes \<Rightarrow> u32 \<Rightarrow> vendor_result" where
  "IfdModifyPinDirect r Input cap =
     (if \<not> direct_supported r then (STATUS_NOT_SUPPORTED, [], cap, r)
      else
        (let ul = unat (le32_at Input 20) in
         if ul > 240 then (STATUS_INVALID_BUFFER_SIZE, [], cap, r)
         else if cap < 2 then (STATUS_BUFFER_TOO_SMALL, [], cap, r)
         else (case Transfer r (secure_message (ul + 20)
               ([1, Input ! 0, Input ! 2, Input ! 3, Input ! 4] @ take 15 (drop 5 Input) @ take ul (drop 24 Input))) of
             (Res, Response, r1) \<Rightarrow> direct_answer r1 Res Response cap 5)))"

definition CCID_Escape :: "reader \<Rightarrow> bytes \<Rightarrow> u32 \<Rightarrow> cj_result \<times> bytes \<times> u32 \<times> reader" where
  "CCID_Escape r Input cap =
     (if length Input > 2038 then (CJ_ERR_INTERNAL_BUFFER_OVERFLOW, [], 0, r)
      else (case Transfer r (ccid_msg PC_TO_RDR_ESCAPE (length Input) [0, 0, 0] Input) of (Res, Response, r1) \<Rightarrow>
        if Res \<noteq> CJ_SUCCESS then (Res, [], 0, r1)
        else if rsp_bMessageType Response \<noteq> RDR_TO_PC_ESCAPE
        then (CJ_ERR_DEVICE_LOST, [], cap, r1\<lparr>m_pCommunicator := None\<rparr>)
        else if rsp_dwLength Response > cap then (CJ_ERR_RBUFFER_TO_SMALL, [], 0, r1)
        else (CJ_SUCCESS, take (unat (rsp_dwLength Response)) (rsp_data Response), rsp_dwLength Response,
              r1\<lparr>g_overrun := g_overrun r1 \<or> unat (rsp_dwLength Response) > 2038\<rparr>)))"

section \<open>Vendor functions\<close>

abbreviation (input) "CJPCSC_VEN_IOCTRL_ESCAPE \<equiv> (0x42000000 + 3103 :: u32)"
abbreviation (input) "CJPCSC_VEN_IOCTRL_VERIFY_PIN_DIRECT \<equiv> (0x42000000 + 3506 :: u32)"
abbreviation (input) "CJPCSC_VEN_IOCTRL_MODIFY_PIN_DIRECT \<equiv> (0x42000000 + 3507 :: u32)"
abbreviation (input) "CJPCSC_VEN_IOCTRL_EXECUTE_PACE \<equiv> (0x42000000 + 3532 :: u32)"

definition escape_status :: "cj_result \<Rightarrow> ifd_result" where
  "escape_status Res =
     (if Res = CJ_SUCCESS then STATUS_SUCCESS
      else if Res = CJ_ERR_INTERNAL_BUFFER_OVERFLOW then STATUS_INSUFFICIENT_RESOURCES
      else if Res = CJ_ERR_DEVICE_LOST then STATUS_DEVICE_NOT_CONNECTED
      else if Res = CJ_ERR_RBUFFER_TO_SMALL then STATUS_BUFFER_TOO_SMALL
      else if Res = CJ_ERR_SEQ then STATUS_DEVICE_PROTOCOL_ERROR
      else STATUS_UNHANDLED_EXCEPTION)"

definition base_IfdVendor :: "reader \<Rightarrow> vendor_result" where
  "base_IfdVendor r = (STATUS_NOT_SUPPORTED, [], 0, r)"

definition ccid_IfdVendor :: "reader \<Rightarrow> u32 \<Rightarrow> bytes \<Rightarrow> u32 \<Rightarrow> vendor_result" where
  "ccid_IfdVendor r IoCtrlCode Input cap =
     (if IoCtrlCode = CJPCSC_VEN_IOCTRL_ESCAPE then
        (case CCID_Escape r Input cap of (Res, d, n, r1) \<Rightarrow> (escape_status Res, d, n, r1))
      else if IoCtrlCode = CJPCSC_VEN_IOCTRL_VERIFY_PIN_DIRECT then
        (if length Input < 20 then (STATUS_INVALID_BUFFER_SIZE, [], cap, r)
         else if length Input \<noteq> 20 - 1 + unat (le32_at Input 15) then (STATUS_INVALID_BUFFER_SIZE, [], cap, r)
         else IfdVerifyPinDirect r Input cap)
      else if IoCtrlCode = CJPCSC_VEN_IOCTRL_MODIFY_PIN_DIRECT then
        (if length Input < 25 then (STATUS_INVALID_BUFFER_SIZE, [], cap, r)
         else if length Input \<noteq> 25 - 1 + unat (le32_at Input 20) then (STATUS_INVALID_BUFFER_SIZE, [], cap, r)
         else IfdModifyPinDirect r Input cap)
      else base_IfdVendor r)"

text \<open>
  PACE: on a little-endian host the conversions of the inner lengths change nothing.  The output is the
  four bytes of the application error, the length of the response and the response; an error of one to
  three bytes leaves the rest of its field as the caller's buffer had it.
\<close>

abbreviation (input) "CCID_ESCAPE_DO_PACE \<equiv> (0xf0 :: u16)"

definition pace_output :: "reader \<Rightarrow> bytes \<Rightarrow> bytes \<Rightarrow> u32 \<Rightarrow> bytes" where
  "pace_output r err rsp n =
     (if err = [] then [0, 0, 0, 0] else overlay 0 err (map (g_over r) [0..<4])) @ le16_bytes (ucast n) @ rsp"

definition ecr_IfdVendor :: "reader \<Rightarrow> u32 \<Rightarrow> bytes \<Rightarrow> u32 \<Rightarrow> vendor_result" where
  "ecr_IfdVendor r IoCtrlCode Input cap =
     (if IoCtrlCode = CJPCSC_VEN_IOCTRL_EXECUTE_PACE then
        (if length Input < 3 \<or> cap < 6 then (STATUS_INFO_LENGTH_MISMATCH, [], cap, r)
         else if length Input \<noteq> 3 + unat (le16_val (Input ! 1) (Input ! 2))
         then (STATUS_INFO_LENGTH_MISMATCH, [], cap, r)
         else (case CopyIfdInput r (of_nat (length Input)) of (bad, r1) \<Rightarrow>
           if bad then (STATUS_INSUFFICIENT_RESOURCES, [], cap, r1)
           else (case CtApplicationData r1 MODULE_ID_KERNEL CCID_ESCAPE_DO_PACE Input (Some (cap - 6)) (Some 4) of
               (Res, _, rsp, ResponseLen, err, _, r2) \<Rightarrow>
             if Res = CJ_SUCCESS then
               (let n = the ResponseLen in
                if cap < 6 + n \<or> n > 65535 then (STATUS_INSUFFICIENT_RESOURCES, [], cap, r2)
                else (STATUS_SUCCESS, pace_output r2 err rsp n, 6 + n, r2))
             else (STATUS_UNHANDLED_EXCEPTION, [], 0, r2))))
      else ccid_IfdVendor r IoCtrlCode Input cap)"

definition IfdVendor :: "reader \<Rightarrow> u32 \<Rightarrow> bytes \<Rightarrow> u32 \<Rightarrow> vendor_result" where
  "IfdVendor r = (if is_rfid_class (m_class r) then ecr_IfdVendor r else ccid_IfdVendor r)"

definition IfdIoControl :: "reader \<Rightarrow> u32 \<Rightarrow> bytes \<Rightarrow> u32 \<Rightarrow> vendor_result" where
  "IfdIoControl r IoCtrlCode Input cap = IfdVendor r IoCtrlCode Input cap"

section \<open>The light terminal module\<close>

text \<open>
  \<^verbatim>\<open>KTLightCall\<close>: \<open>d\<close> is the data of the command (\<^verbatim>\<open>Lc\<close> bytes, \<open>None\<close> for \<open>-1\<close>); the moves in the command
  buffer leave the second parameter byte and the data.  The result: code, response, \<^verbatim>\<open>*lenr\<close>, reader.
\<close>

definition KTLightCall ::
  "reader \<Rightarrow> bytes \<Rightarrow> bytes option \<Rightarrow> int \<Rightarrow> u16 \<Rightarrow> cj_result \<times> bytes \<times> u16 \<times> reader" where
  "KTLightCall r cmd d Le lenr =
     (let sw = (\<lambda>a b r'. (CJ_SUCCESS, [a, b], 2, r')) in
      if cmd ! 2 \<noteq> 0 \<or> cmd ! 3 \<noteq> 0 then sw 0x6a 0x00 r
      else (case d of None \<Rightarrow> sw 0x67 0x00 r
        | Some dat \<Rightarrow>
            if (if cmd ! 1 = 0x72 \<or> cmd ! 1 = 0x73 \<or> cmd ! 1 = 0x76 then Le \<noteq> -1 else Le \<noteq> 0)
            then sw 0x6c 0x00 r
            else (case CtApplicationData r
                  (if FindModule r MODULE_ID_KT_LIGHT \<noteq> None then MODULE_ID_KT_LIGHT else MODULE_ID_KT_LIGHT_GC)
                  (ucast (cmd ! 1) - 0x70) (cmd ! 3 # dat) (Some (ucast lenr - 2)) (Some 6) of
                (Res, _, rsp, ResponseLen, err, errlen, r1) \<Rightarrow>
              if Res = CJ_ERR_CHECK_RESULT then sw 0x69 0x85 r1
              else if Res \<noteq> CJ_SUCCESS then (Res, [], lenr, r1)
              else if the errlen > 2 then (CJ_ERR_WRONG_ANSWER, [], lenr, r1)
              else (CJ_SUCCESS, rsp @ err, ucast (the ResponseLen + the errlen), r1))))"

section \<open>What the calls keep\<close>

text \<open>
  The PIN functions use the escape command and exchange messages of their own: a contract of the escape
  services that also holds across \<^verbatim>\<open>Transfer\<close>, a dropped connection and the growth of the input buffer
  holds across all of them.
\<close>

locale secure_client = escape_client +
  assumes R_transfer: "Transfer r m = (Res, Rsp, r') \<Longrightarrow> R r r'"
    and R_lost: "R r (r\<lparr>m_pCommunicator := None\<rparr>)"
    and R_buffer: "R r (r\<lparr>ifd_in_buffer_len := k\<rparr>)"
begin

lemma step_transfer: "Transfer r m = (Res, Rsp, r') \<Longrightarrow> R r0 r \<Longrightarrow> R r0 r'"
  by (blast intro: R_trans R_transfer)

lemma step_lost: "R r0 r \<Longrightarrow> R r0 (r\<lparr>m_pCommunicator := None\<rparr>)"
  by (blast intro: R_trans R_lost)

lemma copy_R: "secure_copy c d dw n r = (Res, out, m, r') \<Longrightarrow> R r r'"
  by (auto simp: secure_copy_def intro: R_refl R_flag split: if_splits)

lemma error_R: "secure_error e offs da d dw n r = (Res, out, m, r') \<Longrightarrow> R r r'"
  by (auto simp: secure_error_def Let_def intro: R_refl copy_R split: if_splits option.splits)

lemma execute_R: "ExecuteSecureResult r Rsp n offs = (Res, out, m, r') \<Longrightarrow> R r r'"
  by (auto simp: ExecuteSecureResult_def ccid_ExecuteSecureResult_def Let_def
      intro: R_refl copy_R error_R split: if_splits option.splits)

lemma execute_appl_R: "ExecuteApplSecureResult r e el d dl n offs = (Res, out, m, r') \<Longrightarrow> R r r'"
  by (auto simp: ExecuteApplSecureResult_def intro: R_refl copy_R error_R split: if_splits option.splits)

lemma sm_mode: "R r (snd (SetSMModeAndCount r i c))"
  by (metis service_R service_sm_mode prod.collapse)

lemma ccid_pv: "ccid_SecurePV r p i n = (Res, out, m, r') \<Longrightarrow> R r r'"
  by (auto simp: ccid_SecurePV_def Let_def split: if_splits prod.splits
      dest!: R_transfer execute_R intro: R_trans sm_mode)

lemma ccid_mv: "ccid_SecureMV r p n = (Res, out, m, r') \<Longrightarrow> R r r'"
  by (auto simp: ccid_SecureMV_def split: if_splits prod.splits dest!: R_transfer execute_R intro: R_trans)

lemma appl: "appl_secure r b n offs = (Res, out, m, r') \<Longrightarrow> R r r'"
  by (auto simp: appl_secure_def split: if_splits prod.splits
      dest!: app_data execute_appl_R intro: R_trans R_flag)

lemma secure_pv: "SecurePV r p i t n = (Res, out, m, r') \<Longrightarrow> R r r'"
  by (auto simp: SecurePV_def Let_def split: if_splits option.splits dest: ccid_pv appl)

lemma secure_mv: "SecureMV r p t n = (Res, out, m, r') \<Longrightarrow> R r r'"
  by (auto simp: SecureMV_def Let_def split: if_splits dest: ccid_mv appl)

lemma kt_call: "KTLightCall r cmd d Le lenr = (Res, out, m, r') \<Longrightarrow> R r r'"
  by (auto simp: KTLightCall_def Let_def R_refl split: if_splits option.splits prod.splits dest: app_data)

lemma direct_copy_R: "direct_copy r Rsp cap = (st, out, n, r') \<Longrightarrow> R r r'"
  by (auto simp: direct_copy_def intro: R_refl R_flag split: if_splits)

lemma direct_R: "direct_answer r Res Rsp cap offs = (st, out, n, r') \<Longrightarrow> R r r'"
  by (auto simp: direct_answer_def Let_def intro: R_refl direct_copy_R split: if_splits)

lemma verify_direct: "IfdVerifyPinDirect r Input cap = (st, out, n, r') \<Longrightarrow> R r r'"
proof -
  let ?ul = "unat (le32_at Input 15)" and ?ready = "module_ready r MODULE_ID_KT_LIGHT_GC"
  let ?r1 = "if ?ready then snd (SetSMModeAndCount r MODULE_ID_KT_LIGHT_GC 1) else r"
  obtain Res Rsp r2 where t: "Transfer ?r1 (secure_message (?ul + 15)
      ([0, Input ! 0, Input ! 2, Input ! 3, Input ! 4] @ take 10 (drop 5 Input) @ take ?ul (drop 19 Input))) = (Res, Rsp, r2)"
    by (metis prod_cases3)
  have s1: "R r ?r1" by (simp add: R_refl sm_mode)
  have s2: "R r (if ?ready then snd (SetSMModeAndCount r2 0 0) else r2)"
    using step_transfer[OF t s1] sm_mode R_trans by auto
  assume "IfdVerifyPinDirect r Input cap = (st, out, n, r')"
  then show ?thesis
    using s1 R_trans[OF s2] t by (auto simp: IfdVerifyPinDirect_def Let_def R_refl split: if_splits dest!: direct_R)
qed

lemma modify_direct: "IfdModifyPinDirect r Input cap = (st, out, n, r') \<Longrightarrow> R r r'"
  by (auto simp: IfdModifyPinDirect_def Let_def R_refl split: if_splits prod.splits
      dest!: R_transfer direct_R intro: R_trans)

lemma ccid_escape: "CCID_Escape r Input cap = (Res, out, n, r') \<Longrightarrow> R r r'"
  by (auto simp: CCID_Escape_def R_refl split: if_splits prod.splits
      dest!: R_transfer intro: step_lost step_flag)

lemma copy_input: "CopyIfdInput r k = (bad, r') \<Longrightarrow> R r r'"
  by (auto simp: CopyIfdInput_def Let_def R_refl intro: step_flag[OF R_buffer, simplified] split: if_splits)

lemma vendor: "IfdVendor r code Input cap = (st, out, n, r') \<Longrightarrow> R r r'"
  by (auto simp: IfdVendor_def ecr_IfdVendor_def ccid_IfdVendor_def base_IfdVendor_def Let_def R_refl
      split: if_splits prod.splits dest!: copy_input app_data verify_direct modify_direct ccid_escape
      intro: R_trans)

end

lemma CopyIfd_sound: "sound r (r\<lparr>ifd_in_buffer_len := k\<rparr>)"
  by (simp add: sound_def modules_inv_def card_inv_def reader_inv_def)

interpretation pin_keep: secure_client sound
  by unfold_locales (blast intro: Transfer_keeps sound_frame CopyIfd_sound)+

interpretation pin_settings: secure_client same_settings
  by unfold_locales (blast intro: Transfer_settings | simp add: same_settings_def)+

text \<open>
  What a vendor call guarantees: the reader object stays sound, and the bytes stored are as many as
  reported and fit the caller's buffer, unless the ghost flag is set.
\<close>

definition vendor_post :: "reader \<Rightarrow> u32 \<Rightarrow> vendor_result \<Rightarrow> bool" where
  "vendor_post r cap res = (case res of (st, out, n, r') \<Rightarrow>
     sound r r' \<and> (card_inv r \<longrightarrow> n \<le> cap \<and> (g_overrun r' \<or> st \<noteq> STATUS_SUCCESS \<or> length out = unat n)))"

lemma vendor_postI:
  "sound r r' \<Longrightarrow> n \<le> cap \<Longrightarrow> st \<noteq> STATUS_SUCCESS \<or> length out = unat n \<Longrightarrow> vendor_post r cap (st, out, n, r')"
  by (simp add: vendor_post_def)

lemma vendor_post_if: "vendor_post r cap a \<Longrightarrow> vendor_post r cap b \<Longrightarrow> vendor_post r cap (if c then a else b)"
  by simp

lemma direct_copy_post:
  assumes "sound r0 r" and "card_inv r0 \<Longrightarrow> length Rsp = 2048"
  shows "vendor_post r0 cap (direct_copy r Rsp cap)"
  using assms keep.step_flag[OF assms(1)]
  by (auto simp: direct_copy_def vendor_post_def rsp_data_def)

lemma direct_answer_post:
  assumes "sound r0 r" and "card_inv r0 \<Longrightarrow> length Rsp = 2048" and "2 \<le> cap"
  shows "vendor_post r0 cap (direct_answer r Res Rsp cap offs)"
proof -
  have sw: "vendor_post r0 cap (STATUS_SUCCESS, [a, b], 2, r)" for a b
    using assms(1,3) by (simp add: vendor_post_def)
  have fail: "vendor_post r0 cap (st, [], 0, r)" for st
    using assms(1) by (simp add: vendor_post_def)
  show ?thesis unfolding direct_answer_def Let_def
    by (intro vendor_post_if sw fail direct_copy_post[OF assms(1,2)])
qed

lemma IfdVerifyPinDirect_post: "vendor_post r cap (IfdVerifyPinDirect r Input cap)"
proof -
  let ?r1 = "if module_ready r MODULE_ID_KT_LIGHT_GC then snd (SetSMModeAndCount r MODULE_ID_KT_LIGHT_GC 1) else r"
  let ?ul = "unat (le32_at Input 15)"
  let ?m = "secure_message (?ul + 15)
      ([0, Input ! 0, Input ! 2, Input ! 3, Input ! 4] @ take 10 (drop 5 Input) @ take ?ul (drop 19 Input))"
  have s1: "sound r ?r1" by (simp add: pin_keep.sm_mode sound_frame)
  obtain Res Rsp r2 where t: "Transfer ?r1 ?m = (Res, Rsp, r2)" by (metis prod_cases3)
  have s2: "sound r r2" using s1 Transfer_keeps[OF t] sound_trans by blast
  have "length Rsp = 2048" if "card_inv r"
    using Transfer_card(3)[OF _ t] that s1 by (simp add: sound_def)
  moreover have "sound r (if module_ready r MODULE_ID_KT_LIGHT_GC then snd (SetSMModeAndCount r2 0 0) else r2)"
    using s2 sound_trans pin_keep.sm_mode by auto
  ultimately show ?thesis
    using s1 t by (simp add: IfdVerifyPinDirect_def Let_def vendor_postI sound_frame not_less direct_answer_post)
qed

lemma IfdModifyPinDirect_post: "vendor_post r cap (IfdModifyPinDirect r Input cap)"
proof -
  let ?ul = "unat (le32_at Input 20)"
  let ?m = "secure_message (?ul + 20)
      ([1, Input ! 0, Input ! 2, Input ! 3, Input ! 4] @ take 15 (drop 5 Input) @ take ?ul (drop 24 Input))"
  obtain Res Rsp r2 where t: "Transfer r ?m = (Res, Rsp, r2)" by (metis prod_cases3)
  then show ?thesis
    using Transfer_keeps[OF t] Transfer_card(3)[OF _ t]
    by (simp add: IfdModifyPinDirect_def Let_def vendor_postI sound_frame not_less direct_answer_post)
qed

lemma escape_status_success: "escape_status Res = STATUS_SUCCESS \<longleftrightarrow> Res = CJ_SUCCESS"
  by (simp add: escape_status_def)

lemma CCID_Escape_post:
  assumes "CCID_Escape r Input cap = (Res, out, n, r')"
  shows "vendor_post r cap (escape_status Res, out, n, r')"
proof -
  obtain R1 Rsp r1 where t: "Transfer r (ccid_msg PC_TO_RDR_ESCAPE (length Input) [0, 0, 0] Input) = (R1, Rsp, r1)"
    by (metis prod_cases3)
  show ?thesis
    using assms t Transfer_keeps[OF t] Transfer_card(3)[OF _ t]
    by (auto simp: CCID_Escape_def vendor_post_def escape_status_success rsp_data_def not_less
        intro: sound_frame keep.step_flag pin_keep.step_lost split: if_splits)
qed

lemma ccid_IfdVendor_post: "vendor_post r cap (ccid_IfdVendor r code Input cap)"
  by (auto simp: ccid_IfdVendor_def base_IfdVendor_def vendor_postI sound_frame IfdVerifyPinDirect_post
      IfdModifyPinDirect_post dest!: CCID_Escape_post split: prod.splits)

lemma app_answer_success:
  assumes "app_answer r Result (Some rc) (Some ec) = (CJ_SUCCESS, Result', rsp, rl, err, el, r')"
  shows "\<exists>n m. rl = Some n \<and> el = Some m \<and> n \<le> rc \<and> m \<le> ec \<and> unat n < 65536
    \<and> (g_overrun r' \<or> length rsp = unat n \<and> length err = unat m)"
proof -
  define buf where "buf = m_pApplicationResponse r"
  define l where "l = unat (le16_val (buf ! 0) (buf ! 1))"
  define e where "e = unat (le16_val (buf ! 2) (buf ! 3))"
  have b: "l < 65536" "e < 65536" by (simp_all only: l_def e_def u16_bound)
  have c: "l \<le> unat rc" "e \<le> unat ec" "rl = Some (of_nat l)" "el = Some (of_nat e)"
    "rsp = take l (drop 4 buf)" "err = take e (drop (4 + l) buf)"
    "g_overrun r' = (g_overrun r \<or> (e > 0 \<and> 4 + l + e > length buf) \<or> (l > 0 \<and> 4 + l > length buf))"
    using assms[unfolded app_answer_def Let_def, folded buf_def, folded l_def e_def]
    by (auto simp: app_too_small_def app_fail_def not_less split: if_splits)
  have u: "unat (of_nat l :: u32) = l" "unat (of_nat e :: u32) = e"
    using b by (simp_all add: unat_of_nat_u32)
  have "g_overrun r' \<or> length rsp = l \<and> length err = e"
    using c(5,6,7) by (cases "l = 0"; cases "e = 0") auto
  then show ?thesis using b c u by (simp add: word_le_nat_alt)
qed

lemma app_data_success:
  assumes "CtApplicationData r a f d (Some rc) (Some ec) = (CJ_SUCCESS, Result, rsp, rl, err, el, r')"
  shows "\<exists>n m. rl = Some n \<and> el = Some m \<and> n \<le> rc \<and> m \<le> ec \<and> unat n < 65536
    \<and> (g_overrun r' \<or> length rsp = unat n \<and> length err = unat m)"
proof -
  obtain r2 Rv where "app_answer r2 Rv (Some rc) (Some ec) = (CJ_SUCCESS, Result, rsp, rl, err, el, r')"
    using assms by (auto simp: CtApplicationData_def app_fail_def Let_def split: prod.splits if_splits)
  then show ?thesis by (rule app_answer_success)
qed

lemma ecr_IfdVendor_post: "vendor_post r cap (ecr_IfdVendor r code Input cap)"
proof -
  obtain bad r1 where c: "CopyIfdInput r (of_nat (length Input)) = (bad, r1)" by fastforce
  obtain Res Result rsp rl err el r2 where
    a: "CtApplicationData r1 MODULE_ID_KERNEL CCID_ESCAPE_DO_PACE Input (Some (cap - 6)) (Some 4)
      = (Res, Result, rsp, rl, err, el, r2)"
    by (metis prod_cases7)
  have s: "sound r r1" "sound r r2"
    using pin_keep.copy_input[OF c] keep.app_data[OF a] sound_trans by blast+
  have ok: "vendor_post r cap (STATUS_SUCCESS, pace_output r2 err rsp (the rl), 6 + the rl, r2)"
    if "Res = CJ_SUCCESS" "\<not> cap < 6" "\<not> cap < 6 + the rl"
  proof -
    note success = that(1)
    obtain n m where n: "rl = Some n" "el = Some m" "n \<le> cap - 6" "m \<le> 4" "unat n < 65536"
      "g_overrun r2 \<or> length rsp = unat n \<and> length err = unat m"
      using app_data_success[OF a[unfolded success]] by blast
    have "unat m \<le> 4" using n(4) by (simp add: word_le_nat_alt)
    then have "g_overrun r2 \<or> length (pace_output r2 err rsp n) = 6 + unat n"
      using n(6) by (auto simp: pace_output_def length_overlay)
    moreover have "unat (6 + n) = 6 + unat n" using n(5) by (simp add: unat_word_ariths)
    ultimately show ?thesis using s that(3) n(1) by (auto simp: vendor_post_def not_less)
  qed
  show ?thesis
    using s c a ok
    by (auto simp: ecr_IfdVendor_def Let_def vendor_postI ccid_IfdVendor_post sound_frame)
qed

lemma IfdVendor_post: "vendor_post r cap (IfdVendor r code Input cap)"
  by (simp add: IfdVendor_def ecr_IfdVendor_post ccid_IfdVendor_post)

text \<open>
  A vendor call (escape, direct PIN verification and modification, PACE) keeps the
  invariant and the module table of the reader for every behaviour of the device, and reports no more
  bytes than the caller's buffer holds; on success exactly the reported bytes were stored, unless the
  device announced more data than a response can carry.
\<close>

theorem IfdVendor_sound:
  assumes "card_inv r" and "modules_inv r" and "IfdVendor r code Input cap = (st, out, n, r')"
  shows "card_inv r' \<and> modules_inv r' \<and> m_class r' = m_class r \<and> n \<le> cap
    \<and> (st = STATUS_SUCCESS \<and> \<not> g_overrun r' \<longrightarrow> length out = unat n)"
  using IfdVendor_post[of r cap code Input] assms by (auto simp: vendor_post_def sound_def)

lemma IfdVendor_sound_witness:
  "case IfdVendor (reader0 ECR (Some (USB (usb0 [])))) CJPCSC_VEN_IOCTRL_ESCAPE [1, 2] 10 of (st, out, n, r') \<Rightarrow>
     card_inv r' \<and> n \<le> 10"
proof -
  let ?r = "reader0 ECR (Some (USB (usb0 [])))"
  obtain st out n r' where v: "IfdVendor ?r CJPCSC_VEN_IOCTRL_ESCAPE [1, 2] 10 = (st, out, n, r')"
    by (metis prod_cases4)
  have "modules_inv ?r" by (simp add: modules_inv_def reader0_def)
  from IfdVendor_sound[OF reader0_card(1) this v] show ?thesis unfolding v prod.case by blast
qed

section \<open>The two ways to verify a PIN\<close>

text \<open>The structure of PC/SC that asks for the same verification as the arguments of \<^verbatim>\<open>cjccid_SecurePV\<close>.\<close>

definition verify_struct :: "'a pin_request_scheme \<Rightarrow> byte \<Rightarrow> bytes" where
  "verify_struct p MessageIndex =
     [pr_Timeout p, 0] @ drop 2 (pin_format 0 p) @ pin_digits p @ [pr_Condition p, pr_NumberMessage p]
     @ le16_bytes 0x0409 @ [MessageIndex] @ pr_Prologue p @ le32_bytes (of_nat (length (pr_out p))) @ pr_out p"

text \<open>What the direct function may report for a result of \<^verbatim>\<open>cjccid_SecurePV\<close> with the data \<open>d\<close>.\<close>

definition direct_outcomes :: "cj_result \<Rightarrow> bytes \<Rightarrow> (ifd_result \<times> bytes) list" where
  "direct_outcomes Res d =
     (if Res = CJ_SUCCESS \<or> Res = CJ_ERR_PIN_EXTENDED then [(STATUS_SUCCESS, d)]
      else if Res = CJ_ERR_PIN_TIMEOUT then [(STATUS_SUCCESS, [0x64, 0x00])]
      else if Res = CJ_ERR_PIN_CANCELED then [(STATUS_SUCCESS, [0x64, 0x01])]
      else if Res = CJ_ERR_PIN_DIFFERENT then [(STATUS_SUCCESS, [0x64, 0x02])]
      else if Res = CJ_ERR_WRONG_PARAMETER then [(STATUS_SUCCESS, [0x6B, 0x80]), (STATUS_SUCCESS, [0x64, 0x02])]
      else if Res = CJ_ERR_CONDITION_OF_USE then [(STATUS_SUCCESS, [0x69, 0x85])]
      else if Res = CJ_ERR_LEN then [(STATUS_SUCCESS, [0x6B, 0x80]), (STATUS_DEVICE_PROTOCOL_ERROR, [])]
      else if Res = CJ_ERR_PARITY \<or> Res = CJ_ERR_TIMEOUT then [(STATUS_IO_TIMEOUT, []), (STATUS_DEVICE_PROTOCOL_ERROR, [])]
      else if Res = CJ_ERR_NO_ICC then [(STATUS_NO_MEDIA, [])]
      else if Res = CJ_ERR_NO_ACTIVE_ICC then [(STATUS_INVALID_DEVICE_STATE, [])]
      else if Res = CJ_ERR_RBUFFER_TO_SMALL then [(STATUS_BUFFER_TOO_SMALL, [])]
      else if Res = CJ_ERR_DEVICE_LOST then [(STATUS_DEVICE_NOT_CONNECTED, [])]
      else [(STATUS_DEVICE_PROTOCOL_ERROR, [])])"

lemma direct_outcomes_simps:
  "direct_outcomes CJ_SUCCESS d = [(STATUS_SUCCESS, d)]"
  "direct_outcomes CJ_ERR_PIN_EXTENDED d = [(STATUS_SUCCESS, d)]"
  "direct_outcomes CJ_ERR_RBUFFER_TO_SMALL d = [(STATUS_BUFFER_TOO_SMALL, [])]"
  "direct_outcomes CJ_ERR_DEVICE_LOST d = [(STATUS_DEVICE_NOT_CONNECTED, [])]"
  "direct_outcomes CJ_ERR_SEQ d = [(STATUS_DEVICE_PROTOCOL_ERROR, [])]"
  "direct_outcomes CJ_ERR_INTERNAL_BUFFER_OVERFLOW d = [(STATUS_DEVICE_PROTOCOL_ERROR, [])]"
  by (simp_all add: direct_outcomes_def)

lemma le32_at_le32_bytes:
  "length xs = n \<Longrightarrow> le32_at (xs @ le32_bytes w @ ys) n = w"
  by (simp add: le32_at_def le32_bytes_def nth_append le32_round)

lemma verify_struct_fields:
  assumes "length (pr_Prologue p) = 3"
  shows "le32_at (verify_struct p i) 15 = of_nat (length (pr_out p))"
    and "[0, verify_struct p i ! 0, verify_struct p i ! 2, verify_struct p i ! 3, verify_struct p i ! 4]
      @ take 10 (drop 5 (verify_struct p i)) @ take (length (pr_out p)) (drop 19 (verify_struct p i)) = verify_data p i"
    and "length (verify_struct p i) = 19 + length (pr_out p)"
proof -
  let ?h = "[pr_Timeout p, 0] @ drop 2 (pin_format 0 p) @ pin_digits p @ [pr_Condition p, pr_NumberMessage p]
     @ le16_bytes 0x0409 @ [i] @ pr_Prologue p"
  have v: "verify_struct p i = ?h @ le32_bytes (of_nat (length (pr_out p))) @ pr_out p"
    by (simp add: verify_struct_def)
  have h: "length ?h = 15" using assms by (simp add: pin_format_def pin_digits_def)
  show "le32_at (verify_struct p i) 15 = of_nat (length (pr_out p))"
    unfolding v by (rule le32_at_le32_bytes[OF h])
  show "length (verify_struct p i) = 19 + length (pr_out p)" unfolding v using h by simp
  obtain a b where ab: "pin_digits p = [a, b]" by (simp add: pin_digits_def le16_bytes_def)
  obtain x y z where xyz: "pr_Prologue p = [x, y, z]"
    using assms by (auto simp: numeral_3_eq_3 length_Suc_conv)
  show "[0, verify_struct p i ! 0, verify_struct p i ! 2, verify_struct p i ! 3, verify_struct p i ! 4]
      @ take 10 (drop 5 (verify_struct p i)) @ take (length (pr_out p)) (drop 19 (verify_struct p i)) = verify_data p i"
    by (simp add: verify_struct_def verify_data_def pin_format_def ab xyz le16_bytes_def le32_bytes_def
        eval_nat_numeral)
qed

lemma sint_u32_cases:
  fixes w :: u32
  obtains "unat w < 2 ^ 31" and "sint w = int (unat w)" | "2 ^ 31 \<le> unat w" and "sint w < 0"
proof (cases "unat w < 2 ^ 31")
  case True
  moreover have "sint w = signed_take_bit 31 (int (unat w))" by (simp add: sint_uint)
  moreover have "signed_take_bit 31 (int (unat w)) = int (unat w)"
    using True by (intro signed_take_bit_int_eq_self) (simp_all del: of_nat_unat)
  ultimately show ?thesis using that(1) by simp
next
  case False
  have "signed_take_bit 31 (int (unat w)) = signed_take_bit 31 (int (unat w) - 2 ^ 32)"
    by (simp add: signed_take_bit_eq_iff_take_bit_eq take_bit_eq_mod)
  moreover have "signed_take_bit 31 (int (unat w) - 2 ^ 32) = int (unat w) - 2 ^ 32"
    using False u32_bound[of w] by (intro signed_take_bit_int_eq_self) (simp_all del: of_nat_unat)
  moreover have "sint w = signed_take_bit 31 (int (unat w))" by (simp add: sint_uint)
  ultimately have "sint w = int (unat w) - 2 ^ 32" by simp
  with False u32_bound[of w] show ?thesis by (intro that(2)) (simp_all del: of_nat_unat)
qed

lemma copy_agree:
  assumes "secure_copy code (rsp_data Rsp) (rsp_dwLength Rsp) (int (unat cap)) r = (Res, d, m, r1)"
    and "direct_copy r Rsp cap = (st, d', n, r2)" and "length Rsp = 2048" and "unat cap < 2 ^ 31"
  shows "g_overrun r1 \<or> r2 = r1 \<and> (Res = code \<and> st = STATUS_SUCCESS \<and> d' = d
    \<or> Res = CJ_ERR_RBUFFER_TO_SMALL \<and> st = STATUS_BUFFER_TOO_SMALL \<and> d' = [])"
proof (cases "rsp_dwLength Rsp" rule: sint_u32_cases)
  case 1
  then show ?thesis using assms
    by (auto simp: secure_copy_def direct_copy_def rsp_data_def word_less_nat_alt not_less
        simp del: of_nat_unat split: if_splits)
next
  case 2
  then show ?thesis using assms
    by (auto simp: secure_copy_def rsp_data_def simp del: of_nat_unat split: if_splits)
qed

lemma Transfer_FindModule: "Transfer r m = (Res, Rsp, r') \<Longrightarrow> FindModule r' = FindModule r"
  by (drule Transfer_modules) (simp add: FindModule_def fun_eq_iff cong: option.case_cong)

definition agree :: "secure_result \<Rightarrow> vendor_result \<Rightarrow> bool" where
  "agree x y = (case x of (Res, d, m, r1) \<Rightarrow> case y of (st, d', n, r2) \<Rightarrow>
     g_overrun r1 \<or> r2 = r1 \<and> (st, d') \<in> set (direct_outcomes Res d))"

lemma agree_if:
  "(c \<Longrightarrow> agree a a') \<Longrightarrow> (\<not> c \<Longrightarrow> agree b b') \<Longrightarrow> agree (if c then a else b) (if c then a' else b')"
  by simp

lemma agree_sw:
  "(st, d') \<in> set (direct_outcomes Res []) \<Longrightarrow> agree (Res, [], m, r) (st, d', n, r)"
  by (simp add: agree_def)

lemma agree_copy:
  assumes "length Rsp = 2048" and "unat cap < 2 ^ 31" and "c = CJ_SUCCESS \<or> c = CJ_ERR_PIN_EXTENDED"
  shows "agree (secure_copy c (rsp_data Rsp) (rsp_dwLength Rsp) (int (unat cap)) r) (direct_copy r Rsp cap)"
proof -
  obtain Res d m r1 where x: "secure_copy c (rsp_data Rsp) (rsp_dwLength Rsp) (int (unat cap)) r = (Res, d, m, r1)"
    by (metis prod_cases4)
  obtain st d' n r2 where y: "direct_copy r Rsp cap = (st, d', n, r2)" by (metis prod_cases4)
  show ?thesis unfolding agree_def x y prod.case
    using copy_agree[OF x y assms(1,2)] assms(3) by (auto simp: direct_outcomes_simps)
qed

lemma agree_error:
  assumes "length Rsp = 2048" and "unat cap < 2 ^ 31" and "rsp_bStatus Rsp AND 0x40 \<noteq> 0"
  shows "agree (secure_error (rsp_bError Rsp) 0 (status_icc (rsp_bStatus Rsp)) (rsp_data Rsp) (rsp_dwLength Rsp)
      (int (unat cap)) r) (direct_answer r CJ_SUCCESS Rsp cap 0)"
proof -
  note copy = agree_copy[OF assms(1,2)]
  have dead: "agree (case status_icc (rsp_bStatus Rsp) of None \<Rightarrow>
        secure_copy CJ_SUCCESS (rsp_data Rsp) (rsp_dwLength Rsp) (int (unat cap)) r
      | Some c \<Rightarrow> (c, [], int (unat cap), r))
     (if rsp_bStatus Rsp AND 2 \<noteq> 0 then (STATUS_NO_MEDIA, [], 0, r)
      else if rsp_bStatus Rsp AND 1 \<noteq> 0 then (STATUS_INVALID_DEVICE_STATE, [], 0, r)
      else direct_copy r Rsp cap)"
    by (simp add: status_icc_def copy agree_sw direct_outcomes_def del: of_nat_unat)
  have top: "direct_answer r CJ_SUCCESS Rsp cap 0 = (let e = rsp_bError Rsp; sw = (\<lambda>a b. (STATUS_SUCCESS, [a, b], 2, r)) in
        if e = XFR_PARITY_ERROR then (STATUS_IO_TIMEOUT, [], 0, r)
         else if e = ICC_MUTE then (STATUS_IO_TIMEOUT, [], 0, r)
         else if e = PIN_TIMEOUT then sw 0x64 0x00
         else if e = PIN_CANCELED then sw 0x64 0x01
         else if e = PIN_DIFFERENT then sw 0x64 0x02
         else if e = EXT_ERROR then direct_copy r Rsp cap
         else if e = 5 then sw 0x6B 0x80
         else if unat e = 21 + 0 then sw 0x64 0x02
         else if unat e = 26 + 0 then sw 0x69 0x85
         else if e = DEACTIVATED_PROTOCOL then
           (if rsp_bStatus Rsp AND 2 \<noteq> 0 then (STATUS_NO_MEDIA, [], 0, r)
            else if rsp_bStatus Rsp AND 1 \<noteq> 0 then (STATUS_INVALID_DEVICE_STATE, [], 0, r)
            else direct_copy r Rsp cap)
         else sw 0x6B 0x80)"
    using assms(3) by (simp only: direct_answer_def Let_def simp_thms if_True if_False)
  show ?thesis unfolding top secure_error_def Let_def
    by (intro agree_if dead copy agree_sw) (simp_all add: direct_outcomes_def)
qed

lemma answers_agree:
  assumes "direct_supported r" and "length Rsp = 2048" and "unat cap < 2 ^ 31"
  shows "agree (ExecuteSecureResult r Rsp (int (unat cap)) 0) (direct_answer r CJ_SUCCESS Rsp cap 0)"
proof -
  obtain Info where "FindModule r MODULE_ID_KERNEL = Some Info"
    "\<not> (mi_Version Info < 0x30 \<or> mi_Version Info = 0x30 \<and> mi_Revision Info < 42)"
    using assms(1) by (auto simp: direct_supported_def split: option.splits)
  moreover from this(2) have "\<not> old_kernel Info"
    by (auto simp: old_kernel_def word_less_nat_alt word_le_nat_alt)
  ultimately have kernel: "ExecuteSecureResult r Rsp (int (unat cap)) 0 =
      (if rsp_bStatus Rsp AND 0x40 \<noteq> 0
       then secure_error (rsp_bError Rsp) 0 (status_icc (rsp_bStatus Rsp)) (rsp_data Rsp) (rsp_dwLength Rsp)
              (int (unat cap)) r
       else secure_copy CJ_SUCCESS (rsp_data Rsp) (rsp_dwLength Rsp) (int (unat cap)) r)"
    by (simp add: ExecuteSecureResult_def)
  show ?thesis
  proof (cases "rsp_bStatus Rsp AND 0x40 \<noteq> 0")
    case True
    then show ?thesis using agree_error[OF assms(2,3) True] by (simp add: kernel del: of_nat_unat)
  next
    case False
    then have "direct_answer r CJ_SUCCESS Rsp cap 0 = direct_copy r Rsp cap"
      by (simp add: direct_answer_def Let_def)
    then show ?thesis using False agree_copy[OF assms(2,3)] by (simp add: kernel del: of_nat_unat)
  qed
qed

text \<open>
  Property C25.  Asking for a PIN through the direct PC/SC function and through the terminal command
  is the same: for a reader whose kernel supports the direct function and without the secure messaging
  module, the structure of PC/SC and the arguments of \<^verbatim>\<open>cjccid_SecurePV\<close> send the same message to the
  reader, leave it in the same state, and report the same data or the status words and codes that
  belong to the same result.  (The only exception are responses with an impossible length, which the
  signed comparison of \<^verbatim>\<open>cjccid_SecurePV\<close> lets through.)
\<close>

theorem pin_paths_agree:
  assumes "card_inv r" and "direct_supported r" and "\<not> module_ready r MODULE_ID_KT_LIGHT_GC"
    and "length (pr_Prologue p) = 3" and "pr_Max p \<le> 15" and "0 < length (pr_out p)" and "length (pr_out p) \<le> 245"
    and "2 \<le> cap" and "unat cap < 2 ^ 31"
    and "SecurePV r p i None (int (unat cap)) = (Res, d, m, r1)"
    and "ccid_IfdVendor r CJPCSC_VEN_IOCTRL_VERIFY_PIN_DIRECT (verify_struct p i) cap = (st, d', n, r2)"
  shows "g_overrun r1 \<or> r2 = r1 \<and> (st, d') \<in> set (direct_outcomes Res d)"
proof -
  let ?m = "secure_message (length (pr_out p) + 15) (verify_data p i)"
  obtain R Rsp rt where t: "Transfer r ?m = (R, Rsp, rt)" by (metis prod_cases3)
  have ul: "unat (le32_at (verify_struct p i) 15) = length (pr_out p)"
    using assms(7) by (simp add: verify_struct_fields(1)[OF assms(4)] unat_of_nat_u32)
  have room: "(cap < 2) = False" using assms(8) by (simp add: leD)
  have p: "p\<lparr>pr_Max := cap15 (pr_Max p)\<rparr> = p" using assms(5) by (simp add: cap15_def not_less)
  have pv: "SecurePV r p i None (int (unat cap)) =
      (if R \<noteq> CJ_SUCCESS then (R, [], int (unat cap), rt) else ExecuteSecureResult rt Rsp (int (unat cap)) 0)"
    using assms(3) t by (simp add: SecurePV_def p ccid_SecurePV_def del: of_nat_unat)
  have direct: "ccid_IfdVendor r CJPCSC_VEN_IOCTRL_VERIFY_PIN_DIRECT (verify_struct p i) cap
      = direct_answer rt R Rsp cap 0"
    using assms(2,3,6,7) t verify_struct_fields(2)[OF assms(4), of i]
    by (simp add: ccid_IfdVendor_def IfdVerifyPinDirect_def Let_def verify_struct_fields(3)[OF assms(4)] ul
        room)
  have frame: "direct_supported rt" "length Rsp = 2048"
    using assms(2) Transfer_card(3)[OF assms(1) t]
    by (simp_all add: direct_supported_def Transfer_FindModule[OF t])
  show ?thesis
  proof (cases "R = CJ_SUCCESS")
    case True
    then have x: "ExecuteSecureResult rt Rsp (int (unat cap)) 0 = (Res, d, m, r1)"
      and y: "direct_answer rt CJ_SUCCESS Rsp cap 0 = (st, d', n, r2)"
      using assms(10,11) pv direct by simp_all
    show ?thesis using answers_agree[OF frame assms(9)] unfolding agree_def x y prod.case .
  next
    case False
    then have "R \<in> {CJ_ERR_DEVICE_LOST, CJ_ERR_SEQ, CJ_ERR_INTERNAL_BUFFER_OVERFLOW}"
      using Transfer_postD[OF card_inv_reader[OF assms(1)] t] by auto
    then show ?thesis using False assms(10,11) unfolding pv direct
      by (elim insertE) (simp_all add: direct_answer_def Let_def direct_outcomes_simps)
  qed
qed

text \<open>A reader with a current kernel, and a PIN request.\<close>

definition kernel_reader :: "bytes option list \<Rightarrow> reader" where
  "kernel_reader i = (reader0 ECA (Some (USB (usb0 i))))\<lparr>m_ModuleInfoCount := 1,
     m_pModuleInfo := Some [(mi_fill 0 0)\<lparr>mi_ID := MODULE_ID_KERNEL, mi_Version := 0x30, mi_Revision := 50\<rparr>]\<rparr>"

definition pin0 :: pin_request where
  "pin0 = \<lparr>pr_Timeout = 15, pr_PinPosition = 0, pr_PinType = 2, pr_PinLengthSize = 0, pr_PinLength = 8,
     pr_PinLengthPosition = 0, pr_Min = 4, pr_Max = 8, pr_Condition = 2, pr_Prologue = [0, 0, 0],
     pr_NumberMessage = 1, pr_out = [0x00, 0x20, 0x00, 0x81, 0x00]\<rparr>"

lemma kernel_reader_ok:
  "card_inv (kernel_reader i)" "modules_inv (kernel_reader i)" "direct_supported (kernel_reader i)"
  "\<not> module_ready (kernel_reader i) MODULE_ID_KT_LIGHT_GC" "m_pCommunicator (kernel_reader i) = Some (USB (usb0 i))"
  "m_SequenceNo (kernel_reader i) = 0" "g_overrun (kernel_reader i) = False"
  using reader0_card(1)[of ECA i]
  by (simp_all add: kernel_reader_def card_inv_def reader_inv_def modules_inv_def direct_supported_def module_ready_def
      FindModule_def reader0_def)

lemma pin_paths_agree_witness:
  "case SecurePV (kernel_reader []) pin0 0 None 100 of (Res, d, m, r1) \<Rightarrow>
     case ccid_IfdVendor (kernel_reader []) CJPCSC_VEN_IOCTRL_VERIFY_PIN_DIRECT (verify_struct pin0 0) 100 of
       (st, d', n, r2) \<Rightarrow> g_overrun r1 \<or> r2 = r1 \<and> (st, d') \<in> set (direct_outcomes Res d)"
proof -
  obtain Res d m r1 where x: "SecurePV (kernel_reader []) pin0 0 None 100 = (Res, d, m, r1)" by (metis prod_cases4)
  obtain st d' n r2 where
    y: "ccid_IfdVendor (kernel_reader []) CJPCSC_VEN_IOCTRL_VERIFY_PIN_DIRECT (verify_struct pin0 0) 100 = (st, d', n, r2)"
    by (metis prod_cases4)
  show ?thesis unfolding x y prod.case
    by (rule pin_paths_agree[OF kernel_reader_ok(1,3,4) _ _ _ _ _ _ _ y]) (use x in \<open>simp_all add: pin0_def\<close>)
qed

section \<open>A PIN verification on the line\<close>

definition secure_frame :: "byte \<Rightarrow> bytes \<Rightarrow> bytes" where
  "secure_frame seq d = PC_TO_RDR_SECURE # le32_bytes (of_nat (length d)) @ [0, seq, 0, 0, 0] @ d"

definition card_block :: "byte \<Rightarrow> u32 \<Rightarrow> bytes \<Rightarrow> bytes" where
  "card_block seq n d = RDR_TO_PC_DATABLOCK # le32_bytes n @ [0, seq, 0, 0, 0] @ d"

lemma length_verify_data:
  "length (pr_Prologue p) = 3 \<Longrightarrow> length (verify_data p i) = length (pr_out p) + 15"
  by (simp add: verify_data_def pin_format_def pin_digits_def)

lemma card_block_response:
  assumes "take (length (card_block q n d)) R = card_block q n d"
  shows "rsp_dwLength R = n" "rsp_bStatus R = 0" "take (length d) (rsp_data R) = d"
proof -
  have h: "R ! i = card_block q n d ! i" if "i < 10" for i
    using take_nth_eq[OF assms, of i] that by (simp add: card_block_def)
  show "rsp_dwLength R = n" "rsp_bStatus R = 0"
    by (simp_all add: rsp_defs h) (simp_all add: card_block_def le32_bytes_def le32_round)
  have "take (length d) (rsp_data R) = drop 10 (take (length (card_block q n d)) R)"
    by (simp add: rsp_data_def drop_take card_block_def)
  also have "\<dots> = d" unfolding assms by (simp add: card_block_def le32_bytes_def)
  finally show "take (length d) (rsp_data R) = d" .
qed

lemma secure_transfer_usb:
  assumes "m_pCommunicator r = Some (USB u)" and "u_devHandle u" and "u_out u = []" and "card_inv r"
    and "length (pr_Prologue p) = 3" and "length (pr_out p) \<le> 245"
    and "u_in u = Some (card_block (m_SequenceNo r) n d) # rest" and "length d \<le> 2038"
  shows "\<exists>R r'. Transfer r (secure_message (length (pr_out p) + 15) (verify_data p i)) = (CJ_SUCCESS, R, r')
     \<and> take (length (card_block (m_SequenceNo r) n d)) R = card_block (m_SequenceNo r) n d
     \<and> m_pCommunicator r' = Some (USB (u\<lparr>u_in := rest,
          u_sent := u_sent u @ [secure_frame (m_SequenceNo r) (verify_data p i)]\<rparr>))"
proof -
  let ?m = "secure_message (length (pr_out p) + 15) (verify_data p i)"
  have dw: "unat (10 + dwLength ?m) = 10 + (length (pr_out p) + 15)"
    using assms(6) by (simp add: secure_message_def unat_word_ariths unat_of_nat take_bit_nat_eq_self)
  then have "unat (10 + dwLength ?m) \<le> GetReadersInputBufferSize r"
    using assms(6) by (simp add: GetReadersInputBufferSize_def split: option.splits)
  moreover have "take (unat (10 + dwLength ?m)) (message_bytes (m_SequenceNo r) ?m) =
      secure_frame (m_SequenceNo r) (verify_data p i)"
    unfolding dw using message_bytes_prefix[of "length (pr_out p) + 15" ?m] length_verify_data[OF assms(5), of i]
    by (simp add: secure_message_def secure_frame_def)
  moreover have "answers (m_SequenceNo r) (card_block (m_SequenceNo r) n d)"
    using assms(8) by (simp add: answers_def card_block_def le32_bytes_def)
  moreover have "length (g_stack r) = 2048" using assms(4) by (simp add: card_inv_def reader_inv_def)
  ultimately show ?thesis
    using Transfer_usb_run[OF assms(1-3), of ?m "[]" "card_block (m_SequenceNo r) n d" rest] assms(7) by auto
qed

lemma SecurePV_kernel:
  assumes "direct_supported r" and "\<not> module_ready r MODULE_ID_KT_LIGHT_GC"
    and "Transfer r (secure_message (length (pr_out p) + 15) (verify_data (p\<lparr>pr_Max := cap15 (pr_Max p)\<rparr>) i))
      = (CJ_SUCCESS, R, r')" and "rsp_bStatus R = 0"
  shows "SecurePV r p i None in_len = secure_copy CJ_SUCCESS (rsp_data R) (rsp_dwLength R) in_len r'"
proof -
  obtain Info where "FindModule r MODULE_ID_KERNEL = Some Info"
    using assms(1) by (auto simp: direct_supported_def split: option.splits)
  then show ?thesis using assms
    by (simp add: SecurePV_def ccid_SecurePV_def ExecuteSecureResult_def ccid_ExecuteSecureResult_def
        Transfer_FindModule[OF assms(3)] status_icc_def Let_def)
qed

text \<open>
  Property C26.  A PIN verification over USB: exactly one secure command goes to the reader, it carries
  the format description and, unchanged at its end, the command template of the caller, and the answer of
  the card in the response is handed over byte by byte.
\<close>

theorem SecurePV_exchange:
  assumes "m_pCommunicator r = Some (USB u)" and "u_devHandle u" and "u_out u = []" and "card_inv r"
    and "length (pr_Prologue p) = 3" and "length (pr_out p) \<le> 245"
    and "u_in u = Some (card_block (m_SequenceNo r) (of_nat (length ans)) ans) # rest" and "length ans \<le> 260"
    and "direct_supported r" and "\<not> module_ready r MODULE_ID_KT_LIGHT_GC"
  shows "\<exists>r'. SecurePV r p i None 260 = (CJ_SUCCESS, ans, int (length ans), r') \<and> g_overrun r' = g_overrun r
     \<and> m_pCommunicator r' = Some (USB (u\<lparr>u_in := rest,
          u_sent := u_sent u @ [secure_frame (m_SequenceNo r) (verify_data (p\<lparr>pr_Max := cap15 (pr_Max p)\<rparr>) i)]\<rparr>))"
proof -
  let ?p = "p\<lparr>pr_Max := cap15 (pr_Max p)\<rparr>" and ?n = "of_nat (length ans) :: u32"
  obtain R r' where t: "Transfer r (secure_message (length (pr_out ?p) + 15) (verify_data ?p i)) = (CJ_SUCCESS, R, r')"
    "take (length (card_block (m_SequenceNo r) ?n ans)) R = card_block (m_SequenceNo r) ?n ans"
    "m_pCommunicator r' = Some (USB (u\<lparr>u_in := rest,
          u_sent := u_sent u @ [secure_frame (m_SequenceNo r) (verify_data ?p i)]\<rparr>))"
    using secure_transfer_usb[OF assms(1-4), of ?p ?n ans rest i] assms(5-8) by auto
  note rs = card_block_response[OF t(2)]
  have n: "unat ?n = length ans" using assms(8) by (simp add: unat_of_nat_u32)
  have s: "sint ?n = int (length ans)"
    by (cases ?n rule: sint_u32_cases) (use n assms(8) in simp_all)
  have "length R = 2048" "g_overrun r' = g_overrun r"
    using Transfer_frame(4,7)[OF card_inv_reader[OF assms(4)] t(1)] by simp_all
  then have "SecurePV r p i None 260 = (CJ_SUCCESS, ans, int (length ans), r'\<lparr>g_overrun := g_overrun r'\<rparr>)"
    using SecurePV_kernel[OF assms(9,10) _ rs(2), of p i r' 260] t(1) rs n s assms(8)
    by (simp add: secure_copy_def) (simp add: rsp_data_def)
  then show ?thesis using t(3) \<open>g_overrun r' = g_overrun r\<close> by simp
qed

lemma SecurePV_exchange_witness:
  "\<exists>r'. SecurePV (kernel_reader [Some (card_block 0 2 [0x90, 0x00])]) pin0 0 None 260 = (CJ_SUCCESS, [0x90, 0x00], 2, r')"
proof -
  have "\<exists>r'. SecurePV (kernel_reader [Some (card_block 0 2 [0x90, 0x00])]) pin0 0 None 260
      = (CJ_SUCCESS, [0x90, 0x00], int (length [0x90, 0x00 :: byte]), r')"
    using SecurePV_exchange[OF kernel_reader_ok(5) _ _ kernel_reader_ok(1) _ _ _ _ kernel_reader_ok(3,4),
        of "[Some (card_block 0 2 [0x90, 0x00])]" pin0 "[0x90, 0x00]" "[]" 0]
    by (auto simp: usb0_def pin0_def kernel_reader_ok(6))
  then show ?thesis by simp
qed

text \<open>
  The length test of \<^verbatim>\<open>ExecuteSecureResult\<close> is signed: a response that announces \<open>2\<^sup>3\<^sup>1\<close> bytes or
  more passes it, the copy leaves the buffers, and the call reports success with a negative length.
\<close>

theorem SecurePV_negative_length:
  assumes "m_pCommunicator r = Some (USB u)" and "u_devHandle u" and "u_out u = []" and "card_inv r"
    and "length (pr_Prologue p) = 3" and "length (pr_out p) \<le> 245"
    and "u_in u = Some (card_block (m_SequenceNo r) n []) # rest" and "2 ^ 31 \<le> unat n"
    and "direct_supported r" and "\<not> module_ready r MODULE_ID_KT_LIGHT_GC"
    and "SecurePV r p i None 260 = (Res, d, m, r')"
  shows "Res = CJ_SUCCESS \<and> m < 0 \<and> g_overrun r'"
proof -
  let ?p = "p\<lparr>pr_Max := cap15 (pr_Max p)\<rparr>"
  obtain R r1 where t: "Transfer r (secure_message (length (pr_out ?p) + 15) (verify_data ?p i)) = (CJ_SUCCESS, R, r1)"
    "take (length (card_block (m_SequenceNo r) n [])) R = card_block (m_SequenceNo r) n []"
    using secure_transfer_usb[OF assms(1-4), of ?p n "[]" rest i] assms(5-7) by auto
  note rs = card_block_response[OF t(2)]
  have s: "sint n < 0" by (cases n rule: sint_u32_cases) (use assms(8) in simp_all)
  have "260 < int (unat n)" using assms(8) by (simp del: of_nat_unat)
  then show ?thesis
    using SecurePV_kernel[OF assms(9,10) _ rs(2), of p i r1 260] t(1) rs s assms(11)
    by (auto simp: secure_copy_def simp del: of_nat_unat)
qed

lemma SecurePV_negative_length_witness:
  "g_overrun (snd (snd (snd (SecurePV (kernel_reader [Some (card_block 0 0x80000000 [])]) pin0 0 None 260))))"
proof -
  let ?i = "[Some (card_block 0 0x80000000 [])]"
  obtain Res d m r' where e: "SecurePV (kernel_reader ?i) pin0 0 None 260 = (Res, d, m, r')" by (metis prod_cases4)
  have "g_overrun r'"
    using SecurePV_negative_length[where r = "kernel_reader ?i" and u = "usb0 ?i" and p = pin0 and n = "0x80000000"
        and rest = "[]" and i = 0] e
    by (simp add: kernel_reader_ok) (simp add: usb0_def pin0_def)
  then show ?thesis by (simp add: e)
qed

end
