(* ===== verification/CJ_Card.thy ===== *)
theory CJ_Card
  imports CJ_Secure
begin

text \<open>
  What the card functions (power, protocol selection, slot state, transmission) leave alone: the class
  of the reader, the module table and the settings of the client; the ghost flag is never cleared.
  With the invariant of the reader object this gives one contract for all of them, on which the command
  interpreter and the interface of the library rest.
\<close>

section \<open>The frame\<close>

definition frame :: "reader \<Rightarrow> reader \<Rightarrow> bool" where
  "frame r r' \<longleftrightarrow> m_class r' = m_class r \<and> m_pModuleInfo r' = m_pModuleInfo r
     \<and> m_ModuleInfoCount r' = m_ModuleInfoCount r \<and> m_ApduNorm r' = m_ApduNorm r
     \<and> m_KeyIntCallback r' = m_KeyIntCallback r \<and> m_ChangeIntCallback r' = m_ChangeIntCallback r
     \<and> environment r' = environment r \<and> g_events r' = g_events r \<and> (g_overrun r \<longrightarrow> g_overrun r')"

lemma frame_refl [simp]: "frame r r"
  by (simp add: frame_def)

lemma frame_trans: "frame r1 r2 \<Longrightarrow> frame r2 r3 \<Longrightarrow> frame r1 r3"
  by (simp add: frame_def)

lemma Transfer_core: "Transfer r m = (Res, Rsp, r') \<Longrightarrow> frame r r'"
  by (auto simp: Transfer_def reader_Write_def ConnectionError_def transfer_status_def Let_def frame_def
      split: option.splits prod.splits if_splits)

lemma power_down_core: "frame r (snd (power_down r t))"
proof -
  obtain Res Rsp r1 where t: "Transfer r (power_message PC_TO_RDR_ICCPOWEROFF t) = (Res, Rsp, r1)"
    by (metis prod_cases3)
  then have "snd (ec30_power_down r t) = r1" by (simp add: ec30_power_down_def)
  then have "snd (power_down r t) = r1 \<or> snd (power_down r t) = r1\<lparr>m_bIsRF := False\<rparr>"
    by (auto simp: power_down_def split: prod.splits)
  then show ?thesis using Transfer_core[OF t] by (auto simp: frame_def)
qed

lemma power_down_core': "power_down r t = (st, r') \<Longrightarrow> frame r r'"
  using power_down_core[of r t] by simp

lemma SetSync_core: "frame r (snd (SetSyncParameters r n p))"
  by (auto simp: SetSyncParameters_def split: prod.splits dest: Transfer_core)

lemma frame_step: "frame r0 r \<Longrightarrow> frame r r' \<Longrightarrow> frame r0 r'"
  by (rule frame_trans)

lemma decide_sync_core: "frame r (decide_sync r)"
proof -
  have g: "frame r (iic_geometry r)" for r by (simp add: iic_geometry_def frame_def Let_def)
  have f: "frame r (r\<lparr>m_Historical_Length := h, m_PossibleProtocols := p, m_ActiveProtocol := a, m_ReaderState := s\<rparr>)"
    "frame r (r\<lparr>m_Historical_Length := h, m_Historical := hi, m_PossibleProtocols := p, m_ActiveProtocol := a, m_ReaderState := s\<rparr>)"
    for r h p a s hi
    by (simp_all add: frame_def)
  show ?thesis unfolding decide_sync_def Let_def
    by (auto intro: frame_trans[OF _ SetSync_core] f frame_trans[OF f(1) g])
qed

lemma decide_async_core: "frame r (snd (decide_async r ap))"
  by (simp add: decide_async_def Let_def frame_def)

lemma AnalyseATR_core: "frame r (snd (AnalyseATR r warm))"
proof -
  let ?r0 = "atr_reset r"
  obtain chk hist hlen where c: "check_len (atr_at ?r0) (m_ATR_Length ?r0) = (chk, hist, hlen)"
    by (metis prod_cases3)
  let ?ap = "if chk = 1 then scan_ATR (atr_at ?r0) (m_ApduNorm ?r0) warm else atr_defaults"
  define r1 where "r1 = ?r0\<lparr>m_Historical_Length := hlen,
                       m_Historical := (case hist of Some h \<Rightarrow> Some h | None \<Rightarrow> m_Historical ?r0)\<rparr>"
  define r2 where "r2 = (if chk = 1 then r1\<lparr>m_TA1 := ap_TA1 ?ap, m_TC1 := ap_TC1 ?ap, m_TC2 := ap_TC2 ?ap,
                       m_TA3 := ap_TA3 ?ap, m_TB3 := ap_TB3 ?ap, m_TC3 := ap_TC3 ?ap\<rparr> else r1)"
  have 0: "frame r ?r0" by (simp add: frame_def atr_reset_def)
  have 2: "frame r r2" using 0 by (simp add: frame_def r2_def r1_def)
  show ?thesis
    unfolding AnalyseATR_def Let_def c prod.case r1_def[symmetric] r2_def[symmetric]
    using frame_trans[OF 0 decide_sync_core] frame_trans[OF 2 decide_sync_core] frame_trans[OF 2 decide_async_core]
      frame_trans[OF frame_trans[OF 2 power_down_core] decide_sync_core]
    by auto
qed

lemma power_loop_core: "power_loop r t first = (Res, atr, n, r') \<Longrightarrow> frame r r'"
proof (induction r t first arbitrary: Res atr n r' rule: power_loop.induct)
  case (1 r t first)
  obtain R1 Rsp r1 where t: "Transfer r (power_message PC_TO_RDR_ICCPOWERON t) = (R1, Rsp, r1)"
    by (metis prod_cases3)
  define m where "m = min (unat (rsp_dwLength Rsp)) 33"
  define a where "a = take m (rsp_data Rsp)"
  define r2 where "r2 = r1\<lparr>m_ATR_Length := m, m_ATR := overlay 0 a (m_ATR r1)\<rparr>"
  obtain e r3 where an: "AnalyseATR r2 (\<not> first) = (e, r3)" by fastforce
  have f1: "frame r r1" by (rule Transfer_core[OF t])
  have "frame r r2" using f1 by (simp add: frame_def r2_def)
  then have f3: "frame r r3" using AnalyseATR_core[of r2 "\<not> first"] an frame_trans by fastforce
  have eq: "power_loop r t first = (if R1 = CJ_SUCCESS then
      (if rsp_bMessageType Rsp \<noteq> RDR_TO_PC_DATABLOCK then (STATUS_DEVICE_NOT_CONNECTED, [], 0, r1)
       else if rsp_bStatus Rsp AND 0x40 \<noteq> 0 then (power_error (rsp_bError Rsp), [], 0, r1)
       else if e = 1 then power_loop r3 t False else (STATUS_SUCCESS, a, m, r3))
      else (STATUS_DEVICE_NOT_CONNECTED, [], 0, r1))"
    by (subst power_loop.simps) (simp add: t an m_def[symmetric] a_def[symmetric] r2_def[symmetric] Let_def)
  show ?case
  proof (cases "R1 = CJ_SUCCESS \<and> rsp_bMessageType Rsp = RDR_TO_PC_DATABLOCK \<and> rsp_bStatus Rsp AND 0x40 = 0 \<and> e = 1")
    case True
    then have "power_loop r3 t False = (Res, atr, n, r')" using "1.prems" eq by simp
    then have "frame r3 r'"
      using "1.IH"[OF t[symmetric] refl _ _ _ m_def a_def r2_def an[symmetric]] True by simp
    then show ?thesis using f3 frame_trans by blast
  next
    case False
    then show ?thesis using "1.prems" eq f1 f3 by (auto split: if_splits)
  qed
qed

lemma ec30_IfdPower_core: "ec30_IfdPower r Mode orig t = (Res, atr, n, r') \<Longrightarrow> frame r r'"
proof -
  have "ec30_power_down r t = (st, r1) \<Longrightarrow> frame r r1" for st r1
    by (auto simp: ec30_power_down_def split: prod.splits if_splits dest: Transfer_core)
  then show "ec30_IfdPower r Mode orig t = (Res, atr, n, r') \<Longrightarrow> frame r r'"
    by (auto simp: ec30_IfdPower_def split: if_splits prod.splits
        dest!: power_loop_core intro: frame_trans[OF power_down_core])
qed

lemma ecr_finish_core: "ecr_finish r Result orig atr n = (Res, atr', n', r') \<Longrightarrow> frame r r'"
  by (auto simp: ecr_finish_def ecr_tck_def Let_def frame_def split: if_splits)

lemma ecr_typeA_core: "ecr_typeA r Result orig atr n = (Res, atr', n', r') \<Longrightarrow> frame r r'"
proof -
  let ?r = "r\<lparr>m_SerialNumber := take (m_ATR_Length r - 3) (drop 3 (m_ATR r))\<rparr>"
  have s: "frame r ?r" by (simp add: frame_def)
  have st: "frame r0 (ecr_storage_atr r0)" "frame r0 (ecr_ats_atr r0 d)" for r0 d
    by (simp_all add: ecr_storage_atr_def ecr_ats_atr_def frame_def Let_def)
  obtain R1 Rsp r1 where t: "Transfer ?r (ccid_msg PC_TO_RDR_SETPARAMETERS 0 [3, 0, 0] []) = (R1, Rsp, r1)"
    by (metis prod_cases3)
  have f1: "frame r r1" using s Transfer_core[OF t] frame_trans by blast
  have f2: "frame r (r1\<lparr>m_ATR := a\<rparr>)" for a using f1 by (simp add: frame_def)
  have fin: "ecr_finish q Result orig atr n = (Res, atr', n', r') \<Longrightarrow> frame r q \<Longrightarrow> frame r r'" for q
    using ecr_finish_core frame_trans by blast
  assume "ecr_typeA r Result orig atr n = (Res, atr', n', r')"
  then show ?thesis
    using t f1 f2 fin[of "ecr_storage_atr ?r"] fin[of "ecr_ats_atr r1 (rsp_data Rsp)"]
      frame_trans[OF s st(1)] frame_trans[OF f1 st(2)]
    unfolding ecr_typeA_def Let_def by (auto simp: Let_def split: if_splits)
qed

lemma ecr_typeB_core: "ecr_typeB r Result orig atr n = (Res, atr', n', r') \<Longrightarrow> frame r r'"
  unfolding ecr_typeB_def by (drule ecr_finish_core) (simp add: frame_def)

lemma IfdPower_core: "IfdPower r Mode orig t = (Res, atr, n, r') \<Longrightarrow> frame r r'"
proof -
  have "frame r (r1\<lparr>m_bIsRF := False\<rparr>)" if "frame r r1" for r1 using that by (simp add: frame_def)
  then show "IfdPower r Mode orig t = (Res, atr, n, r') \<Longrightarrow> frame r r'"
    by (auto simp: IfdPower_def eca_IfdPower_def ecr_IfdPower_def Let_def split: if_splits prod.splits
        dest!: ec30_IfdPower_core ecr_typeA_core ecr_typeB_core intro: frame_trans)
qed

lemma ccid_IfdSetProtocol_core: "ccid_IfdSetProtocol r P = (Res, Q, r') \<Longrightarrow> frame r r'"
  by (auto simp: ccid_IfdSetProtocol_def Let_def split: if_splits prod.splits option.splits dest!: Transfer_core)
    (auto simp: frame_def)

lemma IfdSetProtocol_core: "IfdSetProtocol r P = (Res, Q, r') \<Longrightarrow> frame r r'"
  by (auto simp: IfdSetProtocol_def ecr_IfdSetProtocol_def Let_def frame_def split: if_splits
      dest!: ccid_IfdSetProtocol_core)

lemma IfdGetState_core: "IfdGetState r = (st, State, r') \<Longrightarrow> frame r r'"
  by (auto simp: IfdGetState_def split: if_splits prod.splits dest!: Transfer_core) (auto simp: frame_def)

section \<open>Transmission\<close>

lemma ccidTransmit_core: "ccidTransmit r cmd cap = (Res, d, n, r') \<Longrightarrow> frame r r'"
  by (auto simp: ccidTransmit_def split: if_splits prod.splits
      dest!: Transfer_core intro: frame_trans[OF _ power_down_core]) (auto simp: frame_def)


definition inner_frame :: "reader \<Rightarrow> (bytes \<times> nat \<times> reader) + (ifd_result \<times> bool \<times> reader) \<Rightarrow> bool" where
  "inner_frame r res = (case res of Inl (_, _, r') \<Rightarrow> frame r r' | Inr (_, _, r') \<Rightarrow> frame r r')"

lemma inner_frame_simps [simp]:
  "inner_frame r (Inl (x, y, r')) = frame r r'" "inner_frame r (Inr (u, z, r')) = frame r r'"
  by (simp_all add: inner_frame_def)

lemma inner_frame_trans: "frame r1 r2 \<Longrightarrow> inner_frame r2 res \<Longrightarrow> inner_frame r1 res"
  by (auto simp: inner_frame_def intro: frame_trans split: sum.splits prod.splits)

lemma t0_inner_core: "inner_frame r (t0_inner r head Le rb rlen)"
proof (induction r head Le rb rlen rule: t0_inner.induct)
  case (1 r head Le rb rlen)
  show ?case
  proof (cases "rlen = 2 \<and> rb ! 0 = 0x6C")
    case False
    then show ?thesis using t0_inner_stop[OF False] by simp
  next
    case True
    obtain Res d n r1 where t: "ccidTransmit r (head @ [rb ! 1]) 258 = (Res, d, n, r1)" by (metis prod_cases4)
    note f = ccidTransmit_core[OF t]
    note IH = "1.IH"[OF True refl t[symmetric] refl refl _ refl refl, THEN inner_frame_trans[OF f]]
    show ?thesis
      using t0_inner_go[of rb r head Res d n r1 Le] True t f IH by (auto split: if_splits)
  qed
qed

lemma t0_chain_core: "t0_chain r head rb rlen out ges_len cap = (Res, d, n, r') \<Longrightarrow> frame r r'"
proof (induction r head rb rlen out ges_len cap arbitrary: Res d n r' rule: t0_chain.induct)
  case (1 r head rb rlen out ges_len cap)
  show ?case
  proof (cases "rb_at r rb (rlen - 2) = 0x61")
    case False
    then show ?thesis using "1.prems" by (auto simp: t0_chain.simps[of r])
  next
    case True
    let ?Le = "rb_at r rb (rlen - 1)"
    let ?rb1 = "overlay 0 [0x6C, ?Le] rb"
    note fi = t0_inner_core[of r head ?Le ?rb1 2]
    show ?thesis
    proof (cases "t0_inner r head ?Le ?rb1 2")
      case (Inr e)
      then show ?thesis using "1.prems" True fi by (cases e) (simp add: t0_chain.simps[of r])
    next
      case (Inl x)
      obtain rb2 rlen2 r1 where x: "x = (rb2, rlen2, r1)" by (metis prod_cases3)
      have f1: "frame r r1" using fi Inl x by simp
      note IH = "1.IH"[OF True refl refl Inl x[symmetric] refl _ refl refl]
      show ?thesis
      proof (cases "unat ges_len + rlen2 > unat cap \<or> m_ApduNorm r1 = NORM_PCSC")
        case True
        then show ?thesis using "1.prems" \<open>rb_at r rb (rlen - 2) = 0x61\<close> Inl x f1
          by (auto simp: t0_chain.simps[of r] Let_def split: if_splits)
      next
        case False
        then have "frame r1 r'"
          using "1.prems" \<open>rb_at r rb (rlen - 2) = 0x61\<close> Inl x IH by (simp add: t0_chain.simps[of r] Let_def)
        then show ?thesis using f1 frame_trans by blast
      qed
    qed
  qed
qed

definition fetch_frame :: "reader \<Rightarrow> (bytes \<times> u32 \<times> reader) + (ifd_result \<times> reader) \<Rightarrow> bool" where
  "fetch_frame r res = (case res of Inl (_, _, r') \<Rightarrow> frame r r' | Inr (_, r') \<Rightarrow> frame r r')"

lemma fetch_frame_trans: "frame r1 r2 \<Longrightarrow> fetch_frame r2 res \<Longrightarrow> fetch_frame r1 res"
  by (auto simp: fetch_frame_def intro: frame_trans split: sum.splits prod.splits)

lemma t0_fetch_core: "fetch_frame r (t0_fetch r l rb rptr rlen rest tot)"
proof (induction r l rb rptr rlen rest tot rule: t0_fetch.induct)
  case (1 r l rb rptr rlen rest tot)
  let ?p = "rptr + rlen - 2"
  let ?Le = "if l < rb_at r rb (?p + rlen - 1) \<and> l \<noteq> 0 then l else rb_at r rb (?p + 1)"
  obtain Res d n r1 where t: "ccidTransmit r [0x00, 0xC0, 0x00, 0x00, ?Le] (ucast rest) = (Res, d, n, r1)"
    by (metis prod_cases4)
  note f = ccidTransmit_core[OF t]
  show ?case
  proof (cases "rlen \<ge> 2 \<and> (rb_at r rb ?p = 0x61 \<or> rb_at r rb ?p = 0x6C)")
    case False
    then show ?thesis by (simp only: t0_fetch_stop[OF False]) (simp add: fetch_frame_def)
  next
    case True
    note IH = "1.IH"[OF True refl refl t[symmetric] refl refl, THEN fetch_frame_trans[OF f]]
    show ?thesis
    proof (cases "Res = STATUS_SUCCESS")
      case False
      then show ?thesis using f by (simp only: t0_fetch_go[OF True t]) (simp add: fetch_frame_def)
    next
      case ok: True
      then show ?thesis using IH by (simp only: t0_fetch_go[OF True t]) simp
    qed
  qed
qed

lemma t0_deliver_core: "fetch_frame r res \<Longrightarrow> t0_deliver res cap = (Res, d, n, r') \<Longrightarrow> frame r r'"
  by (auto simp: t0_deliver_def fetch_frame_def split: sum.splits prod.splits if_splits)

lemma t0_case4_core: "t0_case4 r cmd cap = (Res, d, n, r') \<Longrightarrow> frame r r'"
proof -
  assume c: "t0_case4 r cmd cap = (Res, d, n, r')"
  obtain R1 d1 n1 r1 where t: "ccidTransmit r (butlast cmd) 258 = (R1, d1, n1, r1)" by (metis prod_cases4)
  note f1 = ccidTransmit_core[OF t]
  have go: "t0_deliver (t0_fetch q l rb p k rs ts) cap = (Res, d, n, r') \<Longrightarrow> frame r q \<Longrightarrow> frame r r'"
    for q l rb p k rs ts
    using t0_deliver_core[OF t0_fetch_core] frame_trans by blast
  show ?thesis using c t f1
    by (auto simp: t0_case4_def Let_def split: if_splits prod.splits
        dest!: ccidTransmit_core intro: frame_trans elim!: go)
qed

lemma IfdTransmit_raw_core: "IfdTransmit_raw r cmd cap = (Res, d, n, r') \<Longrightarrow> frame r r'"
proof -
  have info: "ec30_info r c cap = Some (Res, d, n, r') \<Longrightarrow> frame r r'" for c
    by (auto simp: ec30_info_def info_answer_def Let_def split: if_splits)
  have e: "ec30_IfdTransmit_raw r cmd cap = (Res, d, n, r') \<Longrightarrow> frame r r'"
    by (auto simp: ec30_IfdTransmit_raw_def t0_case2_def split: if_splits option.splits
        dest: info ccidTransmit_core t0_chain_core t0_case4_core)
  have p: "pid_answer x r cmd cap = (Res, d, n, r') \<Longrightarrow> frame r r'" for x
    using e by (auto simp: pid_answer_def info_answer_def split: if_splits)
  have g: "ecr_get_data r src le cap = (Res, d, n, r') \<Longrightarrow> frame r r'" for src le
    by (auto simp: ecr_get_data_def Let_def frame_def split: if_splits)
  show "IfdTransmit_raw r cmd cap = (Res, d, n, r') \<Longrightarrow> frame r r'"
    by (auto simp: IfdTransmit_raw_def ecr_IfdTransmit_raw_def ecp_IfdTransmit_raw_def sec_IfdTransmit_raw_def
        info_answer_def split: if_splits dest: e p g)
qed

section \<open>The contract of all functions\<close>

definition kept :: "reader \<Rightarrow> reader \<Rightarrow> bool" where
  "kept r r' \<longleftrightarrow> (card_inv r \<longrightarrow> card_inv r' \<and> m_class r' = m_class r \<and> (modules_inv r \<longrightarrow> modules_inv r')
     \<and> (g_overrun r \<longrightarrow> g_overrun r')) \<and> same_settings r r'"

lemma kept_trans: "kept r1 r2 \<Longrightarrow> kept r2 r3 \<Longrightarrow> kept r1 r3"
  by (auto simp: kept_def same_settings_def)

lemma keptI_sound: "sound r r' \<Longrightarrow> same_settings r r' \<Longrightarrow> kept r r'"
  by (auto simp: kept_def sound_def)

lemma keptI_frame: "frame r r' \<Longrightarrow> (card_inv r \<Longrightarrow> card_inv r') \<Longrightarrow> kept r r'"
  by (auto simp: kept_def frame_def same_settings_def modules_inv_def)

lemma kept_updates:
  "kept r r" "kept r (r\<lparr>m_pCommunicator := None\<rparr>)" "kept r (r\<lparr>g_overrun := g_overrun r \<or> c\<rparr>)"
  "kept r (r\<lparr>ifd_in_buffer_len := k\<rparr>)" "kept r (r\<lparr>cmd_buffer_len := l\<rparr>)" "kept r (r\<lparr>m_ReaderInfo := i\<rparr>)"
  "kept r (r\<lparr>m_pApplicationResponse := buf\<rparr>)" "kept r (r\<lparr>m_ModuleInfoCount := 0\<rparr>)"
  "kept r (r\<lparr>m_iic_offset_bytes := ob, m_iic_pagesize := pg\<rparr>)"
  by (simp_all add: kept_def same_settings_def modules_inv_def card_inv_def reader_inv_def)

lemma kept_modules: "length l \<le> 33 \<Longrightarrow> kept r (r\<lparr>m_ModuleInfoCount := length l, m_pModuleInfo := Some l\<rparr>)"
  by (simp add: kept_def same_settings_def modules_inv_def card_inv_def reader_inv_def)

interpretation kept: secure_client kept
proof
  show "Escape r app f d arg = (Res, Result, out, n, r') \<Longrightarrow> kept r r'" for r app f d arg Res Result out n r'
    by (rule keptI_sound) (erule Escape_keeps Escape_settings)+
  show "Transfer r m = (Res, Rsp, r') \<Longrightarrow> kept r r'" for r m Res Rsp r'
    by (rule keptI_sound) (erule Transfer_keeps Transfer_settings)+
qed (blast intro: kept_trans kept_updates kept_modules)+

lemma one_bit:
  fixes p :: "'a::len word"
  assumes "2 ^ k AND p \<noteq> 0"
  shows "2 ^ k AND p = 2 ^ k"
proof -
  have "bit p k" using assms and_exp_eq_0_iff_not_bit[of p k] by (simp add: and.commute)
  then show ?thesis by (intro bit_word_eqI) (auto simp: bit_simps)
qed

lemma protocol_bits:
  "1 AND p \<noteq> 0 \<Longrightarrow> 1 AND p = 1" "2 AND p \<noteq> 0 \<Longrightarrow> 2 AND p = 2" for p :: u32
  using one_bit[of 0 p] one_bit[of 1 p] by simp_all

lemma kept_power_down: "kept r (snd (power_down r t))"
  by (rule keptI_frame[OF power_down_core]) (simp add: power_down_card)

lemma kept_power: "IfdPower r Mode orig t = (Res, atr, n, r') \<Longrightarrow> kept r r'"
  by (rule keptI_frame[OF IfdPower_core]) (auto dest: IfdPower_card)

lemma IfdGetState_card: "IfdGetState r = (st, State, r') \<Longrightarrow> card_inv r \<Longrightarrow> card_inv r'"
  by (auto simp: IfdGetState_def card_inv_updates split: if_splits prod.splits dest: Transfer_card)

lemma kept_state: "IfdGetState r = (st, State, r') \<Longrightarrow> kept r r'"
  by (rule keptI_frame[OF IfdGetState_core]) (auto dest: IfdGetState_card)

lemma card_inv_select:
  assumes "card_inv r" and "a = 1 \<or> a = 2" and "m_PossibleProtocols r AND a \<noteq> 0"
  shows "card_inv (r\<lparr>m_ActiveProtocol := a, m_ReaderState := s\<rparr>)"
  using assms protocol_bits[of "m_PossibleProtocols r"]
  by (auto simp: card_inv_def reader_inv_def and.commute)

lemma ccid_IfdSetProtocol_card:
  assumes "ccid_IfdSetProtocol r P = (Res, Q, r')" and "card_inv r"
  shows "card_inv r'"
proof -
  have sel: "card_inv (r1\<lparr>m_ActiveProtocol := if num = 0 then 1 else 2, m_ReaderState := s\<rparr>)"
    if "protocol_message r X = Some (num, m)" "Transfer r m = (R1, Rsp, r1)" for X num m R1 Rsp r1 s
  proof -
    have "m_PossibleProtocols r1 AND (if num = 0 then 1 else 2) \<noteq> 0"
      using that(1) Transfer_frame(5)[OF card_inv_reader[OF assms(2)] that(2)]
      by (auto simp: protocol_message_def Let_def split: if_splits)
    then show ?thesis
      by (intro card_inv_select[OF Transfer_card(1)[OF assms(2) that(2)]]) auto
  qed
  have sel1: "protocol_message r X = Some (0, m) \<Longrightarrow> Transfer r m = (R1, Rsp, r1) \<Longrightarrow>
      card_inv (r1\<lparr>m_ActiveProtocol := 1, m_ReaderState := s\<rparr>)" for X m R1 Rsp r1 s
    using sel[of X 0 m R1 Rsp r1 s] by simp
  have sel2: "protocol_message r X = Some (num, m) \<Longrightarrow> num \<noteq> 0 \<Longrightarrow> Transfer r m = (R1, Rsp, r1) \<Longrightarrow>
      card_inv (r1\<lparr>m_ActiveProtocol := 2, m_ReaderState := s\<rparr>)" for X num m R1 Rsp r1 s
    using sel[of X num m R1 Rsp r1 s] by simp
  show ?thesis
    using assms
    by (auto intro: sel1 sel2 simp: ccid_IfdSetProtocol_def Let_def split: if_splits prod.splits option.splits
        dest: Transfer_card(1)[OF assms(2)])
qed

lemma kept_protocol: "IfdSetProtocol r P = (Res, Q, r') \<Longrightarrow> kept r r'"
proof (rule keptI_frame[OF IfdSetProtocol_core], assumption)
  assume "IfdSetProtocol r P = (Res, Q, r')" and "card_inv r"
  then show "card_inv r'"
    by (auto simp: IfdSetProtocol_def ecr_IfdSetProtocol_def Let_def split: if_splits
        intro: card_inv_select dest: ccid_IfdSetProtocol_card)
qed

lemma kept_transmit: "IfdTransmit_raw r cmd cap = (Res, d, n, r') \<Longrightarrow> kept r r'"
  using IfdTransmit_raw_post[of r cmd cap]
  by (intro keptI_frame[OF IfdTransmit_raw_core]) (auto simp: raw_post_def)

lemma kept_sync: "kept r (snd (SetSyncParameters r n p))"
  by (rule keptI_frame[OF SetSync_core]) (simp add: SetSyncParameters_card)

end
