(* ===== verification/CJ_Terminal.thy ===== *)
theory CJ_Terminal
  imports CJ_Card
begin

text \<open>
  The CT-BCS command interpreter of \<^verbatim>\<open>cjeca32/CCIDReader.cpp\<close> (\<^verbatim>\<open>CtData\<close> and \<^verbatim>\<open>_CtData\<close>): the command
  format, the file system of the terminal, reset, request and eject of a card, the terminal status,
  input and output, PIN verification and modification, and the transport of commands to the card.
\<close>

section \<open>State and results\<close>

text \<open>The reader object with the fields only the interpreter uses.\<close>

record terminal =
  t_reader :: reader
  m_reader_path :: bytes
  m_reader_path_len :: nat
  m_reader_file :: bytes
  m_iic_deviceaddr :: byte

definition upd :: "terminal \<Rightarrow> reader \<Rightarrow> terminal" where
  "upd t r = t\<lparr>t_reader := r\<rparr>"

text \<open>
  The result of a command: the return value, \<^verbatim>\<open>*sad\<close>, \<^verbatim>\<open>*dad\<close>, the bytes stored in \<^verbatim>\<open>response\<close>, \<^verbatim>\<open>*lenr\<close> and
  the state.  Commands to the terminal are answered with source 1 and destination 2.
\<close>

type_synonym ct_result = "int \<times> byte \<times> byte \<times> bytes \<times> u16 \<times> terminal"

definition answer :: "bytes \<Rightarrow> terminal \<Rightarrow> ct_result" where
  "answer d t = (0, 1, 2, d, of_nat (length d), t)"

definition sw :: "byte \<Rightarrow> byte \<Rightarrow> terminal \<Rightarrow> ct_result" where
  "sw a b t = answer [a, b] t"

definition ct_error :: "int \<Rightarrow> u16 \<Rightarrow> terminal \<Rightarrow> ct_result" where
  "ct_error code lenr t = (code, 1, 2, [], lenr, t)"

section \<open>Command format\<close>

text \<open>
  \<^verbatim>\<open>Lc\<close>, the offset of \<^verbatim>\<open>data_ptr\<close> and \<^verbatim>\<open>Le\<close>, each length \<open>-1\<close> if absent; \<open>None\<close> for a wrong length.  The
  source sets \<^verbatim>\<open>Le\<close> to zero for a REQUEST ICC without it only if \<^verbatim>\<open>_LINUX\<close> is defined, which the build
  never does.
\<close>

definition parse_apdu :: "bytes \<Rightarrow> (int \<times> nat \<times> int) option" where
  "parse_apdu cmd =
     (let n = length cmd; c4 = unat (cmd ! 4); w = 256 * unat (cmd ! 5) + unat (cmd ! 6) in
      if n = 5 then Some (-1, 0, int c4)
      else if n = 5 + c4 then Some (int c4, 5, -1)
      else if n = 6 + c4 \<and> c4 \<noteq> 0 then Some (int c4, 5, int (unat (cmd ! (n - 1))))
      else if n \<ge> 7 \<and> c4 = 0 then
        (if n = 7 then Some (-1, 0, int w)
         else if n = 7 + w then Some (int w, 7, -1)
         else if n = 9 + w \<and> w \<noteq> 0
         then Some (int w, 7, int (256 * unat (cmd ! (n - 2)) + unat (cmd ! (n - 1))))
         else None)
      else if n \<noteq> 4 then None else Some (-1, 0, -1))"

text \<open>
  The command lies in \<^verbatim>\<open>cmd_buffer\<close>; a tag whose length exceeds the command reads what an earlier
  command left behind it, which is not known.
\<close>

definition cmd_buf :: "reader \<Rightarrow> bytes \<Rightarrow> bytes" where
  "cmd_buf r cmd = cmd @ map (g_over r) [0..<600]"

definition tag_value :: "bytes \<Rightarrow> nat \<Rightarrow> int \<Rightarrow> byte \<Rightarrow> bytes option" where
  "tag_value buf start len tag = (case GetTag buf start len tag of
      None \<Rightarrow> None | Some (k, n) \<Rightarrow> Some (take n (drop k buf)))"

section \<open>Files of the terminal\<close>

definition path_is :: "terminal \<Rightarrow> bytes \<Rightarrow> bool" where
  "path_is t p \<longleftrightarrow> m_reader_path_len t = length p \<and> take (length p) (m_reader_path t) = p"

definition file_control :: "byte \<Rightarrow> byte \<Rightarrow> bytes" where
  "file_control sz kind = [0, sz, 0, sz, kind, 0, 0, 0, 0, 0, 0x90, 0x00]"

definition selected :: "terminal \<Rightarrow> u16 \<Rightarrow> byte \<Rightarrow> byte \<Rightarrow> terminal \<Rightarrow> ct_result" where
  "selected t lenr sz kind t' =
     (if lenr < 12 then ct_error (-11) lenr t else answer (file_control sz kind) t')"

text \<open>
  SELECT FILE.  The name compared is at \<^verbatim>\<open>data_ptr\<close>, the name stored is always taken from offset 5.
\<close>

definition select_file :: "terminal \<Rightarrow> bytes \<Rightarrow> int \<Rightarrow> nat \<Rightarrow> u16 \<Rightarrow> ct_result" where
  "select_file t cmd Lc off lenr =
     (let name = take 2 (drop off cmd); stored = take 2 (drop 5 cmd);
          mf = [0x3f, 0x00]; df60 = [0x3f, 0x00, 0x7f, 0x60]; df70 = [0x3f, 0x00, 0x7f, 0x70];
          file = t\<lparr>m_reader_file := stored\<rparr>;
          dir = t\<lparr>m_reader_path := overlay 2 stored (m_reader_path t), m_reader_path_len := 4,
                  m_reader_file := [0, 0]\<rparr> in
      if cmd ! 2 \<noteq> 0 \<or> cmd ! 3 \<noteq> 0 then sw 0x6A 0x00 t
      else if Lc \<noteq> 2 then sw 0x67 0x00 t
      else if name = [0x3f, 0x00]
      then selected t lenr 0x2d 0x88 (t\<lparr>m_reader_path := overlay 0 stored (m_reader_path t),
             m_reader_path_len := 2, m_reader_file := [0, 0]\<rparr>)
      else if name = [0x00, 0x20] \<and> path_is t mf then selected t lenr 0x0e 0x08 file
      else if name = [0x7f, 0x60] \<and> path_is t mf then selected t lenr 0x05 0x88 dir
      else if name = [0x60, 0x20] \<and> path_is t df60 then selected t lenr 0x10 0x08 file
      else if name = [0x60, 0x21] \<and> path_is t df60 then selected t lenr 0x10 0x08 file
      else if name = [0x60, 0x30] \<and> path_is t df60 then selected t lenr 0x04 0x08 file
      else if name = [0x60, 0x31] \<and> path_is t df60 then selected t lenr 0x03 0x08 file
      else if name = [0x7f, 0x70] \<and> path_is t mf then selected t lenr 0x19 0x88 dir
      else if name = [0x70, 0x20] \<and> path_is t df70 then selected t lenr 0x0f 0x08 file
      else if name = [0x70, 0x21] \<and> path_is t df70 then selected t lenr 0x10 0x08 file
      else sw 0x6A 0x82 t)"

definition file_is :: "terminal \<Rightarrow> bytes \<Rightarrow> bytes \<Rightarrow> bool" where
  "file_is t p f \<longleftrightarrow> path_is t p \<and> m_reader_file t = f"

definition contents :: "terminal \<Rightarrow> u16 \<Rightarrow> bytes \<Rightarrow> ct_result" where
  "contents t lenr d = (if lenr < of_nat (length d) then ct_error (-11) lenr t else answer d t)"

text \<open>
  READ BINARY gives the whole file, whatever the offset.  For the last file 17 of the 18 bytes are
  copied.
\<close>

definition read_binary :: "terminal \<Rightarrow> u16 \<Rightarrow> ct_result" where
  "read_binary t lenr =
     (let mf = [0x3f, 0x00]; df60 = [0x3f, 0x00, 0x7f, 0x60]; df70 = [0x3f, 0x00, 0x7f, 0x70] in
      if file_is t mf [0x00, 0x20]
      then contents t lenr [0x01, 0x05, 0x43, 0x4a, 0x50, 0x50, 0x41, 0x02, 0x01, 0x00, 0x03, 0x02, 0x20, 0x00, 0x90, 0x00]
      else if file_is t df60 [0x60, 0x20]
      then contents t lenr [0x03, 0x02, 0x20, 0x00, 0x10, 0x01, 0x00, 0x11, 0x01, 0x00, 0x12, 0x01, 0x00, 0x13, 0x01, 0x00, 0x90, 0x00]
      else if file_is t df60 [0x60, 0x21]
      then contents t lenr [0x03, 0x02, 0x20, 0x00, 0x10, 0x01, 0x00, 0x11, 0x01, 0x00, 0x12, 0x01, 0x00, 0x13, 0x01, 0x00, 0x90, 0x00]
      else if file_is t df60 [0x60, 0x30] then contents t lenr [0x30, 0x02, 0x01, 0x03, 0x90, 0x00]
      else if file_is t df60 [0x60, 0x31] then contents t lenr [0x30, 0x01, 0xff, 0x90, 0x00]
      else if file_is t df70 [0x70, 0x20]
      then contents t lenr [0x03, 0x02, 0x20, 0x00, 0x20, 0x01, 0x81, 0x22, 0x06, 0x01, 0x02, 0x03, 0x80, 0x81, 0x82, 0x90, 0x00]
      else if file_is t df70 [0x70, 0x21] then
        (if lenr < 18 then ct_error (-11) lenr t
         else (0, 1, 2, [0x03, 0x02, 0x20, 0x00, 0x21, 0x02, 0x01, 0x89, 0x22, 0x06, 0x01, 0x02, 0x03, 0x80, 0x81, 0x82, 0x90],
               18, t))
      else sw 0x69 0x82 t)"

section \<open>Reset, request and eject\<close>

text \<open>
  \<^verbatim>\<open>ctBcsReset\<close>: the result, the ATR, the historical bytes and the reader.  The buffers for them have 250
  and 15 bytes.
\<close>

definition historical :: "reader \<Rightarrow> bytes" where
  "historical r = map (\<lambda>i. atr_at r (the (m_Historical r) + i)) [0..<m_Historical_Length r]"

definition ctBcsReset :: "reader \<Rightarrow> byte \<Rightarrow> u32 \<Rightarrow> cj_result \<times> bytes \<times> bytes \<times> reader" where
  "ctBcsReset r prevered Timeout =
     (let Protocol = (if prevered = 1 then SCARD_PROTOCOL_T0 else if prevered = 2 then SCARD_PROTOCOL_T1
                      else SCARD_PROTOCOL_DEFAULT) in
      case IfdPower r SCARD_COLD_RESET 250 Timeout of (st, atr, n, r1) \<Rightarrow>
        if st = STATUS_SUCCESS then
          (case IfdSetProtocol r1 Protocol of (st2, _, r2) \<Rightarrow>
             if st2 = STATUS_SUCCESS
             then (CJ_SUCCESS, atr, historical r2, r2\<lparr>g_overrun := g_overrun r2 \<or> m_Historical_Length r2 > 15\<rparr>)
             else if st2 = STATUS_DEVICE_NOT_CONNECTED then (CJ_ERR_DEVICE_LOST, atr, [], r2)
             else if st2 = STATUS_NO_MEDIA then (CJ_ERR_NO_ICC, atr, [], r2)
             else (CJ_ERR_PROT, atr, [], r2))
        else if st = STATUS_DEVICE_NOT_CONNECTED then (CJ_ERR_DEVICE_LOST, atr, [], r1)
        else if st = STATUS_NO_MEDIA then (CJ_ERR_NO_ICC, atr, [], r1)
        else if st = STATUS_CANCELLED then (CJ_ERR_PIN_CANCELED, atr, [], r1)
        else (CJ_ERR_PROT, atr, [], r1))"

text \<open>\<^verbatim>\<open>90 01\<close> for a card with an asynchronous protocol, \<^verbatim>\<open>90 00\<close> for a memory card.\<close>

definition card_sw :: "reader \<Rightarrow> bytes \<Rightarrow> bytes" where
  "card_sw r atr =
     (let a0 = (case atr of [] \<Rightarrow> g_over r 0 | a # _ \<Rightarrow> a) in
      if a0 = 0x3b \<or> a0 = 0x3f then [0x90, 0x01] else [0x90, 0x00])"

text \<open>
  The answer to a successful reset: nothing, the ATR or the historical bytes, and the status word.  If
  the buffer is too small the card is powered down; \<open>z1\<close> and \<open>z2\<close> tell whether \<^verbatim>\<open>*lenr\<close> is cleared then.
\<close>

definition reset_answer :: "terminal \<Rightarrow> byte \<Rightarrow> bytes \<Rightarrow> bytes \<Rightarrow> u16 \<Rightarrow> bool \<Rightarrow> bool \<Rightarrow> ct_result" where
  "reset_answer t P2 atr hist lenr z1 z2 =
     (let r = t_reader t; d = (if P2 = 0 then [] else if P2 = 1 then atr else hist);
          zero = (if P2 = 1 then z1 else z2) in
      if P2 \<noteq> 0 \<and> length d + 2 > unat lenr
      then ct_error (-11) (if zero then 0 else lenr) (upd t (snd (power_down r 0)))
      else answer (d @ card_sw r atr) t)"

text \<open>RESET CT and RESET ICC (\<^verbatim>\<open>20 10\<close> and \<^verbatim>\<open>20 11\<close>) differ in \<open>z1\<close> only.\<close>

definition reset_command :: "terminal \<Rightarrow> bytes \<Rightarrow> int \<Rightarrow> int \<Rightarrow> u16 \<Rightarrow> bool \<Rightarrow> ct_result" where
  "reset_command t cmd Lc Le lenr z1 =
     (let P1 = cmd ! 2; P2 = cmd ! 3 in
      if P1 > 1 \<or> P1 = 0 \<and> P2 \<noteq> 0 \<or> P1 = 1 \<and> P2 > 2 then sw 0x6A 0x00 t
      else if P1 = 1 \<and> P2 > 0 \<and> (Lc \<noteq> -1 \<or> Le \<noteq> 0) then sw 0x67 0x00 t
      else
        (let r1 = snd (power_down (t_reader t) 0) in
         if P1 = 1 then
           (case ctBcsReset r1 0 0 of (Res, atr, hist, r2) \<Rightarrow>
              if Res = CJ_SUCCESS then reset_answer (upd t r2) P2 atr hist lenr z1 True
              else if Res = CJ_ERR_PARITY \<or> Res = CJ_ERR_TIMEOUT \<or> Res = CJ_ERR_PROT then sw 0x64 0x00 (upd t r2)
              else if Res = CJ_ERR_NO_ICC then sw 0x64 0xA1 (upd t r2)
              else ct_error (-128) lenr (upd t (snd (power_down r2 0))))
         else sw 0x90 0x00 (upd t r1)))"

text \<open>The waiting time in seconds: the only data byte, or the tag \<^verbatim>\<open>80\<close>; \<open>Inl ()\<close> for a tag of another length.\<close>

definition wait_time :: "bytes \<Rightarrow> nat \<Rightarrow> int \<Rightarrow> unit + byte option" where
  "wait_time buf off Lc =
     (if Lc = 1 then Inr (Some (buf ! off))
      else (case tag_value buf off Lc 0x80 of
          None \<Rightarrow> Inr None
        | Some v \<Rightarrow> if length v \<noteq> 1 then Inl () else Inr (Some (v ! 0))))"

definition milliseconds :: "byte option \<Rightarrow> u32" where
  "milliseconds x = (case x of None \<Rightarrow> 0 | Some b \<Rightarrow> ucast b * 1000)"

text \<open>REQUEST ICC (\<^verbatim>\<open>20 12\<close>).\<close>

definition request_icc :: "terminal \<Rightarrow> bytes \<Rightarrow> int \<Rightarrow> nat \<Rightarrow> int \<Rightarrow> u16 \<Rightarrow> ct_result" where
  "request_icc t cmd Lc off Le lenr =
     (let P2 = cmd ! 3 AND 0x0f; buf = cmd_buf (t_reader t) cmd in
      if cmd ! 2 \<noteq> 1 \<or> P2 > 2 then sw 0x6A 0x00 t
      else if P2 > 0 \<and> Le \<noteq> 0 then sw 0x67 0x00 t
      else (case IfdGetState (t_reader t) of (st, State, r1) \<Rightarrow>
        if st = STATUS_DEVICE_NOT_CONNECTED then ct_error (-128) 0 (upd t r1)
        else if State = SCARD_SPECIFIC then sw 0x62 0x01 (upd t r1)
        else (case (if Lc \<noteq> -1 then wait_time buf off Lc else Inr None) of
            Inl _ \<Rightarrow> sw 0x67 0x00 (upd t r1)
          | Inr Timeout \<Rightarrow>
              (case ctBcsReset r1 0 (milliseconds Timeout) of (Res, atr, hist, r2) \<Rightarrow>
                 if Res = CJ_SUCCESS then reset_answer (upd t r2) P2 atr hist lenr False False
                 else if Res = CJ_ERR_PARITY \<or> Res = CJ_ERR_TIMEOUT \<or> Res = CJ_ERR_PROT then sw 0x64 0x00 (upd t r2)
                 else if Res = CJ_ERR_PIN_CANCELED then sw 0x64 0x01 (upd t r2)
                 else if Res = CJ_ERR_NO_ICC then sw 0x62 0x00 (upd t r2)
                 else ct_error (-128) 0 (upd t (snd (power_down r2 0)))))))"

text \<open>The command \<^verbatim>\<open>20 14\<close>.\<close>

definition deactivate_icc :: "terminal \<Rightarrow> bytes \<Rightarrow> int \<Rightarrow> int \<Rightarrow> u16 \<Rightarrow> ct_result" where
  "deactivate_icc t cmd Lc Le lenr =
     (if Lc \<noteq> -1 \<or> Le \<noteq> 0 then sw 0x6A 0x00 t
      else if cmd ! 2 \<noteq> 1 \<or> cmd ! 3 \<noteq> 0 then sw 0x6A 0x00 t
      else (case power_down (t_reader t) 0 of (st, r1) \<Rightarrow>
        if st \<noteq> STATUS_SUCCESS then ct_error (-10) lenr (upd t r1)
        else if m_ReaderState r1 \<noteq> SCARD_ABSENT then sw 0x90 0x00 (upd t r1)
        else sw 0x64 0xA1 (upd t r1)))"

text \<open>EJECT ICC (\<^verbatim>\<open>20 15\<close>).\<close>

definition eject_icc :: "terminal \<Rightarrow> bytes \<Rightarrow> int \<Rightarrow> nat \<Rightarrow> int \<Rightarrow> u16 \<Rightarrow> ct_result" where
  "eject_icc t cmd Lc off Le lenr =
     (let buf = cmd_buf (t_reader t) cmd in
      if cmd ! 2 \<noteq> 1 then sw 0x6A 0x00 t
      else if length cmd \<noteq> 4 \<and> (Lc = -1 \<or> Le \<noteq> -1) then sw 0x67 0x00 t
      else (case power_down (t_reader t) 0 of (st, r1) \<Rightarrow>
        if st \<noteq> STATUS_SUCCESS then ct_error (-10) lenr (upd t r1)
        else if cmd ! 3 AND 0x04 \<noteq> 0x04 \<and> length cmd > 4 then
          (case wait_time buf off Lc of
             Inl _ \<Rightarrow> sw 0x67 0x00 (upd t r1)
           | Inr None \<Rightarrow> sw 0x90 0x00 (upd t r1)
           | Inr (Some b) \<Rightarrow>
               (case power_down r1 (milliseconds (Some b)) of (st2, r2) \<Rightarrow>
                  if st2 \<noteq> STATUS_SUCCESS then ct_error (-10) lenr (upd t r2)
                  else (case IfdGetState r2 of (st3, State, r3) \<Rightarrow>
                    if st3 = STATUS_DEVICE_NOT_CONNECTED then ct_error (-10) lenr (upd t r3)
                    else if State = SCARD_ABSENT then sw 0x90 0x01 (upd t r3)
                    else sw 0x62 0x00 (upd t r3))))
        else sw 0x90 0x00 (upd t r1)))"

section \<open>Status\<close>

text \<open>The functional units: eight card slots, keypad and display (both tested by the keypad bit), biometrics.\<close>

definition functional_units :: "u32 \<Rightarrow> bytes" where
  "functional_units HardwareMask =
     concat (map (\<lambda>(m, b). if HardwareMask AND m \<noteq> 0 then [b] else [])
       [(0x001, 1), (0x002, 2), (0x004, 3), (0x008, 4), (0x010, 5), (0x020, 6), (0x040, 7), (0x080, 8),
        (0x100, 0x40), (0x100, 0x50), (0x400, 0x70)])"

definition product_string :: "reader \<Rightarrow> bytes" where
  "product_string r = (let ecusb = [0x45, 0x43, 0x55, 0x53, 0x42] in
     case m_class r of
       ECA \<Rightarrow> if GetEnviroment r ''ecom_a_ident'' 0 \<noteq> 0 then ecusb else [0x43, 0x4a, 0x45, 0x43, 0x41]
     | ECB \<Rightarrow> [0x43, 0x4a, 0x45, 0x43, 0x42]
     | ECF \<Rightarrow> if GetEnviroment r ''ecom_f_ident'' 0 \<noteq> 0 then ecusb else [0x43, 0x4a, 0x45, 0x43, 0x46]
     | ECP \<Rightarrow> [0x43, 0x4a, 0x45, 0x43, 0x50]
     | ECR \<Rightarrow> [0x43, 0x4a, 0x45, 0x43, 0x52]
     | EFB \<Rightarrow> [0x43, 0x4a, 0x45, 0x46, 0x42]
     | ECM \<Rightarrow> [0x43, 0x4a, 0x45, 0x43, 0x4d]
     | SEC \<Rightarrow> [0x43, 0x4a, 0x53, 0x45, 0x43])"

definition version_text :: "reader \<Rightarrow> bytes" where
  "version_text r =
     (let v = (if GetEnviroment r ''ecom_a_ident'' 0 = 0 then ri_Version (m_ReaderInfo r) else 0x20) in
      [0x20, 0x56] @ dec_digits (unat (drop_bit 4 v)) @ [0x2e] @ dec_digits (unat (v AND 0x0f)) @ [0])"

text \<open>
  The manufacturer data: \<^verbatim>\<open>sprintf\<close> stores the version at 12; a version with two digits on both sides
  needs more room than the test for 19 bytes guarantees.
\<close>

definition manufacturer :: "terminal \<Rightarrow> u16 \<Rightarrow> ct_result" where
  "manufacturer t lenr =
     (let r = t_reader t in
      if lenr < 19 then ct_error (-11) 0 t
      else (case FindModule r MODULE_ID_KERNEL of
          None \<Rightarrow> ct_error (-128) 0 t
        | Some Info \<Rightarrow>
            (let rv = dec_digits (unat (mi_Revision Info));
                 t1 = upd t (r\<lparr>g_overrun := g_overrun r \<or> 12 + length (version_text r) > unat lenr
                                 \<or> lenr \<ge> 29 \<and> 24 + length rv + 1 > unat lenr\<rparr>);
                 head = overlay 12 (version_text r)
                   ([0x46, 0] @ [0x44, 0x45, 0x53, 0x43, 0x54] @ product_string r @ replicate 20 0) in
             if lenr \<ge> 29
             then answer ((take 29 (overlay 24 (replicate (3 - length rv) 0x20 @ rv)
                    (overlay 17 [0x3b, 0x20, 0x52, 0x65, 0x76, 0x2e, 0x20] head)))
                    [1 := 25, 27 := 0x90, 28 := 0x00]) t1
             else answer ((take 19 head)[1 := 15, 17 := 0x90, 18 := 0x00]) t1)))"

definition card_status :: "terminal \<Rightarrow> u16 \<Rightarrow> ct_result" where
  "card_status t lenr =
     (if lenr < 5 then ct_error (-11) 0 t
      else (case IfdGetState (t_reader t) of (st, State, r1) \<Rightarrow>
        if st = STATUS_DEVICE_NOT_CONNECTED then ct_error (-128) 0 (upd t r1)
        else if State = SCARD_SPECIFIC \<or> State = SCARD_NEGOTIABLE then answer [0x80, 1, 0x05, 0x90, 0x00] (upd t r1)
        else if State = SCARD_SWALLOWED then answer [0x80, 1, 0x03, 0x90, 0x00] (upd t r1)
        else if State = SCARD_ABSENT then answer [0x80, 1, 0x00, 0x90, 0x00] (upd t r1)
        else ct_error (-128) 0 (upd t r1)))"

text \<open>GET STATUS (\<^verbatim>\<open>20 13\<close>).\<close>

definition get_status :: "terminal \<Rightarrow> bytes \<Rightarrow> int \<Rightarrow> int \<Rightarrow> u16 \<Rightarrow> ct_result" where
  "get_status t cmd Lc Le lenr =
     (let P1 = cmd ! 2; P2 = cmd ! 3; r = t_reader t in
      if length cmd = 4 \<and> P1 = 1 \<and> P2 = 0 then
        (if lenr < 8 then ct_error (-11) 0 t
         else answer [0x71, 0x01, 0x00, 0x72, 0x01, if m_ActiveProtocol r = SCARD_PROTOCOL_T1 then 1 else 0,
                      0x90, 0x00] t)
      else if Lc \<noteq> -1 \<or> Le \<noteq> 0 then sw 0x67 0x00 t
      else if P1 > 1 \<or> P1 = 0 \<and> P2 \<noteq> 0x46 \<and> P2 \<noteq> 0x80 \<and> P2 \<noteq> 0x81 \<or> P1 = 1 \<and> P2 \<noteq> 0x80 then sw 0x6A 0x00 t
      else if P2 = 0x80 then card_status t lenr
      else if P2 = 0x81 then
        (let u = functional_units (ri_HardwareMask (m_ReaderInfo r)) in
         if unat lenr < length u + 4 then ct_error (-11) 0 t
         else answer ([0x81, of_nat (length u)] @ u @ [0x90, 0x00]) t)
      else manufacturer t lenr)"

section \<open>Input and output\<close>

lemma Escape_fuel: "Escape r a f d arg = (CJ_SUCCESS, Result, out, n, r') \<Longrightarrow> rfuel r' < rfuel r"
  by (auto simp: Escape_def escape_response_def Let_def rfuel_def split: if_splits prod.splits resp_arg.splits
      dest!: Transfer_fuel)

lemma app_data_fuel:
  assumes "CtApplicationData r a f d rc ec = (CJ_SUCCESS, Result, x1, x2, x3, x4, r')"
  shows "rfuel r' < rfuel r"
proof -
  let ?need = "low16 rc + low16 ec + 4"
  obtain R1 v out n r1 where e: "Escape (app_buffer r ?need) a f d (Buffer (of_nat ?need)) = (R1, v, out, n, r1)"
    by (metis prod_cases5)
  have "rfuel r' = rfuel r1" "R1 = CJ_SUCCESS"
    using assms e by (auto simp: CtApplicationData_def app_answer_def app_fail_def app_too_small_def Let_def rfuel_def
        split: if_splits)
  moreover have "rfuel (app_buffer r ?need) = rfuel r" by (simp add: app_buffer_def rfuel_def)
  ultimately show ?thesis using Escape_fuel e by metis
qed

lemma cjInput_fuel: "cjInput r tm t = (CJ_SUCCESS, key, r') \<Longrightarrow> rfuel r' < rfuel r"
  by (auto simp: cjInput_def split: if_splits prod.splits dest!: app_data_fuel)

datatype input_end = InputFailed | InputTimeout | InputCanceled | InputDone nat bytes

text \<open>The ghost flag for an access outside a buffer.\<close>

definition over_flag :: "bool \<Rightarrow> reader \<Rightarrow> reader" where
  "over_flag b r = r\<lparr>g_overrun := g_overrun r \<or> b\<rparr>"

lemma over_flag_fuel [simp]: "rfuel (over_flag b r) = rfuel r"
  by (simp add: over_flag_def rfuel_def)

text \<open>
  The loop of INPUT (\<^verbatim>\<open>20 16\<close>): \<open>i\<close> characters are in \<open>buffer\<close>, \<open>key\<close> is the variable of the source, which
  keeps its value if the reader reports success without a key.  An unknown key repeats the step.  Both
  the characters and the text sent to the display are collected in buffers of 256 bytes.
\<close>

function input_loop ::
  "reader \<Rightarrow> byte \<Rightarrow> bytes \<Rightarrow> nat \<Rightarrow> nat \<Rightarrow> byte \<Rightarrow> byte \<Rightarrow> bytes \<Rightarrow> input_end \<times> reader" where
  "input_loop r P2 tag50 charlen i timeout key buffer =
     (if i < charlen then
        (let echo = (if P2 AND 0x0f = 1 then take i buffer
                     else if P2 AND 0x0f = 2 then replicate i 0x2a else []) in
         case cjInput (over_flag (length tag50 + length echo > 256) r) timeout (tag50 @ echo) of (Res, keys, r1) \<Rightarrow>
           if Res \<noteq> CJ_SUCCESS then (InputFailed, r1)
           else
             (let k = (case keys of [] \<Rightarrow> key | x # _ \<Rightarrow> x); r2 = over_flag (i \<ge> 256) r1 in
              if k = 0xff then (InputTimeout, r1)
              else if P2 AND 0xf0 = 0x10 then
                (if k \<noteq> 10 \<and> k \<noteq> 11 \<or> charlen = 1
                 then input_loop r2 P2 tag50 charlen (Suc i) 5 k (buffer[i := k])
                 else if k = 10 then (InputCanceled, r1)
                 else (InputDone i buffer, r1))
              else if k < 10
              then input_loop r2 P2 tag50 charlen (Suc i) 5 (k + 0x30) (buffer[i := k + 0x30])
              else if k = 10 then (InputCanceled, r1)
              else if k = 11 then (InputDone i buffer, r1)
              else input_loop r1 P2 tag50 charlen i 5 k buffer))
      else (InputDone i buffer, r))"
  by pat_completeness auto
termination
  by (relation "measure (\<lambda>(r, P2, tag50, charlen, i, timeout, key, buffer). rfuel r)")
    (auto dest!: sym [THEN cjInput_fuel])

declare input_loop.simps [simp del]

text \<open>The key callback is switched off during the input and restored behind it.\<close>

definition input_command :: "terminal \<Rightarrow> bytes \<Rightarrow> int \<Rightarrow> nat \<Rightarrow> int \<Rightarrow> u16 \<Rightarrow> ct_result" where
  "input_command t cmd Lc off Le lenr =
     (let P2 = cmd ! 3; r = t_reader t; buf = cmd_buf r cmd;
          charlen = (if Le = 0 then 256 else nat Le);
          tag50 = (case tag_value buf off Lc 0x50 of None \<Rightarrow> [] | Some v \<Rightarrow> TransformText v);
          restore = (\<lambda>r'. upd t (r'\<lparr>m_KeyIntCallback := m_KeyIntCallback r\<rparr>)) in
      if Le = -1 then sw 0x67 0x00 t
      else if cmd ! 2 \<noteq> 0x50 \<or> P2 AND 0x0f > 0x02 \<or> P2 AND 0xf0 > 0x10 \<or> P2 AND 0xf0 = 0x10 \<and> Le \<noteq> 1
      then sw 0x6A 0x00 t
      else (case (if Lc \<noteq> -1 then wait_time buf off Lc else Inr None) of
          Inl _ \<Rightarrow> sw 0x67 0x00 t
        | Inr tm \<Rightarrow>
            (case input_loop (r\<lparr>m_KeyIntCallback := False\<rparr>) P2 tag50 charlen 0
                    (case tm of None \<Rightarrow> 15 | Some b \<Rightarrow> b) (g_over r 0) (map (g_over r) [0..<256]) of
               (InputFailed, r1) \<Rightarrow> ct_error (-128) 0 (restore r1)
             | (InputTimeout, r1) \<Rightarrow> sw 0x64 0x00 (restore r1)
             | (InputCanceled, r1) \<Rightarrow> sw 0x64 0x01 (restore r1)
             | (InputDone i buffer, r1) \<Rightarrow>
                 if unat lenr < i + 2 then ct_error (-11) 0 (restore r1)
                 else answer (take i buffer @ [0x90, 0x00]) (restore r1))))"

text \<open>OUTPUT (\<^verbatim>\<open>20 17\<close>).\<close>

definition show_text :: "terminal \<Rightarrow> bytes \<Rightarrow> nat \<Rightarrow> int \<Rightarrow> byte \<Rightarrow> ct_result" where
  "show_text t buf off Lc timeout = (case tag_value buf off Lc 0x50 of
      None \<Rightarrow> sw 0x6A 0x82 t
    | Some txt \<Rightarrow>
        if txt = [] then sw 0x6A 0x82 t
        else (case cjOutput (t_reader t) timeout (TransformText txt) of (Res, r1) \<Rightarrow>
          if Res = CJ_SUCCESS then sw 0x90 0x00 (upd t r1) else sw 0x69 0x85 (upd t r1)))"

definition output_command :: "terminal \<Rightarrow> bytes \<Rightarrow> int \<Rightarrow> nat \<Rightarrow> int \<Rightarrow> ct_result" where
  "output_command t cmd Lc off Le =
     (let buf = cmd_buf (t_reader t) cmd in
      if Lc = -1 \<or> Le \<noteq> -1 then sw 0x67 0x00 t
      else if cmd ! 2 \<noteq> 0x40 \<or> cmd ! 3 \<noteq> 0 then sw 0x6A 0x00 t
      else (case tag_value buf off Lc 0x80 of
          Some v \<Rightarrow> if length v \<noteq> 1 then sw 0x6A 0x82 t else show_text t buf off Lc (v ! 0)
        | None \<Rightarrow> show_text t buf off Lc 0))"

section \<open>PIN commands\<close>

text \<open>The template buffer of 260 bytes: the value of tag \<^verbatim>\<open>52\<close> from byte \<open>k\<close> on, over what the stack held.\<close>

definition pin_buffer :: "reader \<Rightarrow> bytes \<Rightarrow> nat \<Rightarrow> bytes" where
  "pin_buffer r v k = overlay 0 (drop k v) (map (g_over r) [0..<260])"

text \<open>
  Minimum, maximum, length of the PIN field and validation condition for a PIN of \<open>len\<close> digits, where
  zero stands for a variable length with the maximum \<open>m\<close>: BCD (field in half bytes), ASCII, format 2.
\<close>

definition half_up :: "byte \<Rightarrow> byte" where
  "half_up n = drop_bit 1 n + (n AND 1)"

definition bcd_digits :: "byte \<Rightarrow> byte \<Rightarrow> byte \<times> byte \<times> byte \<times> byte" where
  "bcd_digits m len = (if len = 0 then (1, m, half_up m, 2) else (len, len, half_up len, 1))"

definition ascii_digits :: "byte \<Rightarrow> byte \<Rightarrow> byte \<times> byte \<times> byte \<times> byte" where
  "ascii_digits m len = (if len = 0 then (1, m, m, 2) else (len, len, len, 1))"

definition format2_digits :: "byte \<Rightarrow> byte \<times> byte \<times> byte \<times> byte" where
  "format2_digits len = (if len = 0 then (4, 12, 7, 2) else (len, len, 7, 1))"

definition with_digits :: "byte \<times> byte \<times> byte \<times> byte \<Rightarrow> modify_request \<Rightarrow> modify_request" where
  "with_digits x p = (case x of (mn, mx, l, c) \<Rightarrow>
     p\<lparr>pr_Min := mn, pr_Max := mx, pr_PinLength := l, pr_Condition := c\<rparr>)"

text \<open>The empty PIN block of format 2 is laid over the template.\<close>

definition format2_block :: "nat \<Rightarrow> bytes \<Rightarrow> bytes" where
  "format2_block k buf = take 260 (overlay k (0x2f # replicate 7 0xff) buf)"

definition request0 :: "reader \<Rightarrow> byte \<Rightarrow> modify_request" where
  "request0 r timeout =
     \<lparr>pr_Timeout = timeout, pr_PinPosition = 0, pr_PinType = 0, pr_PinLengthSize = 0, pr_PinLength = 0,
      pr_PinLengthPosition = 0, pr_Min = 0, pr_Max = 0, pr_Condition = 0,
      pr_Prologue = [0, g_over r 1, g_over r 2], pr_NumberMessage = 0, pr_out = [], pr_ConfirmPIN = 0,
      pr_OffsetOld = 0, pr_OffsetNew = 0, pr_MessageIndexes = [0, 0, 0]\<rparr>"

text \<open>
  The request of PERFORM VERIFICATION from the value of tag \<^verbatim>\<open>52\<close>: control byte, position of the PIN,
  command template.  The result is a status word, or the request, whether it goes out as a modification,
  and whether the PIN block left the buffer.
\<close>

definition pv_plan :: "reader \<Rightarrow> bytes \<Rightarrow> byte \<Rightarrow> (byte \<times> byte) + (modify_request \<times> bool \<times> bool)" where
  "pv_plan r v timeout =
     (let n = length v; len = drop_bit 4 (v ! 0); typ = v ! 0 AND 3; pos = v ! 1 - 6;
          buf0 = pin_buffer r v 2;
          buf = (if n = 6 then buf0[4 := 0] else buf0);
          tlen = (if n = 6 then 7 else n);
          p = request0 r timeout in
      if n < 6 then Inl (0x67, 0x00)
      else if \<not> v ! 1 > 5 then Inl (0x67, 0x00)
      else if n \<noteq> 6 \<and> unat pos > n - 7 then Inl (0x67, 0x00)
      else if typ = 0 then
        Inr (with_digits (bcd_digits 30 len)
               (p\<lparr>pr_PinType := 1, pr_PinPosition := pos, pr_out := take (tlen - 2) (buf[4 := 0])\<rparr>), False, False)
      else if typ = 1 then
        Inr (with_digits (ascii_digits 15 len)
               (p\<lparr>pr_PinType := 2, pr_PinPosition := pos,
                  pr_out := take (tlen - 2) (if tlen = 7 then buf else buf[4 := 0])\<rparr>), False, False)
      else if typ = 2 then
        (let pos1 = pos + 1;
             b4 = (if unat (buf ! 4) < unat pos1 + 7 then pos1 + 7 else buf ! 4);
             buf1 = format2_block (4 + unat pos1) (buf[4 := b4]) in
         if len \<noteq> 0 \<and> (len < 4 \<or> len > 12) then Inl (0x67, 0x00)
         else Inr (with_digits (format2_digits len)
               (p\<lparr>pr_PinType := 1, pr_PinLengthPosition := 4, pr_PinLengthSize := 4, pr_PinPosition := pos1,
                  pr_out := take (unat b4 + 5) buf1\<rparr>), pos1 > 1, 12 + unat pos1 > 260))
      else Inl (0x6A, 0x00))"

text \<open>The limits of tag \<^verbatim>\<open>51\<close>.\<close>

definition pin_limits :: "byte \<Rightarrow> bytes option \<Rightarrow> modify_request \<Rightarrow> modify_request" where
  "pin_limits typ tag51 p = (case tag51 of
      Some [a, b] \<Rightarrow>
        (let mn = (if a \<ge> 4 \<or> typ \<noteq> 2 then a else pr_Min p);
             mx = (if b \<ge> mn then b else pr_Max p) in
         p\<lparr>pr_Min := mn, pr_Max := if mx > 12 \<and> typ = 2 then 12 else mx\<rparr>)
    | _ \<Rightarrow> p)"

definition one_byte :: "bytes option \<Rightarrow> byte \<Rightarrow> byte" where
  "one_byte v d = (case v of Some [x] \<Rightarrow> x | _ \<Rightarrow> d)"

text \<open>
  The answer to a PIN command; \<open>differ\<close> and \<open>parity\<close> are the status words for two different entries and
  for transmission errors, where the two commands are not alike.
\<close>

definition pin_answer :: "terminal \<Rightarrow> u16 \<Rightarrow> byte \<times> byte \<Rightarrow> byte \<times> byte \<Rightarrow> secure_result \<Rightarrow> ct_result" where
  "pin_answer t0 lenr differ parity res = (case res of (Res, d, inlen, r) \<Rightarrow>
     let t = upd t0 r in
     if Res = CJ_SUCCESS \<or> Res = CJ_ERR_PIN_EXTENDED then
       (if int (unat lenr) < inlen then ct_error (-11) 0 t
        else (0, if Res = CJ_SUCCESS then 0 else 1, 2, d, of_int inlen, t))
     else if Res = CJ_ERR_PIN_CANCELED then sw 0x64 0x01 t
     else if Res = CJ_ERR_PIN_TIMEOUT then sw 0x64 0x00 t
     else if Res = CJ_ERR_PIN_DIFFERENT then sw (fst differ) (snd differ) t
     else if Res = CJ_ERR_NO_ICC then sw 0x64 0xA1 t
     else if Res = CJ_ERR_NO_ACTIVE_ICC then sw 0x64 0xA2 t
     else if Res = CJ_ERR_WRONG_PARAMETER then sw 0x6B 0x80 t
     else if Res = CJ_ERR_CONDITION_OF_USE then sw 0x69 0x85 t
     else if Res = CJ_ERR_WRITE_DEVICE \<or> Res = CJ_ERR_DEVICE_LOST then ct_error (-128) 0 t
     else if Res = CJ_ERR_RBUFFER_TO_SMALL then ct_error (-11) 0 t
     else if Res = CJ_ERR_PARITY \<or> Res = CJ_ERR_TIMEOUT then sw (fst parity) (snd parity) t
     else sw 0x6b 0x80 t)"

text \<open>\<^verbatim>\<open>TransformText\<close> works in the command buffer.\<close>

definition transform_at :: "bytes \<Rightarrow> nat \<times> nat \<Rightarrow> bytes" where
  "transform_at buf pos = (case pos of (k, n) \<Rightarrow> overlay k (TransformText (take n (drop k buf))) buf)"

definition text_at :: "bytes \<Rightarrow> nat \<times> nat \<Rightarrow> bytes" where
  "text_at buf pos = (case pos of (k, n) \<Rightarrow> take n (drop k buf))"

text \<open>PERFORM VERIFICATION (\<^verbatim>\<open>20 18\<close>).\<close>

definition perform_verification :: "terminal \<Rightarrow> bytes \<Rightarrow> int \<Rightarrow> nat \<Rightarrow> int \<Rightarrow> u16 \<Rightarrow> ct_result" where
  "perform_verification t cmd Lc off Le lenr =
     (let r = t_reader t; buf = cmd_buf r cmd; tag = (\<lambda>b x. tag_value b off Lc x) in
      if Lc < 8 \<or> Le \<noteq> -1 then sw 0x67 0x00 t
      else if tag buf 0x80 \<noteq> None \<and> length (the (tag buf 0x80)) \<noteq> 1 then sw 0x67 0x00 t
      else (case tag buf 0x52 of
          None \<Rightarrow> sw 0x67 0x00 t
        | Some v \<Rightarrow>
            (case pv_plan r v (one_byte (tag buf 0x80) 15) of
               Inl (a, b) \<Rightarrow> sw a b t
             | Inr (p0, use_MV, over) \<Rightarrow>
                 (let p1 = pin_limits (v ! 0 AND 3) (tag buf 0x51) p0;
                      txt = GetTag buf off Lc 0x50;
                      buf1 = (case txt of None \<Rightarrow> buf | Some x \<Rightarrow> transform_at buf x);
                      text = map_option (text_at buf1) txt;
                      idx = one_byte (tag buf1 0x53) 0;
                      p = p1\<lparr>pr_NumberMessage := one_byte (tag buf1 0x54) (if use_MV then 0xff else 1)\<rparr>;
                      r1 = over_flag over r in
                  pin_answer t lenr (0x6b, 0x80) (0x6f, 0x00)
                    (if \<not> use_MV then SecurePV r1 p idx text 260
                     else SecureMV r1 (p\<lparr>pr_PinPosition := 1, pr_ConfirmPIN := 0, pr_OffsetOld := 0,
                            pr_OffsetNew := pr_PinPosition p - 1, pr_MessageIndexes := [0, idx, 0]\<rparr>)
                            (case text of None \<Rightarrow> [] | Some x \<Rightarrow> [x, x, x]) 260)))))"

text \<open>
  The request of MODIFY VERIFICATION DATA: the positions of the old and the new PIN, and the greatest
  length that fits between them or behind the later one.
\<close>

definition mv_positions :: "byte \<Rightarrow> byte \<Rightarrow> byte \<Rightarrow> (byte \<times> byte \<times> byte) option" where
  "mv_positions typ b c =
     (case (if b > 5 \<and> b \<noteq> c then Some (b - 6, 2) else if c > 5 \<and> b = c then Some (0, 0) else None) of
        None \<Rightarrow> None
      | Some (old, confirm) \<Rightarrow>
          if c > 5 then Some (old, c - 6, confirm)
          else if c = 0 then Some (old, if typ = 2 \<and> b \<noteq> 0 then old + 8 else 0, confirm)
          else None)"

definition mv_max :: "byte \<Rightarrow> nat \<Rightarrow> byte \<Rightarrow> byte \<Rightarrow> byte \<Rightarrow> byte \<Rightarrow> nat \<Rightarrow> byte" where
  "mv_max lim f b c old new tlen =
     (let m = (of_int (int f * \<bar>int (unat new) - int (unat old)\<bar>) :: byte);
          k = (int tlen - 8 - int (unat (max new old))) * int f;
          m1 = (if tlen \<noteq> 8 \<and> k > int (unat m) then of_int k else m);
          m2 = (if b > 5 \<and> b \<noteq> c then (if m1 > lim then lim else m1) else lim) in
      if m2 = 0 then lim else m2)"

definition mv_plan :: "reader \<Rightarrow> bytes \<Rightarrow> byte \<Rightarrow> (byte \<times> byte) + modify_request" where
  "mv_plan r v timeout =
     (let n = length v; len = drop_bit 4 (v ! 0); typ = v ! 0 AND 3;
          buf0 = pin_buffer r v 3;
          buf = (if n = 7 then buf0[4 := 0] else buf0);
          tlen = (if n = 7 then 8 else n) in
      if n < 7 then Inl (0x67, 0x00)
      else (case mv_positions typ (v ! 1) (v ! 2) of
          None \<Rightarrow> Inl (0x67, 0x00)
        | Some (old, new, confirm) \<Rightarrow>
            (let p = (request0 r timeout)\<lparr>pr_ConfirmPIN := confirm OR 1, pr_OffsetOld := old, pr_OffsetNew := new\<rparr> in
             if typ = 0 then
               Inr (with_digits (bcd_digits (mv_max 30 2 (v ! 1) (v ! 2) old new tlen) len)
                      (p\<lparr>pr_PinType := 1, pr_out := take (tlen - 3) (buf[4 := 0])\<rparr>))
             else if typ = 1 then
               Inr (with_digits (ascii_digits (mv_max 15 1 (v ! 1) (v ! 2) old new tlen) len)
                      (p\<lparr>pr_PinType := 2, pr_out := take (tlen - 3) (buf[4 := 0])\<rparr>))
             else if typ = 2 then
               (let b4 = max (buf ! 4) (max (old + 8) (new + 8));
                    buf1 = buf[4 := b4];
                    buf2 = (if confirm AND 2 \<noteq> 0 then format2_block (5 + unat old) buf1 else buf1);
                    buf3 = format2_block (5 + unat new) buf2 in
                if new > 240 \<or> old > 240 then Inl (0x67, 0x00)
                else if len \<noteq> 0 \<and> (len < 4 \<or> len > 12) then Inl (0x67, 0x00)
                else Inr (with_digits (format2_digits len)
                       (p\<lparr>pr_PinType := 1, pr_PinPosition := 1, pr_PinLengthPosition := 4, pr_PinLengthSize := 4,
                          pr_out := take (unat b4 + 5) buf3\<rparr>)))
             else Inl (0x6A, 0x00))))"

text \<open>
  The texts of tag \<^verbatim>\<open>50\<close>: the first, fourth and fifth occurrence.  The pointer is advanced by the length
  of the text from where the search started, not from where the tag was found.
\<close>

fun text_loop :: "bytes \<Rightarrow> nat \<Rightarrow> int \<Rightarrow> nat list \<Rightarrow> (nat \<times> nat) list \<Rightarrow> bytes \<times> (nat \<times> nat) list" where
  "text_loop buf ptr len [] texts = (buf, texts)"
| "text_loop buf ptr len (i # is) texts = (case GetTag buf ptr len 0x50 of
      None \<Rightarrow> (buf, texts)
    | Some (k, n) \<Rightarrow>
        if len < 2 + int n then (buf, texts)
        else if i = 0 \<or> i = 3 \<or> i = 4
        then text_loop (transform_at buf (k, n)) (ptr + 2 + n) (len - (2 + int n)) is (texts @ [(k, n)])
        else text_loop buf (ptr + 2 + n) (len - (2 + int n)) is texts)"

text \<open>MODIFY VERIFICATION DATA (\<^verbatim>\<open>20 19\<close>).  The case for transmission errors falls through to the last one.\<close>

definition modify_verification :: "terminal \<Rightarrow> bytes \<Rightarrow> int \<Rightarrow> nat \<Rightarrow> int \<Rightarrow> u16 \<Rightarrow> ct_result" where
  "modify_verification t cmd Lc off Le lenr =
     (let r = t_reader t; buf = cmd_buf r cmd; tag = (\<lambda>b x. tag_value b off Lc x) in
      if cmd ! 2 \<noteq> 1 \<or> cmd ! 3 \<noteq> 0 then sw 0x6A 0x00 t
      else if Lc < 9 \<or> Le \<noteq> -1 then sw 0x67 0x00 t
      else if tag buf 0x80 \<noteq> None \<and> length (the (tag buf 0x80)) \<noteq> 1 then sw 0x67 0x00 t
      else (case tag buf 0x52 of
          None \<Rightarrow> sw 0x67 0x00 t
        | Some v \<Rightarrow>
            (case mv_plan r v (one_byte (tag buf 0x80) 15) of
               Inl (a, b) \<Rightarrow> sw a b t
             | Inr p0 \<Rightarrow>
                 (case text_loop buf off Lc [0..<5] [] of (buf1, texts) \<Rightarrow>
                    (let idx0 = (case tag buf1 0x53 of Some [x, y, z] \<Rightarrow> [x, y, z] | _ \<Rightarrow> [0, 0, 0]);
                         idx = (if idx0 ! 1 = 0 then idx0[1 := 1] else idx0);
                         p = (pin_limits (v ! 0 AND 3) (tag buf 0x51) p0)
                               \<lparr>pr_MessageIndexes := idx, pr_NumberMessage := one_byte (tag buf1 0x54) 0xff\<rparr> in
                     pin_answer t lenr (0x64, 0x02) (0x6b, 0x80)
                       (SecureMV r p (map (text_at buf1) texts) 260))))))"

section \<open>Card parameters\<close>

text \<open>
  The command \<^verbatim>\<open>80 60\<close>: geometry of a memory card (tag \<^verbatim>\<open>44\<close>), its address (\<^verbatim>\<open>45\<close>) and the wanted protocol
  (\<^verbatim>\<open>22\<close>), for which an active card is reset.  The data are always looked up behind a one-byte length.
\<close>

definition protocol_is :: "reader \<Rightarrow> byte \<Rightarrow> bool" where
  "protocol_is r x \<longleftrightarrow> m_ActiveProtocol r = SCARD_PROTOCOL_T0 \<and> x = 1 \<or> m_ActiveProtocol r = SCARD_PROTOCOL_T1 \<and> x = 2"

definition set_geometry :: "reader \<Rightarrow> byte \<Rightarrow> reader" where
  "set_geometry r x =
     (let o_b = (if x AND 0xf0 = 0x90 then 2 else 1); pg = (push_bit (unat (x AND 0x0f)) 1 :: byte) in
      snd (SetSyncParameters (r\<lparr>m_iic_offset_bytes := o_b, m_iic_pagesize := pg\<rparr>) o_b (ucast pg)))"

definition want_protocol :: "terminal \<Rightarrow> byte \<Rightarrow> ct_result" where
  "want_protocol t x =
     (let r = t_reader t in
      if m_ActiveProtocol r \<noteq> SCARD_PROTOCOL_T0 \<and> m_ActiveProtocol r \<noteq> SCARD_PROTOCOL_T1 then sw 0x90 0x00 t
      else if \<not> protocol_is r x then
        (case ctBcsReset (snd (power_down r 0)) x 0 of (Res, atr, hist, r1) \<Rightarrow>
           if Res = CJ_SUCCESS \<and> protocol_is r1 x then answer (card_sw r1 atr) (upd t r1)
           else sw 0x64 0xA3 (upd t r1))
      else sw 0x90 0x01 t)"

definition bad_length :: "bytes option \<Rightarrow> bool" where
  "bad_length v \<longleftrightarrow> (case v of None \<Rightarrow> False | Some x \<Rightarrow> length x \<noteq> 1)"

definition card_parameters :: "terminal \<Rightarrow> bytes \<Rightarrow> ct_result" where
  "card_parameters t cmd =
     (let buf = cmd_buf (t_reader t) cmd; tag = (\<lambda>x. tag_value buf 5 (int (unat (buf ! 4))) x) in
      if cmd ! 2 \<noteq> 1 \<or> cmd ! 3 \<noteq> 0 then sw 0x6A 0x00 t
      else if buf ! 4 < 3 then sw 0x67 0x00 t
      else if bad_length (tag 0x44) then sw 0x67 0x00 t
      else
        (let t1 = (case tag 0x44 of None \<Rightarrow> t | Some v \<Rightarrow> upd t (set_geometry (t_reader t) (v ! 0))) in
         if bad_length (tag 0x45) then sw 0x67 0x00 t1
         else
           (let t2 = (case tag 0x45 of None \<Rightarrow> t1 | Some v \<Rightarrow> t1\<lparr>m_iic_deviceaddr := v ! 0\<rparr>) in
            if bad_length (tag 0x22) then sw 0x67 0x00 t2
            else (case tag 0x22 of None \<Rightarrow> sw 0x90 0x00 t2 | Some v \<Rightarrow> want_protocol t2 (v ! 0)))))"

section \<open>Light terminal\<close>

definition kt_light :: "terminal \<Rightarrow> bytes \<Rightarrow> int \<Rightarrow> nat \<Rightarrow> int \<Rightarrow> u16 \<Rightarrow> ct_result" where
  "kt_light t cmd Lc off Le lenr =
     (case KTLightCall (t_reader t) cmd (if Lc = -1 then None else Some (take (nat Lc) (drop off cmd))) Le lenr of
        (Res, rsp, n, r1) \<Rightarrow>
          if Res = CJ_ERR_WRITE_DEVICE \<or> Res = CJ_ERR_DEVICE_LOST then ct_error (-128) 0 (upd t r1)
          else if Res = CJ_ERR_RBUFFER_TO_SMALL then ct_error (-11) 0 (upd t r1)
          else if Res = CJ_SUCCESS then (0, 1, 2, rsp, n, upd t r1)
          else ct_error (-10) 0 (upd t r1))"

section \<open>The interpreter\<close>

text \<open>All reader classes of the library are of class 3, and \<^verbatim>\<open>CheckUpdate\<close> is never true.\<close>

definition terminal_command :: "terminal \<Rightarrow> bytes \<Rightarrow> int \<Rightarrow> nat \<Rightarrow> int \<Rightarrow> u16 \<Rightarrow> ct_result" where
  "terminal_command t cmd Lc off Le lenr =
     (let CLA = cmd ! 0; INS = cmd ! 1; mkt = (FindModule (t_reader t) MODULE_ID_MKT_COMP \<noteq> None) in
      if CLA = 0x00 then
        (if INS = 0xa4 then select_file t cmd Lc off lenr
         else if INS = 0xb0 then read_binary t lenr
         else sw 0x6D 0x00 t)
      else if CLA = 0x20 then
        (if INS = 0x10 then reset_command t cmd Lc Le lenr False
         else if INS = 0x11 then reset_command t cmd Lc Le lenr True
         else if INS = 0x12 then request_icc t cmd Lc off Le lenr
         else if INS = 0x13 then get_status t cmd Lc Le lenr
         else if INS = 0x14 then deactivate_icc t cmd Lc Le lenr
         else if INS = 0x15 then eject_icc t cmd Lc off Le lenr
         else if INS = 0x16 \<and> mkt then input_command t cmd Lc off Le lenr
         else if INS = 0x17 \<and> mkt then output_command t cmd Lc off Le
         else if INS = 0x18 then perform_verification t cmd Lc off Le lenr
         else if INS = 0x19 then modify_verification t cmd Lc off Le lenr
         else if INS \<ge> 0x70 \<and> INS \<le> 0x76 \<and> FindModuleWithMask (t_reader t) MODULE_ID_KT_LIGHT 0xfffffeff \<noteq> None
         then kt_light t cmd Lc off Le lenr
         else sw 0x6D 0x00 t)
      else if CLA = 0x80 then (if INS = 0x60 then card_parameters t cmd else sw 0x6D 0x00 t)
      else sw 0x6E 0x00 t)"

text \<open>Commands to the card: source 0 in the answer, or 1 if the terminal answers for the card.\<close>

definition icc_command :: "terminal \<Rightarrow> bytes \<Rightarrow> u16 \<Rightarrow> ct_result" where
  "icc_command t cmd lenr =
     (if lenr < 2 then (-11, 0, 2, [], lenr, t)
      else (case IfdTransmit_raw (t_reader t) cmd lenr of (st, d, n, r1) \<Rightarrow>
        let t1 = upd t r1 in
        case st of
          STATUS_SUCCESS \<Rightarrow> (0, 0, 2, d, n, t1)
        | STATUS_IO_TIMEOUT \<Rightarrow> sw 0x6f 0x00 t1
        | STATUS_DEVICE_PROTOCOL_ERROR \<Rightarrow> sw 0x6f 0x00 t1
        | STATUS_INVALID_PARAMETER \<Rightarrow> sw 0x67 0x00 t1
        | STATUS_INVALID_DEVICE_STATE \<Rightarrow>
            if m_ReaderState r1 = SCARD_ABSENT then sw 0x64 0xA1 t1 else sw 0x64 0xA2 t1
        | STATUS_BUFFER_TOO_SMALL \<Rightarrow> (-11, 0, 2, [], 0, t1)
        | STATUS_DEVICE_NOT_CONNECTED \<Rightarrow> (-128, 0, 2, [], 0, t1)
        | _ \<Rightarrow> (-1, 0, 2, [], 0, t1)))"

definition CtData_raw :: "terminal \<Rightarrow> byte \<Rightarrow> byte \<Rightarrow> bytes \<Rightarrow> u16 \<Rightarrow> ct_result" where
  "CtData_raw t sad dad cmd lenr =
     (if dad = 1 \<and> sad = 2 then
        (if lenr < 2 then (-11, sad, dad, [], 0, t)
         else (case parse_apdu cmd of
             None \<Rightarrow> (0, sad, dad, [0x67, 0x00], 2, t)
           | Some (Lc, off, Le) \<Rightarrow> terminal_command t cmd Lc off Le lenr))
      else if dad = 0 \<and> sad = 2 then icc_command t cmd lenr
      else (-1, sad, dad, [], 0, t))"

definition grow_buffer :: "reader \<Rightarrow> bytes \<Rightarrow> reader" where
  "grow_buffer r cmd =
     (if unat (cmd_buffer_len r) < length cmd then r\<lparr>cmd_buffer_len := of_nat (length cmd) + 4096\<rparr> else r)"

definition CtData :: "terminal \<Rightarrow> byte \<Rightarrow> byte \<Rightarrow> bytes \<Rightarrow> u16 \<Rightarrow> ct_result" where
  "CtData t sad dad cmd lenr = CtData_raw (upd t (grow_buffer (t_reader t) cmd)) sad dad cmd lenr"

section \<open>What a command keeps\<close>

text \<open>
  A command of the terminal keeps the contract of the reader object; the reported length never exceeds
  the buffer of the caller, and no more bytes were stored than reported, unless the ghost flag is set.
\<close>

definition tc_post :: "reader \<Rightarrow> u16 \<Rightarrow> ct_result \<Rightarrow> bool" where
  "tc_post r lenr res = (case res of (code, sad, dad, rsp, n, t') \<Rightarrow>
     kept r (t_reader t') \<and> (card_inv r \<longrightarrow> g_overrun (t_reader t') \<or> n \<le> lenr \<and> length rsp \<le> unat n))"

lemma upd_simps [simp]:
  "t_reader (upd t r) = r" "m_reader_path (upd t r) = m_reader_path t" "m_reader_file (upd t r) = m_reader_file t"
  "m_reader_path_len (upd t r) = m_reader_path_len t"
  by (simp_all add: upd_def)

lemma tc_if: "(c \<Longrightarrow> tc_post r lenr a) \<Longrightarrow> (\<not> c \<Longrightarrow> tc_post r lenr b) \<Longrightarrow> tc_post r lenr (if c then a else b)"
  by simp

lemma tc_answer: "kept r (t_reader t') \<Longrightarrow> length d \<le> unat lenr \<Longrightarrow> tc_post r lenr (answer d t')"
  using u16_bound[of lenr] by (simp add: tc_post_def answer_def word_le_nat_alt unat_of_nat_u16)

lemma tc_sw: "kept r (t_reader t') \<Longrightarrow> 2 \<le> unat lenr \<Longrightarrow> tc_post r lenr (sw a b t')"
  by (simp add: sw_def tc_answer)

lemma tc_error: "kept r (t_reader t') \<Longrightarrow> n \<le> lenr \<Longrightarrow> tc_post r lenr (ct_error c n t')"
  by (simp add: tc_post_def ct_error_def)

lemmas tc_rules = tc_if tc_answer tc_sw tc_error kept_updates(1)

lemma select_file_post: "2 \<le> unat lenr \<Longrightarrow> tc_post (t_reader t) lenr (select_file t cmd Lc off lenr)"
  unfolding select_file_def selected_def Let_def
  by (intro tc_rules) (simp_all add: file_control_def kept_updates word_le_nat_alt not_less)

lemma read_binary_post: "2 \<le> unat lenr \<Longrightarrow> tc_post (t_reader t) lenr (read_binary t lenr)"
proof -
  assume l: "2 \<le> unat lenr"
  have c: "length d < 65536 \<Longrightarrow> tc_post (t_reader t) lenr (contents t lenr d)" for d
    unfolding contents_def
    by (intro tc_rules) (simp_all add: kept_updates not_less word_le_nat_alt unat_of_nat_u16)
  have last: "tc_post (t_reader t) lenr (if lenr < 18 then ct_error (-11) lenr t else (0, 1, 2, d, 18, t))"
    if "length d = 17" for d
    using that by (auto simp: tc_post_def ct_error_def kept_updates not_less)
  show ?thesis unfolding read_binary_def Let_def
    by (intro tc_if c last tc_sw) (simp_all add: l kept_updates)
qed

lemma ctBcsReset_kept: "ctBcsReset r p tm = (Res, atr, hist, r') \<Longrightarrow> kept r r'"
  by (auto simp: ctBcsReset_def Let_def split: if_splits prod.splits
      dest!: kept_power kept_protocol intro: kept_trans kept_updates)

lemma card_sw_length [simp]: "length (card_sw r atr) = 2"
  by (simp add: card_sw_def Let_def)

lemma kept_down: "kept r0 r \<Longrightarrow> kept r0 (snd (power_down r tm))"
  by (blast intro: kept_trans kept_power_down)

lemma reset_answer_post:
  assumes "kept r0 (t_reader t)" and "2 \<le> unat lenr"
  shows "tc_post r0 lenr (reset_answer t P2 atr hist lenr z1 z2)"
  unfolding reset_answer_def Let_def
  by (intro tc_rules) (use assms in \<open>auto simp: kept_down not_less\<close>)

lemma reset_command_post:
  assumes "2 \<le> unat lenr"
  shows "tc_post (t_reader t) lenr (reset_command t cmd Lc Le lenr z1)"
proof -
  let ?r1 = "snd (power_down (t_reader t) 0)"
  obtain Res atr hist r2 where c: "ctBcsReset ?r1 0 0 = (Res, atr, hist, r2)" by (metis prod_cases4)
  have k: "kept (t_reader t) ?r1" "kept (t_reader t) r2"
    using kept_power_down ctBcsReset_kept[OF c] kept_trans by blast+
  show ?thesis unfolding reset_command_def Let_def c prod.case
    by (intro tc_rules reset_answer_post) (simp_all add: assms k kept_updates kept_down)
qed

lemma request_icc_post:
  assumes "2 \<le> unat lenr"
  shows "tc_post (t_reader t) lenr (request_icc t cmd Lc off Le lenr)"
proof -
  obtain st State r1 where s: "IfdGetState (t_reader t) = (st, State, r1)" by (metis prod_cases3)
  note k1 = kept_state[OF s]
  let ?w = "if Lc \<noteq> -1 then wait_time (cmd_buf (t_reader t) cmd) off Lc else Inr None"
  obtain Res atr hist r2 where c: "ctBcsReset r1 0 (milliseconds (projr ?w)) = (Res, atr, hist, r2)"
    by (metis prod_cases4)
  have k2: "kept (t_reader t) r2" using k1 ctBcsReset_kept[OF c] kept_trans by blast
  show ?thesis
  proof (cases ?w)
    case (Inl u)
    show ?thesis unfolding request_icc_def Let_def s prod.case Inl sum.case
      by (intro tc_rules) (simp_all add: assms k1 kept_updates)
  next
    case (Inr tm)
    show ?thesis using c unfolding request_icc_def Let_def s prod.case Inr sum.case sum.sel
      by (simp only: prod.case) (intro tc_rules reset_answer_post; simp add: assms k1 k2 kept_updates kept_down)
  qed
qed

lemma kept_down': "power_down r tm = (st, r') \<Longrightarrow> kept r r'"
  using kept_power_down[of r tm] by simp

lemma deactivate_icc_post:
  assumes "2 \<le> unat lenr"
  shows "tc_post (t_reader t) lenr (deactivate_icc t cmd Lc Le lenr)"
proof -
  obtain st r1 where p: "power_down (t_reader t) 0 = (st, r1)" by fastforce
  note k = kept_down'[OF p]
  show ?thesis unfolding deactivate_icc_def p prod.case
    by (intro tc_rules) (simp_all add: assms k kept_updates)
qed

lemma eject_icc_post:
  assumes "2 \<le> unat lenr"
  shows "tc_post (t_reader t) lenr (eject_icc t cmd Lc off Le lenr)"
proof -
  let ?w = "wait_time (cmd_buf (t_reader t) cmd) off Lc"
  obtain st r1 where p: "power_down (t_reader t) 0 = (st, r1)" by fastforce
  obtain st2 r2 where p2: "power_down r1 (milliseconds (projr ?w)) = (st2, r2)" by fastforce
  obtain st3 State r3 where s: "IfdGetState r2 = (st3, State, r3)" by (metis prod_cases3)
  have k: "kept (t_reader t) r1" "kept (t_reader t) r2" "kept (t_reader t) r3"
    using kept_down'[OF p] kept_down'[OF p2] kept_state[OF s] kept_trans by blast+
  have sw': "tc_post (t_reader t) lenr (sw a b (upd t r1))" for a b by (rule tc_sw) (simp_all add: k assms)
  have w: "tc_post (t_reader t) lenr (case ?w of Inl _ \<Rightarrow> sw 0x67 0x00 (upd t r1) | Inr None \<Rightarrow> sw 0x90 0x00 (upd t r1)
     | Inr (Some b) \<Rightarrow> (case power_down r1 (milliseconds (Some b)) of (st2, r2) \<Rightarrow>
                  if st2 \<noteq> STATUS_SUCCESS then ct_error (-10) lenr (upd t r2)
                  else (case IfdGetState r2 of (st3, State, r3) \<Rightarrow>
                    if st3 = STATUS_DEVICE_NOT_CONNECTED then ct_error (-10) lenr (upd t r3)
                    else if State = SCARD_ABSENT then sw 0x90 0x01 (upd t r3)
                    else sw 0x62 0x00 (upd t r3))))"
  proof (cases ?w)
    case (Inr y)
    then show ?thesis
    proof (cases y)
      case (Some b)
      have "power_down r1 (milliseconds (Some b)) = (st2, r2)" using p2 Inr Some by simp
      then show ?thesis unfolding Inr Some sum.case option.case
        by (simp only: prod.case s) (intro tc_rules; simp add: assms k)
    qed (simp add: sw')
  qed (simp add: sw')
  show ?thesis unfolding eject_icc_def Let_def p prod.case
    by (intro tc_if w tc_sw tc_error) (simp_all add: assms k kept_updates)
qed

lemma card_status_post:
  assumes "2 \<le> unat lenr"
  shows "tc_post (t_reader t) lenr (card_status t lenr)"
proof -
  obtain st State r1 where s: "IfdGetState (t_reader t) = (st, State, r1)" by (metis prod_cases3)
  note k = kept_state[OF s]
  show ?thesis unfolding card_status_def s prod.case
    by (intro tc_rules) (simp_all add: assms k kept_updates not_less word_le_nat_alt)
qed

lemma manufacturer_post:
  assumes "2 \<le> unat lenr"
  shows "tc_post (t_reader t) lenr (manufacturer t lenr)"
proof (cases "FindModule (t_reader t) MODULE_ID_KERNEL")
  case None
  then show ?thesis by (simp add: manufacturer_def Let_def tc_error kept_updates)
next
  case (Some Info)
  show ?thesis unfolding manufacturer_def Let_def Some option.case
    by (intro tc_rules) (simp_all add: assms kept_updates not_less word_le_nat_alt min_le_iff_disj)
qed

lemma get_status_post:
  assumes "2 \<le> unat lenr"
  shows "tc_post (t_reader t) lenr (get_status t cmd Lc Le lenr)"
  unfolding get_status_def Let_def
  by (intro tc_if card_status_post manufacturer_post tc_answer tc_sw tc_error)
    (simp_all add: assms kept_updates not_less word_le_nat_alt)

section \<open>Input and output keep the contract\<close>

lemma cjInput_kept: "cjInput r tm txt = (Res, key, r') \<Longrightarrow> kept r r'"
  by (rule kept.service_R[OF service_input])

lemma kept_over_flag: "kept r (over_flag b r)"
  by (simp add: over_flag_def kept_updates)

lemma input_loop_kept: "input_loop r P2 tag50 charlen i tm key buffer = (e, r') \<Longrightarrow> kept r r'"
proof (induction r P2 tag50 charlen i tm key buffer arbitrary: e r' rule: input_loop.induct)
  case (1 r P2 tag50 charlen i tm key buffer)
  let ?echo = "if P2 AND 0x0f = 1 then take i buffer else if P2 AND 0x0f = 2 then replicate i 0x2a else []"
  obtain Res keys r1 where
    c: "cjInput (over_flag (length tag50 + length ?echo > 256) r) tm (tag50 @ ?echo) = (Res, keys, r1)"
    by (metis prod_cases3)
  let ?k = "case keys of [] \<Rightarrow> key | x # _ \<Rightarrow> x" and ?r2 = "over_flag (i \<ge> 256) r1"
  have k1: "kept r r1" by (rule kept_trans[OF kept_over_flag cjInput_kept[OF c]])
  have k2: "kept r ?r2" using k1 kept_over_flag kept_trans by blast
  show ?case
  proof (cases "i < charlen \<and> Res = CJ_SUCCESS \<and> ?k \<noteq> 0xff")
    case False
    then show ?thesis using "1.prems" c k1
      by (subst (asm) input_loop.simps) (auto simp: Let_def kept_updates split: if_splits)
  next
    case True
    note IH = "1.IH"[OF conjunct1[OF True] refl c[symmetric] refl _ refl refl]
    show ?thesis
      using "1.prems" c True k1 IH(1)[THEN kept_trans[OF k2]] IH(2)[THEN kept_trans[OF k2]]
        IH(3)[THEN kept_trans[OF k1]]
      by (subst (asm) input_loop.simps) (simp add: Let_def split: if_splits)
  qed
qed

lemma kept_callback:
  "kept (r\<lparr>m_KeyIntCallback := b\<rparr>) r' \<Longrightarrow> kept r (r'\<lparr>m_KeyIntCallback := m_KeyIntCallback r\<rparr>)"
proof -
  have c: "card_inv (q\<lparr>m_KeyIntCallback := x\<rparr>) = card_inv q" "modules_inv (q\<lparr>m_KeyIntCallback := x\<rparr>) = modules_inv q"
    for q x
    by (simp_all add: card_inv_def reader_inv_def modules_inv_def)
  assume "kept (r\<lparr>m_KeyIntCallback := b\<rparr>) r'"
  then show ?thesis unfolding kept_def same_settings_def c by simp
qed

lemma input_command_post:
  assumes "2 \<le> unat lenr"
  shows "tc_post (t_reader t) lenr (input_command t cmd Lc off Le lenr)"
proof -
  let ?r = "t_reader t"
  let ?w = "if Lc \<noteq> -1 then wait_time (cmd_buf ?r cmd) off Lc else Inr None"
  let ?txt = "case tag_value (cmd_buf ?r cmd) off Lc 0x50 of None \<Rightarrow> [] | Some v \<Rightarrow> TransformText v"
  obtain e r1 where l: "input_loop (?r\<lparr>m_KeyIntCallback := False\<rparr>) (cmd ! 3) ?txt (if Le = 0 then 256 else nat Le) 0
      (case projr ?w of None \<Rightarrow> 15 | Some b \<Rightarrow> b) (g_over ?r 0) (map (g_over ?r) [0..<256]) = (e, r1)" by fastforce
  have k: "kept ?r (r1\<lparr>m_KeyIntCallback := m_KeyIntCallback ?r\<rparr>)"
    by (rule kept_callback[OF input_loop_kept[OF l]])
  let ?t1 = "upd t (r1\<lparr>m_KeyIntCallback := m_KeyIntCallback ?r\<rparr>)"
  have fin: "tc_post ?r lenr (case e of InputFailed \<Rightarrow> ct_error (-128) 0 ?t1 | InputTimeout \<Rightarrow> sw 0x64 0x00 ?t1
      | InputCanceled \<Rightarrow> sw 0x64 0x01 ?t1
      | InputDone i buffer \<Rightarrow> if unat lenr < i + 2 then ct_error (-11) 0 ?t1
          else answer (take i buffer @ [0x90, 0x00]) ?t1)"
    by (cases e) (auto intro!: tc_sw tc_error tc_answer simp: k assms)
  show ?thesis
  proof (cases ?w)
    case (Inl u)
    show ?thesis unfolding input_command_def Let_def Inl sum.case
      by (intro tc_rules) (simp_all add: assms kept_updates)
  next
    case (Inr tm)
    note l' = l[unfolded Inr sum.sel]
    show ?thesis
      unfolding input_command_def Let_def Inr sum.case l' prod.case
      by (intro tc_if tc_sw fin) (simp_all add: assms kept_updates)
  qed
qed

lemma cjOutput_kept: "cjOutput r tm txt = (Res, r') \<Longrightarrow> kept r r'"
  by (rule kept.service_R[OF service_output])

lemma show_text_post:
  assumes "2 \<le> unat lenr"
  shows "tc_post (t_reader t) lenr (show_text t buf off Lc tm)"
  unfolding show_text_def using assms
  by (auto simp: kept_updates split: option.splits prod.splits dest!: cjOutput_kept intro!: tc_sw)

lemma output_command_post:
  assumes "2 \<le> unat lenr"
  shows "tc_post (t_reader t) lenr (output_command t cmd Lc off Le)"
  unfolding output_command_def Let_def using assms
  by (auto simp: kept_updates show_text_post split: option.splits intro!: tc_sw)

section \<open>PIN commands keep the contract\<close>

text \<open>A PIN entry that delivers data reports their length, unless the ghost flag is set.\<close>

definition secure_post :: "secure_result \<Rightarrow> bool" where
  "secure_post res = (case res of (Res, d, n, r) \<Rightarrow>
     Res = CJ_SUCCESS \<or> Res = CJ_ERR_PIN_EXTENDED \<longrightarrow> g_overrun r \<or> n = int (length d))"

lemma secure_post_fail: "c \<noteq> CJ_SUCCESS \<Longrightarrow> c \<noteq> CJ_ERR_PIN_EXTENDED \<Longrightarrow> secure_post (c, d, n, r)"
  by (simp add: secure_post_def)

lemma secure_post_if: "(b \<Longrightarrow> secure_post x) \<Longrightarrow> (\<not> b \<Longrightarrow> secure_post y) \<Longrightarrow> secure_post (if b then x else y)"
  by simp

lemma secure_copy_post: "secure_post (secure_copy c d dw 260 r)"
proof (cases dw rule: sint_u32_cases)
  case 1
  then show ?thesis by (auto simp: secure_post_def secure_copy_def simp del: of_nat_unat)
next
  case 2
  then show ?thesis by (auto simp: secure_post_def secure_copy_def simp del: of_nat_unat)
qed

lemma secure_error_post:
  assumes "da = None \<or> da = Some CJ_ERR_NO_ICC \<or> da = Some CJ_ERR_NO_ACTIVE_ICC"
  shows "secure_post (secure_error e offs da d dw 260 r)"
proof -
  have "secure_post (case da of Some c \<Rightarrow> (c, [], 260, r) | None \<Rightarrow> secure_copy CJ_SUCCESS d dw 260 r)"
    using assms secure_copy_post by (auto simp: secure_post_fail)
  then show ?thesis unfolding secure_error_def Let_def
    by (intro secure_post_if secure_copy_post) (simp_all add: secure_post_fail)
qed

lemma status_icc_codes:
  "status_icc st = None \<or> status_icc st = Some CJ_ERR_NO_ICC \<or> status_icc st = Some CJ_ERR_NO_ACTIVE_ICC"
  "state_icc r = None \<or> state_icc r = Some CJ_ERR_NO_ICC \<or> state_icc r = Some CJ_ERR_NO_ACTIVE_ICC"
  by (simp_all add: status_icc_def state_icc_def)

lemma execute_post: "secure_post (ExecuteSecureResult r Rsp 260 offs)"
proof -
  have "secure_post (ccid_ExecuteSecureResult r Rsp 260 offs)"
    unfolding ccid_ExecuteSecureResult_def Let_def
    using status_icc_codes(1)[of "rsp_bStatus Rsp"] secure_copy_post secure_error_post[of None]
    by (auto simp: secure_post_fail)
  then show ?thesis unfolding ExecuteSecureResult_def
    using secure_copy_post secure_error_post[OF status_icc_codes(1)]
    by (auto simp: secure_post_fail split: option.splits)
qed

lemma execute_appl_post: "secure_post (ExecuteApplSecureResult r e el d dl 260 offs)"
  unfolding ExecuteApplSecureResult_def
  using status_icc_codes(2)[of r] secure_copy_post secure_error_post[OF status_icc_codes(2)]
  by (auto simp: secure_post_fail split: option.splits)

lemma Transfer_codes:
  "card_inv r \<Longrightarrow> Transfer r m = (Res, Rsp, r') \<Longrightarrow>
     Res \<in> {CJ_SUCCESS, CJ_ERR_DEVICE_LOST, CJ_ERR_SEQ, CJ_ERR_INTERNAL_BUFFER_OVERFLOW}"
  using Transfer_postD[OF card_inv_reader, of r m Res Rsp r'] by auto

lemma Escape_codes:
  "card_inv r \<Longrightarrow> Escape r a f d arg = (Res, Result, out, n, r') \<Longrightarrow> Res \<noteq> CJ_ERR_PIN_EXTENDED"
  by (auto simp: Escape_def escape_response_def Let_def split: if_splits prod.splits resp_arg.splits dest!: Transfer_codes)

lemma app_data_codes:
  assumes "card_inv r" and "CtApplicationData r a f d rc ec = (Res, Result, x1, x2, x3, x4, r')"
  shows "Res \<noteq> CJ_ERR_PIN_EXTENDED"
proof -
  let ?need = "low16 rc + low16 ec + 4"
  obtain R1 v out n r1 where e: "Escape (app_buffer r ?need) a f d (Buffer (of_nat ?need)) = (R1, v, out, n, r1)"
    by (metis prod_cases5)
  have "card_inv (app_buffer r ?need)"
    using assms(1) by (simp add: app_buffer_def card_inv_def reader_inv_def)
  with Escape_codes e have "R1 \<noteq> CJ_ERR_PIN_EXTENDED" by blast
  then show ?thesis
    using assms(2) e by (auto simp: CtApplicationData_def app_answer_def app_fail_def app_too_small_def Let_def
        split: if_splits)
qed

lemma appl_secure_post:
  assumes "card_inv r"
  shows "secure_post (appl_secure r b 260 offs)"
proof -
  let ?r = "r\<lparr>g_overrun := g_overrun r \<or> length b > 1000\<rparr>"
  have c: "card_inv ?r" using assms by (simp add: card_inv_overrun)
  obtain Res Result x1 x2 x3 x4 r1 where
    a: "CtApplicationData ?r MODULE_ID_MKT_COMP 2 b (Some 1000) (Some 1) = (Res, Result, x1, x2, x3, x4, r1)"
    by (metis prod_cases7)
  show ?thesis using app_data_codes[OF c a] execute_appl_post
    by (simp add: appl_secure_def a secure_post_fail)
qed

lemma ccid_pin_post:
  assumes "card_inv r"
  shows "secure_post (ccid_SecurePV r p i 260)" "secure_post (ccid_SecureMV r q 260)"
proof -
  let ?r1 = "if module_ready r MODULE_ID_KT_LIGHT_GC then snd (SetSMModeAndCount r MODULE_ID_KT_LIGHT_GC 1) else r"
  have c: "card_inv ?r1" using assms kept.sm_mode[of r] by (auto simp: kept_def)
  obtain R1 Rsp1 q1 where t1: "Transfer ?r1 (secure_message (length (pr_out p) + 15) (verify_data p i)) = (R1, Rsp1, q1)"
    by (metis prod_cases3)
  obtain R2 Rsp2 q2 where t2: "Transfer r (secure_message (length (pr_out q) + 20) (modify_data q)) = (R2, Rsp2, q2)"
    by (metis prod_cases3)
  show "secure_post (ccid_SecurePV r p i 260)"
    using Transfer_codes[OF c t1] execute_post by (auto simp: ccid_SecurePV_def Let_def t1 secure_post_fail)
  show "secure_post (ccid_SecureMV r q 260)"
    using Transfer_codes[OF assms t2] execute_post by (auto simp: ccid_SecureMV_def t2 secure_post_fail)
qed

lemma pin_post:
  assumes "card_inv r"
  shows "secure_post (SecurePV r p i t 260)" "secure_post (SecureMV r q ts 260)"
  using ccid_pin_post[OF assms] appl_secure_post[OF assms]
  by (auto simp: SecurePV_def SecureMV_def Let_def split: option.splits)

lemma pin_answer_post:
  assumes "case res of (Res, d, n, r) \<Rightarrow> kept r0 r" and "card_inv r0 \<Longrightarrow> secure_post res" and "2 \<le> unat lenr"
  shows "tc_post r0 lenr (pin_answer t lenr x y res)"
proof -
  obtain Res d n r where res: "res = (Res, d, n, r)" by (metis prod_cases4)
  have k: "kept r0 r" using assms(1) res by simp
  have ok: "tc_post r0 lenr (0, s, 2, d, of_int n, upd t r)"
    if "Res = CJ_SUCCESS \<or> Res = CJ_ERR_PIN_EXTENDED" "\<not> int (unat lenr) < n" for s
  proof -
    have "g_overrun r \<or> n = int (length d)" if "card_inv r0"
      using assms(2)[OF that] res \<open>Res = CJ_SUCCESS \<or> _\<close> by (auto simp: secure_post_def)
    moreover have "unat (of_int (int (length d)) :: u16) = length d" if "n = int (length d)"
      using that \<open>\<not> int (unat lenr) < n\<close> u16_bound[of lenr] by (simp add: unat_of_nat_u16 del: of_nat_unat)
    ultimately show ?thesis
      using k \<open>\<not> int (unat lenr) < n\<close> by (auto simp: tc_post_def word_le_nat_alt simp del: of_nat_unat)
  qed
  show ?thesis unfolding pin_answer_def res prod.case Let_def
    by (intro tc_if ok tc_error tc_sw) (simp_all add: k assms(3))
qed

lemma kept_card: "kept r r' \<Longrightarrow> card_inv r \<Longrightarrow> card_inv r'"
  by (simp add: kept_def)

lemma pin_call_post:
  assumes "2 \<le> unat lenr" and "res = SecurePV (over_flag b r) p i msg 260 \<or> res = SecureMV (over_flag b r) q ts 260"
  shows "tc_post r lenr (pin_answer t lenr x y res)"
proof (rule pin_answer_post[OF _ _ assms(1)])
  obtain Res d n r' where res: "res = (Res, d, n, r')" by (metis prod_cases4)
  have "kept (over_flag b r) r'"
    using assms(2) unfolding res by (auto dest: sym[THEN kept.secure_pv] sym[THEN kept.secure_mv])
  then show "case res of (Res, d, n, r') \<Rightarrow> kept r r'"
    unfolding res prod.case by (rule kept_trans[OF kept_over_flag])
  show "secure_post res" if "card_inv r"
    using assms(2) pin_post[OF kept_card[OF kept_over_flag that]] by auto
qed

lemma pin_if_post:
  "2 \<le> unat lenr \<Longrightarrow> tc_post r lenr (pin_answer t lenr x y
     (if c then SecurePV (over_flag b r) p i msg 260 else SecureMV (over_flag b r) q ts 260))"
  by (rule pin_call_post) auto

lemma over_flag_False: "over_flag False r = r"
  by (simp add: over_flag_def)

lemma perform_verification_post:
  assumes "2 \<le> unat lenr"
  shows "tc_post (t_reader t) lenr (perform_verification t cmd Lc off Le lenr)"
proof -
  let ?r = "t_reader t" and ?tag = "tag_value (cmd_buf (t_reader t) cmd) off Lc"
  have s: "tc_post ?r lenr (sw a b t)" for a b by (rule tc_sw) (simp_all add: assms kept_updates)
  show ?thesis
  proof (cases "?tag 0x52")
    case None
    show ?thesis unfolding perform_verification_def Let_def None option.case by (intro tc_if s)
  next
    case (Some v)
    let ?plan = "pv_plan ?r v (one_byte (?tag 0x80) 15)"
    show ?thesis
    proof (cases ?plan)
      case (Inl x)
      show ?thesis unfolding perform_verification_def Let_def Some option.case Inl sum.case
        by (intro tc_if s) (simp add: s split: prod.split)
    next
      case (Inr y)
      obtain p0 use_MV over where y: "y = (p0, use_MV, over)" by (metis prod_cases3)
      show ?thesis unfolding perform_verification_def Let_def Some option.case Inr y sum.case prod.case
        by (intro tc_if s pin_if_post[OF assms])
    qed
  qed
qed

lemma modify_verification_post:
  assumes "2 \<le> unat lenr"
  shows "tc_post (t_reader t) lenr (modify_verification t cmd Lc off Le lenr)"
proof -
  let ?r = "t_reader t" and ?tag = "tag_value (cmd_buf (t_reader t) cmd) off Lc"
  have s: "tc_post ?r lenr (sw a b t)" for a b by (rule tc_sw) (simp_all add: assms kept_updates)
  have mv: "tc_post ?r lenr (pin_answer t lenr x y (SecureMV ?r q ts 260))" for x y q ts
    using pin_call_post[OF assms disjI2[OF refl], of ?r t x y False] by (simp add: over_flag_False)
  obtain buf1 texts where tl: "text_loop (cmd_buf ?r cmd) off Lc [0..<5] [] = (buf1, texts)" by fastforce
  show ?thesis
  proof (cases "?tag 0x52")
    case None
    show ?thesis unfolding modify_verification_def Let_def None option.case by (intro tc_if s)
  next
    case (Some v)
    let ?plan = "mv_plan ?r v (one_byte (?tag 0x80) 15)"
    show ?thesis
    proof (cases ?plan)
      case (Inl x)
      show ?thesis unfolding modify_verification_def Let_def Some option.case Inl sum.case
        by (intro tc_if s) (simp add: s split: prod.split)
    next
      case (Inr y)
      show ?thesis unfolding modify_verification_def Let_def Some option.case Inr sum.case tl prod.case
        by (intro tc_if s mv)
    qed
  qed
qed

section \<open>The interpreter keeps the contract\<close>

lemma kept_geometry: "kept r (set_geometry r x)"
  unfolding set_geometry_def Let_def by (rule kept_trans[OF kept_updates(9) kept_sync])

lemma want_protocol_post:
  assumes "kept r0 (t_reader t)" and "2 \<le> unat lenr"
  shows "tc_post r0 lenr (want_protocol t x)"
proof -
  obtain Res atr hist r1 where c: "ctBcsReset (snd (power_down (t_reader t) 0)) x 0 = (Res, atr, hist, r1)"
    by (metis prod_cases4)
  have "kept r0 r1" using kept_trans[OF kept_down[OF assms(1)] ctBcsReset_kept[OF c]] .
  then show ?thesis unfolding want_protocol_def Let_def c prod.case
    by (intro tc_if tc_sw tc_answer) (simp_all add: assms)
qed

lemma card_parameters_post:
  assumes "2 \<le> unat lenr"
  shows "tc_post (t_reader t) lenr (card_parameters t cmd)"
proof -
  let ?buf = "cmd_buf (t_reader t) cmd"
  let ?tag = "\<lambda>x. tag_value ?buf 5 (int (unat (?buf ! 4))) x"
  let ?t1 = "case ?tag 0x44 of None \<Rightarrow> t | Some v \<Rightarrow> upd t (set_geometry (t_reader t) (v ! 0))"
  let ?t2 = "case ?tag 0x45 of None \<Rightarrow> ?t1 | Some v \<Rightarrow> ?t1\<lparr>m_iic_deviceaddr := v ! 0\<rparr>"
  have k1: "kept (t_reader t) (t_reader ?t1)" by (auto simp: kept_updates kept_geometry split: option.split)
  have k2: "kept (t_reader t) (t_reader ?t2)" using k1 by (cases "?tag 0x45") auto
  have w: "tc_post (t_reader t) lenr (case ?tag 0x22 of None \<Rightarrow> sw 0x90 0x00 ?t2 | Some v \<Rightarrow> want_protocol ?t2 (v ! 0))"
    by (cases "?tag 0x22") (simp_all only: option.case tc_sw[OF k2 assms] want_protocol_post[OF k2 assms])
  show ?thesis unfolding card_parameters_def Let_def
    by (intro tc_if w tc_sw[OF k1 assms] tc_sw[OF k2 assms] tc_sw[OF kept_updates(1) assms])
qed

lemma KTLightCall_success:
  assumes "KTLightCall r cmd d Le lenr = (CJ_SUCCESS, rsp, n, r')" and "2 \<le> unat lenr"
  shows "g_overrun r' \<or> n \<le> lenr \<and> length rsp \<le> unat n"
proof -
  define m where "m = (if FindModule r MODULE_ID_KT_LIGHT \<noteq> None then MODULE_ID_KT_LIGHT else MODULE_ID_KT_LIGHT_GC)"
  obtain Res Result x1 x2 x3 x4 r1 where
    a: "CtApplicationData r m (ucast (cmd ! 1) - 0x70) (cmd ! 3 # the d) (Some (ucast lenr - 2)) (Some 6)
        = (Res, Result, x1, x2, x3, x4, r1)" by (metis prod_cases7)
  have two: "(2::u16) \<le> lenr" using assms(2) by (simp add: word_le_nat_alt)
  consider "n = 2" "length rsp = 2" | "Res = CJ_SUCCESS" "\<not> the x4 > 2" "rsp = x1 @ x3" "n = ucast (the x2 + the x4)" "r' = r1"
    using assms(1) a[unfolded m_def]
    by (auto simp: KTLightCall_def Let_def split: if_splits option.splits)
  then show ?thesis
  proof cases
    case 2
    obtain k l where kl: "x2 = Some k" "x4 = Some l" "k \<le> ucast lenr - 2" "unat k < 65536"
      "g_overrun r1 \<or> length x1 = unat k \<and> length x3 = unat l"
      using app_data_success[OF a[unfolded 2(1)]] by blast
    have l: "unat l \<le> 2" using 2(2) kl(2) by (simp add: word_le_nat_alt not_less)
    have uc: "unat (ucast lenr :: u32) = unat lenr" by transfer (simp add: take_bit_take_bit min_def)
    then have "(2::u32) \<le> ucast lenr" using assms(2) by (simp add: word_le_nat_alt)
    then have "unat k \<le> unat lenr - 2"
      using kl(3) uc by (simp add: word_le_nat_alt unat_sub)
    then have s: "unat k + unat l \<le> unat lenr" using l assms(2) by simp
    then have "unat n = unat k + unat l"
      using u16_bound[of lenr] 2(4) kl(1,2) by (simp add: unsigned_ucast_eq unat_word_ariths take_bit_nat_eq_self)
    then show ?thesis using kl(5) s 2(3,5) by (auto simp: word_le_nat_alt)
  qed (use two in simp)
qed

lemma kt_light_post:
  assumes "2 \<le> unat lenr"
  shows "tc_post (t_reader t) lenr (kt_light t cmd Lc off Le lenr)"
proof -
  let ?d = "if Lc = -1 then None else Some (take (nat Lc) (drop off cmd))"
  obtain Res rsp n r1 where k: "KTLightCall (t_reader t) cmd ?d Le lenr = (Res, rsp, n, r1)" by (metis prod_cases4)
  note kp = kept.kt_call[OF k]
  have "g_overrun r1 \<or> n \<le> lenr \<and> length rsp \<le> unat n" if ok: "Res = CJ_SUCCESS"
    using KTLightCall_success[OF k[unfolded ok] assms] .
  then have "tc_post (t_reader t) lenr (0, 1, 2, rsp, n, upd t r1)" if "Res = CJ_SUCCESS"
    using kp that by (auto simp: tc_post_def)
  then show ?thesis unfolding kt_light_def k prod.case
    by (intro tc_if tc_error) (simp_all add: kp)
qed

lemma terminal_command_post:
  assumes "2 \<le> unat lenr"
  shows "tc_post (t_reader t) lenr (terminal_command t cmd Lc off Le lenr)"
  unfolding terminal_command_def Let_def
  by (intro tc_if tc_sw[OF kept_updates(1) assms] select_file_post read_binary_post reset_command_post request_icc_post
      get_status_post deactivate_icc_post eject_icc_post input_command_post output_command_post
      perform_verification_post modify_verification_post kt_light_post card_parameters_post assms)

lemma icc_command_post:
  assumes "icc_command t cmd lenr = (code, s, d, rsp, n, t')"
  shows "kept (t_reader t) (t_reader t')"
    and "card_inv (t_reader t) \<Longrightarrow> n \<le> lenr \<or> untested_length (m_class (t_reader t)) cmd lenr"
proof -
  obtain st dat k r1 where i: "IfdTransmit_raw (t_reader t) cmd lenr = (st, dat, k, r1)" by (metis prod_cases4)
  show "kept (t_reader t) (t_reader t')"
    using assms kept_transmit[OF i]
    by (auto simp: icc_command_def i Let_def kept_updates sw_def answer_def split: if_splits ifd_result.splits)
  assume "card_inv (t_reader t)"
  then have "st = STATUS_SUCCESS \<longrightarrow> k \<le> lenr \<or> untested_length (m_class (t_reader t)) cmd lenr"
    using IfdTransmit_raw_post[of "t_reader t" cmd lenr] i by (simp add: raw_post_def word_le_nat_alt)
  then show "n \<le> lenr \<or> untested_length (m_class (t_reader t)) cmd lenr"
    using assms
    by (auto simp: icc_command_def i Let_def sw_def answer_def not_less split: if_splits ifd_result.splits)
qed

lemma CtData_post:
  assumes "CtData t sad dad cmd lenr = (code, s, d, rsp, n, t')"
  shows "kept (t_reader t) (t_reader t')"
    and "card_inv (t_reader t) \<Longrightarrow> dad = 0 \<Longrightarrow> n \<le> lenr \<or> untested_length (m_class (t_reader t)) cmd lenr"
    and "card_inv (t_reader t) \<Longrightarrow> dad \<noteq> 0 \<Longrightarrow> n \<le> lenr \<and> length rsp \<le> unat n \<or> g_overrun (t_reader t')"
proof -
  define r where "r = grow_buffer (t_reader t) cmd"
  have k: "kept (t_reader t) r" and cl: "m_class r = m_class (t_reader t)" by (simp_all add: r_def grow_buffer_def kept_updates)
  have raw: "CtData_raw (upd t r) sad dad cmd lenr = (code, s, d, rsp, n, t')"
    using assms by (simp add: CtData_def r_def)
  consider (short) "lenr < 2" "n = 0" "rsp = []" "t' = upd t r"
    | (bad) "2 \<le> lenr" "n = 2" "length rsp = 2" "t' = upd t r"
    | (none) "n = 0" "rsp = []" "t' = upd t r"
    | (icc) "dad = 0" "icc_command (upd t r) cmd lenr = (code, s, d, rsp, n, t')"
    | (ct) Lc off Le where "dad \<noteq> 0" "2 \<le> lenr" "terminal_command (upd t r) cmd Lc off Le lenr = (code, s, d, rsp, n, t')"
    using raw by (auto simp: CtData_raw_def not_less split: if_splits option.splits)
  note cs = this
  have all: "kept r (t_reader t') \<and> (card_inv r \<longrightarrow>
      (dad = 0 \<longrightarrow> n \<le> lenr \<or> untested_length (m_class r) cmd lenr)
      \<and> (dad \<noteq> 0 \<longrightarrow> n \<le> lenr \<and> length rsp \<le> unat n \<or> g_overrun (t_reader t')))"
    using cs
  proof cases
    case icc
    then show ?thesis using icc_command_post[OF icc(2)] by simp
  next
    case ct
    then show ?thesis using terminal_command_post[of lenr "upd t r" cmd Lc off Le]
      by (auto simp: tc_post_def word_le_nat_alt)
  qed (simp_all add: kept_updates)
  then show "kept (t_reader t) (t_reader t')" using k kept_trans by blast
  assume "card_inv (t_reader t)"
  with k have "card_inv r" by (rule kept_card)
  with all cl show "dad = 0 \<Longrightarrow> n \<le> lenr \<or> untested_length (m_class (t_reader t)) cmd lenr"
    and "dad \<noteq> 0 \<Longrightarrow> n \<le> lenr \<and> length rsp \<le> unat n \<or> g_overrun (t_reader t')" by auto
qed

text \<open>A terminal at power-on; the path and the file name are not initialised.\<close>

definition terminal0 :: "reader \<Rightarrow> terminal" where
  "terminal0 r = \<lparr>t_reader = r, m_reader_path = map (g_over r) [0..<10], m_reader_path_len = 0,
     m_reader_file = [g_over r 0, g_over r 1], m_iic_deviceaddr = 0\<rparr>"



section \<open>Command formats\<close>

text \<open>
  The reference: the seven command formats of ISO 7816-4, short or extended (\<open>e\<close>), with header, data and
  expected length; the values the interpreter works with.
\<close>

definition len16 :: "nat \<Rightarrow> bytes" where
  "len16 n = [of_nat (n div 256), of_nat n]"

definition encode_apdu :: "bool \<Rightarrow> bytes \<Rightarrow> bytes \<Rightarrow> nat option \<Rightarrow> bytes" where
  "encode_apdu e h d le =
     (let len = (\<lambda>n. if e then len16 n else [of_nat n]) in
      h @ (if e then [0] else []) @ (if d = [] then [] else len (length d) @ d)
        @ (case le of None \<Rightarrow> [] | Some n \<Rightarrow> len n))"

definition apdu_ok :: "bool \<Rightarrow> bytes \<Rightarrow> bytes \<Rightarrow> nat option \<Rightarrow> bool" where
  "apdu_ok e h d le \<longleftrightarrow>
     (let m = (if e then 65536 else 256 :: nat) in
      length h = 4 \<and> length d < m \<and> (case le of None \<Rightarrow> e \<longrightarrow> d \<noteq> [] | Some n \<Rightarrow> n < m))"

definition apdu_values :: "bool \<Rightarrow> bytes \<Rightarrow> nat option \<Rightarrow> int \<times> nat \<times> int" where
  "apdu_values e d le =
     (if d = [] then -1 else int (length d), if d = [] then 0 else if e then 7 else 5,
      case le of None \<Rightarrow> -1 | Some n \<Rightarrow> int n)"

lemma unat_byte_of_nat: "unat (of_nat n :: byte) = n mod 256"
  by (simp add: unat_of_nat)

lemma div_mod_256: "n < 65536 \<Longrightarrow> n div 256 mod 256 = n div 256" for n :: nat
  by (rule mod_less) simp

lemma len_parts:
  assumes "n < 65536"
  shows "256 * (n div 256 mod 256) + n mod 256 = n" "256 * int (n div 256 mod 256) + int (n mod 256) = int n"
    "0 < n \<Longrightarrow> 0 < n div 256 mod 256 \<or> 0 < n mod 256"
proof -
  show e: "256 * (n div 256 mod 256) + n mod 256 = n" unfolding div_mod_256[OF assms] by (rule mult_div_mod_eq)
  then show "256 * int (n div 256 mod 256) + int (n mod 256) = int n"
    by (metis of_nat_add of_nat_mult of_nat_numeral)
  show "0 < n \<Longrightarrow> 0 < n div 256 mod 256 \<or> 0 < n mod 256" using e by (metis gr0I mult_0_right add_0)
qed

lemma parse_encode:
  assumes "apdu_ok e h d le"
  shows "parse_apdu (encode_apdu e h d le) = Some (apdu_values e d le)"
proof -
  note defs = parse_apdu_def encode_apdu_def apdu_values_def len16_def Let_def nth_append unat_byte_of_nat
  have h: "length h = 4" using assms by (simp add: apdu_ok_def Let_def)
  show ?thesis
  proof (cases "e \<and> d \<noteq> [] \<and> le \<noteq> None")
    case True
    then obtain n where le: "le = Some n" and b: "length d < 65536" "n < 65536" "0 < length d"
      using assms by (auto simp: apdu_ok_def)
    show ?thesis using True h len_parts[OF b(1)] len_parts[OF b(2)] b(3) by (simp add: defs le)
  next
    case False
    then show ?thesis using assms h
      by (cases e; cases "d = []"; cases le) (simp_all add: apdu_ok_def defs)
  qed
qed

lemma bytes_len16: "len16 (256 * unat a + unat b) = [a, b]" "256 * unat a + unat b < 65536" for a b :: byte
proof -
  have b: "unat a < 256" "unat b < 256" by (rule byte_bound)+
  then show "256 * unat a + unat b < 65536" by simp
  have "(256 * unat a + unat b) div 256 = unat a" using b by simp
  moreover have "(of_nat (256 * unat a + unat b) :: byte) = b"
    using b by (intro word_unat_eq_iff[THEN iffD2]) (simp add: unat_byte_of_nat del: of_nat_add of_nat_mult)
  ultimately show "len16 (256 * unat a + unat b) = [a, b]" by (simp add: len16_def del: of_nat_add of_nat_mult)
qed

lemma two_last: "length xs = Suc (Suc n) \<Longrightarrow> xs = take n xs @ [xs ! n, xs ! Suc n]"
  by (metis append_take_drop_id Cons_nth_drop_Suc drop_all lessI less_SucI order_refl)

lemma one_last: "length xs = Suc n \<Longrightarrow> xs = take n xs @ [xs ! n]"
  by (metis append_take_drop_id Cons_nth_drop_Suc drop_all lessI order_refl)

text \<open>What follows the header of an accepted command.\<close>

lemma parse_forms:
  assumes "parse_apdu (h @ rest) = Some x" and "length h = 4"
  obtains (c1) "rest = []" "x = (-1, 0, -1)"
    | (c2) c where "rest = [c]" "x = (-1, 0, int (unat c))"
    | (c3) c d where "rest = c # d" "length d = unat c" "d \<noteq> []" "x = (int (unat c), 5, -1)"
    | (c4) c d l where "rest = c # d @ [l]" "length d = unat c" "d \<noteq> []" "x = (int (unat c), 5, int (unat l))"
    | (e2) p q where "rest = [0, p, q]" "x = (-1, 0, int (256 * unat p + unat q))"
    | (e3) p q d where "rest = 0 # p # q # d" "length d = 256 * unat p + unat q" "d \<noteq> []"
        "x = (int (length d), 7, -1)"
    | (e4) p q d k l where "rest = 0 # p # q # d @ [k, l]" "length d = 256 * unat p + unat q" "d \<noteq> []"
        "x = (int (length d), 7, int (256 * unat k + unat l))"
proof (cases rest)
  case Nil
  then show ?thesis using c1 assms by (simp add: parse_apdu_def Let_def split: if_splits)
next
  case (Cons c r1)
  consider "r1 = []" | "length r1 = unat c" "r1 \<noteq> []" | "length r1 = Suc (unat c)" "c \<noteq> 0"
    | "c = 0" "length r1 = 2" | "c = 0" "length r1 > 2"
    using assms Cons by (auto simp: parse_apdu_def Let_def nth_append unat_eq_0 split: if_splits)
  then show ?thesis
  proof cases
    case 1
    then show ?thesis using c2 assms Cons by (simp add: parse_apdu_def Let_def nth_append)
  next
    case 2
    then have "unat c \<noteq> 0" by (metis length_0_conv)
    then show ?thesis using 2 c3 assms Cons by (simp add: parse_apdu_def Let_def nth_append)
  next
    case 3
    have x: "x = (int (unat c), 5, int (unat (r1 ! unat c)))" "unat c \<noteq> 0"
      using 3 assms Cons by (auto simp: parse_apdu_def Let_def nth_append unat_eq_0)
    show ?thesis by (rule c4[of c "take (unat c) r1" "r1 ! unat c"]) (use one_last[OF 3(1)] 3 x Cons in auto)
  next
    case 4
    then obtain p q where "r1 = [p, q]" by (auto simp: length_Suc_conv numeral_2_eq_2)
    then show ?thesis using e2 4 assms Cons by (simp add: parse_apdu_def Let_def nth_append)
  next
    case 5
    then obtain p q d where r1: "r1 = p # q # d" "d \<noteq> []"
      by (cases r1; cases "tl r1"; cases "tl (tl r1)") auto
    let ?w = "256 * unat p + unat q"
    consider "length d = ?w" | "length d = Suc (Suc ?w)" "?w \<noteq> 0"
      using assms Cons 5(1) r1 by (auto simp: parse_apdu_def Let_def nth_append split: if_splits)
    then show ?thesis
    proof cases
      case 1
      then have "\<not> (unat p = 0 \<and> unat q = 0)"
        using r1(2) by (metis length_0_conv add_0 mult_0_right)
      moreover have "x = (int (length d), 7, -1)"
        using calculation 1 5(1) r1 assms Cons
        by (auto simp: parse_apdu_def Let_def nth_append simp del: of_nat_unat split: if_splits)
      ultimately show ?thesis using 1 e3 5(1) r1 assms Cons by (simp add: parse_apdu_def Let_def nth_append)
    next
      case 2
      have x: "x = (int ?w, 7, int (256 * unat (d ! ?w) + unat (d ! Suc ?w)))"
        using 2 5(1) r1 assms Cons by (auto simp: parse_apdu_def Let_def nth_append)
      show ?thesis
        by (rule e4[of p q "take ?w d" "d ! ?w" "d ! Suc ?w"]) (use two_last[OF 2(1)] 2 5(1) r1 x Cons in auto)
    qed
  qed
qed

lemma apdu_exI:
  "apdu_ok e h d le \<Longrightarrow> cmd = encode_apdu e h d le \<Longrightarrow> x = apdu_values e d le \<Longrightarrow>
     \<exists>e h d le. apdu_ok e h d le \<and> cmd = encode_apdu e h d le \<and> x = apdu_values e d le"
  by blast

lemma parse_image:
  assumes "parse_apdu cmd = Some x"
  shows "\<exists>e h d le. apdu_ok e h d le \<and> cmd = encode_apdu e h d le \<and> x = apdu_values e d le"
proof -
  note defs = apdu_ok_def encode_apdu_def apdu_values_def
  have "4 \<le> length cmd" using assms by (auto simp: parse_apdu_def Let_def split: if_splits)
  then obtain h rest where cmd: "cmd = h @ rest" and h: "length h = 4"
    by (metis append_take_drop_id length_take min_absorb2)
  from assms[unfolded cmd] h show ?thesis
  proof (cases rule: parse_forms)
    case c1
    then show ?thesis by (intro apdu_exI[of False h "[]" None]) (simp_all add: cmd h defs)
  next
    case (c2 c)
    then show ?thesis by (intro apdu_exI[of False h "[]" "Some (unat c)"]) (simp_all add: cmd h defs byte_bound)
  next
    case (c3 c d)
    then show ?thesis by (intro apdu_exI[of False h d None]) (simp_all add: cmd h defs byte_bound)
  next
    case (c4 c d l)
    then show ?thesis by (intro apdu_exI[of False h d "Some (unat l)"]) (simp_all add: cmd h defs byte_bound)
  next
    case (e2 p q)
    then show ?thesis using bytes_len16[of p q]
      by (intro apdu_exI[of True h "[]" "Some (256 * unat p + unat q)"]) (simp_all add: cmd h defs)
  next
    case (e3 p q d)
    then show ?thesis using bytes_len16[of p q] by (intro apdu_exI[of True h d None]) (simp_all add: cmd h defs)
  next
    case (e4 p q d k l)
    then show ?thesis using bytes_len16[of p q] bytes_len16[of k l]
      by (intro apdu_exI[of True h d "Some (256 * unat k + unat l)"]) (simp_all add: cmd h defs)
  qed
qed

text \<open>
  Property C10.  The command parser accepts exactly the short and extended command formats of ISO 7816-4
  with a header of four bytes, and yields for each the length of the data, their offset in the command
  and the expected length; everything else is rejected as a wrong length.
\<close>

theorem parse_apdu_iff:
  "parse_apdu cmd = Some x \<longleftrightarrow>
     (\<exists>e h d le. apdu_ok e h d le \<and> cmd = encode_apdu e h d le \<and> x = apdu_values e d le)"
  using parse_image parse_encode by blast

section \<open>Sessions with the file system\<close>

text \<open>A sequence of commands to the terminal, with the answers.\<close>

fun session :: "terminal \<Rightarrow> u16 \<Rightarrow> bytes list \<Rightarrow> bytes list \<times> terminal" where
  "session t lenr [] = ([], t)"
| "session t lenr (c # cs) = (case CtData t 2 1 c lenr of (code, s, d, rsp, n, t1) \<Rightarrow>
     case session t1 lenr cs of (rs, t2) \<Rightarrow> (take (unat n) rsp # rs, t2))"

definition select :: "byte \<times> byte \<Rightarrow> bytes" where
  "select f = [0x00, 0xa4, 0, 0, 2, fst f, snd f]"

definition read_all :: bytes where
  "read_all = [0x00, 0xb0, 0, 0, 0]"

lemma parse_select [simp]: "parse_apdu (select f) = Some (2, 5, -1)" "parse_apdu read_all = Some (-1, 0, 0)"
  by (simp_all add: parse_apdu_def select_def read_all_def Let_def)

lemma session_step:
  assumes "\<not> lenr < 2"
  shows "CtData t 2 1 (select f) lenr = select_file (upd t (grow_buffer (t_reader t) (select f))) (select f) 2 5 lenr"
    and "CtData t 2 1 read_all lenr = read_binary (upd t (grow_buffer (t_reader t) read_all)) lenr"
  using assms parse_select
  by (simp_all add: CtData_def CtData_raw_def terminal_command_def) (simp_all add: select_def read_all_def)

lemma overlay_path:
  assumes "length p = 10"
  shows "take 2 (overlay 0 [a, b] p) = [a, b]" "take 4 (overlay 2 [c, d] (overlay 0 [a, b] p)) = [a, b, c, d]"
  using assms by (simp_all add: overlay_def numeral_eq_Suc)

lemma path_is_simps:
  "path_is t [a, b] \<longleftrightarrow> m_reader_path_len t = 2 \<and> take 2 (m_reader_path t) = [a, b]"
  "path_is t [a, b, c, d] \<longleftrightarrow> m_reader_path_len t = 4 \<and> take 4 (m_reader_path t) = [a, b, c, d]"
  by (simp_all add: path_is_def numeral_eq_Suc)

lemma select_simps:
  "select f ! 2 = 0" "select f ! 3 = 0" "take 2 (drop 5 (select f)) = [fst f, snd f]"
  by (simp_all add: select_def)

lemmas session_rules = session_step select_simps path_is_simps overlay_path select_file_def selected_def Let_def
  file_control_def read_binary_def file_is_def contents_def answer_def

text \<open>
  Property C38.  SELECT FILE of the master file with an extended length is answered like the short one, but
  the name is taken from the wrong place: afterwards no file and no directory can be selected, and no
  file read, until the master file is selected again.
\<close>

theorem select_extended:
  assumes "12 \<le> lenr" and "length (m_reader_path t) = 10" and "f \<noteq> (0x3f, 0x00)"
  shows "case session t lenr [[0x00, 0xa4, 0, 0, 0, 0, 2, 0x3f, 0x00], select f, read_all] of (rs, t') \<Rightarrow>
    rs = [file_control 0x2d 0x88, [0x6a, 0x82], [0x69, 0x82]]"
proof -
  have l: "\<not> lenr < 12" "\<not> lenr < 2"
    using assms(1) by (simp_all add: word_less_nat_alt word_le_nat_alt)
  have f: "[fst f, snd f] \<noteq> [0x3f, 0x00]" using assms(3) by (cases f) auto
  have e: "CtData t 2 1 [0x00, 0xa4, 0, 0, 0, 0, 2, 0x3f, 0x00] lenr =
    select_file (upd t (grow_buffer (t_reader t) [0x00, 0xa4, 0, 0, 0, 0, 2, 0x3f, 0x00]))
      [0x00, 0xa4, 0, 0, 0, 0, 2, 0x3f, 0x00] 2 7 lenr"
    using l by (simp add: CtData_def CtData_raw_def parse_apdu_def terminal_command_def)
  show ?thesis using assms(2) f by (simp add: e session_rules l sw_def)
qed

theorem select_extended_witness:
  "case session (terminal0 (kernel_reader [])) 64 [[0x00, 0xa4, 0, 0, 0, 0, 2, 0x3f, 0x00], select (0x7f, 0x60), read_all]
   of (rs, t') \<Rightarrow> rs = [file_control 0x2d 0x88, [0x6a, 0x82], [0x69, 0x82]]"
  using select_extended[of 64 "terminal0 (kernel_reader [])" "(0x7f, 0x60)"] by (simp add: terminal0_def)

section \<open>The PIN block of PERFORM VERIFICATION\<close>

text \<open>
  The empty PIN block of format 2 is laid behind the end of the template buffer of 260 bytes
  exactly if the position of the PIN in tag \<^verbatim>\<open>52\<close> is 254 or 255; no other format writes outside.
\<close>

theorem pv_plan_overrun:
  assumes "pv_plan r v timeout = Inr (p, use_MV, over)"
  shows "over \<longleftrightarrow> v ! 0 AND 3 = 2 \<and> v ! 1 \<ge> 0xFE"
proof -
  have w: "12 + unat (v ! 1 - 6 + 1) > 260 \<longleftrightarrow> v ! 1 \<ge> 0xFE" if "5 < v ! 1"
  proof -
    have "6 \<le> v ! 1" using that by (simp add: word_le_nat_alt word_less_nat_alt)
    then have "unat (v ! 1 - 6 + 1) = unat (v ! 1) - 5"
      using that byte_bound[of "v ! 1"] by (simp add: unat_word_ariths unat_sub word_less_nat_alt word_le_nat_alt)
    then show ?thesis by (auto simp: word_le_nat_alt)
  qed
  show ?thesis using assms w
    by (auto simp: pv_plan_def Let_def split: if_splits)
qed

theorem pv_plan_overrun_witness:
  "case pv_plan (kernel_reader []) [0x02, 0xFF, 0, 0x20, 0, 0] 15 of Inr (p, use_MV, over) \<Rightarrow> over | _ \<Rightarrow> False"
proof -
  obtain p use_MV over where e: "pv_plan (kernel_reader []) [0x02, 0xFF, 0, 0x20, 0, 0] 15 = Inr (p, use_MV, over)"
    by (simp add: pv_plan_def Let_def)
  from pv_plan_overrun[OF e] show ?thesis unfolding e by simp
qed

end
