(* ===== verification/CJ_Reader.thy ===== *)
theory CJ_Reader
  imports CJ_Terminal
begin

text \<open>
  The object the clients of the driver hold, \<^verbatim>\<open>CReader\<close> of \<^verbatim>\<open>cjeca32/Reader.cpp\<close>: it creates the
  communicator and the reader object, forwards every call, and deletes the reader object when a call
  reports that the device is lost.  Its calls refine a machine with the two states detached and attached.
\<close>

section \<open>State\<close>

record creader =
  m_Reader :: "terminal option"
  m_cDeviceName :: string

text \<open>Calls guarded by the test for \<^verbatim>\<open>NULL\<close>: \<open>lost\<close> is the reply without a reader object.\<close>

definition on_reader ::
  "'x \<Rightarrow> ('x \<Rightarrow> bool) \<Rightarrow> (terminal \<Rightarrow> 'x \<times> terminal) \<Rightarrow> creader \<Rightarrow> 'x \<times> creader" where
  "on_reader lost drops f c = (case m_Reader c of
      None \<Rightarrow> (lost, c)
    | Some t \<Rightarrow> (case f t of (x, t1) \<Rightarrow> (x, c\<lparr>m_Reader := if drops x then None else Some t1\<rparr>)))"

definition at_reader :: "(reader \<Rightarrow> 'x \<times> reader) \<Rightarrow> terminal \<Rightarrow> 'x \<times> terminal" where
  "at_reader f t = (case f (t_reader t) of (x, r) \<Rightarrow> (x, upd t r))"

text \<open>\<^verbatim>\<open>CheckcJResult\<close>.\<close>

definition CheckcJResult :: "cj_result \<Rightarrow> bool" where
  "CheckcJResult Result \<longleftrightarrow> Result = CJ_ERR_DEVICE_LOST \<or> Result = CJ_ERR_CONNECT_TIMEOUT"

definition not_connected :: "ifd_result \<Rightarrow> bool" where
  "not_connected res \<longleftrightarrow> res = STATUS_DEVICE_NOT_CONNECTED"

text \<open>The replies of the calls as tuples.\<close>

definition pack3 :: "'a \<times> 'b \<times> 'r \<Rightarrow> ('a \<times> 'b) \<times> 'r" where
  "pack3 x = (case x of (a, b, r) \<Rightarrow> ((a, b), r))"

definition pack4 :: "'a \<times> 'b \<times> 'c \<times> 'r \<Rightarrow> ('a \<times> 'b \<times> 'c) \<times> 'r" where
  "pack4 x = (case x of (a, b, c, r) \<Rightarrow> ((a, b, c), r))"

definition pack6 :: "'a \<times> 'b \<times> 'c \<times> 'd \<times> 'e \<times> 'r \<Rightarrow> ('a \<times> 'b \<times> 'c \<times> 'd \<times> 'e) \<times> 'r" where
  "pack6 x = (case x of (a, b, c, d, e, r) \<Rightarrow> ((a, b, c, d, e), r))"

definition pack7 ::
  "'a \<times> 'b \<times> 'c \<times> 'd \<times> 'e \<times> 'f \<times> 'r \<Rightarrow> ('a \<times> 'b \<times> 'c \<times> 'd \<times> 'e \<times> 'f) \<times> 'r" where
  "pack7 x = (case x of (a, b, c, d, e, f, r) \<Rightarrow> ((a, b, c, d, e, f), r))"

section \<open>Connecting\<close>

text \<open>
  What the calls of the system return during \<^verbatim>\<open>Connect\<close>: the entry of the device list, the results of
  opening, the behaviour of the device, the contents of the memory the objects are created in, the time
  and the random number of the serial number.
\<close>

record connect_env =
  ce_usbdev :: "usbdev option"
  ce_usb_open :: "bool \<times> bool \<times> bool \<times> bool"
  ce_usb :: usb
  ce_serial_open :: "int \<times> bool \<times> bool \<times> bool"
  ce_serial :: serial
  ce_memory :: terminal
  ce_time :: tm
  ce_seed :: "64 word"

text \<open>\<^verbatim>\<open>strcasestr\<close> and \<^verbatim>\<open>strstr\<close>.\<close>

definition lower :: "char \<Rightarrow> char" where
  "lower c = (let n = of_char c :: nat in if 65 \<le> n \<and> n \<le> 90 then char_of (n + 32) else c)"

definition contains :: "string \<Rightarrow> string \<Rightarrow> bool" where
  "contains needle s \<longleftrightarrow> list_ex (\<lambda>k. take (length needle) (drop k s) = needle) [0..<Suc (length s)]"

text \<open>\<^verbatim>\<open>rsct_platform_create_com\<close>, for a build with USB support.\<close>

definition rsct_platform_create_com :: "string \<Rightarrow> bool" where
  "rsct_platform_create_com deviceName \<longleftrightarrow>
     contains (map lower '':libusb:'') (map lower deviceName) \<or> contains '':libhal:'' deviceName"

text \<open>
  The constructors of \<^verbatim>\<open>CBaseReader\<close>, \<^verbatim>\<open>CCCIDReader\<close> and \<^verbatim>\<open>CEC30Reader\<close>: everything they do not set keeps
  what the memory held.  Nothing was copied over the end of \<^verbatim>\<open>m_ATR\<close> of the new object yet.
\<close>

definition new_reader :: "reader_class \<Rightarrow> comm option \<Rightarrow> terminal \<Rightarrow> terminal" where
  "new_reader cls c m = upd m ((t_reader m)\<lparr>m_class := cls, m_pCommunicator := c, m_pModuleInfo := None,
     m_ModuleInfoCount := 0, m_ReaderState := 0, m_ActiveProtocol := 0, m_ATR_Length := 0,
     m_KeyIntCallback := False, m_ChangeIntCallback := False, m_ApduNorm := NORM_PCSC, m_bIsRF := False,
     cmd_buffer_len := 0, ifd_in_buffer_len := 0, m_SequenceNo := 0, m_pApplicationResponse := [],
     g_atr_overrun := False\<rparr>)"

definition post_create :: "connect_env \<Rightarrow> reader_class \<Rightarrow> comm \<Rightarrow> creader \<Rightarrow> cj_result \<times> creader" where
  "post_create env cls com c =
     (let t = new_reader cls (Some com) (ce_memory env) in
      case PostCreate (t_reader t) (ce_time env) (ce_seed env) of (Res, r1) \<Rightarrow>
        (Res, c\<lparr>m_Reader := if CheckcJResult Res then None else Some (upd t r1)\<rparr>))"

definition Connect :: "connect_env \<Rightarrow> creader \<Rightarrow> cj_result \<times> creader" where
  "Connect env c =
     (if rsct_platform_create_com (m_cDeviceName c) then
        (case ce_usb_open env of (o_ok, c_ok, l_ok, i_ok) \<Rightarrow>
         case usb_Open (map_option productId (ce_usbdev env)) o_ok c_ok l_ok i_ok (ce_usb env) of (ok, _, u) \<Rightarrow>
           if \<not> ok then (CJ_ERR_OPENING_DEVICE, c)
           else (case usb_BuildReaderObject (ce_usbdev env) of
               None \<Rightarrow> (CJ_ERR_DEVICE_LOST, c\<lparr>m_Reader := None\<rparr>)
             | Some (cls, _) \<Rightarrow> post_create env cls (USB (u\<lparr>u_pid := productId (the (ce_usbdev env))\<rparr>)) c))
      else
        (case ce_serial_open env of (fd, g_ok, s_ok, f_ok) \<Rightarrow>
         case serial_Open fd g_ok s_ok f_ok (ce_serial env) of (ok, s) \<Rightarrow>
           if \<not> ok then (CJ_ERR_OPENING_DEVICE, c)
           else post_create env serial_BuildReaderObject (Serial s) c))"

text \<open>\<^verbatim>\<open>CreateVirtualReaderObject\<close>: a reader without a communicator.\<close>

definition CreateVirtualReaderObject :: "terminal \<Rightarrow> string \<Rightarrow> creader \<Rightarrow> cj_result \<times> creader" where
  "CreateVirtualReaderObject m cReaderName c =
     (if map lower cReaderName = ''ecom(a)'' then (CJ_SUCCESS, c\<lparr>m_Reader := Some (new_reader ECA None m)\<rparr>)
      else (CJ_ERR_OPENING_DEVICE, c))"

text \<open>
  \<^verbatim>\<open>Disonnect\<close> powers the card down before it deletes the reader object, whose last state is the second
  component.
\<close>

definition Disonnect :: "creader \<Rightarrow> cj_result \<times> terminal option \<times> creader" where
  "Disonnect c = (CJ_SUCCESS, map_option (\<lambda>t. upd t (snd (power_down (t_reader t) 0))) (m_Reader c),
     c\<lparr>m_Reader := None\<rparr>)"

section \<open>CT-API and IFD calls\<close>

definition Reader_CtData ::
  "byte \<Rightarrow> byte \<Rightarrow> bytes \<Rightarrow> u16 \<Rightarrow> creader \<Rightarrow> (int \<times> byte \<times> byte \<times> bytes \<times> u16) \<times> creader" where
  "Reader_CtData dad sad cmd lenr = on_reader (-128, sad, dad, [], lenr)
     (\<lambda>x. fst x \<noteq> 0 \<and> fst x \<noteq> -1 \<and> fst x \<noteq> -11) (\<lambda>t. pack6 (CtData t sad dad cmd lenr))"

text \<open>\<^verbatim>\<open>IfdPower\<close> alone keeps the reader object when the device is lost.\<close>

definition Reader_IfdPower :: "u32 \<Rightarrow> nat \<Rightarrow> creader \<Rightarrow> (ifd_result \<times> bytes \<times> nat) \<times> creader" where
  "Reader_IfdPower Mode ATR_Length = on_reader (STATUS_DEVICE_NOT_CONNECTED, [], 0) (\<lambda>x. False)
     (at_reader (\<lambda>r. pack4 (IfdPower r Mode ATR_Length 0)))"

definition Reader_IfdSetProtocol :: "u32 \<Rightarrow> creader \<Rightarrow> (ifd_result \<times> u32) \<times> creader" where
  "Reader_IfdSetProtocol Protocol = on_reader (STATUS_DEVICE_NOT_CONNECTED, 0) (\<lambda>x. not_connected (fst x))
     (at_reader (\<lambda>r. pack3 (IfdSetProtocol r Protocol)))"

definition Reader_IfdGetState :: "creader \<Rightarrow> (ifd_result \<times> u32) \<times> creader" where
  "Reader_IfdGetState = on_reader (STATUS_DEVICE_NOT_CONNECTED, 0) (\<lambda>x. not_connected (fst x))
     (at_reader (\<lambda>r. pack3 (IfdGetState r)))"

definition Reader_IfdSetAttribute :: "creader \<Rightarrow> ifd_result \<times> creader" where
  "Reader_IfdSetAttribute = on_reader STATUS_DEVICE_NOT_CONNECTED not_connected (\<lambda>t. (STATUS_NOT_SUPPORTED, t))"

text \<open>\<^verbatim>\<open>IfdGetAttribute\<close> without a reader stores a zero byte but no length.\<close>

definition Reader_IfdGetAttribute :: "nat \<Rightarrow> creader \<Rightarrow> (ifd_result \<times> bytes \<times> nat) \<times> creader" where
  "Reader_IfdGetAttribute AttributeLength = on_reader (STATUS_DEVICE_NOT_CONNECTED, [0], AttributeLength)
     (\<lambda>x. not_connected (fst x)) (\<lambda>t. ((STATUS_NOT_SUPPORTED, [], 0), t))"

definition Reader_IfdSwallow :: "creader \<Rightarrow> ifd_result \<times> creader" where
  "Reader_IfdSwallow = on_reader STATUS_DEVICE_NOT_CONNECTED not_connected (\<lambda>t. (STATUS_NOT_SUPPORTED, t))"

definition Reader_IfdEject :: "creader \<Rightarrow> ifd_result \<times> creader" where
  "Reader_IfdEject = on_reader STATUS_DEVICE_NOT_CONNECTED not_connected (\<lambda>t. (STATUS_NOT_SUPPORTED, t))"

definition Reader_IfdVendor :: "u32 \<Rightarrow> bytes \<Rightarrow> u32 \<Rightarrow> creader \<Rightarrow> (ifd_result \<times> bytes \<times> u32) \<times> creader" where
  "Reader_IfdVendor IoCtrlCode Input cap = on_reader (STATUS_DEVICE_NOT_CONNECTED, [], 0) (\<lambda>x. not_connected (fst x))
     (at_reader (\<lambda>r. pack4 (IfdVendor r IoCtrlCode Input cap)))"

definition Reader_IfdTransmit :: "bytes \<Rightarrow> u16 \<Rightarrow> creader \<Rightarrow> (ifd_result \<times> bytes \<times> u16) \<times> creader" where
  "Reader_IfdTransmit cmd cap = on_reader (STATUS_DEVICE_NOT_CONNECTED, [], 0) (\<lambda>x. not_connected (fst x))
     (at_reader (\<lambda>r. pack4 (IfdTransmit r cmd cap)))"

definition Reader_IfdIoControl :: "u32 \<Rightarrow> bytes \<Rightarrow> u32 \<Rightarrow> creader \<Rightarrow> (ifd_result \<times> bytes \<times> u32) \<times> creader" where
  "Reader_IfdIoControl IoCtrlCode Input cap =
     on_reader (STATUS_DEVICE_NOT_CONNECTED, [], 0) (\<lambda>x. not_connected (fst x))
     (at_reader (\<lambda>r. pack4 (IfdIoControl r IoCtrlCode Input cap)))"

section \<open>Services\<close>

definition ct_call :: "'y \<Rightarrow> (terminal \<Rightarrow> (cj_result \<times> 'y) \<times> terminal) \<Rightarrow> creader \<Rightarrow> (cj_result \<times> 'y) \<times> creader" where
  "ct_call y f = on_reader (CJ_ERR_DEVICE_LOST, y) (\<lambda>x. CheckcJResult (fst x)) f"

definition ct_call1 :: "(terminal \<Rightarrow> cj_result \<times> terminal) \<Rightarrow> creader \<Rightarrow> cj_result \<times> creader" where
  "ct_call1 f = on_reader CJ_ERR_DEVICE_LOST CheckcJResult f"

text \<open>In the replies, a \<^verbatim>\<open>*Result\<close> that was not stored is \<open>None\<close>.\<close>

definition Reader_CtLoadModule :: "bytes \<Rightarrow> bytes \<Rightarrow> creader \<Rightarrow> (cj_result \<times> u32 option) \<times> creader" where
  "Reader_CtLoadModule pData pSgn = ct_call None (at_reader (\<lambda>r. pack3 (CtLoadModule r pData pSgn)))"

definition Reader_CtDeleteModule :: "u32 \<Rightarrow> creader \<Rightarrow> (cj_result \<times> u32 option) \<times> creader" where
  "Reader_CtDeleteModule ModuleID = ct_call None (at_reader (\<lambda>r. pack3 (CtDeleteModule r ModuleID)))"

definition Reader_CtSelfTest :: "tm \<Rightarrow> creader \<Rightarrow> cj_result \<times> creader" where
  "Reader_CtSelfTest t = ct_call1 (at_reader (\<lambda>r. CtSelfTest r t))"

text \<open>
  \<^verbatim>\<open>CtShowAuth\<close> of the reader returns the result of the escape command instead of its code, which is
  not set if the command failed.
\<close>

definition show_auth_code :: "reader \<Rightarrow> cj_result \<times> reader" where
  "show_auth_code r = (case CtShowAuth r of (Result, r1) \<Rightarrow>
     (sint (case Result of Some v \<Rightarrow> v | None \<Rightarrow> le32_at (g_stack r) 0), r1))"

definition Reader_CtShowAuth :: "creader \<Rightarrow> cj_result \<times> creader" where
  "Reader_CtShowAuth = ct_call1 (at_reader show_auth_code)"

definition Reader_CtActivateModule :: "u32 \<Rightarrow> creader \<Rightarrow> (cj_result \<times> u32 option) \<times> creader" where
  "Reader_CtActivateModule ModuleID = ct_call None (at_reader (\<lambda>r. pack3 (CtActivateModule r ModuleID)))"

definition Reader_CtDeactivateModule :: "u32 \<Rightarrow> creader \<Rightarrow> (cj_result \<times> u32 option) \<times> creader" where
  "Reader_CtDeactivateModule ModuleID = ct_call None (at_reader (\<lambda>r. pack3 (CtDeactivateModule r ModuleID)))"

definition Reader_CtSetSilentMode :: "bool \<Rightarrow> creader \<Rightarrow> (cj_result \<times> bool option \<times> u32 option) \<times> creader" where
  "Reader_CtSetSilentMode b = ct_call (None, None) (at_reader (\<lambda>r. pack4 (CtSetSilentMode r b)))"

definition Reader_CtGetSilentMode :: "bool \<Rightarrow> creader \<Rightarrow> (cj_result \<times> bool \<times> u32 option) \<times> creader" where
  "Reader_CtGetSilentMode b = ct_call (b, None) (at_reader (\<lambda>r. pack4 (CtGetSilentMode r)))"

definition Reader_CtSetModulestoreInfo :: "bytes \<Rightarrow> creader \<Rightarrow> cj_result \<times> creader" where
  "Reader_CtSetModulestoreInfo Info = ct_call1 (at_reader (\<lambda>r. CtSetModulestoreInfo r Info))"

definition Reader_CtGetModulestoreInfo :: "bool \<Rightarrow> byte \<Rightarrow> creader \<Rightarrow> (cj_result \<times> bytes \<times> byte) \<times> creader" where
  "Reader_CtGetModulestoreInfo null n = ct_call ([], n) (at_reader (\<lambda>r. pack4 (CtGetModulestoreInfo r null n)))"

definition Reader_CtDeleteALLModules :: "creader \<Rightarrow> (cj_result \<times> u32 option) \<times> creader" where
  "Reader_CtDeleteALLModules = ct_call None (at_reader (\<lambda>r. pack3 (CtDeleteALLModules r)))"

definition list_code :: "list_result \<Rightarrow> cj_result" where
  "list_code x = (case x of LIST_SUCCESS \<Rightarrow> 0 | SCARD_E_INSUFFICIENT_BUFFER \<Rightarrow> 0x80100008 - 0x100000000)"

definition Reader_CtListModules :: "u32 \<Rightarrow> creader \<Rightarrow> (cj_result \<times> u32 \<times> module_info list) \<times> creader" where
  "Reader_CtListModules Count = ct_call (0, []) (\<lambda>t. case CtListModules (t_reader t) Count of (res, n, l) \<Rightarrow>
     ((list_code res, n, l), t))"

definition Reader_CtGetModuleInfoFromFile ::
  "bytes \<Rightarrow> nat \<Rightarrow> module_info \<Rightarrow> creader \<Rightarrow> (cj_result \<times> module_info \<times> nat) \<times> creader" where
  "Reader_CtGetModuleInfoFromFile d SizeOfStruct Info =
     ct_call (Info, 0) (\<lambda>t. (CtGetModuleInfoFromFile d SizeOfStruct Info, t))"

definition Reader_CtFreeModuleInfoList :: "creader \<Rightarrow> cj_result \<times> creader" where
  "Reader_CtFreeModuleInfoList = ct_call1 (\<lambda>t. (SCARD_E_UNSUPPORTED, t))"

definition Reader_CtKeyUpdate :: "bytes \<Rightarrow> creader \<Rightarrow> (cj_result \<times> u32 option) \<times> creader" where
  "Reader_CtKeyUpdate d = ct_call None (at_reader (\<lambda>r. pack3 (CtKeyUpdate r d)))"

definition Reader_CtIsKeyUpdateRecommended :: "bytes \<Rightarrow> creader \<Rightarrow> (cj_result \<times> u32) \<times> creader" where
  "Reader_CtIsKeyUpdateRecommended d = ct_call 0 (\<lambda>t. (CtIsKeyUpdateRecommended (t_reader t) d, t))"

text \<open>Not supported by any reader class; the time or the identifier is cleared only without a reader.\<close>

definition Reader_CtIsModuleUpdateRecommended :: "u32 \<Rightarrow> creader \<Rightarrow> (cj_result \<times> u32) \<times> creader" where
  "Reader_CtIsModuleUpdateRecommended tm = ct_call 0 (\<lambda>t. ((SCARD_E_UNSUPPORTED, tm), t))"

definition Reader_CtGetActiveModuleID :: "u32 \<Rightarrow> creader \<Rightarrow> (cj_result \<times> u32) \<times> creader" where
  "Reader_CtGetActiveModuleID i = ct_call 0 (\<lambda>t. ((SCARD_E_UNSUPPORTED, i), t))"

definition Reader_CtGetActivationID :: "u32 \<Rightarrow> creader \<Rightarrow> (cj_result \<times> u32) \<times> creader" where
  "Reader_CtGetActivationID i = ct_call 0 (\<lambda>t. ((SCARD_E_UNSUPPORTED, i), t))"

definition Reader_CtApplicationDataEx ::
  "u32 \<Rightarrow> u16 \<Rightarrow> bytes \<Rightarrow> u32 option \<Rightarrow> u32 option \<Rightarrow> creader \<Rightarrow>
   (cj_result \<times> u32 option \<times> bytes \<times> u32 option \<times> bytes \<times> u32 option) \<times> creader" where
  "Reader_CtApplicationDataEx app f d rc ec = ct_call (Some 0, [], Some 0, [], ec)
     (at_reader (\<lambda>r. pack7 (CtApplicationData r app f d rc ec)))"

definition Reader_CtApplicationData ::
  "u32 \<Rightarrow> u16 \<Rightarrow> bytes \<Rightarrow> u32 option \<Rightarrow> creader \<Rightarrow>
   (cj_result \<times> u32 option \<times> bytes \<times> u32 option \<times> bytes \<times> u32 option) \<times> creader" where
  "Reader_CtApplicationData app f d rc = ct_call (Some 0, [], Some 0, [], None)
     (at_reader (\<lambda>r. pack7 (CtApplicationData r app f d rc None)))"

definition Reader_CtSetContrast :: "contrast \<Rightarrow> creader \<Rightarrow> (cj_result \<times> u32 option) \<times> creader" where
  "Reader_CtSetContrast x = ct_call (Some 0) (at_reader (\<lambda>r. pack3 (CtSetContrast r x)))"

definition Reader_InstallAndStartIFDHandler :: "creader \<Rightarrow> cj_result \<times> creader" where
  "Reader_InstallAndStartIFDHandler = ct_call1 (\<lambda>t. (SCARD_E_UNSUPPORTED, t))"

definition Reader_StopIFDHandler :: "creader \<Rightarrow> cj_result \<times> creader" where
  "Reader_StopIFDHandler = ct_call1 (\<lambda>t. (SCARD_E_UNSUPPORTED, t))"

definition Reader_IntroduceReaderGroups :: "creader \<Rightarrow> cj_result \<times> creader" where
  "Reader_IntroduceReaderGroups = ct_call1 (\<lambda>t. (SCARD_E_UNSUPPORTED, t))"

text \<open>\<^verbatim>\<open>CtGetReaderInfo\<close> copies as much of the structure of 748 bytes as the client has room for.\<close>

definition Reader_CtGetReaderInfo ::
  "nat \<Rightarrow> creader \<Rightarrow> (cj_result \<times> nat \<times> reader_info option) \<times> creader" where
  "Reader_CtGetReaderInfo SizeOfStruct = ct_call (SizeOfStruct, None)
     (\<lambda>t. ((CJ_SUCCESS, min SizeOfStruct 748, Some (m_ReaderInfo (t_reader t))), t))"

text \<open>Calls without the test for \<^verbatim>\<open>NULL\<close>: \<open>None\<close> stands for the dereferenced null pointer.\<close>

definition SetChangeInterruptCallback :: "bool \<Rightarrow> creader \<Rightarrow> creader option" where
  "SetChangeInterruptCallback cb c = map_option
     (\<lambda>t. c\<lparr>m_Reader := Some (upd t ((t_reader t)\<lparr>m_ChangeIntCallback := cb\<rparr>))\<rparr>) (m_Reader c)"

definition SetKeyInterruptCallback :: "bool \<Rightarrow> creader \<Rightarrow> creader option" where
  "SetKeyInterruptCallback cb c = map_option
     (\<lambda>t. c\<lparr>m_Reader := Some (upd t ((t_reader t)\<lparr>m_KeyIntCallback := cb\<rparr>))\<rparr>) (m_Reader c)"

definition CtSetAPDUNorm :: "apdu_norm \<Rightarrow> creader \<Rightarrow> creader option" where
  "CtSetAPDUNorm Norm c = map_option
     (\<lambda>t. c\<lparr>m_Reader := Some (upd t ((t_reader t)\<lparr>m_ApduNorm := Norm\<rparr>))\<rparr>) (m_Reader c)"

section \<open>The abstract machine\<close>

text \<open>
  A client sees events: a reply that reports the loss of the device, any other reply, a reply of
  \<^verbatim>\<open>IfdPower\<close>, the result of \<^verbatim>\<open>Connect\<close> or \<^verbatim>\<open>CreateVirtualReaderObject\<close>, \<^verbatim>\<open>Disonnect\<close>.
\<close>

datatype link = Detached | Attached

datatype event = Lost | Done | Powered | Connected cj_result | Disconnected

fun next_link :: "link \<Rightarrow> event \<Rightarrow> link option" where
  "next_link l Lost = Some Detached"
| "next_link Attached Done = Some Attached"
| "next_link Detached Done = None"
| "next_link l Powered = Some l"
| "next_link l (Connected Res) =
     Some (if Res = CJ_ERR_OPENING_DEVICE then l else if CheckcJResult Res then Detached else Attached)"
| "next_link l Disconnected = Some Detached"

definition link_of :: "creader \<Rightarrow> link" where
  "link_of c = (if m_Reader c = None then Detached else Attached)"

definition ifd_event :: "ifd_result \<Rightarrow> event" where
  "ifd_event res = (if not_connected res then Lost else Done)"

definition ct_event :: "cj_result \<Rightarrow> event" where
  "ct_event res = (if CheckcJResult res then Lost else Done)"

definition data_event :: "int \<Rightarrow> event" where
  "data_event code = (if code = 0 \<or> code = -1 \<or> code = -11 then Done else Lost)"

text \<open>
  What \<^verbatim>\<open>Connect\<close> may rely on: the arrays have their sizes, and the devices are not open yet.
\<close>

definition memory_ok :: "terminal \<Rightarrow> bool" where
  "memory_ok m \<longleftrightarrow> length (g_stack (t_reader m)) = 2048 \<and> length (m_ATR (t_reader m)) = 33"

definition env_ok :: "connect_env \<Rightarrow> bool" where
  "env_ok env \<longleftrightarrow> memory_ok (ce_memory env) \<and> \<not> u_null_read (ce_usb env)"

text \<open>The calls of the object, with the event the client sees.\<close>

inductive facade :: "creader \<Rightarrow> event \<Rightarrow> creader \<Rightarrow> bool" where
  facade_Connect: "Connect env c = (Res, c') \<Longrightarrow> env_ok env \<Longrightarrow> facade c (Connected Res) c'"
| facade_Virtual: "CreateVirtualReaderObject m n c = (Res, c') \<Longrightarrow> memory_ok m \<Longrightarrow> facade c (Connected Res) c'"
| facade_Disonnect: "Disonnect c = (Res, t, c') \<Longrightarrow> facade c Disconnected c'"
| facade_CtData: "Reader_CtData dad sad cmd lenr c = ((code, x), c') \<Longrightarrow> facade c (data_event code) c'"
| facade_Power: "Reader_IfdPower Mode n c = (x, c') \<Longrightarrow> facade c Powered c'"
| facade_SetProtocol: "Reader_IfdSetProtocol P c = ((st, x), c') \<Longrightarrow> facade c (ifd_event st) c'"
| facade_GetState: "Reader_IfdGetState c = ((st, x), c') \<Longrightarrow> facade c (ifd_event st) c'"
| facade_SetAttribute: "Reader_IfdSetAttribute c = (st, c') \<Longrightarrow> facade c (ifd_event st) c'"
| facade_GetAttribute: "Reader_IfdGetAttribute n c = ((st, x), c') \<Longrightarrow> facade c (ifd_event st) c'"
| facade_Swallow: "Reader_IfdSwallow c = (st, c') \<Longrightarrow> facade c (ifd_event st) c'"
| facade_Eject: "Reader_IfdEject c = (st, c') \<Longrightarrow> facade c (ifd_event st) c'"
| facade_Vendor: "Reader_IfdVendor code Input cap c = ((st, x), c') \<Longrightarrow> facade c (ifd_event st) c'"
| facade_Transmit: "Reader_IfdTransmit cmd n c = ((st, x), c') \<Longrightarrow> facade c (ifd_event st) c'"
| facade_IoControl: "Reader_IfdIoControl code Input cap c = ((st, x), c') \<Longrightarrow> facade c (ifd_event st) c'"
| facade_Load: "Reader_CtLoadModule d s c = ((Res, x), c') \<Longrightarrow> facade c (ct_event Res) c'"
| facade_Delete: "Reader_CtDeleteModule i c = ((Res, x), c') \<Longrightarrow> facade c (ct_event Res) c'"
| facade_SelfTest: "Reader_CtSelfTest tm c = (Res, c') \<Longrightarrow> facade c (ct_event Res) c'"
| facade_ShowAuth: "Reader_CtShowAuth c = (Res, c') \<Longrightarrow> facade c (ct_event Res) c'"
| facade_Activate: "Reader_CtActivateModule i c = ((Res, x), c') \<Longrightarrow> facade c (ct_event Res) c'"
| facade_Deactivate: "Reader_CtDeactivateModule i c = ((Res, x), c') \<Longrightarrow> facade c (ct_event Res) c'"
| facade_SetSilent: "Reader_CtSetSilentMode b c = ((Res, y), c') \<Longrightarrow> facade c (ct_event Res) c'"
| facade_GetSilent: "Reader_CtGetSilentMode b c = ((Res, z), c') \<Longrightarrow> facade c (ct_event Res) c'"
| facade_SetStore: "Reader_CtSetModulestoreInfo d c = (Res, c') \<Longrightarrow> facade c (ct_event Res) c'"
| facade_GetStore: "Reader_CtGetModulestoreInfo b k c = ((Res, w), c') \<Longrightarrow> facade c (ct_event Res) c'"
| facade_DeleteALL: "Reader_CtDeleteALLModules c = ((Res, x), c') \<Longrightarrow> facade c (ct_event Res) c'"
| facade_List: "Reader_CtListModules i c = ((Res, v), c') \<Longrightarrow> facade c (ct_event Res) c'"
| facade_File: "Reader_CtGetModuleInfoFromFile d n info c = ((Res, q), c') \<Longrightarrow> facade c (ct_event Res) c'"
| facade_Free: "Reader_CtFreeModuleInfoList c = (Res, c') \<Longrightarrow> facade c (ct_event Res) c'"
| facade_KeyUpdate: "Reader_CtKeyUpdate d c = ((Res, x), c') \<Longrightarrow> facade c (ct_event Res) c'"
| facade_KeyCheck: "Reader_CtIsKeyUpdateRecommended d c = ((Res, i), c') \<Longrightarrow> facade c (ct_event Res) c'"
| facade_ModuleCheck: "Reader_CtIsModuleUpdateRecommended i c = ((Res, j), c') \<Longrightarrow> facade c (ct_event Res) c'"
| facade_ActiveID: "Reader_CtGetActiveModuleID i c = ((Res, j), c') \<Longrightarrow> facade c (ct_event Res) c'"
| facade_ActivationID: "Reader_CtGetActivationID i c = ((Res, j), c') \<Longrightarrow> facade c (ct_event Res) c'"
| facade_DataEx: "Reader_CtApplicationDataEx i f d rc ec c = ((Res, u), c') \<Longrightarrow> facade c (ct_event Res) c'"
| facade_Data: "Reader_CtApplicationData i f d rc c = ((Res, u), c') \<Longrightarrow> facade c (ct_event Res) c'"
| facade_Contrast: "Reader_CtSetContrast con c = ((Res, x), c') \<Longrightarrow> facade c (ct_event Res) c'"
| facade_Install: "Reader_InstallAndStartIFDHandler c = (Res, c') \<Longrightarrow> facade c (ct_event Res) c'"
| facade_Stop: "Reader_StopIFDHandler c = (Res, c') \<Longrightarrow> facade c (ct_event Res) c'"
| facade_Groups: "Reader_IntroduceReaderGroups c = (Res, c') \<Longrightarrow> facade c (ct_event Res) c'"
| facade_Info: "Reader_CtGetReaderInfo n c = ((Res, p), c') \<Longrightarrow> facade c (ct_event Res) c'"
| facade_ChangeCallback: "SetChangeInterruptCallback b c = Some c' \<Longrightarrow> facade c Done c'"
| facade_KeyCallback: "SetKeyInterruptCallback b c = Some c' \<Longrightarrow> facade c Done c'"
| facade_Norm: "CtSetAPDUNorm norm c = Some c' \<Longrightarrow> facade c Done c'"

section \<open>The contract of a call\<close>

definition good :: "terminal \<Rightarrow> bool" where
  "good t \<longleftrightarrow> card_inv (t_reader t) \<and> modules_inv (t_reader t)"

definition creader_inv :: "creader \<Rightarrow> bool" where
  "creader_inv c \<longleftrightarrow> (\<forall>t. m_Reader c = Some t \<longrightarrow> good t)"

locale reader_call =
  fixes lost :: 'x and drops :: "'x \<Rightarrow> bool" and f :: "terminal \<Rightarrow> 'x \<times> terminal"
  assumes drops_lost: "drops lost"
    and keeps_good: "good t \<Longrightarrow> f t = (x, t') \<Longrightarrow> good t'"
begin

lemma call_link:
  "on_reader lost drops f c = (x, c') \<Longrightarrow> next_link (link_of c) (if drops x then Lost else Done) = Some (link_of c')"
  using drops_lost by (auto simp: on_reader_def link_of_def split: option.splits prod.splits)

lemma call_inv: "creader_inv c \<Longrightarrow> on_reader lost drops f c = (x, c') \<Longrightarrow> creader_inv c'"
  by (auto simp: on_reader_def creader_inv_def split: option.splits prod.splits if_splits dest: keeps_good)

end

lemma good_kept: "kept (t_reader t) (t_reader t') \<Longrightarrow> good t \<Longrightarrow> good t'"
  by (simp add: kept_def good_def)

lemma good_at_reader:
  assumes "at_reader g t = (x, t')" and "good t" and "\<And>r'. g (t_reader t) = (x, r') \<Longrightarrow> kept (t_reader t) r'"
  shows "good t'"
  using assms by (auto simp: at_reader_def split: prod.splits intro: good_kept)

lemma good_service:
  assumes "at_reader g t = (x, t')" and "good t" and "\<And>r'. g (t_reader t) = (x, r') \<Longrightarrow> service (t_reader t) r'"
  shows "good t'"
  using good_at_reader[OF assms(1,2)] assms(3) kept.service_R by blast

lemma pack_eq:
  "pack3 y = (x, r) \<longleftrightarrow> y = (fst x, snd x, r)"
  "pack4 z = (p, r) \<longleftrightarrow> z = (fst p, fst (snd p), snd (snd p), r)"
  "pack6 u = (q, r) \<longleftrightarrow> u = (fst q, fst (snd q), fst (snd (snd q)), fst (snd (snd (snd q))), snd (snd (snd (snd q))), r)"
  "pack7 v = (w, r) \<longleftrightarrow> v = (fst w, fst (snd w), fst (snd (snd w)), fst (snd (snd (snd w))),
     fst (snd (snd (snd (snd w)))), snd (snd (snd (snd (snd w)))), r)"
  by (auto simp: pack3_def pack4_def pack6_def pack7_def split: prod.splits)

lemma kept_IfdTransmit: "IfdTransmit r cmd cap = (st, d, n, r') \<Longrightarrow> kept r r'"
  by (auto simp: IfdTransmit_def Let_def kept_updates split: if_splits prod.splits dest: kept_transmit)

lemma kept_io: "IfdIoControl r code Input cap = (st, d, n, r') \<Longrightarrow> kept r r'"
  unfolding IfdIoControl_def by (rule kept.vendor)

interpretation data: reader_call "(-128, sad, dad, [], lenr)" "\<lambda>x. fst x \<noteq> 0 \<and> fst x \<noteq> -1 \<and> fst x \<noteq> -11"
  "\<lambda>t. pack6 (CtData t sad dad cmd lenr)" for sad dad cmd lenr
  by unfold_locales (auto simp: pack_eq dest!: CtData_post(1) intro: good_kept)

interpretation protocol: reader_call "(STATUS_DEVICE_NOT_CONNECTED, 0)" "\<lambda>x. not_connected (fst x)"
  "at_reader (\<lambda>r. pack3 (IfdSetProtocol r P))" for P
  by unfold_locales (auto simp: not_connected_def pack_eq elim!: good_at_reader intro: kept_protocol)

interpretation slot: reader_call "(STATUS_DEVICE_NOT_CONNECTED, 0)" "\<lambda>x. not_connected (fst x)"
  "at_reader (\<lambda>r. pack3 (IfdGetState r))"
  by unfold_locales (auto simp: not_connected_def pack_eq elim!: good_at_reader intro: kept_state)

interpretation unsupported: reader_call STATUS_DEVICE_NOT_CONNECTED not_connected "\<lambda>t. (STATUS_NOT_SUPPORTED, t)"
  by unfold_locales (auto simp: not_connected_def)

interpretation attribute: reader_call "(STATUS_DEVICE_NOT_CONNECTED, [0], n)" "\<lambda>x. not_connected (fst x)"
  "\<lambda>t. ((STATUS_NOT_SUPPORTED, [], 0), t)" for n
  by unfold_locales (auto simp: not_connected_def)

interpretation vendor: reader_call "(STATUS_DEVICE_NOT_CONNECTED, [], 0)" "\<lambda>x. not_connected (fst x)"
  "at_reader (\<lambda>r. pack4 (IfdVendor r code Input cap))" for code Input cap
  by unfold_locales (auto simp: not_connected_def pack_eq elim!: good_at_reader intro: kept.vendor)

interpretation io: reader_call "(STATUS_DEVICE_NOT_CONNECTED, [], 0)" "\<lambda>x. not_connected (fst x)"
  "at_reader (\<lambda>r. pack4 (IfdIoControl r code Input cap))" for code Input cap
  by unfold_locales (auto simp: not_connected_def pack_eq elim!: good_at_reader intro: kept_io)

interpretation transmit: reader_call "(STATUS_DEVICE_NOT_CONNECTED, [], 0)" "\<lambda>x. not_connected (fst x)"
  "at_reader (\<lambda>r. pack4 (IfdTransmit r cmd n))" for cmd n
  by unfold_locales (auto simp: not_connected_def pack_eq elim!: good_at_reader intro: kept_IfdTransmit)

text \<open>The services: those that reach the reader, and those answered from the object alone.\<close>

locale service_call =
  fixes y :: 'y and f :: "terminal \<Rightarrow> (cj_result \<times> 'y) \<times> terminal"
  assumes service_good: "good t \<Longrightarrow> f t = (x, t') \<Longrightarrow> good t'"
begin

sublocale reader_call "(CJ_ERR_DEVICE_LOST, y)" "\<lambda>x. CheckcJResult (fst x)" f
  by unfold_locales (auto simp: CheckcJResult_def dest: service_good)

lemma service_link: "ct_call y f c = ((Res, v), c') \<Longrightarrow> next_link (link_of c) (ct_event Res) = Some (link_of c')"
  using call_link[of c "(Res, v)" c'] by (simp add: ct_call_def ct_event_def)

lemma service_inv: "creader_inv c \<Longrightarrow> ct_call y f c = (x, c') \<Longrightarrow> creader_inv c'"
  unfolding ct_call_def by (rule call_inv)

end

interpretation load: service_call "None" "at_reader (\<lambda>r. pack3 (CtLoadModule r d s))" for d s
  by unfold_locales (auto simp: pack_eq elim!: good_service intro: service_load)

interpretation delete: service_call "None" "at_reader (\<lambda>r. pack3 (CtDeleteModule r i))" for i
  by unfold_locales (auto simp: pack_eq elim!: good_service intro: service_delete)

interpretation activate: service_call "None" "at_reader (\<lambda>r. pack3 (CtActivateModule r i))" for i
  by unfold_locales (auto simp: pack_eq elim!: good_service intro: service_activate)

interpretation deactivate: service_call "None" "at_reader (\<lambda>r. pack3 (CtDeactivateModule r i))" for i
  by unfold_locales (auto simp: pack_eq elim!: good_service intro: service_deactivate)

interpretation set_silent: service_call "(None, None)" "at_reader (\<lambda>r. pack4 (CtSetSilentMode r b))" for b
  by unfold_locales (auto simp: pack_eq elim!: good_service intro: service_set_silent)

interpretation get_silent: service_call "(b, None)" "at_reader (\<lambda>r. pack4 (CtGetSilentMode r))" for b
  by unfold_locales (auto simp: pack_eq elim!: good_service intro: service_get_silent)

interpretation get_store: service_call "([], n)" "at_reader (\<lambda>r. pack4 (CtGetModulestoreInfo r null n))" for null n
  by unfold_locales (auto simp: pack_eq elim!: good_service intro: service_get_store)

interpretation delete_all: service_call "None" "at_reader (\<lambda>r. pack3 (CtDeleteALLModules r))"
  by unfold_locales (auto simp: pack_eq elim!: good_service intro: service_delete_all)

interpretation key_update: service_call "None" "at_reader (\<lambda>r. pack3 (CtKeyUpdate r d))" for d
  by unfold_locales (auto simp: pack_eq elim!: good_service intro: service_key_update)

interpretation app_ex: service_call "(Some 0, [], Some 0, [], ec)" "at_reader (\<lambda>r. pack7 (CtApplicationData r i f d rc ec))" for i f d rc ec
  by unfold_locales (auto simp: pack_eq elim!: good_service intro: service_application)

interpretation set_contrast: service_call "Some 0" "at_reader (\<lambda>r. pack3 (CtSetContrast r x))" for x
  by unfold_locales (auto simp: pack_eq elim!: good_service intro: service_contrast)

interpretation module_list: service_call "(0, [])" "\<lambda>t. case CtListModules (t_reader t) i of (res, n, l) \<Rightarrow> ((list_code res, n, l), t)" for i
  by unfold_locales (auto split: prod.splits)

interpretation module_file: service_call "(info, 0)" "\<lambda>t. (CtGetModuleInfoFromFile d n info, t)" for d n info
  by unfold_locales (auto split: prod.splits)

interpretation key_check: service_call "0" "\<lambda>t. (CtIsKeyUpdateRecommended (t_reader t) d, t)" for d
  by unfold_locales (auto split: prod.splits)

interpretation not_supported: service_call "0 :: u32" "\<lambda>t. ((SCARD_E_UNSUPPORTED, i), t)" for i :: u32
  by unfold_locales (auto split: prod.splits)

interpretation reader_data: service_call "(n, None)" "\<lambda>t. ((CJ_SUCCESS, min n 748, Some (m_ReaderInfo (t_reader t))), t)" for n
  by unfold_locales (auto split: prod.splits)

locale plain_call =
  fixes f :: "terminal \<Rightarrow> cj_result \<times> terminal"
  assumes plain_good: "good t \<Longrightarrow> f t = (x, t') \<Longrightarrow> good t'"
begin

sublocale reader_call CJ_ERR_DEVICE_LOST CheckcJResult f
  by unfold_locales (auto simp: CheckcJResult_def dest: plain_good)

lemma plain_link: "ct_call1 f c = (Res, c') \<Longrightarrow> next_link (link_of c) (ct_event Res) = Some (link_of c')"
  using call_link[of c Res c'] by (simp add: ct_call1_def ct_event_def)

lemma plain_inv: "creader_inv c \<Longrightarrow> ct_call1 f c = (x, c') \<Longrightarrow> creader_inv c'"
  unfolding ct_call1_def by (rule call_inv)

end

interpretation self_test: plain_call "at_reader (\<lambda>r. CtSelfTest r tm)" for tm
  by unfold_locales (auto elim!: good_service intro: service_self_test)

interpretation show_auth: plain_call "at_reader show_auth_code"
  by unfold_locales (auto simp: show_auth_code_def split: prod.splits elim!: good_service intro: service_show_auth)

interpretation set_store: plain_call "at_reader (\<lambda>r. CtSetModulestoreInfo r d)" for d
  by unfold_locales (auto elim!: good_service intro: service_set_store)

interpretation no_service: plain_call "\<lambda>t. (SCARD_E_UNSUPPORTED, t)"
  by unfold_locales auto

section \<open>Connecting is sound\<close>

lemma new_reader_good:
  assumes "memory_ok m" and "\<And>x. c = Some x \<Longrightarrow> com_inv x"
  shows "good (new_reader cls c m)"
  using assms by (simp add: new_reader_def memory_ok_def good_def card_inv_def reader_inv_def modules_inv_def)

lemma usb_Open_inv: "usb_Open d a b e f u = (ok, p, u') \<Longrightarrow> \<not> u_null_read u \<Longrightarrow> \<not> u_null_read u'"
  by (auto simp: usb_Open_def Let_def split: option.splits if_splits)

lemma serial_Open_inv: "serial_Open fd a b e s = (True, s') \<Longrightarrow> com_inv (Serial s')"
  by (auto simp: serial_Open_def serial_inv_def split: if_splits)

lemma post_create_eq:
  assumes "post_create env cls com c = (Res, c')"
  obtains t r1 where "t = new_reader cls (Some com) (ce_memory env)"
    "PostCreate (t_reader t) (ce_time env) (ce_seed env) = (Res, r1)"
    "c' = c\<lparr>m_Reader := if CheckcJResult Res then None else Some (upd t r1)\<rparr>"
proof -
  define t where "t = new_reader cls (Some com) (ce_memory env)"
  obtain R r1 where p: "PostCreate (t_reader t) (ce_time env) (ce_seed env) = (R, r1)" by fastforce
  have "(R, c\<lparr>m_Reader := if CheckcJResult R then None else Some (upd t r1)\<rparr>) = (Res, c')"
    using assms unfolding post_create_def Let_def t_def[symmetric] p prod.case .
  then have e: "R = Res" "c' = c\<lparr>m_Reader := if CheckcJResult R then None else Some (upd t r1)\<rparr>" by blast+
  show ?thesis by (rule that[OF t_def p[unfolded e(1)] e(2)[unfolded e(1)]])
qed

lemma post_create_inv:
  assumes "post_create env cls com c = (Res, c')" and "memory_ok (ce_memory env)" and "com_inv com"
  shows "creader_inv c'"
  using assms(1)
proof (rule post_create_eq)
  fix t r1
  assume t: "t = new_reader cls (Some com) (ce_memory env)"
    and p: "PostCreate (t_reader t) (ce_time env) (ce_seed env) = (Res, r1)"
    and c': "c' = c\<lparr>m_Reader := if CheckcJResult Res then None else Some (upd t r1)\<rparr>"
  have "good t" unfolding t using assms(2,3) by (intro new_reader_good) auto
  then have "good (upd t r1)"
    using kept.service_R[OF service_create[OF p]] good_kept[of t "upd t r1"] by simp
  then show ?thesis by (simp add: c' creader_inv_def)
qed

lemma Connect_inv:
  assumes "Connect env c = (Res, c')" and "env_ok env" and "creader_inv c"
  shows "creader_inv c'"
proof -
  have m: "memory_ok (ce_memory env)" "\<not> u_null_read (ce_usb env)" using assms(2) by (simp_all add: env_ok_def)
  show ?thesis
  proof (cases "rsct_platform_create_com (m_cDeviceName c)")
    case True
    then show ?thesis using assms(1,3) m(1) usb_Open_inv[OF _ m(2)]
      by (auto simp: Connect_def creader_inv_def[of "c\<lparr>m_Reader := None\<rparr>"] usb_inv_def
          split: prod.splits if_splits option.splits elim!: post_create_inv)
  next
    case False
    then show ?thesis using assms(1,3) m(1)
      by (auto simp: Connect_def split: prod.splits if_splits elim!: post_create_inv dest!: serial_Open_inv)
  qed
qed

text \<open>The code for a device that cannot be opened is never the result of an exchange.\<close>

lemma Escape_not_opening:
  "Escape r a f d arg = (Res, Result, out, n, r') \<Longrightarrow> card_inv r \<Longrightarrow> Res \<noteq> CJ_ERR_OPENING_DEVICE"
  by (auto simp: Escape_def escape_response_def Let_def split: if_splits prod.splits resp_arg.splits dest!: Transfer_codes)

lemma GetModuleInfo_not_opening:
  "GetModuleInfo r i = (Res, m, r') \<Longrightarrow> card_inv r \<Longrightarrow> Res \<noteq> CJ_ERR_OPENING_DEVICE"
  by (auto simp: GetModuleInfo_def Let_def split: if_splits prod.splits dest!: Escape_not_opening)

lemma module_loop_not_opening:
  "module_loop r IDs acc = (Res, l, r') \<Longrightarrow> card_inv r \<Longrightarrow> Res \<noteq> CJ_ERR_OPENING_DEVICE"
proof (induction r IDs acc rule: module_loop.induct)
  case (2 r ID IDs acc)
  obtain R info r1 where g: "GetModuleInfo r ID = (R, info, r1)" by (metis prod_cases3)
  have "card_inv r1" using kept_card[OF kept.module_one[OF g] 2(3)] .
  then show ?case using 2 g GetModuleInfo_not_opening[OF g 2(3)] by (auto split: if_splits)
qed simp

lemma BuildReaderInfo_not_opening:
  assumes "BuildReaderInfo r = (Res, r')" and "card_inv r"
  shows "Res \<noteq> CJ_ERR_OPENING_DEVICE"
proof -
  have "card_inv (r\<lparr>m_ReaderInfo := empty_info\<rparr>)" using kept_card[OF kept_updates(6) assms(2)] .
  then have "ec30_BuildReaderInfo r = (R, r1) \<Longrightarrow> R \<noteq> CJ_ERR_OPENING_DEVICE" for R r1
    by (auto simp: ec30_BuildReaderInfo_def GetReaderInfo_def Let_def split: if_splits prod.splits option.splits
        dest!: Escape_not_opening)
  then show ?thesis using assms(1)
    by (auto simp: BuildReaderInfo_def ecr_BuildReaderInfo_def ecp_BuildReaderInfo_def split: if_splits prod.splits)
qed

lemma BuildModuleInfo_not_opening:
  assumes "BuildModuleInfo r = (Res, r')" and "card_inv r"
  shows "Res \<noteq> CJ_ERR_OPENING_DEVICE"
proof -
  obtain R IDs r1 where g: "GetModuleIDs r = (R, IDs, r1)" by (metis prod_cases3)
  have "R \<noteq> CJ_ERR_OPENING_DEVICE"
    using g assms(2) by (auto simp: GetModuleIDs_def Let_def split: if_splits prod.splits dest!: Escape_not_opening)
  moreover have "card_inv r1" using kept_card[OF _ assms(2)] kept.module_ids[OF g] by blast
  ultimately show ?thesis
    using assms(1) g by (auto simp: BuildModuleInfo_def split: if_splits prod.splits simp del: module_loop.simps
        dest: module_loop_not_opening)
qed

lemma PostCreate_not_opening:
  assumes "PostCreate r t seed = (Res, r')" and "card_inv r"
  shows "Res \<noteq> CJ_ERR_OPENING_DEVICE"
proof -
  obtain R1 r1 where b: "BuildReaderInfo r = (R1, r1)" by fastforce
  obtain R2 r2 where m: "BuildModuleInfo r1 = (R2, r2)" by fastforce
  obtain rebuild r3 where s: "SetReaderConstants r2 t seed = (rebuild, r3)" by fastforce
  obtain R4 r4 where b2: "BuildReaderInfo r3 = (R4, r4)" by fastforce
  have c1: "card_inv r1" using kept_card[OF kept.reader_info[OF b] assms(2)] .
  have c2: "card_inv r2" using kept_card[OF kept.module_info[OF m] c1] .
  have c3: "card_inv r3" using kept_card[OF kept.reader_constants[OF s] c2] .
  show ?thesis
    using assms(1) b m s b2 BuildReaderInfo_not_opening[OF b assms(2)] BuildModuleInfo_not_opening[OF m c1]
      BuildReaderInfo_not_opening[OF b2 c3]
    by (auto simp: PostCreate_def base_PostCreate_def split: if_splits)
qed

lemma post_create_link:
  assumes "post_create env cls com c = (Res, c')" and "memory_ok (ce_memory env)" and "com_inv com"
  shows "next_link l (Connected Res) = Some (link_of c')"
  using assms(1)
proof (rule post_create_eq)
  fix t r1
  assume t: "t = new_reader cls (Some com) (ce_memory env)"
    and p: "PostCreate (t_reader t) (ce_time env) (ce_seed env) = (Res, r1)"
    and c': "c' = c\<lparr>m_Reader := if CheckcJResult Res then None else Some (upd t r1)\<rparr>"
  have "good t" unfolding t using assms(2,3) by (intro new_reader_good) auto
  then have "Res \<noteq> CJ_ERR_OPENING_DEVICE" using PostCreate_not_opening[OF p] by (simp add: good_def)
  then show ?thesis by (simp add: c' link_of_def)
qed

lemma Connect_link:
  assumes "Connect env c = (Res, c')" and "env_ok env"
  shows "next_link (link_of c) (Connected Res) = Some (link_of c')"
proof -
  have m: "memory_ok (ce_memory env)" "\<not> u_null_read (ce_usb env)" using assms(2) by (simp_all add: env_ok_def)
  show ?thesis
  proof (cases "rsct_platform_create_com (m_cDeviceName c)")
    case True
    obtain o_ok c_ok l_ok i_ok where e: "ce_usb_open env = (o_ok, c_ok, l_ok, i_ok)" by (metis prod_cases4)
    obtain ok p u where o: "usb_Open (map_option productId (ce_usbdev env)) o_ok c_ok l_ok i_ok (ce_usb env) = (ok, p, u)"
      by (metis prod_cases3)
    have u: "com_inv (USB (u\<lparr>u_pid := q\<rparr>))" for q using usb_Open_inv[OF o m(2)] by (simp add: usb_inv_def)
    show ?thesis using True assms(1)
      by (auto simp: Connect_def e o link_of_def[of "c\<lparr>m_Reader := None\<rparr>"] CheckcJResult_def
          simp del: next_link.simps(5) split: if_splits option.splits intro: post_create_link[OF _ m(1) u])
        (simp_all add: CheckcJResult_def link_of_def)
  next
    case False
    obtain fd a b d where e: "ce_serial_open env = (fd, a, b, d)" by (metis prod_cases4)
    obtain ok s where o: "serial_Open fd a b d (ce_serial env) = (ok, s)" by fastforce
    show ?thesis using False assms(1) o
      by (auto simp: Connect_def e simp del: next_link.simps(5) split: if_splits
          intro: post_create_link[OF _ m(1) serial_Open_inv]) simp
  qed
qed

section \<open>Refinement and invariant\<close>

lemmas reader_calls = Reader_CtData_def Reader_IfdPower_def Reader_IfdSetProtocol_def Reader_IfdGetState_def
  Reader_IfdSetAttribute_def Reader_IfdGetAttribute_def Reader_IfdSwallow_def Reader_IfdEject_def
  Reader_IfdVendor_def Reader_IfdTransmit_def Reader_IfdIoControl_def

lemmas reader_services = Reader_CtLoadModule_def Reader_CtDeleteModule_def Reader_CtSelfTest_def
  Reader_CtShowAuth_def Reader_CtActivateModule_def Reader_CtDeactivateModule_def Reader_CtSetSilentMode_def
  Reader_CtGetSilentMode_def Reader_CtSetModulestoreInfo_def Reader_CtGetModulestoreInfo_def
  Reader_CtDeleteALLModules_def Reader_CtListModules_def Reader_CtGetModuleInfoFromFile_def
  Reader_CtFreeModuleInfoList_def Reader_CtKeyUpdate_def Reader_CtIsKeyUpdateRecommended_def
  Reader_CtIsModuleUpdateRecommended_def Reader_CtGetActiveModuleID_def Reader_CtGetActivationID_def
  Reader_CtApplicationDataEx_def Reader_CtApplicationData_def Reader_CtSetContrast_def
  Reader_InstallAndStartIFDHandler_def Reader_StopIFDHandler_def Reader_IntroduceReaderGroups_def
  Reader_CtGetReaderInfo_def

lemmas service_links = load.service_link delete.service_link activate.service_link deactivate.service_link
  set_silent.service_link get_silent.service_link get_store.service_link delete_all.service_link
  key_update.service_link app_ex.service_link set_contrast.service_link module_list.service_link
  module_file.service_link key_check.service_link not_supported.service_link reader_data.service_link
  self_test.plain_link show_auth.plain_link set_store.plain_link no_service.plain_link

lemmas service_invs = load.service_inv delete.service_inv activate.service_inv deactivate.service_inv
  set_silent.service_inv get_silent.service_inv get_store.service_inv delete_all.service_inv
  key_update.service_inv app_ex.service_inv set_contrast.service_inv module_list.service_inv
  module_file.service_inv key_check.service_inv not_supported.service_inv reader_data.service_inv
  self_test.plain_inv show_auth.plain_inv set_store.plain_inv no_service.plain_inv

lemmas ifd_links = protocol.call_link slot.call_link unsupported.call_link attribute.call_link vendor.call_link
  io.call_link transmit.call_link

lemmas ifd_invs = protocol.call_inv slot.call_inv unsupported.call_inv attribute.call_inv vendor.call_inv
  io.call_inv transmit.call_inv data.call_inv

lemma power_link: "Reader_IfdPower Mode n c = (x, c') \<Longrightarrow> link_of c' = link_of c"
  by (auto simp: Reader_IfdPower_def on_reader_def link_of_def split: option.splits prod.splits)

lemma power_good: "at_reader (\<lambda>r. pack4 (IfdPower r Mode n 0)) t = (x, t') \<Longrightarrow> good t \<Longrightarrow> good t'"
  by (erule good_at_reader) (simp_all add: pack_eq kept_power)

lemma power_inv: "Reader_IfdPower Mode n c = (x, c') \<Longrightarrow> creader_inv c \<Longrightarrow> creader_inv c'"
  by (auto simp: Reader_IfdPower_def on_reader_def creader_inv_def split: option.splits prod.splits dest: power_good)

lemma facade_link: "facade c e c' \<Longrightarrow> next_link (link_of c) e = Some (link_of c')"
proof (induction rule: facade.induct)
  case (facade_Connect env c Res c')
  then show ?case by (rule Connect_link)
next
  case (facade_Virtual m n c Res c')
  then show ?case
    by (auto simp: CreateVirtualReaderObject_def link_of_def CheckcJResult_def split: if_splits)
next
  case (facade_CtData dad sad cmd lenr c code x c')
  then show ?case
    using data.call_link[of sad dad lenr cmd c "(code, x)" c'] by (auto simp: Reader_CtData_def data_event_def)
next
  case (facade_Power Mode n c x c')
  then show ?case by (simp add: power_link)
next
  case (facade_GetState c st x c')
  then show ?case using slot.call_link[of c "(st, x)" c'] by (simp add: Reader_IfdGetState_def ifd_event_def)
next
  case (facade_SetProtocol P c st x c')
  then show ?case using protocol.call_link[of P c "(st, x)" c'] by (simp add: Reader_IfdSetProtocol_def ifd_event_def)
next
  case (facade_Disonnect c Res t c')
  then show ?case by (auto simp: Disonnect_def link_of_def)
next
  case (facade_ChangeCallback b c c')
  then show ?case by (auto simp: SetChangeInterruptCallback_def link_of_def)
next
  case (facade_KeyCallback b c c')
  then show ?case by (auto simp: SetKeyInterruptCallback_def link_of_def)
next
  case (facade_Norm norm c c')
  then show ?case by (auto simp: CtSetAPDUNorm_def link_of_def)
qed (simp_all add: reader_services service_links, auto simp: reader_calls ifd_event_def dest!: ifd_links)

lemma facade_inv: "facade c e c' \<Longrightarrow> creader_inv c \<Longrightarrow> creader_inv c'"
proof (induction rule: facade.induct)
  case (facade_Connect env c Res c')
  then show ?case by (rule Connect_inv)
next
  case (facade_Virtual m n c Res c')
  then show ?case using new_reader_good[of m None ECA]
    by (auto simp: CreateVirtualReaderObject_def creader_inv_def split: if_splits)
next
  case (facade_Power Mode n c x c')
  then show ?case by (rule power_inv)
next
  case (facade_Disonnect c Res t c')
  then show ?case by (auto simp: Disonnect_def creader_inv_def)
next
  case (facade_ChangeCallback b c c')
  then show ?case
    by (auto simp: SetChangeInterruptCallback_def creader_inv_def good_def card_inv_def reader_inv_def modules_inv_def)
next
  case (facade_KeyCallback b c c')
  then show ?case
    by (auto simp: SetKeyInterruptCallback_def creader_inv_def good_def card_inv_def reader_inv_def modules_inv_def)
next
  case (facade_Norm norm c c')
  then show ?case
    by (auto simp: CtSetAPDUNorm_def creader_inv_def good_def card_inv_def reader_inv_def modules_inv_def)
qed (auto simp: reader_services reader_calls elim: service_invs ifd_invs)

text \<open>Sessions: the calls of a client in turn, with the events it saw.\<close>

inductive client :: "creader \<Rightarrow> event list \<Rightarrow> creader \<Rightarrow> bool" where
  client_nil: "client c [] c"
| client_call: "facade c e c1 \<Longrightarrow> client c1 es c2 \<Longrightarrow> client c (e # es) c2"

fun run_link :: "link \<Rightarrow> event list \<Rightarrow> link option" where
  "run_link l [] = Some l"
| "run_link l (e # es) = (case next_link l e of None \<Rightarrow> None | Some l1 \<Rightarrow> run_link l1 es)"

lemma client_run: "client c es c' \<Longrightarrow> run_link (link_of c) es = Some (link_of c')"
  by (induction rule: client.induct) (simp_all add: facade_link)

lemma client_inv: "client c es c' \<Longrightarrow> creader_inv c \<Longrightarrow> creader_inv c'"
  by (induction rule: client.induct) (auto dest: facade_inv)

text \<open>
  Property C1.  The object implements the machine with two states: along every session of calls, for
  every behaviour of the devices, the replies alone determine whether a reader is attached.  In
  particular no call but \<^verbatim>\<open>Connect\<close> attaches a reader, a call that reports a loss detaches it, and a
  detached object reports the loss to every guarded call.
\<close>

theorem facade_refines:
  assumes "client c es c'"
  shows "run_link (link_of c) es = Some (link_of c')"
  using assms by (rule client_run)

text \<open>
  Property C2.  Every reader object a client reaches, from a new object on and through any session of
  calls, satisfies the invariants of the connection and the module table, and its ATR length is at most
  33 and the active protocol none or one the card offers.  The last two are not claimed for an RFID
  reader whose \<^verbatim>\<open>IfdPower\<close> has copied an answer to select with a length byte that wraps over the end of
  \<^verbatim>\<open>m_ATR\<close>: that copy overwrites the members behind it.
\<close>

theorem facade_sound:
  assumes "client c es c'" and "creader_inv c" and "m_Reader c' = Some t"
  shows "card_inv (t_reader t) \<and> modules_inv (t_reader t)
     \<and> (m_ATR_Length (t_reader t) \<le> 33
         \<and> m_ActiveProtocol (t_reader t) AND m_PossibleProtocols (t_reader t) = m_ActiveProtocol (t_reader t)
        \<or> g_atr_overrun (t_reader t) \<and> is_rfid_class (m_class (t_reader t)))"
proof -
  have c: "card_inv (t_reader t)" and m: "modules_inv (t_reader t)"
    using client_inv[OF assms(1,2)] assms(3) by (simp_all add: creader_inv_def good_def)
  show ?thesis using c m unfolding card_inv_def reader_inv_def by blast
qed

section \<open>Loss of the device\<close>

text \<open>A USB device that does not answer any more, or a closed connection.\<close>

definition dead :: "reader \<Rightarrow> bool" where
  "dead r \<longleftrightarrow> (case m_pCommunicator r of None \<Rightarrow> True
     | Some (USB u) \<Rightarrow> \<not> u_devHandle u \<or> u_in u = [] \<or> hd (u_in u) = None
     | Some (Serial s) \<Rightarrow> m_devHandle s = -1)"

lemma dead_Transfer:
  assumes "dead r" and "Transfer r m = (Res, R, r')"
  shows "Res \<noteq> CJ_SUCCESS"
proof (cases "m_pCommunicator r")
  case None
  then show ?thesis using assms(2) by (simp add: Transfer_def)
next
  case (Some c)
  show ?thesis
  proof (cases c)
    case (USB u)
    then show ?thesis using assms Some
      by (auto simp: Transfer_def reader_Write_def dead_def usb_Write_def usb_Read_def ausb_bulk_write_def
          ausb_bulk_read_def base_com_result_def usb_IsConnected_def ConnectionError_def Let_def
          split: if_splits prod.splits option.splits list.splits)
  next
    case (Serial s)
    then show ?thesis using assms Some
      by (auto simp: Transfer_def reader_Write_def dead_def serial_Write.simps[of s] writeLowlevel_def
          serial_IsConnected_def ConnectionError_def Let_def split: if_splits prod.splits option.splits)
  qed
qed

lemma dead_state: "dead r \<Longrightarrow> \<exists>r'. IfdGetState r = (STATUS_DEVICE_NOT_CONNECTED, SCARD_UNKNOWN, r')"
  by (auto simp: IfdGetState_def split: prod.splits dest: dead_Transfer)

lemma detached_session:
  "client c es c' \<Longrightarrow> m_Reader c = None \<Longrightarrow> (\<And>R. Connected R \<notin> set es) \<Longrightarrow>
     m_Reader c' = None \<and> set es \<subseteq> {Lost, Powered, Disconnected}"
proof (induction rule: client.induct)
  case (client_call c e c1 es c2)
  have l: "next_link Detached e = Some (link_of c1)"
    using facade_link[OF client_call(1)] client_call(4) by (simp add: link_of_def)
  then have "m_Reader c1 = None" "e \<in> {Lost, Powered, Disconnected}"
    using client_call(5) by (cases e; auto simp: link_of_def split: if_splits)+
  then show ?case using client_call(3,5) by auto
qed simp

text \<open>
  Property C3.  The loss of a device is detected: the next query of the slot state reports it and removes
  the reader object, and from then on every guarded call reports the loss, until the client connects
  again.
\<close>

theorem loss_detected:
  assumes "m_Reader c = Some t" and "dead (t_reader t)"
  shows "\<exists>x c'. Reader_IfdGetState c = ((STATUS_DEVICE_NOT_CONNECTED, x), c') \<and> m_Reader c' = None
    \<and> (\<forall>es c2. client c' es c2 \<longrightarrow> (\<forall>R. Connected R \<notin> set es) \<longrightarrow>
         m_Reader c2 = None \<and> set es \<subseteq> {Lost, Powered, Disconnected})"
proof -
  obtain r' where s: "IfdGetState (t_reader t) = (STATUS_DEVICE_NOT_CONNECTED, SCARD_UNKNOWN, r')"
    using dead_state[OF assms(2)] by blast
  have "Reader_IfdGetState c = ((STATUS_DEVICE_NOT_CONNECTED, SCARD_UNKNOWN), c\<lparr>m_Reader := None\<rparr>)"
    using assms(1) s
    by (simp add: Reader_IfdGetState_def on_reader_def at_reader_def pack3_def not_connected_def)
  then show ?thesis using detached_session by fastforce
qed

section \<open>Examples\<close>

definition usb_client :: "bytes option list \<Rightarrow> creader" where
  "usb_client i = \<lparr>m_Reader = Some (terminal0 (kernel_reader i)), m_cDeviceName = '':libusb:''\<rparr>"

theorem loss_detected_witness:
  "\<exists>x c'. Reader_IfdGetState (usb_client []) = ((STATUS_DEVICE_NOT_CONNECTED, x), c') \<and> m_Reader c' = None"
proof -
  have "m_Reader (usb_client []) = Some (terminal0 (kernel_reader []))" by (simp add: usb_client_def)
  moreover have "dead (t_reader (terminal0 (kernel_reader [])))"
    by (simp add: terminal0_def dead_def kernel_reader_ok usb0_def)
  ultimately show ?thesis using loss_detected by blast
qed

lemma example_session:
  "\<exists>c'. client (usb_client []) [Done, Lost, Lost, Connected CJ_SUCCESS, Powered] c' \<and> m_Reader c' \<noteq> None"
proof -
  let ?c = "usb_client []"
  let ?c1 = "\<lparr>m_Reader = None, m_cDeviceName = '':libusb:''\<rparr>"
  let ?m = "terminal0 (kernel_reader [])"
  let ?c2 = "?c1\<lparr>m_Reader := Some (new_reader ECA None ?m)\<rparr>"
  obtain x c3 where p: "Reader_IfdPower 0 33 ?c2 = (x, c3)" by fastforce
  have k: "length (g_stack (kernel_reader [])) = 2048" "length (m_ATR (kernel_reader [])) = 33"
    by (simp_all add: kernel_reader_def reader0_def)
  have "Reader_IfdSwallow ?c = (STATUS_NOT_SUPPORTED, ?c)"
    by (simp add: Reader_IfdSwallow_def on_reader_def usb_client_def not_connected_def)
  from facade_Swallow[OF this] have s1: "facade ?c Done ?c" by (simp add: ifd_event_def not_connected_def)
  obtain r' where d: "IfdGetState (kernel_reader []) = (STATUS_DEVICE_NOT_CONNECTED, SCARD_UNKNOWN, r')"
    using dead_state[of "kernel_reader []"] by (auto simp: dead_def kernel_reader_ok usb0_def)
  have "Reader_IfdGetState ?c = ((STATUS_DEVICE_NOT_CONNECTED, SCARD_UNKNOWN), ?c1)"
    using d by (simp add: Reader_IfdGetState_def on_reader_def at_reader_def pack3_def not_connected_def usb_client_def
        terminal0_def)
  from facade_GetState[OF this] have s2: "facade ?c Lost ?c1" by (simp add: ifd_event_def not_connected_def)
  have "Reader_IfdEject ?c1 = (STATUS_DEVICE_NOT_CONNECTED, ?c1)" by (simp add: Reader_IfdEject_def on_reader_def)
  from facade_Eject[OF this] have s3: "facade ?c1 Lost ?c1" by (simp add: ifd_event_def not_connected_def)
  have "CreateVirtualReaderObject ?m ''ecom(a)'' ?c1 = (CJ_SUCCESS, ?c2)"
    by (simp add: CreateVirtualReaderObject_def lower_def)
  from facade_Virtual[OF this] have s4: "facade ?c1 (Connected CJ_SUCCESS) ?c2"
    by (simp add: memory_ok_def terminal0_def k)
  have "client ?c [Done, Lost, Lost, Connected CJ_SUCCESS, Powered] c3"
    by (intro client_call[OF s1] client_call[OF s2] client_call[OF s3] client_call[OF s4]
        client_call[OF facade_Power[OF p]] client_nil)
  moreover have "m_Reader c3 \<noteq> None" using power_link[OF p] by (auto simp: link_of_def split: if_splits)
  ultimately show ?thesis by blast
qed

theorem facade_refines_witness:
  "\<exists>c'. client (usb_client []) [Done, Lost, Lost, Connected CJ_SUCCESS, Powered] c'
     \<and> run_link (link_of (usb_client [])) [Done, Lost, Lost, Connected CJ_SUCCESS, Powered] = Some (link_of c')"
  using example_session facade_refines by blast

theorem facade_sound_witness:
  "\<exists>c' t. client (usb_client []) [Done, Lost, Lost, Connected CJ_SUCCESS, Powered] c' \<and> m_Reader c' = Some t
     \<and> card_inv (t_reader t)"
proof -
  obtain c' t where c: "client (usb_client []) [Done, Lost, Lost, Connected CJ_SUCCESS, Powered] c'" "m_Reader c' = Some t"
    using example_session by blast
  have "creader_inv (usb_client [])"
    by (simp add: creader_inv_def usb_client_def good_def terminal0_def kernel_reader_ok)
  from facade_sound[OF c(1) this c(2)] show ?thesis using c by blast
qed

end
