(* ===== verification/CJ_EcomIo.thy ===== *)
theory CJ_EcomIo
  imports CJ_Prelude
begin

text \<open>
  The block transport of the driver for the first e-com reader: \<^verbatim>\<open>ecom/cj.h\<close>, \<^verbatim>\<open>ecom/cjio.c\<close>
  (the serial device of the kernel module) and \<^verbatim>\<open>ecom/cjio_user.c\<close> (bulk transfers of the USB
  library).

  \<open>cj_info\<close> is the structure \<^verbatim>\<open>CJ_INFO\<close> with the environment in it: the results of the calls
  of \<open>readt\<close> and \<^verbatim>\<open>write\<close> on the device, the results of \<^verbatim>\<open>ausb_bulk_read\<close>, and what the
  driver has sent.  An exhausted script stands for a silent device: \<open>readt\<close> and \<^verbatim>\<open>ausb_bulk_read\<close>
  return 0; \<^verbatim>\<open>write\<close> then takes everything.  Uninitialised stack memory is the function \<open>ec_stack\<close>, a
  write outside a buffer sets \<open>ec_overrun\<close>; the calls of the key callback are counted in \<open>ec_keys\<close>,
  the waiting times of the first byte of every block in \<open>ec_waits\<close>.
\<close>

section \<open>State\<close>

record t1_info =
  t1_nad :: byte
  t1_ns :: byte
  t1_nr :: byte
  t1_ifsc :: byte
  t1_ifsd :: byte
  t1_ifsreq :: bool
  t1_cwt :: nat
  t1_wtx :: nat
  t1_bwt :: nat

datatype tty_rx = Got byte | Quiet | Failed
datatype tty_tx = Took nat | Interrupted | Refused
datatype bulk_rx = Bulk bytes | BulkError nat

text \<open>What the calls that set up the devices answer: \<^verbatim>\<open>open\<close>, \<^verbatim>\<open>fcntl\<close> and \<open>tty_raw\<close> of the
  serial device; for the USB library the calls in the order of \<open>cjIoOpen_libusb\<close>.  The name of a
  kernel driver is present if the query does not fail; it is empty if no driver is bound.\<close>

record ec_setup =
  su_open :: "int option"
  su_lock :: bool
  su_raw :: bool
  su_ausb :: bool
  su_driver :: "string option"
  su_detach :: bool
  su_config :: bool
  su_claim :: bool
  su_driver2 :: "string option"
  su_detach2 :: bool
  su_claim2 :: bool
  su_interrupt :: bool

record cj_info =
  ec_type :: int
  ec_key :: bool
  ec_t1 :: t1_info
  ec_ctn :: int
  ec_dh :: bool
  ec_fd :: bool
  ec_rx :: "tty_rx list"
  ec_tx :: "tty_tx list"
  ec_bulk :: "bulk_rx list"
  ec_line :: bytes
  ec_pkts :: "bytes list"
  ec_keys :: "int list"
  ec_waits :: "nat list"
  ec_setup :: ec_setup
  ec_stack :: "int \<Rightarrow> byte"
  ec_overrun :: bool

abbreviation (input) "CJ_EXIT_OK \<equiv> (0 :: int)"
abbreviation (input) "CJ_EXIT_UNDEF_ERROR \<equiv> (-1 :: int)"
abbreviation (input) "CJ_EXIT_BAD_PARAM \<equiv> (-2 :: int)"
abbreviation (input) "CJ_EXIT_IO_ERROR \<equiv> (-3 :: int)"
abbreviation (input) "CJ_EXIT_FILE_NOT_EXIST \<equiv> (-4 :: int)"
abbreviation (input) "CJ_EXIT_FILE_ERROR \<equiv> (-5 :: int)"
abbreviation (input) "CJ_EXIT_PROTOCOL_ERROR \<equiv> (-6 :: int)"
abbreviation (input) "CJ_EXIT_TIMEOUT \<equiv> (-7 :: int)"
abbreviation (input) "CJ_IO_TYPE_USB \<equiv> (1 :: int)"
abbreviation (input) "CJ_IO_TYPE_LIBUSB \<equiv> (2 :: int)"

section \<open>Sending a block\<close>

text \<open>The frame both transports put around a block.\<close>

definition ec_frame :: "bytes \<Rightarrow> bytes" where
  "ec_frame d = (if length d = 1 then 0xFF else 0) # word_of_nat (length d)
                 # word_of_nat (length d div 256) # d"

text \<open>The loop that empties the line reads until \<open>readt\<close> returns 0; errors keep it reading.\<close>

fun flush_line :: "tty_rx list \<Rightarrow> tty_rx list" where
  "flush_line [] = []"
| "flush_line (Quiet # es) = es"
| "flush_line (e # es) = flush_line es"

fun write_loop :: "tty_tx list \<Rightarrow> bytes \<Rightarrow> int \<times> bytes \<times> tty_tx list" where
  "write_loop [] d = (CJ_EXIT_OK, d, [])"
| "write_loop (e # es) d =
     (if d = [] then (CJ_EXIT_OK, [], e # es)
      else case e of
        Took 0 \<Rightarrow> (CJ_EXIT_IO_ERROR, [], es)
      | Took n \<Rightarrow> (case write_loop es (drop n d) of (c, w, es') \<Rightarrow> (c, take n d @ w, es'))
      | Interrupted \<Rightarrow> write_loop es d
      | Refused \<Rightarrow> (CJ_EXIT_IO_ERROR, [], es))"

fun packets :: "bytes \<Rightarrow> bytes list" where
  "packets d = (if d = [] then [] else take 64 d # packets (drop 64 d))"

declare packets.simps [simp del]

definition cjIoSendBlock_libusb :: "cj_info \<Rightarrow> bytes \<Rightarrow> int \<times> cj_info" where
  "cjIoSendBlock_libusb ci d =
     (CJ_EXIT_OK, ci\<lparr>ec_pkts := ec_pkts ci @ packets (ec_frame d)\<rparr>)"

definition tty_SendBlock :: "cj_info \<Rightarrow> bytes \<Rightarrow> int \<times> cj_info" where
  "tty_SendBlock ci d =
     (case write_loop (ec_tx ci) (ec_frame d) of (c, w, es) \<Rightarrow>
        (c, ci\<lparr>ec_rx := flush_line (ec_rx ci), ec_tx := es, ec_line := ec_line ci @ w\<rparr>))"

definition cjIoSendBlock :: "cj_info \<Rightarrow> bytes \<Rightarrow> int \<times> cj_info" where
  "cjIoSendBlock ci d =
     (if length d > 3 + 255 + 1 then (CJ_EXIT_BAD_PARAM, ci)
      else if ec_type ci = CJ_IO_TYPE_LIBUSB then cjIoSendBlock_libusb ci d
      else tty_SendBlock ci d)"

section \<open>Receiving a block\<close>

text \<open>The waiting time of the first byte; the request of the card is used up.\<close>

definition take_wait :: "cj_info \<Rightarrow> cj_info" where
  "take_wait ci =
     (let t = ec_t1 ci in
      ci\<lparr>ec_waits := ec_waits ci @ [if t1_wtx t \<noteq> 0 then t1_bwt t * t1_wtx t else t1_bwt t],
         ec_t1 := t\<lparr>t1_wtx := 0\<rparr>\<rparr>)"

text \<open>The length of the header is a \<^verbatim>\<open>short\<close> and wraps.\<close>

definition short_size :: "byte \<Rightarrow> byte \<Rightarrow> int" where
  "short_size lo hi = sint (word_of_nat (unat hi * 256 + unat lo + 3) :: 16 word)"

text \<open>The bytes in the buffer and the last result of \<open>readt\<close> (1 after the \<^verbatim>\<open>break\<close>); no result if
  the block is too long.\<close>

fun tty_loop :: "tty_rx list \<Rightarrow> bytes \<Rightarrow> int option \<times> bytes \<times> tty_rx list" where
  "tty_loop [] buf = (Some 0, buf, [])"
| "tty_loop (Quiet # es) buf = (Some 0, buf, es)"
| "tty_loop (Failed # es) buf = (Some (-1), buf, es)"
| "tty_loop (Got b # es) buf =
     (let buf' = buf @ [b] in
      if length buf' > 3 + 3 + 255 + 1 then (None, buf', es)
      else if length buf' \<ge> 3 \<and> int (length buf') \<ge> short_size (buf' ! 1) (buf' ! 2)
      then (Some 1, buf', es)
      else tty_loop es buf')"

text \<open>A byte of the local buffer, of which only the first bytes have been received.\<close>

definition buf_at :: "cj_info \<Rightarrow> bytes \<Rightarrow> nat \<Rightarrow> byte" where
  "buf_at ci buf i = (if i < length buf then buf ! i else ec_stack ci (int i))"

text \<open>The second argument is the size of the buffer of the caller, which is not used.\<close>

definition tty_ReceiveBlock :: "cj_info \<Rightarrow> nat \<Rightarrow> int \<times> bytes \<times> cj_info" where
  "tty_ReceiveBlock ci room =
     (let ci = take_wait ci in
      case tty_loop (ec_rx ci) [] of (r, buf, es) \<Rightarrow>
        (let ci = ci\<lparr>ec_rx := es\<rparr> in
         case r of None \<Rightarrow> (CJ_EXIT_PROTOCOL_ERROR, [], ci)
         | Some ret \<Rightarrow>
             (if int (length buf) + ret = 0 then (CJ_EXIT_TIMEOUT, [], ci)
              else (let n = unat (buf_at ci buf 2) * 256 + unat (buf_at ci buf 1) in
                    if n > 3 + 255 + 1 then (CJ_EXIT_PROTOCOL_ERROR, [], ci)
                    else (CJ_EXIT_OK, map (\<lambda>i. buf_at ci buf (3 + i)) [0..<n],
                          ci\<lparr>ec_overrun := (ec_overrun ci \<or> n > room)\<rparr>)))))"

text \<open>The result of \<^verbatim>\<open>ausb_bulk_read\<close> with room for \<open>n\<close> bytes and what it stores; errors are
  negative.\<close>

fun bulk_read :: "bulk_rx \<Rightarrow> nat \<Rightarrow> int \<times> bytes" where
  "bulk_read (BulkError e) n = (- 1 - int e, [])"
| "bulk_read (Bulk d) n = (int (min n (length d)), take n d)"

definition store :: "(int \<Rightarrow> byte) \<Rightarrow> int \<Rightarrow> bytes \<Rightarrow> int \<Rightarrow> byte" where
  "store m a d = (\<lambda>i. if a \<le> i \<and> i < a + int (length d) then d ! nat (i - a) else m i)"

text \<open>The header loop: the buffer, the number of bytes (which an error makes smaller) and whether a
  byte was written in front of the buffer; no result if nothing was received.\<close>

fun usb_header :: "bulk_rx list \<Rightarrow> (int \<Rightarrow> byte) \<Rightarrow> int \<Rightarrow> bool
    \<Rightarrow> ((int \<Rightarrow> byte) \<times> int) option \<times> bool \<times> bulk_rx list" where
  "usb_header es m len bad =
     (if 3 \<le> len then (Some (m, len), bad, es)
      else case es of [] \<Rightarrow> (None, bad, [])
      | e # es' \<Rightarrow>
          (let (ret, d) = bulk_read e (nat (min 64 (64 - len))) in
           if ret = 0 then (None, bad, es')
           else usb_header es' (store m len d) (len + ret) (bad \<or> len < 0 \<and> d \<noteq> [])))"

text \<open>The body loop; \<open>room\<close> is the size of the buffer of the caller, a negative result is a copy of
  almost the whole address space.\<close>

fun usb_body :: "bulk_rx list \<Rightarrow> (int \<Rightarrow> byte) \<Rightarrow> int \<Rightarrow> int \<Rightarrow> int \<Rightarrow> bool
    \<Rightarrow> (int \<Rightarrow> byte) \<times> int \<times> bool \<times> bulk_rx list" where
  "usb_body es m len bs room bad =
     (if bs \<le> len then (m, len, bad, es)
      else case es of [] \<Rightarrow> (m, len, bad, [])
      | e # es' \<Rightarrow>
          (let (ret, d) = bulk_read e (nat (min 64 (bs - len))) in
           if ret = 0 then (m, len, bad, es')
           else if len + ret > room then usb_body es' m (len + ret) bs room bad
           else usb_body es' (store m len d) (len + ret) bs room (bad \<or> ret < 0 \<or> len < 0)))"

declare usb_header.simps [simp del] usb_body.simps [simp del]

definition cjIoReceiveBlock_libusb :: "cj_info \<Rightarrow> nat \<Rightarrow> int \<times> bytes \<times> cj_info" where
  "cjIoReceiveBlock_libusb ci room =
     (let ci = take_wait ci in
      case usb_header (ec_bulk ci) (ec_stack ci) 0 (ec_overrun ci) of
        (None, bad, es) \<Rightarrow> (CJ_EXIT_PROTOCOL_ERROR, [], ci\<lparr>ec_bulk := es, ec_overrun := bad\<rparr>)
      | (Some (m, len), bad, es) \<Rightarrow>
          (let bs = int (unat (m 2)) * 256 + int (unat (m 1));
               got = len - 3;
               data = (if 0 < got \<and> got \<le> int room
                       then store (ec_stack ci) 0 (map (\<lambda>i. m (3 + int i)) [0..<nat got])
                       else ec_stack ci) in
           case usb_body es data got bs (int room) bad of (dat, n, bad', es') \<Rightarrow>
             (let ci = ci\<lparr>ec_bulk := es', ec_overrun := bad'\<rparr> in
              if n > int room then (CJ_EXIT_BAD_PARAM, [], ci)
              else (CJ_EXIT_OK, map (\<lambda>i. dat (int i)) [0..<nat n], ci))))"

definition cjIoReceiveBlock :: "cj_info \<Rightarrow> nat \<Rightarrow> int \<times> bytes \<times> cj_info" where
  "cjIoReceiveBlock ci room =
     (if ec_type ci = CJ_IO_TYPE_LIBUSB then cjIoReceiveBlock_libusb ci room
      else tty_ReceiveBlock ci room)"

section \<open>Opening and closing\<close>

definition t1_reset :: "t1_info \<Rightarrow> t1_info" where
  "t1_reset t = t\<lparr>t1_ns := 0, t1_nr := 0, t1_ifsc := 0xFF, t1_ifsd := 0xFF, t1_ifsreq := False,
                  t1_bwt := 8000000, t1_wtx := 0, t1_cwt := 100000\<rparr>"

text \<open>The handshake at the end of both functions: S(IFS) without a parameter, S(RESYNCH), and the
  answer to it.\<close>

definition resynch :: "cj_info \<Rightarrow> int \<times> cj_info" where
  "resynch ci =
     (case cjIoSendBlock ci [0xE2, 0xC1, 0x00, 0x23] of (c1, ci1) \<Rightarrow>
        if c1 < 0 then (c1, ci1)
        else case cjIoSendBlock ci1 [0xE2, 0xC0, 0x00, 0x22] of (c2, ci2) \<Rightarrow>
          if c2 < 0 then (c2, ci2)
          else case cjIoReceiveBlock ci2 7 of (c3, b, ci3) \<Rightarrow>
            if c3 < 0 then (c3, ci3)
            else if b = [0x2E, 0xE0, 0x00, 0xCE] then (CJ_EXIT_OK, ci3)
            else (CJ_EXIT_IO_ERROR, ci3))"

text \<open>Detaching a kernel driver: only the driver \<^verbatim>\<open>cyberjack\<close> may be detached.\<close>

definition detach :: "string \<Rightarrow> bool \<Rightarrow> bool" where
  "detach name ok = (name = ''cyberjack'' \<and> ok)"

definition usb_ready :: "ec_setup \<Rightarrow> bool" where
  "usb_ready u =
     (su_ausb u
      \<and> (case su_driver u of None \<Rightarrow> True
          | Some name \<Rightarrow> name = [] \<or> detach name (su_detach u))
      \<and> su_config u
      \<and> (su_claim u
          \<or> (case su_driver2 u of None \<Rightarrow> False
              | Some name \<Rightarrow> detach name (su_detach2 u) \<and> su_claim2 u)))"

definition cjIoOpen_libusb :: "cj_info \<Rightarrow> int \<times> cj_info" where
  "cjIoOpen_libusb ci =
     (let u = ec_setup ci; ci1 = ci\<lparr>ec_dh := su_ausb u\<rparr> in
      if \<not> usb_ready u then (CJ_EXIT_FILE_ERROR, ci1)
      else if \<not> su_interrupt u then (CJ_EXIT_IO_ERROR, ci1\<lparr>ec_dh := False\<rparr>)
      else resynch (ci1\<lparr>ec_t1 := t1_reset (ec_t1 ci1)\<rparr>))"

text \<open>\<^verbatim>\<open>ENOENT\<close> is 2.\<close>

definition cjIoOpen :: "cj_info \<Rightarrow> int \<times> cj_info" where
  "cjIoOpen ci =
     (let u = ec_setup ci in
      if ec_type ci = CJ_IO_TYPE_LIBUSB then cjIoOpen_libusb ci
      else if ec_type ci \<noteq> CJ_IO_TYPE_USB then (CJ_EXIT_BAD_PARAM, ci)
      else case su_open u of
        Some errno \<Rightarrow> (if errno = 2 then CJ_EXIT_FILE_NOT_EXIST else CJ_EXIT_FILE_ERROR, ci)
      | None \<Rightarrow>
          (if \<not> su_lock u then (CJ_EXIT_FILE_ERROR, ci)
           else if \<not> su_raw u then (CJ_EXIT_FILE_ERROR, ci\<lparr>ec_fd := True\<rparr>)
           else resynch (ci\<lparr>ec_fd := True, ec_t1 := t1_reset (ec_t1 ci),
                            ec_rx := flush_line (ec_rx ci)\<rparr>)))"

definition cjIoClose_libusb :: "cj_info \<Rightarrow> int \<times> cj_info" where
  "cjIoClose_libusb ci =
     (case cjIoSendBlock ci [0xE2, 0xC1, 0x00, 0x23] of (c, ci1) \<Rightarrow>
        (if c < 0 then c else CJ_EXIT_OK, ci1\<lparr>ec_dh := False\<rparr>))"

definition cjIoClose :: "cj_info \<Rightarrow> int \<times> cj_info" where
  "cjIoClose ci =
     (if ec_type ci = CJ_IO_TYPE_LIBUSB then cjIoClose_libusb ci
      else case cjIoSendBlock ci [0xE2, 0xC1, 0x00, 0x23] of (c, ci1) \<Rightarrow>
        if c < 0 then (c, ci1) else (CJ_EXIT_OK, ci1\<lparr>ec_fd := False\<rparr>))"

section \<open>What a block costs\<close>

text \<open>The events left in the scripts; every block that arrives uses at least one.\<close>

definition ev_left :: "cj_info \<Rightarrow> nat" where
  "ev_left ci = length (ec_rx ci) + length (ec_bulk ci)"

lemma flush_line_length: "length (flush_line es) \<le> length es"
  by (induction es rule: flush_line.induct) simp_all

lemma tty_loop_length:
  "tty_loop es buf = (r, buf', es') \<Longrightarrow>
     length es' \<le> length es \<and> (length es' < length es \<or> r = Some 0 \<and> buf' = buf)"
  by (induction es buf arbitrary: r buf' es' rule: tty_loop.induct)
    (fastforce simp: Let_def split: if_splits)+

lemma bulk_positive: "bulk_read e n = (ret, d) \<Longrightarrow> ret \<noteq> 0 \<Longrightarrow> ret = int (length d) \<or> ret < 0 \<and> d = []"
  by (cases e) (auto simp: min_def split: if_splits)

lemma usb_header_length:
  "usb_header es m len bad = (r, bad', es') \<Longrightarrow>
     length es' \<le> length es \<and> (r \<noteq> None \<longrightarrow> len < 3 \<longrightarrow> length es' < length es)"
proof (induction es arbitrary: m len bad r bad' es')
  case Nil
  then show ?case by (subst (asm) usb_header.simps) (auto split: if_splits)
next
  case (Cons e es)
  show ?case
  proof (cases "3 \<le> len")
    case True
    with Cons.prems show ?thesis by (subst (asm) usb_header.simps) auto
  next
    case False
    obtain ret d where b: "bulk_read e (nat (min 64 (64 - len))) = (ret, d)" by fastforce
    show ?thesis
    proof (cases "ret = 0")
      case True
      with False b Cons.prems show ?thesis by (subst (asm) usb_header.simps) auto
    next
      case r: False
      with False b Cons.prems have
        "usb_header es (store m len d) (len + ret) (bad \<or> len < 0 \<and> d \<noteq> []) = (r, bad', es')"
        by (subst (asm) usb_header.simps) auto
      from Cons.IH[OF this] show ?thesis by auto
    qed
  qed
qed

lemma usb_body_length:
  "usb_body es m len bs room bad = (m', len', bad', es') \<Longrightarrow> length es' \<le> length es"
proof (induction es arbitrary: m len bad)
  case Nil
  then show ?case by (subst (asm) usb_body.simps) (auto split: if_splits)
next
  case (Cons e es)
  obtain ret d where b: "bulk_read e (nat (min 64 (bs - len))) = (ret, d)" by fastforce
  from Cons.prems b show ?case
    by (subst (asm) usb_body.simps) (auto split: if_splits dest!: Cons.IH)
qed

lemma take_wait_simps [simp]:
  "ec_rx (take_wait ci) = ec_rx ci" "ec_bulk (take_wait ci) = ec_bulk ci"
  "ec_type (take_wait ci) = ec_type ci" "ec_stack (take_wait ci) = ec_stack ci"
  "ec_overrun (take_wait ci) = ec_overrun ci" "ec_tx (take_wait ci) = ec_tx ci"
  "ec_line (take_wait ci) = ec_line ci" "ec_pkts (take_wait ci) = ec_pkts ci"
  "ec_t1 (take_wait ci) = (ec_t1 ci)\<lparr>t1_wtx := 0\<rparr>"
  "length (ec_waits (take_wait ci)) = Suc (length (ec_waits ci))"
  "ec_keys (take_wait ci) = ec_keys ci" "ec_key (take_wait ci) = ec_key ci"
  by (simp_all add: take_wait_def Let_def)

lemma tty_receive_left:
  "tty_ReceiveBlock ci room = (c, r, ci') \<Longrightarrow>
     ev_left ci' \<le> ev_left ci \<and> (c = 0 \<longrightarrow> ev_left ci' < ev_left ci)
     \<and> length (ec_waits ci') = Suc (length (ec_waits ci)) \<and> ec_type ci' = ec_type ci"
  by (cases "tty_loop (ec_rx ci) []")
    (auto simp: tty_ReceiveBlock_def Let_def ev_left_def dest!: tty_loop_length
      split: if_splits option.splits)

lemma usb_receive_left:
  "cjIoReceiveBlock_libusb ci room = (c, r, ci') \<Longrightarrow>
     ev_left ci' \<le> ev_left ci \<and> (c = 0 \<longrightarrow> ev_left ci' < ev_left ci)
     \<and> length (ec_waits ci') = Suc (length (ec_waits ci)) \<and> ec_type ci' = ec_type ci"
  by (cases "usb_header (ec_bulk ci) (ec_stack ci) 0 (ec_overrun ci)")
    (fastforce simp: cjIoReceiveBlock_libusb_def Let_def ev_left_def
      dest!: usb_header_length usb_body_length split: if_splits option.splits prod.splits)

lemma receive_left:
  "cjIoReceiveBlock ci room = (c, r, ci') \<Longrightarrow>
     ev_left ci' \<le> ev_left ci \<and> (c = 0 \<longrightarrow> ev_left ci' < ev_left ci)
     \<and> length (ec_waits ci') = Suc (length (ec_waits ci)) \<and> ec_type ci' = ec_type ci"
  unfolding cjIoReceiveBlock_def using tty_receive_left usb_receive_left by (metis (full_types))

lemma send_left:
  "cjIoSendBlock ci d = (c, ci') \<Longrightarrow>
     ev_left ci' \<le> ev_left ci \<and> ec_waits ci' = ec_waits ci \<and> ec_type ci' = ec_type ci"
  using flush_line_length
  by (auto simp: cjIoSendBlock_def cjIoSendBlock_libusb_def tty_SendBlock_def ev_left_def
      split: if_splits prod.splits)


section \<open>Frames survive the transports\<close>

lemma concat_packets [simp]: "concat (packets d) = d"
proof (induction d rule: packets.induct)
  case (1 d)
  show ?case
  proof (cases "d = []")
    case False
    with 1 have "concat (packets d) = take 64 d @ drop 64 d" by (subst packets.simps) simp
    then show ?thesis by simp
  qed (simp add: packets.simps)
qed

lemma ec_frame_simps [simp]:
  "length (ec_frame d) = 3 + length d"
  "ec_frame d ! Suc 0 = word_of_nat (length d)"
  "ec_frame d ! 2 = word_of_nat (length d div 256)"
  "drop 3 (ec_frame d) = d" "ec_frame d \<noteq> []"
  by (simp_all add: ec_frame_def)

lemma ec_frame_nth [simp]: "ec_frame d ! (3 + i) = d ! i"
  by (simp add: ec_frame_def numeral_3_eq_3)

lemma frame_length:
  assumes "n < 65536"
  shows "unat (word_of_nat (n div 256) :: byte) * 256 + unat (word_of_nat n :: byte) = n"
proof -
  have "n div 256 < 256" using assms by (simp add: less_mult_imp_div_less)
  then have "unat (word_of_nat (n div 256) :: byte) = n div 256"
    by (simp add: unat_of_nat take_bit_nat_eq_self)
  moreover have "unat (word_of_nat n :: byte) = n mod 256"
    by (simp add: unat_of_nat take_bit_eq_mod)
  ultimately show ?thesis by simp
qed

lemma short_size_frame:
  assumes "n \<le> 259"
  shows "short_size (word_of_nat n) (word_of_nat (n div 256)) = int n + 3"
proof -
  have "unat (word_of_nat (n div 256) :: byte) * 256 + unat (word_of_nat n :: byte) = n"
    using assms by (intro frame_length) simp
  moreover have "sint (word_of_nat k :: 16 word) = int k" if "k < 300" for k
    using that by (simp add: signed_of_nat signed_take_bit_int_eq_self)
  from this[of "n + 3"] have "sint (word_of_nat (n + 3) :: 16 word) = int n + 3" using assms by simp
  ultimately show ?thesis by (simp add: short_size_def)
qed

lemma tty_loop_frame:
  assumes "length d \<le> 259" "buf @ fs = ec_frame d" "fs \<noteq> []"
  shows "tty_loop (map Got fs @ es) buf = (Some 1, ec_frame d, es)"
  using assms(2, 3)
proof (induction fs arbitrary: buf)
  case (Cons b fs)
  then have e: "(buf @ [b]) @ fs = ec_frame d" by simp
  then have l: "length buf + 1 + length fs = 3 + length d"
    by (metis ec_frame_simps(1) length_append length_append_singleton Suc_eq_plus1)
  have n: "length buf + 1 \<le> 262" using l assms(1) by simp
  have sz: "short_size ((buf @ [b]) ! 1) ((buf @ [b]) ! 2) = int (length d) + 3" if "2 \<le> length buf"
  proof -
    have "(buf @ [b]) ! i = ec_frame d ! i" if "i \<le> 2" for i
      using e that \<open>2 \<le> length buf\<close> by (metis nth_append length_append_singleton le_imp_less_Suc order_trans)
    from this[of 1] this[of 2] show ?thesis using assms(1) by (simp add: short_size_frame)
  qed
  show ?case
  proof (cases fs)
    case Nil
    then show ?thesis using e l n sz by (simp add: Let_def)
  next
    case c: Cons
    with Cons.IH[of "buf @ [b]"] e have
      ih: "tty_loop (map Got fs @ es) (buf @ [b]) = (Some 1, ec_frame d, es)" by simp
    have "\<not> (3 \<le> length (buf @ [b]) \<and>
        short_size ((buf @ [b]) ! 1) ((buf @ [b]) ! 2) \<le> int (length (buf @ [b])))"
      using sz l c by auto
    then show ?thesis using ih n by (auto simp: Let_def)
  qed
qed simp

lemma tty_receive_frame:
  assumes "length d \<le> 259" "ec_rx ci = map Got (ec_frame d) @ es" "length d \<le> room"
  shows "tty_ReceiveBlock ci room = (CJ_EXIT_OK, d, (take_wait ci)\<lparr>ec_rx := es\<rparr>)"
proof -
  have "map (\<lambda>i. buf_at ci' (ec_frame d) (3 + i)) [0..<length d] = d" for ci'
    by (rule nth_equalityI) (simp_all add: buf_at_def del: add.commute)
  then show ?thesis
    using assms tty_loop_frame[of d "[]" "ec_frame d" es]
    by (simp add: tty_ReceiveBlock_def Let_def buf_at_def frame_length)
qed

lemma usb_body_step:
  assumes "bulk_read e (nat (min 64 (bs - len))) = (ret, d)" "len < bs" "0 < ret" "0 \<le> len"
    "len + ret \<le> room"
  shows "usb_body (e # es) m len bs room bad = usb_body es (store m len d) (len + ret) bs room bad"
  using assms by (subst usb_body.simps) simp

lemma usb_body_packets:
  assumes "length d \<le> room"
  shows "got \<le> length d \<Longrightarrow> \<forall>i<got. dat (int i) = d ! i \<Longrightarrow>
    \<exists>dat'. usb_body (map Bulk (packets (drop got d)) @ es) dat (int got) (int (length d))
             (int room) bad = (dat', int (length d), bad, es)
         \<and> (\<forall>i<length d. dat' (int i) = d ! i)"
proof (induction "length d - got" arbitrary: got dat rule: less_induct)
  case less
  show ?case
  proof (cases "got = length d")
    case True
    then show ?thesis using less.prems by (subst usb_body.simps) (simp add: packets.simps)
  next
    case False
    define n where "n = min 64 (length d - got)"
    let ?p = "take 64 (drop got d)"
    let ?dat = "store dat (int got) ?p"
    have n: "length ?p = n" "0 < n" "got + n \<le> length d" using False less.prems by (auto simp: n_def)
    have p: "packets (drop got d) = ?p # packets (drop (got + n) d)"
      using False less.prems by (subst packets.simps) (auto simp: n_def min_def add.commute)
    have b: "bulk_read (Bulk ?p) (nat (min 64 (int (length d) - int got))) = (int n, ?p)"
    proof -
      have "nat (min 64 (int (length d) - int got)) = n" using less.prems by (auto simp: n_def)
      moreover have "take n ?p = ?p" using n(1) by (intro take_all) simp
      ultimately show ?thesis using n(1) by (simp del: take_take)
    qed
    have d: "\<forall>i<got + n. ?dat (int i) = d ! i"
      using less.prems n by (auto simp: store_def nat_diff_distrib simp flip: of_nat_diff)
    have "usb_body (map Bulk (packets (drop got d)) @ es) dat (int got) (int (length d)) (int room) bad
        = usb_body (map Bulk (packets (drop (got + n) d)) @ es) ?dat (int (got + n))
            (int (length d)) (int room) bad"
      using usb_body_step[OF b] n assms less.prems False by (simp add: p)
    with less.hyps[of "got + n" ?dat] n d show ?thesis by simp
  qed
qed

lemma usb_receive_frame:
  assumes "length d \<le> 259" "ec_bulk ci = map Bulk (packets (ec_frame d)) @ es" "length d \<le> room"
  shows "cjIoReceiveBlock_libusb ci room = (CJ_EXIT_OK, d, (take_wait ci)\<lparr>ec_bulk := es\<rparr>)"
proof -
  define p where "p = take 64 (ec_frame d)"
  define got where "got = length p - 3"
  have lp: "3 \<le> length p" "length p \<le> 64" "got \<le> length d" "length p = got + 3"
    by (auto simp: p_def got_def)
  have nth: "p ! i = ec_frame d ! i" if "i < length p" for i using that by (simp add: p_def)
  have pk: "packets (ec_frame d) = p # packets (drop got d)"
    by (subst packets.simps) (auto simp: p_def got_def ec_frame_def min_def)
  let ?m = "store (ec_stack ci) 0 p"
  have m: "?m (int i) = ec_frame d ! i" if "i < length p" for i
    using that by (simp add: store_def nth)
  have h: "usb_header (ec_bulk ci) (ec_stack ci) 0 (ec_overrun ci)
      = (Some (?m, int (length p)), ec_overrun ci, map Bulk (packets (drop got d)) @ es)"
    using lp by (subst usb_header.simps, simp add: assms(2) pk, subst usb_header.simps) auto
  have bs: "int (unat (?m 2)) * 256 + int (unat (?m 1)) = int (length d)"
    using m[of 1] m[of 2] lp frame_length[of "length d"] assms(1)
    by (simp del: of_nat_unat flip: of_nat_mult of_nat_add)
  define data where "data = (if 0 < int (length p) - 3 \<and> int (length p) - 3 \<le> int room
      then store (ec_stack ci) 0 (map (\<lambda>i. ?m (3 + int i)) [0..<nat (int (length p) - 3)])
      else ec_stack ci)"
  have "\<forall>i<got. data (int i) = d ! i"
    using lp assms(3) m[of "3 + _"] by (auto simp: data_def store_def nth)
  from usb_body_packets[OF assms(3) lp(3) this] obtain dat' where
    b: "usb_body (map Bulk (packets (drop got d)) @ es) data (int got) (int (length d)) (int room)
          (ec_overrun ci) = (dat', int (length d), ec_overrun ci, es)"
    and a: "\<forall>i<length d. dat' (int i) = d ! i" by blast
  have g: "int (length p) - 3 = int got" using lp by simp
  have "map (\<lambda>i. dat' (int i)) [0..<length d] = d" by (rule nth_equalityI) (simp_all add: a)
  then show ?thesis
    unfolding cjIoReceiveBlock_libusb_def Let_def take_wait_simps h option.case prod.case bs
      data_def[symmetric] unfolding g b prod.case
    using assms(3) by simp
qed

section \<open>The link the protocol runs on\<close>

text \<open>
  What the protocol layer relies on: after a block is sent the next block of the reader arrives.
  \<open>idle\<close> and \<open>ready\<close> say which blocks are still to come, before and after a block is sent; \<open>out\<close> is
  what was put on the wire.
\<close>

locale block_link =
  fixes idle ready :: "cj_info \<Rightarrow> bytes list \<Rightarrow> bool"
    and out :: "cj_info \<Rightarrow> bytes"
  assumes link_send: "idle ci bs \<Longrightarrow> length d \<le> 259 \<Longrightarrow>
      \<exists>ci'. cjIoSendBlock ci d = (CJ_EXIT_OK, ci') \<and> ready ci' bs \<and> ec_t1 ci' = ec_t1 ci
            \<and> out ci' = out ci @ ec_frame d"
    and link_receive: "ready ci (b # bs) \<Longrightarrow>
      \<exists>ci'. cjIoReceiveBlock ci 259 = (CJ_EXIT_OK, b, ci') \<and> idle ci' bs
            \<and> ec_t1 ci' = (ec_t1 ci)\<lparr>t1_wtx := 0\<rparr> \<and> out ci' = out ci"
    and link_idle: "idle (ci\<lparr>ec_t1 := t\<rparr>) bs = idle ci bs" "idle (ci\<lparr>ec_keys := k\<rparr>) bs = idle ci bs"
    and link_ready: "ready (ci\<lparr>ec_t1 := t\<rparr>) bs = ready ci bs"
    and link_out: "out (ci\<lparr>ec_t1 := t\<rparr>) = out ci" "out (ci\<lparr>ec_keys := k\<rparr>) = out ci"

definition usb_pending :: "cj_info \<Rightarrow> bytes list \<Rightarrow> bool" where
  "usb_pending ci bs = (ec_type ci = CJ_IO_TYPE_LIBUSB \<and> (\<forall>b\<in>set bs. length b \<le> 259)
     \<and> ec_bulk ci = concat (map (\<lambda>b. map Bulk (packets (ec_frame b))) bs))"

definition usb_out :: "cj_info \<Rightarrow> bytes" where
  "usb_out ci = concat (ec_pkts ci)"

text \<open>On the serial device the line falls silent before the answer, or the answer would be thrown
  away with the rest of the line when the next block is sent.\<close>

definition tty_answers :: "bytes list \<Rightarrow> tty_rx list" where
  "tty_answers bs = concat (map (\<lambda>b. Quiet # map Got (ec_frame b)) bs)"

definition tty_idle :: "cj_info \<Rightarrow> bytes list \<Rightarrow> bool" where
  "tty_idle ci bs = (ec_type ci = CJ_IO_TYPE_USB \<and> ec_tx ci = [] \<and> (\<forall>b\<in>set bs. length b \<le> 259)
     \<and> ec_rx ci = tty_answers bs)"

definition tty_ready :: "cj_info \<Rightarrow> bytes list \<Rightarrow> bool" where
  "tty_ready ci bs = (ec_type ci = CJ_IO_TYPE_USB \<and> ec_tx ci = [] \<and> (\<forall>b\<in>set bs. length b \<le> 259)
     \<and> ec_rx ci = tl (tty_answers bs))"

interpretation usb_link: block_link usb_pending usb_pending usb_out
  by unfold_locales
    (auto simp: usb_pending_def usb_out_def cjIoSendBlock_def cjIoSendBlock_libusb_def
      cjIoReceiveBlock_def usb_receive_frame)

lemma flush_answers: "flush_line (tty_answers bs) = tl (tty_answers bs)"
  by (cases bs) (simp_all add: tty_answers_def)

interpretation tty_link: block_link tty_idle tty_ready ec_line
  by unfold_locales
    (auto simp: tty_idle_def tty_ready_def tty_answers_def cjIoSendBlock_def tty_SendBlock_def
      cjIoReceiveBlock_def tty_receive_frame flush_answers[unfolded tty_answers_def])

end
