(* ===== verification/CJ_T1.thy ===== *)
theory CJ_T1
  imports CJ_EcomIo
begin

unbundle bit_operations_syntax

text \<open>
  The T=1 protocol of the driver for the first e-com reader, \<^verbatim>\<open>ecom/cjt1.c\<close>: blocks with their
  checksum, and \<open>cjT1SendCmd\<close>, which sends a command in a chain of I-blocks, answers the requests of
  the card and the reader and collects the chain of the response.  One round of its loop is
  \<open>t1_step\<close>; \<open>Inl\<close> is a \<^verbatim>\<open>return\<close>, \<open>Inr\<close> a \<^verbatim>\<open>continue\<close>.
\<close>

section \<open>Blocks\<close>

fun cjT1Lrc :: "bytes \<Rightarrow> byte" where
  "cjT1Lrc [] = 0"
| "cjT1Lrc (b # d) = b XOR cjT1Lrc d"

definition cjT1AppendRc :: "bytes \<Rightarrow> bytes" where
  "cjT1AppendRc d = d @ [cjT1Lrc d]"

text \<open>A block of less than four bytes is refused: the length field makes at least four.\<close>

definition cjT1CheckRc :: "bytes \<Rightarrow> bool" where
  "cjT1CheckRc d = (4 \<le> length d \<and> unat (d ! 2) + 3 + 1 = length d
                     \<and> last d = cjT1Lrc (butlast d))"

datatype s_type = S_RESYNCH | S_IFS | S_ABORT | S_WTX | S_KEY | S_CARD
datatype s_dir = S_REQUEST | S_RESPONSE
datatype r_type = R_OK | R_EDC_ERROR | R_OTHER_ERROR

fun s_pcb :: "s_type \<Rightarrow> s_dir \<Rightarrow> byte" where
  "s_pcb S_RESYNCH d = (if d = S_REQUEST then 0xC0 else 0xE0)"
| "s_pcb S_IFS d = (if d = S_REQUEST then 0xC1 else 0xE1)"
| "s_pcb S_ABORT d = (if d = S_REQUEST then 0xC2 else 0xE2)"
| "s_pcb S_WTX d = (if d = S_REQUEST then 0xC3 else 0xE3)"
| "s_pcb S_KEY d = (if d = S_REQUEST then 0xC4 else 0xE4)"
| "s_pcb S_CARD d = (if d = S_REQUEST then 0xC5 else 0xD5)"

definition cjT1SBlock :: "s_type \<Rightarrow> s_dir \<Rightarrow> byte \<Rightarrow> bytes" where
  "cjT1SBlock t d param =
     cjT1AppendRc ([0xE2, s_pcb t d]
       @ (if t = S_IFS \<or> t = S_WTX \<and> param \<noteq> 0 then [0x01, param] else [0x00]))"

definition cjT1RBlock :: "t1_info \<Rightarrow> r_type \<Rightarrow> bytes" where
  "cjT1RBlock t r =
     cjT1AppendRc [t1_nad t,
       (case r of R_OK \<Rightarrow> 0x80
        | R_EDC_ERROR \<Rightarrow> if t1_nr t \<noteq> 0 then 0x91 else 0x81
        | R_OTHER_ERROR \<Rightarrow> if t1_nr t \<noteq> 0 then 0x92 else 0x82), 0x00]"

definition i_pcb :: "byte \<Rightarrow> bool \<Rightarrow> byte" where
  "i_pcb ns chain = (if ns \<noteq> 0 then 0x40 else 0) OR (if chain then 0x20 else 0)"

definition cjT1IBlock :: "t1_info \<Rightarrow> bool \<Rightarrow> bytes \<Rightarrow> bytes option" where
  "cjT1IBlock t chain d =
     (if length d > unat (t1_ifsc t) then None
      else Some (cjT1AppendRc ([t1_nad t, i_pcb (t1_ns t) chain, word_of_nat (length d)] @ d)))"

definition is_R :: "bytes \<Rightarrow> bool" where
  "is_R b = ((b ! 1) AND 0xC0 = 0x80)"

definition is_I :: "bytes \<Rightarrow> bool" where
  "is_I b = ((b ! 1) AND 0x80 = 0x00)"

definition cjT1GetN :: "bytes \<Rightarrow> byte" where
  "cjT1GetN b = (if is_R b then drop_bit 4 (b ! 1) AND 1
                 else if is_I b then drop_bit 6 (b ! 1) AND 1 else 0)"

section \<open>Changing the size of the information field\<close>

fun ifsd_loop :: "nat \<Rightarrow> cj_info \<Rightarrow> bytes \<Rightarrow> int \<times> cj_info" where
  "ifsd_loop 0 ci blk = (CJ_EXIT_OK, ci\<lparr>ec_t1 := (ec_t1 ci)\<lparr>t1_ifsreq := True\<rparr>\<rparr>)"
| "ifsd_loop (Suc left) ci blk =
     (case cjIoSendBlock ci blk of (c, ci1) \<Rightarrow>
        if c \<noteq> CJ_EXIT_OK then (c, ci1)
        else case cjIoReceiveBlock ci1 5 of (c, r, ci2) \<Rightarrow>
          if c \<noteq> CJ_EXIT_OK then (c, ci2)
          else if length r = length blk \<and> r ! 1 = 0xE1 \<and> cjT1CheckRc r
          then (CJ_EXIT_OK, ci2\<lparr>ec_t1 := (ec_t1 ci2)\<lparr>t1_ifsreq := True, t1_ifsd := r ! 3\<rparr>\<rparr>)
          else ifsd_loop left ci2 blk)"

definition cjT1ChangeIFSD :: "cj_info \<Rightarrow> byte \<Rightarrow> int \<times> cj_info" where
  "cjT1ChangeIFSD ci ifsd = ifsd_loop 3 ci (cjT1SBlock S_IFS S_REQUEST ifsd)"

section \<open>The exchange of a command and its response\<close>

text \<open>The local variables of \<open>cjT1SendCmd\<close> and the fields of \<^verbatim>\<open>CJ_APDU\<close>; \<open>x_rsp\<close> is the buffer of the
  caller.\<close>

record t1_exch =
  x_nad :: byte
  x_cmd :: bytes
  x_rsp :: bytes
  x_max :: nat
  x_ptr :: nat
  x_block :: bytes
  x_rsplen :: nat
  x_more :: bool
  x_icc :: bool
  x_wtx :: nat
  x_err :: nat
  x_rerr :: nat

type_synonym t1_state = "cj_info \<times> t1_exch"
type_synonym t1_next = "(int \<times> t1_state) + t1_state"

text \<open>Sending a block and going on with the loop, or leaving with the error of the transport.\<close>

definition send_on :: "cj_info \<Rightarrow> t1_exch \<Rightarrow> bytes \<Rightarrow> (t1_state \<Rightarrow> t1_next) \<Rightarrow> t1_next" where
  "send_on ci x b k = (case cjIoSendBlock ci b of (c, ci1) \<Rightarrow>
     if c \<noteq> CJ_EXIT_OK then Inl (c, ci1, x) else k (ci1, x))"

text \<open>The next part of the command as an I-block: the block is kept for a repetition.\<close>

definition next_part :: "cj_info \<Rightarrow> t1_exch \<Rightarrow> t1_exch option" where
  "next_part ci x =
     (let rest = length (x_cmd x) - x_ptr x;
          n = min rest (unat (t1_ifsc (ec_t1 ci)));
          chain = (if n = rest then False else x_more x) in
      map_option (\<lambda>b. x\<lparr>x_more := chain, x_block := b, x_ptr := x_ptr x + n\<rparr>)
        (cjT1IBlock (ec_t1 ci) chain (take n (drop (x_ptr x) (x_cmd x)))))"

definition flip_ns :: "cj_info \<Rightarrow> cj_info" where
  "flip_ns ci = ci\<lparr>ec_t1 := (ec_t1 ci)\<lparr>t1_ns := t1_ns (ec_t1 ci) XOR 1\<rparr>\<rparr>"

definition flip_nr :: "cj_info \<Rightarrow> cj_info" where
  "flip_nr ci = ci\<lparr>ec_t1 := (ec_t1 ci)\<lparr>t1_nr := t1_nr (ec_t1 ci) XOR 1\<rparr>\<rparr>"

text \<open>A block did not arrive, or arrived with a wrong length or checksum.\<close>

definition on_error :: "cj_info \<Rightarrow> t1_exch \<Rightarrow> r_type \<Rightarrow> t1_next" where
  "on_error ci x r =
     (let x = x\<lparr>x_err := x_err x + 1\<rparr> in
      if x_err x > 3 then Inl (CJ_EXIT_IO_ERROR, ci, x)
      else send_on ci x (cjT1RBlock (ec_t1 ci) r) Inr)"

text \<open>The repetition of an I-block: the sequence bit is brought up to date, the checksum is not.\<close>

definition repeat_block :: "t1_info \<Rightarrow> bytes \<Rightarrow> bytes" where
  "repeat_block t b =
     b[1 := ((b ! 1) AND NOT 0x40) OR (if t1_ns t \<noteq> 0 then 0x40 else 0)]"

definition on_R :: "cj_info \<Rightarrow> t1_exch \<Rightarrow> bytes \<Rightarrow> t1_next" where
  "on_R ci x r =
     (let x = x\<lparr>x_rerr := x_rerr x + 1\<rparr> in
      if x_rerr x > 3 then Inl (CJ_EXIT_IO_ERROR, ci, x)
      else if x_icc x then send_on ci x (cjT1RBlock (ec_t1 ci) R_OK) Inr
      else if (r ! 1) AND 0x0F \<noteq> 0
      then (let x = x\<lparr>x_block := repeat_block (ec_t1 ci) (x_block x)\<rparr>
            in send_on ci x (x_block x) Inr)
      else if \<not> x_more x then Inl (CJ_EXIT_PROTOCOL_ERROR, ci, x)
      else (let ci = flip_ns ci in
            case next_part ci x of None \<Rightarrow> Inl (CJ_EXIT_BAD_PARAM, ci, x)
            | Some x \<Rightarrow> send_on ci x (x_block x) (\<lambda>(ci, x). Inr (ci, x\<lparr>x_rerr := 0\<rparr>))))"

definition copy_rsp :: "t1_exch \<Rightarrow> bytes \<Rightarrow> t1_exch" where
  "copy_rsp x r =
     (let n = unat (r ! 2);
          x1 = (if x_rsplen x + n \<le> x_max x
                then x\<lparr>x_rsp := overlay (x_rsplen x) (take n (drop 3 r)) (x_rsp x)\<rparr> else x)
      in x1\<lparr>x_rsplen := x_rsplen x + n\<rparr>)"

definition on_I :: "cj_info \<Rightarrow> t1_exch \<Rightarrow> bytes \<Rightarrow> t1_next" where
  "on_I ci x r =
     (let (ci, x) = (if x_icc x then (ci, x) else (flip_ns ci, x\<lparr>x_nad := r ! 0\<rparr>));
          x = x\<lparr>x_icc := True\<rparr> in
      if cjT1GetN r \<noteq> t1_nr (ec_t1 ci)
      then send_on ci x (cjT1RBlock (ec_t1 ci) R_OTHER_ERROR) Inr
      else (let x = copy_rsp x r; ci = flip_nr ci in
            if drop_bit 5 (r ! 1) AND 1 \<noteq> 0
            then send_on ci x (cjT1RBlock (ec_t1 ci) R_OK) Inr
            else if x_rsplen x < 2 then Inl (CJ_EXIT_PROTOCOL_ERROR, ci, x)
            else if x_rsplen x > x_max x then Inl (CJ_EXIT_BAD_PARAM, ci, x)
            else Inl (CJ_EXIT_OK, ci, x)))"

definition on_WTX :: "cj_info \<Rightarrow> t1_exch \<Rightarrow> bytes \<Rightarrow> t1_next" where
  "on_WTX ci x r =
     (let none = r ! 2 = 0; n = (if none then 1 else unat (r ! 3));
          x = x\<lparr>x_wtx := x_wtx x + n\<rparr> in
      if x_wtx x > 200
      then Inl (CJ_EXIT_PROTOCOL_ERROR, if none \<and> \<not> x_icc x then flip_ns ci else ci, x)
      else send_on ci x (cjT1SBlock S_WTX S_RESPONSE (if none then 0 else r ! 3))
             (\<lambda>(ci, x). Inr (ci\<lparr>ec_t1 := (ec_t1 ci)\<lparr>t1_wtx := n\<rparr>\<rparr>, x)))"

definition on_ABORT :: "cj_info \<Rightarrow> t1_exch \<Rightarrow> t1_next" where
  "on_ABORT ci x =
     send_on ci x (cjT1SBlock S_ABORT S_RESPONSE 0) (\<lambda>(ci, x).
       case cjIoReceiveBlock ci 259 of (c, r, ci1) \<Rightarrow>
         if c \<noteq> CJ_EXIT_OK then Inl (c, ci1, x) else Inl (CJ_EXIT_UNDEF_ERROR, ci1, x))"

definition on_S :: "cj_info \<Rightarrow> t1_exch \<Rightarrow> bytes \<Rightarrow> t1_next" where
  "on_S ci x r =
     (let p = r ! 1 in
      if p = 0xC1 then send_on ci x (cjT1SBlock S_IFS S_RESPONSE (r ! 3))
        (\<lambda>(ci, x). Inr (ci\<lparr>ec_t1 := (ec_t1 ci)\<lparr>t1_ifsc := r ! 3\<rparr>\<rparr>, x))
      else if p = 0xC2 then on_ABORT ci x
      else if p = 0xC3 then on_WTX ci x r
      else if p = 0xC0 then send_on ci x (cjT1SBlock S_RESYNCH S_RESPONSE 0)
        (\<lambda>(ci, x). Inr (ci\<lparr>ec_t1 := (ec_t1 ci)\<lparr>t1_nr := 0, t1_ns := 0\<rparr>\<rparr>, x))
      else if p = 0xC4 \<or> p = 0xF4
      then (let ci = (if ec_key ci
                      then ci\<lparr>ec_keys := ec_keys ci @ [if p = 0xF4 then 1 else 2]\<rparr> else ci)
            in send_on ci x (cjT1SBlock S_KEY S_RESPONSE 0) Inr)
      else if p = 0xE6 \<or> p = 0xF6 then Inr (ci, x)
      else if p = 0xE5 \<or> p = 0xF5 then send_on ci x (cjT1SBlock S_CARD S_RESPONSE 0) Inr
      else Inr (ci, x))"

definition t1_step :: "t1_state \<Rightarrow> t1_next" where
  "t1_step s =
     (let (ci, x) = s in
      case cjIoReceiveBlock ci 259 of (c, r, ci1) \<Rightarrow>
        if c \<noteq> CJ_EXIT_OK
        then (if c = CJ_EXIT_BAD_PARAM then Inl (c, ci1, x) else on_error ci1 x R_OTHER_ERROR)
        else if \<not> cjT1CheckRc r then on_error ci1 x R_EDC_ERROR
        else (let x = x\<lparr>x_err := 0\<rparr> in
              if is_R r then on_R ci1 x r
              else (let x = x\<lparr>x_rerr := 0\<rparr> in
                    if is_I r then on_I ci1 x r else on_S ci1 x r)))"


subsection \<open>Every round uses up the script or the allowance of errors\<close>

definition t1_measure :: "t1_state \<Rightarrow> nat" where
  "t1_measure s = 5 * ev_left (fst s) + (4 - x_err (snd s))"

lemma ev_left_t1 [simp]: "ev_left (ci\<lparr>ec_t1 := t\<rparr>) = ev_left ci" "ev_left (ci\<lparr>ec_keys := k\<rparr>) = ev_left ci"
  by (simp_all add: ev_left_def)

text \<open>What a handler leaves behind: no events come back, the error count is the one it was given,
  and at most \<open>w\<close> blocks were awaited.\<close>

fun keeps :: "nat \<Rightarrow> cj_info \<Rightarrow> nat \<Rightarrow> t1_next \<Rightarrow> bool" where
  "keeps w ci e (Inr (ci', x')) =
     (ev_left ci' \<le> ev_left ci \<and> ec_waits ci' = ec_waits ci \<and> x_err x' = e)"
| "keeps w ci e (Inl (c, ci', x')) =
     (ev_left ci' \<le> ev_left ci \<and> length (ec_waits ci') \<le> length (ec_waits ci) + w)"

lemma keeps_send_on:
  assumes "ev_left ci \<le> ev_left ci0" "ec_waits ci = ec_waits ci0"
    and "\<And>ci1. ev_left ci1 \<le> ev_left ci0 \<Longrightarrow> ec_waits ci1 = ec_waits ci0 \<Longrightarrow> keeps w ci0 e (k (ci1, x))"
  shows "keeps w ci0 e (send_on ci x b k)"
  using assms by (auto simp: send_on_def dest!: send_left split: prod.splits)

lemma flip_left [simp]:
  "ev_left (flip_ns ci) = ev_left ci" "ec_waits (flip_ns ci) = ec_waits ci"
  "ev_left (flip_nr ci) = ev_left ci" "ec_waits (flip_nr ci) = ec_waits ci"
  by (simp_all add: flip_ns_def flip_nr_def)

lemma next_part_keeps [simp]: "next_part ci x = Some x' \<Longrightarrow> x_err x' = x_err x"
  by (auto simp: next_part_def Let_def)

lemma copy_rsp_err [simp]: "x_err (copy_rsp x r) = x_err x"
  by (simp add: copy_rsp_def Let_def)

lemma keeps_on_error: "x_err x \<le> 2 \<Longrightarrow> keeps 0 ci (Suc (x_err x)) (on_error ci x r)"
  by (auto simp: on_error_def Let_def intro!: keeps_send_on)

lemma keeps_on_R: "keeps 0 ci (x_err x) (on_R ci x r)"
  by (auto simp: on_R_def Let_def intro!: keeps_send_on split: option.splits)

lemma keeps_on_I: "keeps 0 ci (x_err x) (on_I ci x r)"
  by (auto simp: on_I_def Let_def intro!: keeps_send_on split: prod.splits if_splits)

lemma keeps_on_ABORT: "keeps 1 ci (x_err x) (on_ABORT ci x)"
  unfolding on_ABORT_def
  by (rule keeps_send_on) (fastforce dest!: receive_left split: prod.splits)+

lemma keeps_more: "keeps 0 ci e n \<Longrightarrow> keeps w ci e n"
  by (cases n) auto

lemma keeps_on_S: "keeps 1 ci (x_err x) (on_S ci x r)"
  by (auto simp: on_S_def on_WTX_def Let_def keeps_on_ABORT[simplified] intro!: keeps_send_on)

lemma on_error_end: "2 < x_err x \<Longrightarrow> on_error ci x r = Inl (CJ_EXIT_IO_ERROR, ci, x\<lparr>x_err := x_err x + 1\<rparr>)"
  by (simp add: on_error_def Let_def)

lemma t1_step_cases:
  assumes "cjIoReceiveBlock ci 259 = (c, r, ci1)"
  obtains (bad) "c = CJ_EXIT_BAD_PARAM" "t1_step (ci, x) = Inl (c, ci1, x)"
  | (err) e where "t1_step (ci, x) = on_error ci1 x e"
  | (good) "c = 0" "keeps 1 ci1 0 (t1_step (ci, x))"
  using assms keeps_on_R[of ci1 "x\<lparr>x_err := 0\<rparr>" r, THEN keeps_more]
    keeps_on_I[of ci1 "x\<lparr>x_err := 0, x_rerr := 0\<rparr>" r, THEN keeps_more]
    keeps_on_S[of ci1 "x\<lparr>x_err := 0, x_rerr := 0\<rparr>" r]
  by (fastforce simp: t1_step_def Let_def split: if_splits)

lemma t1_step_Inr:
  assumes "t1_step s = Inr s'"
  shows "t1_measure s' < t1_measure s" "length (ec_waits (fst s')) = Suc (length (ec_waits (fst s)))"
proof -
  obtain ci x ci' x' where s: "s = (ci, x)" "s' = (ci', x')" by fastforce
  obtain c r ci1 where r: "cjIoReceiveBlock ci 259 = (c, r, ci1)" by (metis prod_cases3)
  note l = receive_left[OF r]
  have "t1_measure s' < t1_measure s \<and> length (ec_waits ci') = Suc (length (ec_waits ci))"
  proof (rule t1_step_cases[OF r, of x])
    fix e assume "t1_step (ci, x) = on_error ci1 x e"
    with assms s have o: "on_error ci1 x e = Inr (ci', x')" by simp
    then have "x_err x \<le> 2" by (cases "2 < x_err x") (simp_all add: on_error_end)
    with keeps_on_error[of x ci1 e] o l show ?thesis by (auto simp: s t1_measure_def)
  qed (use assms s l in \<open>auto simp: t1_measure_def\<close>)
  then show "t1_measure s' < t1_measure s"
    "length (ec_waits (fst s')) = Suc (length (ec_waits (fst s)))" by (simp_all add: s)
qed

lemma t1_step_Inl:
  assumes "t1_step s = Inl (c, s')"
  shows "length (ec_waits (fst s')) \<le> length (ec_waits (fst s)) + 2"
proof -
  obtain ci x ci' x' where s: "s = (ci, x)" "s' = (ci', x')" by fastforce
  obtain d r ci1 where r: "cjIoReceiveBlock ci 259 = (d, r, ci1)" by (metis prod_cases3)
  note l = receive_left[OF r]
  show ?thesis
  proof (rule t1_step_cases[OF r, of x])
    fix e assume "t1_step (ci, x) = on_error ci1 x e"
    with assms s have o: "on_error ci1 x e = Inl (c, ci', x')" by simp
    with keeps_on_error[of x ci1 e] on_error_end[of x ci1 e] l show ?thesis
      by (cases "2 < x_err x") (auto simp: s)
  qed (use assms s l in auto)
qed

text \<open>The loop \<^verbatim>\<open>while (TRUE)\<close>.\<close>

function t1_loop :: "t1_state \<Rightarrow> int \<times> t1_state" where
  "t1_loop s = (case t1_step s of Inl r \<Rightarrow> r | Inr s' \<Rightarrow> t1_loop s')"
  by auto
termination
  by (relation "measure t1_measure") (auto dest: t1_step_Inr)

declare t1_loop.simps [simp del]

text \<open>The whole function: \<open>apdu\<close> is given by its command, its address byte and the buffer for the
  response.\<close>

definition cjT1SendCmd :: "cj_info \<Rightarrow> byte \<Rightarrow> bytes \<Rightarrow> bytes \<Rightarrow> int \<times> t1_state" where
  "cjT1SendCmd ci nad cmd rsp =
     (let ci = ci\<lparr>ec_t1 := (ec_t1 ci)\<lparr>t1_nad := nad\<rparr>\<rparr>;
          x = \<lparr>x_nad = nad, x_cmd = cmd, x_rsp = rsp, x_max = length rsp, x_ptr = 0, x_block = [],
               x_rsplen = 0, x_more = True, x_icc = False, x_wtx = 0, x_err = 0, x_rerr = 0\<rparr> in
      case next_part ci x of None \<Rightarrow> (CJ_EXIT_BAD_PARAM, ci, x)
      | Some x \<Rightarrow> (case cjIoSendBlock ci (x_block x) of (c, ci1) \<Rightarrow>
          if c \<noteq> CJ_EXIT_OK then (c, ci1, x) else t1_loop (ci1, x)))"

lemma t1_loop_attempts:
  "t1_loop s = (c, s') \<Longrightarrow>
     length (ec_waits (fst s')) \<le> length (ec_waits (fst s)) + t1_measure s + 2"
proof (induction s rule: t1_loop.induct)
  case (1 s)
  show ?case
  proof (cases "t1_step s")
    case (Inl a)
    with 1(2) have "t1_step s = Inl (c, s')" by (simp add: t1_loop.simps[of s])
    from t1_step_Inl[OF this] show ?thesis by simp
  next
    case (Inr b)
    with 1(2) have "t1_loop b = (c, s')" by (simp add: t1_loop.simps[of s])
    from 1(1)[OF Inr this] t1_step_Inr[OF Inr] show ?thesis by simp
  qed
qed

end
