(* ===== verification/CJ_T1Link.thy ===== *)
theory CJ_T1Link
  imports CJ_T1
begin

unbundle bit_operations_syntax

text \<open>
  The T=1 exchange of \<open>CJ_T1\<close> against a reader: what a chain of blocks is, what may disturb it, and
  the delivery of a command and its response, proved once for every transport that satisfies the
  locale \<open>block_link\<close> of \<open>CJ_EcomIo\<close>; the serial device and the USB library are its two instances.
\<close>

section \<open>Delivery over a disturbed link\<close>

text \<open>A sequence number after a number of blocks.\<close>

fun flips :: "nat \<Rightarrow> byte \<Rightarrow> byte" where
  "flips 0 n = n"
| "flips (Suc k) n = flips k (n XOR 1)"

lemma overlay_append:
  "off + length a + length b \<le> length buf \<Longrightarrow>
     overlay (off + length a) b (overlay off a buf) = overlay off (a @ b) buf"
  by (simp add: overlay_def add.commute add.left_commute)

text \<open>A message in parts as a chain of I-blocks, numbered alternately.\<close>

fun t1_chain :: "byte \<Rightarrow> byte \<Rightarrow> bytes list \<Rightarrow> bytes list" where
  "t1_chain nad n [] = []"
| "t1_chain nad n (p # ps) =
     cjT1AppendRc ([nad, i_pcb n (ps \<noteq> []), word_of_nat (length p)] @ p) # t1_chain nad (n XOR 1) ps"

fun parts :: "nat \<Rightarrow> bytes \<Rightarrow> bytes list" where
  "parts k d = (if k = 0 \<or> length d \<le> k then [d] else take k d # parts k (drop k d))"

declare parts.simps [simp del]

text \<open>Blocks that interrupt an exchange without taking part in it: waiting time, key and card messages,
  and everything that arrives damaged.\<close>

definition is_notice :: "bytes \<Rightarrow> bool" where
  "is_notice b = (b ! 1 \<in> {0xC3, 0xC4, 0xF4, 0xE5, 0xF5})"

definition payload :: "bytes \<Rightarrow> bool" where
  "payload b = (cjT1CheckRc b \<and> \<not> is_notice b)"

definition wtx_of :: "bytes \<Rightarrow> nat" where
  "wtx_of b = (if cjT1CheckRc b \<and> b ! 1 = 0xC3 then if b ! 2 = 0 then 1 else unat (b ! 3) else 0)"

definition wtx_total :: "bytes list \<Rightarrow> nat" where
  "wtx_total bs = sum_list (map wtx_of bs)"

text \<open>Never more than three damaged blocks in a row.\<close>

fun err_ok :: "nat \<Rightarrow> bytes list \<Rightarrow> bool" where
  "err_ok e [] = True"
| "err_ok e (b # bs) = (if cjT1CheckRc b then err_ok 0 bs else e < 3 \<and> err_ok (Suc e) bs)"

definition is_ack :: "bytes \<Rightarrow> bool" where
  "is_ack b = (is_R b \<and> (b ! 1) AND 0x0F = 0)"

subsection \<open>Blocks built and blocks recognised\<close>

lemma i_pcb_cases: "i_pcb n m \<in> {0, 0x20, 0x40, 0x60}"
  by (simp add: i_pcb_def)

lemma cjT1CheckRc_append:
  assumes "length p \<le> 255"
  shows "cjT1CheckRc (cjT1AppendRc ([a, b, word_of_nat (length p)] @ p))"
proof -
  have "unat (word_of_nat (length p) :: byte) = length p"
    using assms by (simp add: unat_of_nat take_bit_nat_eq_self)
  then show ?thesis by (simp add: cjT1CheckRc_def cjT1AppendRc_def nth_append)
qed

lemma iblock_simps:
  assumes "b = cjT1AppendRc ([nad, i_pcb n m, word_of_nat (length p)] @ p)" "length p \<le> 255"
  shows "cjT1CheckRc b" "is_I b" "\<not> is_R b" "cjT1GetN b = (if n \<noteq> 0 then 1 else 0)"
    "(drop_bit 5 (b ! Suc 0) AND 1 \<noteq> 0) = m" "unat (b ! 2) = length p" "take (length p) (drop 3 b) = p"
    "b ! 0 = nad" "payload b" "length b \<le> 259" "wtx_of b = 0"
proof -
  show c: "cjT1CheckRc b" unfolding assms(1) using assms(2) by (rule cjT1CheckRc_append)
  have b1: "b ! Suc 0 = i_pcb n m" "b ! 2 = word_of_nat (length p)" "b ! 0 = nad"
    by (simp_all add: assms(1) cjT1AppendRc_def)
  then show "b ! 0 = nad" by simp
  show I: "is_I b" "\<not> is_R b" by (auto simp: is_I_def is_R_def b1 i_pcb_def)
  show "cjT1GetN b = (if n \<noteq> 0 then 1 else 0)" using I by (simp add: cjT1GetN_def b1 i_pcb_def)
  show "(drop_bit 5 (b ! Suc 0) AND 1 \<noteq> 0) = m" by (simp add: b1 i_pcb_def)
  show "unat (b ! 2) = length p" using assms(2) by (simp add: b1 unat_of_nat take_bit_nat_eq_self)
  show "take (length p) (drop 3 b) = p" by (simp add: assms(1) cjT1AppendRc_def numeral_3_eq_3)
  show "payload b" using c by (simp add: payload_def is_notice_def b1 i_pcb_def)
  show "length b \<le> 259" using assms(2) by (simp add: assms(1) cjT1AppendRc_def)
  show "wtx_of b = 0" by (simp add: wtx_of_def b1 i_pcb_def)
qed

lemma short_blocks [simp]:
  "length (cjT1SBlock t d p) \<le> 259" "length (cjT1RBlock i r) \<le> 259"
  by (simp_all add: cjT1SBlock_def cjT1RBlock_def cjT1AppendRc_def)

lemma not_I_blocks [simp]:
  "\<not> is_I (cjT1SBlock t d p)" "\<not> is_I (cjT1RBlock i r)"
  by (cases t; simp add: is_I_def cjT1SBlock_def cjT1AppendRc_def)
    (simp add: is_I_def cjT1RBlock_def cjT1AppendRc_def split: r_type.splits)

lemma is_ack_simps: "is_ack b \<Longrightarrow> is_R b \<and> wtx_of b = 0"
  by (auto simp: is_ack_def is_R_def wtx_of_def)


subsection \<open>One round per block\<close>

text \<open>The part of the protocol state that disturbances do not touch.\<close>

definition same_t1 :: "t1_info \<Rightarrow> t1_info \<Rightarrow> bool" where
  "same_t1 t t' = (t'\<lparr>t1_wtx := 0\<rparr> = t\<lparr>t1_wtx := 0\<rparr>)"

lemma same_t1_simps:
  "same_t1 t t' \<Longrightarrow> t1_nad t' = t1_nad t \<and> t1_ns t' = t1_ns t \<and> t1_nr t' = t1_nr t \<and> t1_ifsc t' = t1_ifsc t"
  by (cases t; cases t') (simp add: same_t1_def)

lemma same_t1_wtx [simp]: "same_t1 t (t\<lparr>t1_wtx := n\<rparr>)" "same_t1 t t"
  by (simp_all add: same_t1_def)

lemma same_t1_trans: "same_t1 a b \<Longrightarrow> same_t1 b c \<Longrightarrow> same_t1 a c"
  by (simp add: same_t1_def)

lemma parts_last: "length d \<le> k \<Longrightarrow> parts k d = [d]"
  by (simp add: parts.simps)

lemma parts_more: "0 < k \<Longrightarrow> k < length d \<Longrightarrow> parts k d = take k d # parts k (drop k d)"
  by (subst parts.simps) simp

lemma parts_ne [simp]: "parts k d \<noteq> []"
  by (subst parts.simps) simp

lemma concat_parts [simp]: "concat (parts k d) = d"
proof (induction k d rule: parts.induct)
  case (1 k d)
  show ?case
  proof (cases "k = 0 \<or> length d \<le> k")
    case False
    with 1 have "concat (parts k d) = take k d @ drop k d" by (subst parts.simps) simp
    then show ?thesis by simp
  qed (simp add: parts.simps)
qed

lemma parts_hd: "parts k d = p # ps \<Longrightarrow> 0 < k \<Longrightarrow> length p \<le> k"
  by (cases "length d \<le> k") (auto simp: parts_last parts_more)

lemma cjT1IBlock_fits:
  assumes "length d \<le> unat (t1_ifsc t)"
  obtains b where "cjT1IBlock t m d = Some b" "length b \<le> 259"
  using assms byte_bound[of "t1_ifsc t"] by (simp add: cjT1IBlock_def cjT1AppendRc_def)

lemma next_part_total:
  obtains y where "next_part ci x = Some y" "length (x_block y) \<le> 259" "x_err y = x_err x"
proof -
  let ?n = "min (length (x_cmd x) - x_ptr x) (unat (t1_ifsc (ec_t1 ci)))"
  have "length (take ?n (drop (x_ptr x) (x_cmd x))) \<le> unat (t1_ifsc (ec_t1 ci))" by simp
  from cjT1IBlock_fits[OF this, of "if ?n = length (x_cmd x) - x_ptr x then False else x_more x"]
  obtain b where "cjT1IBlock (ec_t1 ci) (if ?n = length (x_cmd x) - x_ptr x then False else x_more x)
      (take ?n (drop (x_ptr x) (x_cmd x))) = Some b" "length b \<le> 259" by blast
  then show ?thesis using that unfolding next_part_def Let_def by simp
qed

lemma next_part_parts:
  assumes "k = t1_ifsc (ec_t1 ci)" "k \<noteq> 0" "x_more x" "x_ptr x \<le> length (x_cmd x)"
    "parts (unat k) (drop (x_ptr x) (x_cmd x)) = p # ps"
  shows "\<exists>ptr. next_part ci x = Some (x\<lparr>x_more := ps \<noteq> [],
      x_block := cjT1AppendRc ([t1_nad (ec_t1 ci), i_pcb (t1_ns (ec_t1 ci)) (ps \<noteq> []), word_of_nat (length p)] @ p),
      x_ptr := ptr\<rparr>) \<and> ptr \<le> length (x_cmd x)
    \<and> (ps \<noteq> [] \<longrightarrow> ps = parts (unat k) (drop ptr (x_cmd x))) \<and> length p \<le> 255"
proof -
  have k: "0 < unat k" "unat k \<le> 255" using assms(2) byte_bound[of k] by (simp_all add: unat_gt_0)
  show ?thesis
  proof (cases "length (drop (x_ptr x) (x_cmd x)) \<le> unat k")
    case True
    then have "p = drop (x_ptr x) (x_cmd x)" "ps = []" using assms(5) by (simp_all add: parts_last)
    moreover have "cjT1IBlock (ec_t1 ci) False (drop (x_ptr x) (x_cmd x))
        = Some (cjT1AppendRc ([t1_nad (ec_t1 ci), i_pcb (t1_ns (ec_t1 ci)) False,
            word_of_nat (length (drop (x_ptr x) (x_cmd x)))] @ drop (x_ptr x) (x_cmd x)))"
      using True by (simp add: cjT1IBlock_def assms(1))
    ultimately show ?thesis using True k assms(4)
      by (intro exI[of _ "length (x_cmd x)"]) (simp add: next_part_def assms(1)[symmetric] min_absorb1)
  next
    case False
    let ?p = "take (unat k) (drop (x_ptr x) (x_cmd x))"
    have p: "p = ?p" "ps = parts (unat k) (drop (x_ptr x + unat k) (x_cmd x))"
      using False assms(5) k by (simp_all add: parts_more add.commute)
    then have ps: "ps \<noteq> []" by simp
    have "cjT1IBlock (ec_t1 ci) True ?p
        = Some (cjT1AppendRc ([t1_nad (ec_t1 ci), i_pcb (t1_ns (ec_t1 ci)) True, word_of_nat (length ?p)] @ ?p))"
      by (simp add: cjT1IBlock_def assms(1))
    moreover have "min (length (x_cmd x) - x_ptr x) (unat k) = unat k" using False by simp
    moreover have "length ?p = unat k" using False by simp
    ultimately show ?thesis using False k ps p assms(3)
      by (intro exI[of _ "x_ptr x + unat k"]) (simp add: next_part_def assms(1)[symmetric] Let_def)
  qed
qed

context block_link
begin

lemma send_on_link:
  assumes "idle ci bs" "length b \<le> 259"
  shows "\<exists>ci'. (\<forall>x k. send_on ci x b k = k (ci', x)) \<and> ready ci' bs \<and> ec_t1 ci' = ec_t1 ci
    \<and> out ci' = out ci @ ec_frame b"
  using link_send[OF assms] by (auto simp: send_on_def)

text \<open>A damaged block or a notice is answered, and the exchange goes on where it was.\<close>

lemma notice_answered:
  assumes "idle ci bs" "cjT1CheckRc b" "is_notice b" "x_wtx x + wtx_of b \<le> 200"
  shows "\<exists>ci' s. on_S ci x b = Inr (ci', x\<lparr>x_wtx := x_wtx x + wtx_of b\<rparr>) \<and> ready ci' bs
    \<and> same_t1 (ec_t1 ci) (ec_t1 ci') \<and> out ci' = out ci @ ec_frame s \<and> \<not> is_I s"
proof -
  consider (wtx) "b ! 1 = 0xC3" | (key) "b ! 1 = 0xC4 \<or> b ! 1 = 0xF4" | (card) "b ! 1 = 0xE5 \<or> b ! 1 = 0xF5"
    using assms(3) by (auto simp: is_notice_def)
  then show ?thesis
  proof cases
    case wtx
    let ?s = "cjT1SBlock S_WTX S_RESPONSE (if b ! 2 = 0 then 0 else b ! 3)"
    from send_on_link[OF assms(1), of ?s] obtain ci2 where
      "\<forall>x k. send_on ci x ?s k = k (ci2, x)" "ready ci2 bs" "ec_t1 ci2 = ec_t1 ci"
      "out ci2 = out ci @ ec_frame ?s" by auto
    then show ?thesis using wtx assms(2, 4)
      by (intro exI[of _ "ci2\<lparr>ec_t1 := (ec_t1 ci2)\<lparr>t1_wtx := wtx_of b\<rparr>\<rparr>"] exI[of _ ?s])
        (auto simp: on_S_def on_WTX_def Let_def wtx_of_def link_ready link_out)
  next
    case key
    let ?c = "if ec_key ci then ci\<lparr>ec_keys := ec_keys ci @ [if b ! 1 = 0xF4 then 1 else 2]\<rparr> else ci"
    let ?s = "cjT1SBlock S_KEY S_RESPONSE 0"
    have "idle ?c bs" "ec_t1 ?c = ec_t1 ci" "out ?c = out ci" using assms(1) by (simp_all add: link_idle link_out)
    with send_on_link[of ?c bs ?s] obtain ci2 where
      "\<forall>x k. send_on ?c x ?s k = k (ci2, x)" "ready ci2 bs" "ec_t1 ci2 = ec_t1 ci"
      "out ci2 = out ci @ ec_frame ?s" by auto
    then show ?thesis using key
      by (intro exI[of _ ci2] exI[of _ ?s]) (auto simp: on_S_def Let_def wtx_of_def)
  next
    case card
    let ?s = "cjT1SBlock S_CARD S_RESPONSE 0"
    from send_on_link[OF assms(1), of ?s] obtain ci2 where
      "\<forall>x k. send_on ci x ?s k = k (ci2, x)" "ready ci2 bs" "ec_t1 ci2 = ec_t1 ci"
      "out ci2 = out ci @ ec_frame ?s" by auto
    then show ?thesis using card
      by (intro exI[of _ ci2] exI[of _ ?s]) (auto simp: on_S_def Let_def wtx_of_def)
  qed
qed

lemma disturbed_round:
  assumes "ready ci (b # bs)" "\<not> payload b" "cjT1CheckRc b \<or> x_err x < 3"
    "x_wtx x + wtx_of b \<le> 200" "x_rerr x = 0"
  shows "\<exists>ci' s. t1_step (ci, x) = Inr (ci', x\<lparr>x_err := if cjT1CheckRc b then 0 else Suc (x_err x),
      x_wtx := x_wtx x + wtx_of b\<rparr>) \<and> ready ci' bs
    \<and> same_t1 (ec_t1 ci) (ec_t1 ci') \<and> out ci' = out ci @ ec_frame s \<and> \<not> is_I s"
proof -
  obtain ci1 where r: "cjIoReceiveBlock ci 259 = (CJ_EXIT_OK, b, ci1)" "idle ci1 bs"
    "ec_t1 ci1 = (ec_t1 ci)\<lparr>t1_wtx := 0\<rparr>" "out ci1 = out ci"
    using link_receive[OF assms(1)] by blast
  have t: "same_t1 (ec_t1 ci) (ec_t1 ci1)" by (simp add: r(3))
  show ?thesis
  proof (cases "cjT1CheckRc b")
    case False
    let ?s = "cjT1RBlock (ec_t1 ci1) R_EDC_ERROR"
    from send_on_link[OF r(2), of ?s] obtain ci2 where
      s: "\<forall>x k. send_on ci1 x ?s k = k (ci2, x)" "ready ci2 bs" "ec_t1 ci2 = ec_t1 ci1"
      "out ci2 = out ci1 @ ec_frame ?s" by auto
    then show ?thesis using False assms(3) t
      by (intro exI[of _ ci2] exI[of _ ?s])
        (auto simp: t1_step_def r(1, 4) on_error_def Let_def wtx_of_def)
  next
    case True
    then have n: "is_notice b" using assms(2) by (simp add: payload_def)
    then have k: "\<not> is_R b" "\<not> is_I b" by (auto simp: is_R_def is_I_def is_notice_def)
    from notice_answered[OF r(2) True n, of "x\<lparr>x_err := 0, x_rerr := 0\<rparr>"] assms(4) obtain ci2 s where
      s: "on_S ci1 (x\<lparr>x_err := 0, x_rerr := 0\<rparr>) b
          = Inr (ci2, x\<lparr>x_err := 0, x_rerr := 0, x_wtx := x_wtx x + wtx_of b\<rparr>)" "ready ci2 bs"
      "same_t1 (ec_t1 ci1) (ec_t1 ci2)" "out ci2 = out ci1 @ ec_frame s" "\<not> is_I s" by auto
    have "x\<lparr>x_err := 0, x_rerr := 0, x_wtx := x_wtx x + wtx_of b\<rparr>
        = x\<lparr>x_err := 0, x_wtx := x_wtx x + wtx_of b\<rparr>" using assms(5) by (cases x) simp
    then show ?thesis using True k s r same_t1_trans[OF t s(3)]
      by (intro exI[of _ ci2] exI[of _ s]) (auto simp: t1_step_def Let_def)
  qed
qed


text \<open>The last part of a chain ends the exchange, the others are acknowledged.\<close>

lemma i_round:
  assumes "ready ci (b # bs)"
    "b = cjT1AppendRc ([nad, i_pcb (t1_nr (ec_t1 ci)) m, word_of_nat (length p)] @ p)"
    "length p \<le> 255" "t1_nr (ec_t1 ci) \<in> {0, 1}" "x_rsplen x + length p \<le> x_max x"
    "\<not> m \<longrightarrow> 2 \<le> x_rsplen x + length p"
  shows "\<exists>ci' x' s. t1_step (ci, x) = (if m then Inr (ci', x') else Inl (CJ_EXIT_OK, ci', x'))
    \<and> x' = x\<lparr>x_err := 0, x_rerr := 0, x_nad := if x_icc x then x_nad x else nad, x_icc := True,
             x_rsp := overlay (x_rsplen x) p (x_rsp x), x_rsplen := x_rsplen x + length p\<rparr>
    \<and> (if m then ready ci' bs \<and> out ci' = out ci @ ec_frame s \<and> \<not> is_I s else idle ci' bs \<and> out ci' = out ci)
    \<and> same_t1 ((ec_t1 ci)\<lparr>t1_nr := t1_nr (ec_t1 ci) XOR 1,
                 t1_ns := if x_icc x then t1_ns (ec_t1 ci) else t1_ns (ec_t1 ci) XOR 1\<rparr>) (ec_t1 ci')"
proof -
  obtain ci1 where r: "cjIoReceiveBlock ci 259 = (CJ_EXIT_OK, b, ci1)" "idle ci1 bs"
    "ec_t1 ci1 = (ec_t1 ci)\<lparr>t1_wtx := 0\<rparr>" "out ci1 = out ci"
    using link_receive[OF assms(1)] by blast
  note b = iblock_simps[OF assms(2, 3)]
  define y where "y = x\<lparr>x_err := 0, x_rerr := 0, x_nad := if x_icc x then x_nad x else nad, x_icc := True\<rparr>"
  define c where "c = (if x_icc x then ci1 else flip_ns ci1)"
  have c: "idle (flip_nr c) bs" "out (flip_nr c) = out ci" "t1_nr (ec_t1 c) = t1_nr (ec_t1 ci)"
    "same_t1 ((ec_t1 ci)\<lparr>t1_nr := t1_nr (ec_t1 ci) XOR 1,
                 t1_ns := if x_icc x then t1_ns (ec_t1 ci) else t1_ns (ec_t1 ci) XOR 1\<rparr>) (ec_t1 (flip_nr c))"
    using r by (auto simp: c_def flip_nr_def flip_ns_def link_idle link_out same_t1_def)
  have cp: "copy_rsp y b = y\<lparr>x_rsp := overlay (x_rsplen x) p (x_rsp x), x_rsplen := x_rsplen x + length p\<rparr>"
    using assms(5) by (simp add: copy_rsp_def b y_def)
  have l: "x_rsplen (copy_rsp y b) = x_rsplen x + length p" "x_max (copy_rsp y b) = x_max x"
    by (simp_all add: cp) (simp add: y_def)
  let ?s = "cjT1RBlock (ec_t1 (flip_nr c)) R_OK"
  from send_on_link[OF c(1), of ?s] obtain ci2 where
    s: "\<forall>x k. send_on (flip_nr c) x ?s k = k (ci2, x)" "ready ci2 bs" "ec_t1 ci2 = ec_t1 (flip_nr c)"
    "out ci2 = out ci @ ec_frame ?s" by (auto simp: c)
  have "t1_step (ci, x) = on_I ci1 (x\<lparr>x_err := 0, x_rerr := 0\<rparr>) b"
    by (simp add: t1_step_def r(1) b Let_def)
  also have "\<dots> = (if m then Inr (ci2, copy_rsp y b) else Inl (CJ_EXIT_OK, flip_nr c, copy_rsp y b))"
  proof -
    have "(if x_icc (x\<lparr>x_err := 0, x_rerr := 0\<rparr>) then (ci1, x\<lparr>x_err := 0, x_rerr := 0\<rparr>)
           else (flip_ns ci1, x\<lparr>x_err := 0, x_rerr := 0, x_nad := b ! 0\<rparr>))
         = (c, x\<lparr>x_err := 0, x_rerr := 0, x_nad := if x_icc x then x_nad x else nad\<rparr>)"
      by (cases x) (simp add: c_def b)
    then have "on_I ci1 (x\<lparr>x_err := 0, x_rerr := 0\<rparr>) b =
       (if cjT1GetN b \<noteq> t1_nr (ec_t1 c) then send_on c y (cjT1RBlock (ec_t1 c) R_OTHER_ERROR) Inr
        else (let x = copy_rsp y b; ci = flip_nr c in
            if drop_bit 5 (b ! 1) AND 1 \<noteq> 0
            then send_on ci x (cjT1RBlock (ec_t1 ci) R_OK) Inr
            else if x_rsplen x < 2 then Inl (CJ_EXIT_PROTOCOL_ERROR, ci, x)
            else if x_rsplen x > x_max x then Inl (CJ_EXIT_BAD_PARAM, ci, x)
            else Inl (CJ_EXIT_OK, ci, x)))"
      unfolding on_I_def by (simp add: y_def Let_def)
    also have "\<dots> = (if m then Inr (ci2, copy_rsp y b) else Inl (CJ_EXIT_OK, flip_nr c, copy_rsp y b))"
      using assms(4, 5, 6) b(4, 5) s(1) l by (auto simp: Let_def c(3))
    finally show ?thesis .
  qed
  finally show ?thesis using s c unfolding cp
    by (intro exI[of _ "if m then ci2 else flip_nr c"] 
        exI[of _ "y\<lparr>x_rsp := overlay (x_rsplen x) p (x_rsp x), x_rsplen := x_rsplen x + length p\<rparr>"]
        exI[of _ ?s])
      (auto simp: y_def)
qed


text \<open>An acknowledgement fetches the next part of the command.\<close>

lemma ack_round:
  assumes "ready ci (b # bs)" "cjT1CheckRc b" "is_ack b" "\<not> x_icc x" "x_more x" "x_rerr x = 0"
    "x_ptr x \<le> length (x_cmd x)" "t1_ifsc (ec_t1 ci) \<noteq> 0"
    "parts (unat (t1_ifsc (ec_t1 ci))) (drop (x_ptr x) (x_cmd x)) = p # ps"
  shows "\<exists>ci' ptr. t1_step (ci, x) = Inr (ci', x\<lparr>x_err := 0, x_more := ps \<noteq> [],
      x_block := cjT1AppendRc ([t1_nad (ec_t1 ci), i_pcb (t1_ns (ec_t1 ci) XOR 1) (ps \<noteq> []),
         word_of_nat (length p)] @ p), x_ptr := ptr\<rparr>)
    \<and> ptr \<le> length (x_cmd x) \<and> (ps \<noteq> [] \<longrightarrow> ps = parts (unat (t1_ifsc (ec_t1 ci))) (drop ptr (x_cmd x)))
    \<and> ready ci' bs \<and> same_t1 ((ec_t1 ci)\<lparr>t1_ns := t1_ns (ec_t1 ci) XOR 1\<rparr>) (ec_t1 ci')
    \<and> out ci' = out ci @ ec_frame (cjT1AppendRc ([t1_nad (ec_t1 ci),
         i_pcb (t1_ns (ec_t1 ci) XOR 1) (ps \<noteq> []), word_of_nat (length p)] @ p))"
proof -
  obtain ci1 where r: "cjIoReceiveBlock ci 259 = (CJ_EXIT_OK, b, ci1)" "idle ci1 bs"
    "ec_t1 ci1 = (ec_t1 ci)\<lparr>t1_wtx := 0\<rparr>" "out ci1 = out ci"
    using link_receive[OF assms(1)] by blast
  define c where "c = flip_ns ci1"
  have c: "idle c bs" "out c = out ci" "t1_nad (ec_t1 c) = t1_nad (ec_t1 ci)"
    "t1_ns (ec_t1 c) = t1_ns (ec_t1 ci) XOR 1" "t1_ifsc (ec_t1 c) = t1_ifsc (ec_t1 ci)"
    "same_t1 ((ec_t1 ci)\<lparr>t1_ns := t1_ns (ec_t1 ci) XOR 1\<rparr>) (ec_t1 c)"
    using r by (auto simp: c_def flip_ns_def link_idle link_out same_t1_def)
  define blk where "blk = cjT1AppendRc ([t1_nad (ec_t1 ci), i_pcb (t1_ns (ec_t1 ci) XOR 1) (ps \<noteq> []),
         word_of_nat (length p)] @ p)"
  let ?x = "x\<lparr>x_err := 0, x_rerr := 1\<rparr>"
  from next_part_parts[of "t1_ifsc (ec_t1 c)" c ?x p ps] assms c(5) obtain ptr where
    n: "next_part c ?x = Some (?x\<lparr>x_more := ps \<noteq> [], x_block := blk, x_ptr := ptr\<rparr>)"
    "ptr \<le> length (x_cmd x)" "ps \<noteq> [] \<longrightarrow> ps = parts (unat (t1_ifsc (ec_t1 ci))) (drop ptr (x_cmd x))"
    "length p \<le> 255" by (auto simp: blk_def c)
  have "length blk \<le> 259" using n(4) by (simp add: blk_def cjT1AppendRc_def)
  from send_on_link[OF c(1) this] obtain ci2 where
    s: "\<forall>x k. send_on c x blk k = k (ci2, x)" "ready ci2 bs" "ec_t1 ci2 = ec_t1 c"
    "out ci2 = out ci @ ec_frame blk" by (auto simp: c)
  have "t1_step (ci, x) = on_R ci1 (x\<lparr>x_err := 0\<rparr>) b"
    using assms(2, 3) is_ack_simps by (auto simp: t1_step_def r(1) Let_def)
  also have "\<dots> = Inr (ci2, x\<lparr>x_err := 0, x_more := ps \<noteq> [], x_block := blk, x_ptr := ptr, x_rerr := 0\<rparr>)"
    using assms(3-6) n(1) s(1) by (simp add: on_R_def is_ack_def Let_def c_def[symmetric])
  also have "x\<lparr>x_err := 0, x_more := ps \<noteq> [], x_block := blk, x_ptr := ptr, x_rerr := 0\<rparr>
      = x\<lparr>x_err := 0, x_more := ps \<noteq> [], x_block := blk, x_ptr := ptr\<rparr>" using assms(6) by (cases x) simp
  finally show ?thesis using s n c(6) unfolding blk_def[symmetric] by auto
qed


subsection \<open>Both chains\<close>

lemma receive_chain:
  assumes "ready ci (bs @ rest)" "bs \<noteq> []" "payload (last bs)" "err_ok (x_err x) bs"
    "x_wtx x + wtx_total bs \<le> 200" "x_rerr x = 0"
    "filter payload bs = t1_chain nad (t1_nr (ec_t1 ci)) rs" "\<forall>r\<in>set rs. length r \<le> 255"
    "t1_nr (ec_t1 ci) \<in> {0, 1}" "x_rsplen x + length (concat rs) \<le> x_max x"
    "x_max x = length (x_rsp x)" "2 \<le> x_rsplen x + length (concat rs)"
  shows "\<exists>ci' x' sent. t1_loop (ci, x) = (CJ_EXIT_OK, ci', x')
    \<and> x_rsp x' = overlay (x_rsplen x) (concat rs) (x_rsp x) \<and> x_rsplen x' = x_rsplen x + length (concat rs)
    \<and> idle ci' rest \<and> out ci' = out ci @ concat (map ec_frame sent) \<and> filter is_I sent = []
    \<and> x_nad x' = (if x_icc x then x_nad x else nad)
    \<and> t1_ns (ec_t1 ci') = (if x_icc x then t1_ns (ec_t1 ci) else t1_ns (ec_t1 ci) XOR 1)
    \<and> t1_nr (ec_t1 ci') = flips (length rs) (t1_nr (ec_t1 ci))"
  using assms
proof (induction bs arbitrary: ci x rs)
  case (Cons b bs)
  have w: "wtx_total (b # bs) = wtx_of b + wtx_total bs" by (simp add: wtx_total_def)
  have rdy: "ready ci (b # bs @ rest)" using Cons.prems(1) by simp
  show ?case
  proof (cases "payload b")
    case False
    then have bs: "bs \<noteq> []" "payload (last bs)" using Cons.prems(2, 3) by (auto split: if_splits)
    let ?x = "x\<lparr>x_err := if cjT1CheckRc b then 0 else Suc (x_err x), x_wtx := x_wtx x + wtx_of b\<rparr>"
    have e: "cjT1CheckRc b \<or> x_err x < 3" "err_ok (x_err ?x) bs"
      using Cons.prems(4) by (auto split: if_splits)
    obtain ci' s where st: "t1_step (ci, x) = Inr (ci', ?x)" "ready ci' (bs @ rest)"
      "same_t1 (ec_t1 ci) (ec_t1 ci')" "out ci' = out ci @ ec_frame s" "\<not> is_I s"
      using disturbed_round[OF rdy False e(1)] Cons.prems(5, 6) w by auto
    note t = same_t1_simps[OF st(3)]
    from Cons.IH[OF st(2) bs e(2), of rs] Cons.prems w t False obtain ci2 x2 sent where
      l: "t1_loop (ci', ?x) = (CJ_EXIT_OK, ci2, x2)"
      "x_rsp x2 = overlay (x_rsplen x) (concat rs) (x_rsp x)" "x_rsplen x2 = x_rsplen x + length (concat rs)"
      "idle ci2 rest" "out ci2 = out ci' @ concat (map ec_frame sent)" "filter is_I sent = []"
      "x_nad x2 = (if x_icc x then x_nad x else nad)"
      "t1_ns (ec_t1 ci2) = (if x_icc x then t1_ns (ec_t1 ci) else t1_ns (ec_t1 ci) XOR 1)"
      "t1_nr (ec_t1 ci2) = flips (length rs) (t1_nr (ec_t1 ci))" by auto
    have "t1_loop (ci, x) = (CJ_EXIT_OK, ci2, x2)" using st(1) l(1) by (simp add: t1_loop.simps[of "(ci, x)"])
    then show ?thesis using l st by (intro exI[of _ ci2] exI[of _ x2] exI[of _ "s # sent"]) simp
  next
    case True
    then obtain r rs' where rs: "rs = r # rs'" using Cons.prems(7) by (cases rs) auto
    define m where "m = (rs' \<noteq> [])"
    have b: "b = cjT1AppendRc ([nad, i_pcb (t1_nr (ec_t1 ci)) m, word_of_nat (length r)] @ r)"
      and f: "filter payload bs = t1_chain nad (t1_nr (ec_t1 ci) XOR 1) rs'"
      using Cons.prems(7) True by (simp_all add: rs m_def)
    have lr: "length r \<le> 255" "x_rsplen x + length r \<le> x_max x" "\<not> m \<longrightarrow> 2 \<le> x_rsplen x + length r"
      using Cons.prems(8, 10, 12) by (auto simp: rs m_def)
    define y where "y = x\<lparr>x_err := 0, x_rerr := 0, x_nad := if x_icc x then x_nad x else nad, x_icc := True,
             x_rsp := overlay (x_rsplen x) r (x_rsp x), x_rsplen := x_rsplen x + length r\<rparr>"
    from i_round[OF rdy b lr(1) Cons.prems(9) lr(2, 3)] obtain ci' s where
      st: "t1_step (ci, x) = (if m then Inr (ci', y) else Inl (CJ_EXIT_OK, ci', y))"
      "if m then ready ci' (bs @ rest) \<and> out ci' = out ci @ ec_frame s \<and> \<not> is_I s
       else idle ci' (bs @ rest) \<and> out ci' = out ci"
      "same_t1 ((ec_t1 ci)\<lparr>t1_nr := t1_nr (ec_t1 ci) XOR 1,
         t1_ns := if x_icc x then t1_ns (ec_t1 ci) else t1_ns (ec_t1 ci) XOR 1\<rparr>) (ec_t1 ci')"
      unfolding y_def by blast
    note t = same_t1_simps[OF st(3), simplified]
    have sy: "x_err y = 0" "x_rerr y = 0" "x_wtx y = x_wtx x" "x_icc y" "x_max y = x_max x"
      "x_nad y = (if x_icc x then x_nad x else nad)"
      "x_rsplen y = x_rsplen x + length r" "x_rsp y = overlay (x_rsplen x) r (x_rsp x)"
      by (simp_all add: y_def)
    show ?thesis
    proof (cases m)
      case False
      then have r0: "rs' = []" "bs = []" using f Cons.prems(3) by (auto simp: m_def filter_empty_conv split: if_splits)
      have "t1_loop (ci, x) = (CJ_EXIT_OK, ci', y)" using st(1) False by (simp add: t1_loop.simps[of "(ci, x)"])
      then show ?thesis using False st(2) r0 t sy
        by (intro exI[of _ ci'] exI[of _ y] exI[of _ "[]"]) (simp add: rs)
    next
      case True
      then have bs: "bs \<noteq> []" using f by (cases rs') (auto simp: m_def)
      then have bs2: "payload (last bs)" using Cons.prems(3) by simp
      have e: "err_ok (x_err y) bs" using Cons.prems(4) \<open>payload b\<close> by (simp add: sy payload_def)
      have ov: "overlay (x_rsplen y) (concat rs') (x_rsp y) = overlay (x_rsplen x) (concat rs) (x_rsp x)"
        using Cons.prems(10, 11) by (simp add: sy rs overlay_append)
      from True st(2) have rd: "ready ci' (bs @ rest)" by simp
      have pr: "x_wtx y + wtx_total bs \<le> 200" "filter payload bs = t1_chain nad (t1_nr (ec_t1 ci')) rs'"
        "\<forall>r\<in>set rs'. length r \<le> 255" "t1_nr (ec_t1 ci') \<in> {0, 1}"
        "x_rsplen y + length (concat rs') \<le> x_max y" "x_max y = length (x_rsp y)"
        "2 \<le> x_rsplen y + length (concat rs')"
        using Cons.prems(5, 8-12) w t f by (auto simp: sy rs)
      from Cons.IH[OF rd bs bs2 e pr(1) sy(2) pr(2-7)] sy(4) obtain ci2 x2 sent where
        l: "t1_loop (ci', y) = (CJ_EXIT_OK, ci2, x2)"
        "x_rsp x2 = overlay (x_rsplen y) (concat rs') (x_rsp y)" "x_rsplen x2 = x_rsplen y + length (concat rs')"
        "idle ci2 rest" "out ci2 = out ci' @ concat (map ec_frame sent)" "filter is_I sent = []"
        "x_nad x2 = x_nad y" "t1_ns (ec_t1 ci2) = t1_ns (ec_t1 ci')"
        "t1_nr (ec_t1 ci2) = flips (length rs') (t1_nr (ec_t1 ci'))" by auto
      have "t1_loop (ci, x) = (CJ_EXIT_OK, ci2, x2)" using st(1) l(1) True by (simp add: t1_loop.simps[of "(ci, x)"])
      then show ?thesis using l st(2) True t sy ov
        by (intro exI[of _ ci2] exI[of _ x2] exI[of _ "s # sent"]) (simp add: rs)
    qed
  qed
qed simp


lemma send_chain:
  assumes "ready ci (bs @ rest)" "bs \<noteq> []" "payload (last bs)" "err_ok (x_err x) bs"
    "x_wtx x + wtx_total bs \<le> 200" "x_rerr x = 0"
    "filter payload bs = acks @ t1_chain nad (t1_nr (ec_t1 ci)) rs" "rs \<noteq> []" "\<forall>r\<in>set rs. length r \<le> 255"
    "t1_nr (ec_t1 ci) \<in> {0, 1}" "length (concat rs) \<le> x_max x"
    "x_max x = length (x_rsp x)" "2 \<le> length (concat rs)" "x_rsplen x = 0"
    "\<not> x_icc x" "x_more x = (ps \<noteq> [])" "x_ptr x \<le> length (x_cmd x)" "t1_ifsc (ec_t1 ci) \<noteq> 0"
    "ps \<noteq> [] \<longrightarrow> ps = parts (unat (t1_ifsc (ec_t1 ci))) (drop (x_ptr x) (x_cmd x))"
    "length acks = length ps" "\<forall>a\<in>set acks. is_ack a"
  shows "\<exists>ci' x' sent. t1_loop (ci, x) = (CJ_EXIT_OK, ci', x')
    \<and> x_rsp x' = overlay 0 (concat rs) (x_rsp x) \<and> x_rsplen x' = length (concat rs)
    \<and> idle ci' rest \<and> out ci' = out ci @ concat (map ec_frame sent)
    \<and> filter is_I sent = t1_chain (t1_nad (ec_t1 ci)) (t1_ns (ec_t1 ci) XOR 1) ps \<and> x_nad x' = nad
    \<and> t1_ns (ec_t1 ci') = flips (Suc (length ps)) (t1_ns (ec_t1 ci))
    \<and> t1_nr (ec_t1 ci') = flips (length rs) (t1_nr (ec_t1 ci))"
  using assms
proof (induction bs arbitrary: ci x acks ps)
  case (Cons b bs)
  have w: "wtx_total (b # bs) = wtx_of b + wtx_total bs" by (simp add: wtx_total_def)
  have rdy: "ready ci (b # bs @ rest)" using Cons.prems(1) by simp
  show ?case
  proof (cases acks)
    case Nil
    then have ps: "ps = []" using Cons.prems(20) by simp
    from receive_chain[OF Cons.prems(1-6) _ Cons.prems(9, 10) _ Cons.prems(12), of nad]
      Cons.prems(7, 11, 13-15) show ?thesis by (auto simp: Nil ps)
  next
    case ac: (Cons a acks')
    have bs0: "bs \<noteq> []" if "payload b"
      using that Cons.prems(7, 8) by (cases rs; cases acks') (auto simp: ac)
    then have bs: "bs \<noteq> []" "payload (last bs)" using Cons.prems(2, 3) by (auto split: if_splits)
    obtain p ps' where ps: "ps = p # ps'" using Cons.prems(20) by (cases ps) (auto simp: ac)
    show ?thesis
    proof (cases "payload b")
      case False
      let ?x = "x\<lparr>x_err := if cjT1CheckRc b then 0 else Suc (x_err x), x_wtx := x_wtx x + wtx_of b\<rparr>"
      have e: "cjT1CheckRc b \<or> x_err x < 3" "err_ok (x_err ?x) bs"
        using Cons.prems(4) by (auto split: if_splits)
      obtain ci' s where st: "t1_step (ci, x) = Inr (ci', ?x)" "ready ci' (bs @ rest)"
        "same_t1 (ec_t1 ci) (ec_t1 ci')" "out ci' = out ci @ ec_frame s" "\<not> is_I s"
        using disturbed_round[OF rdy False e(1)] Cons.prems(5, 6) w by auto
      note t = same_t1_simps[OF st(3)]
      have wx: "x_wtx ?x + wtx_total bs \<le> 200" using Cons.prems(5) w by simp
      have fl: "filter payload bs = acks @ t1_chain nad (t1_nr (ec_t1 ci')) rs"
        using Cons.prems(7) False t by simp
      from Cons.IH[OF st(2) bs e(2) wx _ fl Cons.prems(8, 9), of ps] Cons.prems t obtain ci2 x2 sent where
        l: "t1_loop (ci', ?x) = (CJ_EXIT_OK, ci2, x2)"
        "x_rsp x2 = overlay 0 (concat rs) (x_rsp x)" "x_rsplen x2 = length (concat rs)"
        "idle ci2 rest" "out ci2 = out ci' @ concat (map ec_frame sent)"
        "filter is_I sent = t1_chain (t1_nad (ec_t1 ci)) (t1_ns (ec_t1 ci) XOR 1) ps" "x_nad x2 = nad"
        "t1_ns (ec_t1 ci2) = flips (Suc (length ps)) (t1_ns (ec_t1 ci))"
        "t1_nr (ec_t1 ci2) = flips (length rs) (t1_nr (ec_t1 ci))" by auto
      have "t1_loop (ci, x) = (CJ_EXIT_OK, ci2, x2)" using st(1) l(1) by (simp add: t1_loop.simps[of "(ci, x)"])
      then show ?thesis using l st by (intro exI[of _ ci2] exI[of _ x2] exI[of _ "s # sent"]) simp
    next
      case True
      then have b: "b = a" "is_ack b" and fl0: "filter payload bs = acks' @ t1_chain nad (t1_nr (ec_t1 ci)) rs"
        using Cons.prems(7, 21) by (auto simp: ac)
      have ck: "cjT1CheckRc b" using True by (simp add: payload_def)
      have mr: "x_more x" using Cons.prems(16) ps by simp
      have pp: "parts (unat (t1_ifsc (ec_t1 ci))) (drop (x_ptr x) (x_cmd x)) = p # ps'"
        using Cons.prems(19) ps by simp
      define blk where "blk = cjT1AppendRc ([t1_nad (ec_t1 ci), i_pcb (t1_ns (ec_t1 ci) XOR 1) (ps' \<noteq> []),
         word_of_nat (length p)] @ p)"
      from ack_round[OF rdy ck b(2) Cons.prems(15) mr Cons.prems(6, 17, 18) pp] obtain ci' ptr where
        st: "t1_step (ci, x) = Inr (ci', x\<lparr>x_err := 0, x_more := ps' \<noteq> [], x_block := blk, x_ptr := ptr\<rparr>)"
        "ptr \<le> length (x_cmd x)"
        "ps' \<noteq> [] \<longrightarrow> ps' = parts (unat (t1_ifsc (ec_t1 ci))) (drop ptr (x_cmd x))"
        "ready ci' (bs @ rest)" "same_t1 ((ec_t1 ci)\<lparr>t1_ns := t1_ns (ec_t1 ci) XOR 1\<rparr>) (ec_t1 ci')"
        "out ci' = out ci @ ec_frame blk" unfolding blk_def by blast
      let ?x = "x\<lparr>x_err := 0, x_more := ps' \<noteq> [], x_block := blk, x_ptr := ptr\<rparr>"
      note t = same_t1_simps[OF st(5), simplified]
      have e: "err_ok (x_err ?x) bs" "x_wtx ?x + wtx_total bs \<le> 200" using Cons.prems(4, 5) ck w by simp_all
      have fl: "filter payload bs = acks' @ t1_chain nad (t1_nr (ec_t1 ci')) rs" using fl0 t by simp
      have ln: "length acks' = length ps'" "\<forall>a\<in>set acks'. is_ack a" using Cons.prems(20, 21) by (simp_all add: ac ps)
      have pr: "x_rerr ?x = 0" "t1_nr (ec_t1 ci') \<in> {0, 1}" "length (concat rs) \<le> x_max ?x"
        "x_max ?x = length (x_rsp ?x)" "x_rsplen ?x = 0" "\<not> x_icc ?x" "x_more ?x = (ps' \<noteq> [])"
        "x_ptr ?x \<le> length (x_cmd ?x)" "t1_ifsc (ec_t1 ci') \<noteq> 0"
        "ps' \<noteq> [] \<longrightarrow> ps' = parts (unat (t1_ifsc (ec_t1 ci'))) (drop (x_ptr ?x) (x_cmd ?x))"
        using Cons.prems t st(2, 3) by simp_all
      from Cons.IH[OF st(4) bs e pr(1) fl Cons.prems(8, 9) pr(2-4) Cons.prems(13) pr(5-10) ln] t
      obtain ci2 x2 sent where
        l: "t1_loop (ci', ?x) = (CJ_EXIT_OK, ci2, x2)"
        "x_rsp x2 = overlay 0 (concat rs) (x_rsp x)" "x_rsplen x2 = length (concat rs)"
        "idle ci2 rest" "out ci2 = out ci' @ concat (map ec_frame sent)"
        "filter is_I sent = t1_chain (t1_nad (ec_t1 ci)) ((t1_ns (ec_t1 ci) XOR 1) XOR 1) ps'" "x_nad x2 = nad"
        "t1_ns (ec_t1 ci2) = flips (Suc (length ps')) (t1_ns (ec_t1 ci) XOR 1)"
        "t1_nr (ec_t1 ci2) = flips (length rs) (t1_nr (ec_t1 ci))" by (auto simp del: flips.simps t1_chain.simps)
      have "t1_loop (ci, x) = (CJ_EXIT_OK, ci2, x2)" using st(1) l(1) by (simp add: t1_loop.simps[of "(ci, x)"])
      moreover have "is_I blk" using iblock_simps(2)[OF blk_def] parts_hd[OF pp] byte_bound[of "t1_ifsc (ec_t1 ci)"]
        Cons.prems(18) by (simp add: unat_gt_0)
      ultimately show ?thesis using l st
        by (intro exI[of _ ci2] exI[of _ x2] exI[of _ "blk # sent"]) (simp add: ps blk_def)
    qed
  qed
qed simp

text \<open>The exchange as a whole.\<close>

theorem exchange_delivered:
  assumes "idle ci (bs @ rest)" "bs \<noteq> []" "payload (last bs)" "err_ok 0 bs" "wtx_total bs \<le> 200"
    "filter payload bs = acks @ t1_chain nad' (t1_nr (ec_t1 ci)) rs" "\<forall>a\<in>set acks. is_ack a"
    "Suc (length acks) = length (parts (unat (t1_ifsc (ec_t1 ci))) cmd)" "t1_ifsc (ec_t1 ci) \<noteq> 0"
    "rs \<noteq> []" "\<forall>r\<in>set rs. length r \<le> 255" "t1_nr (ec_t1 ci) \<in> {0, 1}"
    "2 \<le> length (concat rs)" "length (concat rs) \<le> length rsp"
  shows "\<exists>ci' x' sent. cjT1SendCmd ci nad cmd rsp = (CJ_EXIT_OK, ci', x')
    \<and> x_rsplen x' = length (concat rs) \<and> take (x_rsplen x') (x_rsp x') = concat rs \<and> x_nad x' = nad'
    \<and> out ci' = out ci @ concat (map ec_frame sent)
    \<and> filter is_I sent = t1_chain nad (t1_ns (ec_t1 ci)) (parts (unat (t1_ifsc (ec_t1 ci))) cmd)
    \<and> t1_ns (ec_t1 ci') = flips (Suc (length acks)) (t1_ns (ec_t1 ci))
    \<and> t1_nr (ec_t1 ci') = flips (length rs) (t1_nr (ec_t1 ci)) \<and> idle ci' rest"
proof -
  define c where "c = ci\<lparr>ec_t1 := (ec_t1 ci)\<lparr>t1_nad := nad\<rparr>\<rparr>"
  have c: "t1_nad (ec_t1 c) = nad" "t1_ns (ec_t1 c) = t1_ns (ec_t1 ci)" "t1_nr (ec_t1 c) = t1_nr (ec_t1 ci)"
    "t1_ifsc (ec_t1 c) = t1_ifsc (ec_t1 ci)" "out c = out ci" "idle c (bs @ rest)"
    using assms(1) by (simp_all add: c_def link_out link_idle)
  define x where "x = \<lparr>x_nad = nad, x_cmd = cmd, x_rsp = rsp, x_max = length rsp, x_ptr = 0, x_block = [],
     x_rsplen = 0, x_more = True, x_icc = False, x_wtx = 0, x_err = 0, x_rerr = 0\<rparr>"
  obtain p ps where pp: "parts (unat (t1_ifsc (ec_t1 ci))) cmd = p # ps" using parts_ne by (meson neq_Nil_conv)
  define blk where "blk = cjT1AppendRc ([nad, i_pcb (t1_ns (ec_t1 ci)) (ps \<noteq> []), word_of_nat (length p)] @ p)"
  from next_part_parts[OF c(4)[symmetric] assms(9), of x p ps] pp obtain ptr where
    n: "next_part c x = Some (x\<lparr>x_more := ps \<noteq> [], x_block := blk, x_ptr := ptr\<rparr>)"
    "ptr \<le> length cmd" "ps \<noteq> [] \<longrightarrow> ps = parts (unat (t1_ifsc (ec_t1 ci))) (drop ptr cmd)" "length p \<le> 255"
    by (auto simp: x_def blk_def c)
  have "length blk \<le> 259" "is_I blk" using iblock_simps(2, 10)[OF blk_def n(4)] by simp_all
  from link_send[OF c(6) this(1)] obtain c1 where
    s: "cjIoSendBlock c blk = (CJ_EXIT_OK, c1)" "ready c1 (bs @ rest)" "ec_t1 c1 = ec_t1 c"
    "out c1 = out ci @ ec_frame blk" by (auto simp: c)
  let ?x = "x\<lparr>x_more := ps \<noteq> [], x_block := blk, x_ptr := ptr\<rparr>"
  have e: "cjT1SendCmd ci nad cmd rsp = t1_loop (c1, ?x)"
    unfolding cjT1SendCmd_def Let_def c_def[symmetric] x_def[symmetric] n(1) using s(1) by simp
  have "\<exists>ci' x' sent. t1_loop (c1, ?x) = (CJ_EXIT_OK, ci', x')
    \<and> x_rsp x' = overlay 0 (concat rs) rsp \<and> x_rsplen x' = length (concat rs)
    \<and> idle ci' rest \<and> out ci' = out c1 @ concat (map ec_frame sent)
    \<and> filter is_I sent = t1_chain nad (t1_ns (ec_t1 ci) XOR 1) ps \<and> x_nad x' = nad'
    \<and> t1_ns (ec_t1 ci') = flips (Suc (length ps)) (t1_ns (ec_t1 ci))
    \<and> t1_nr (ec_t1 ci') = flips (length rs) (t1_nr (ec_t1 ci))"
    using send_chain[OF s(2) assms(2, 3), of ?x acks nad' rs ps] assms n pp
    by (simp add: x_def s(3) c del: flips.simps)
  then obtain ci' x' sent where l: "t1_loop (c1, ?x) = (CJ_EXIT_OK, ci', x')"
    "x_rsp x' = overlay 0 (concat rs) rsp" "x_rsplen x' = length (concat rs)"
    "idle ci' rest" "out ci' = out c1 @ concat (map ec_frame sent)"
    "filter is_I sent = t1_chain nad (t1_ns (ec_t1 ci) XOR 1) ps" "x_nad x' = nad'"
    "t1_ns (ec_t1 ci') = flips (Suc (length ps)) (t1_ns (ec_t1 ci))"
    "t1_nr (ec_t1 ci') = flips (length rs) (t1_nr (ec_t1 ci))" by blast
  then show ?thesis using s(4) \<open>is_I blk\<close> assms(8) unfolding e pp
    by (intro exI[of _ ci'] exI[of _ x'] exI[of _ "blk # sent"]) (simp add: blk_def take_overlay_zero)
qed


subsection \<open>A block with the wrong number is asked for again\<close>

lemma wrong_number_round:
  assumes "ready ci (b # bs)" "cjT1CheckRc b" "is_I b" "\<not> is_R b" "cjT1GetN b \<noteq> t1_nr (ec_t1 ci)"
  shows "\<exists>ci' x'. t1_step (ci, x) = Inr (ci', x') \<and> ready ci' bs \<and> t1_nr (ec_t1 ci') = t1_nr (ec_t1 ci)
    \<and> x_err x' = 0"
proof -
  obtain ci1 where r: "cjIoReceiveBlock ci 259 = (CJ_EXIT_OK, b, ci1)" "idle ci1 bs"
    "ec_t1 ci1 = (ec_t1 ci)\<lparr>t1_wtx := 0\<rparr>" using link_receive[OF assms(1)] by blast
  define c where "c = (if x_icc x then ci1 else flip_ns ci1)"
  have c: "idle c bs" "t1_nr (ec_t1 c) = t1_nr (ec_t1 ci)"
    using r by (auto simp: c_def flip_ns_def link_idle)
  let ?s = "cjT1RBlock (ec_t1 c) R_OTHER_ERROR"
  from send_on_link[OF c(1), of ?s] obtain ci2 where
    s: "\<forall>x k. send_on c x ?s k = k (ci2, x)" "ready ci2 bs" "ec_t1 ci2 = ec_t1 c" by auto
  have "t1_step (ci, x) = on_I ci1 (x\<lparr>x_err := 0, x_rerr := 0\<rparr>) b"
    using assms(2-4) by (simp add: t1_step_def r(1) Let_def)
  also have "\<dots> = Inr (ci2, x\<lparr>x_err := 0, x_rerr := 0, x_nad := if x_icc x then x_nad x else b ! 0, x_icc := True\<rparr>)"
    using assms(5) c(2) s(1) unfolding c_def
    by (cases x; cases "x_icc x") (auto simp: on_I_def Let_def)
  finally show ?thesis using s c by auto
qed

lemma wrong_number_rounds:
  assumes "cjT1CheckRc b" "is_I b" "\<not> is_R b"
  shows "ready ci (replicate n b @ bs) \<Longrightarrow> cjT1GetN b \<noteq> t1_nr (ec_t1 ci) \<Longrightarrow> x_err x = 0 \<Longrightarrow>
    \<exists>ci' x'. t1_loop (ci, x) = t1_loop (ci', x') \<and> ready ci' bs \<and> x_err x' = 0
      \<and> length (ec_waits ci') = length (ec_waits ci) + n"
proof (induction n arbitrary: ci x)
  case (Suc n)
  then have "ready ci (b # replicate n b @ bs)" by simp
  from wrong_number_round[OF this assms Suc.prems(2), of x] obtain ci1 x1 where
    st: "t1_step (ci, x) = Inr (ci1, x1)" "ready ci1 (replicate n b @ bs)"
    "t1_nr (ec_t1 ci1) = t1_nr (ec_t1 ci)" "x_err x1 = 0" by blast
  from Suc.IH[OF st(2) _ st(4)] st(3) Suc.prems(2) obtain ci2 x2 where
    l: "t1_loop (ci1, x1) = t1_loop (ci2, x2)" "ready ci2 bs" "x_err x2 = 0"
    "length (ec_waits ci2) = length (ec_waits ci1) + n" by auto
  have "length (ec_waits ci1) = Suc (length (ec_waits ci))" using t1_step_Inr(2)[OF st(1)] by simp
  moreover have "t1_loop (ci, x) = t1_loop (ci1, x1)" using st(1) by (simp add: t1_loop.simps[of "(ci, x)"])
  ultimately show ?case using l by auto
qed auto

end

text \<open>On a silent bus the protocol gives up after the fourth block it waited for.\<close>

lemma usb_silent_receive:
  assumes "usb_pending ci []"
  shows "cjIoReceiveBlock ci 259 = (CJ_EXIT_PROTOCOL_ERROR, [], take_wait ci)"
  using assms
  by (simp add: cjIoReceiveBlock_def usb_pending_def cjIoReceiveBlock_libusb_def usb_header.simps
      take_wait_def Let_def)

lemma usb_silent:
  assumes "usb_pending ci []"
  shows "x_err x \<le> 3 \<Longrightarrow> \<exists>ci' x'. t1_loop (ci, x) = (CJ_EXIT_IO_ERROR, ci', x')
    \<and> length (ec_waits ci') = length (ec_waits ci) + (4 - x_err x)"
  using assms
proof (induction "3 - x_err x" arbitrary: ci x)
  case 0
  have r: "cjIoReceiveBlock ci 259 = (CJ_EXIT_PROTOCOL_ERROR, [], take_wait ci)"
    by (rule usb_silent_receive[OF 0(3)])
  then show ?case using 0(1, 2) by (subst t1_loop.simps) (simp add: t1_step_def on_error_end)
next
  case (Suc k)
  have e: "x_err x < 3" using Suc(2) by linarith
  define c where "c = take_wait ci"
  have r: "cjIoReceiveBlock ci 259 = (CJ_EXIT_PROTOCOL_ERROR, [], c)"
    unfolding c_def by (rule usb_silent_receive[OF Suc.prems(2)])
  let ?s = "cjT1RBlock (ec_t1 c) R_OTHER_ERROR"
  let ?x = "x\<lparr>x_err := Suc (x_err x)\<rparr>"
  have p: "usb_pending c []" using Suc.prems(2) by (simp add: usb_pending_def c_def)
  from usb_link.send_on_link[OF p, of ?s] obtain ci2 where
    s: "\<forall>x k. send_on c x ?s k = k (ci2, x)" "usb_pending ci2 []" by auto
  have st: "t1_step (ci, x) = Inr (ci2, ?x)"
    using s(1) e by (simp add: t1_step_def r on_error_def Let_def)
  have "k = 3 - x_err ?x" "x_err ?x \<le> 3" using Suc(2) e by simp_all
  from Suc(1)[OF this s(2)] obtain ci' x' where
    l: "t1_loop (ci2, ?x) = (CJ_EXIT_IO_ERROR, ci', x')"
    "length (ec_waits ci') = length (ec_waits ci2) + (4 - Suc (x_err x))" by auto
  have "length (ec_waits ci2) = Suc (length (ec_waits ci))" using t1_step_Inr(2)[OF st] by simp
  moreover have "t1_loop (ci, x) = (CJ_EXIT_IO_ERROR, ci', x')"
    using st l(1) by (simp add: t1_loop.simps[of "(ci, x)"])
  ultimately show ?case using l(2) e by (intro exI[of _ ci'] exI[of _ x']) simp
qed

end
