(* ===== verification/CJ_EcomApi.thy ===== *)
theory CJ_EcomApi
  imports CJ_T1Link
begin

unbundle bit_operations_syntax

text \<open>
  The CT-API functions of the driver for the first e-com reader, \<^verbatim>\<open>ecom/cjctapi.c\<close>, on top of the
  protocol of \<open>CJ_T1\<close>.  A function returns its code and the outputs it was given pointers to; the
  structure \<^verbatim>\<open>CJ_INFO\<close> that was freed is \<open>None\<close>.  The USB device is found or not (\<open>found\<close>), and memory
  for the structure is available.
\<close>

section \<open>Operations\<close>

fun cjCtapiRV :: "int \<Rightarrow> int" where
  "cjCtapiRV ret =
     (if ret = CJ_EXIT_OK then 0
      else if ret = CJ_EXIT_BAD_PARAM then -1
      else if ret = CJ_EXIT_FILE_NOT_EXIST \<or> ret = CJ_EXIT_FILE_ERROR then -127
      else -10)"

definition cjecom_CT_data :: "cj_info \<Rightarrow> byte \<Rightarrow> byte \<Rightarrow> bytes \<Rightarrow> bytes
    \<Rightarrow> int \<times> nat \<times> byte \<times> byte \<times> bytes \<times> cj_info" where
  "cjecom_CT_data ci dad sad command response =
     (if length command > 4 + 1 + 255 + 1 then (-1, length response, dad, sad, response, ci)
      else case cjT1SendCmd ci ((push_bit 4 dad AND 0xF0) OR (sad AND 0x0F)) command response of
        (ret, ci1, x) \<Rightarrow>
          if ret \<noteq> CJ_EXIT_OK then (cjCtapiRV ret, length response, dad, sad, x_rsp x, ci1)
          else if x_rsplen x > length response then (-11, length response, dad, sad, x_rsp x, ci1)
          else (0, x_rsplen x, drop_bit 4 (x_nad x) AND 0x0F, x_nad x AND 0x0F, x_rsp x, ci1))"

definition cjecom_CT_close :: "cj_info \<Rightarrow> int \<times> cj_info" where
  "cjecom_CT_close ci =
     (case cjecom_CT_data ci 1 2 [0x20, 0x15, 0x01, 0x07] [ec_stack ci 0, ec_stack ci 1] of (_, _, _, _, _, ci1) \<Rightarrow>
        (0, snd (cjIoClose ci1)))"

definition cjecom_CT_keycb :: "cj_info \<Rightarrow> bool \<Rightarrow> int \<times> cj_info" where
  "cjecom_CT_keycb ci cb = (0, ci\<lparr>ec_key := cb\<rparr>)"

text \<open>The reset of the terminal must be answered with 90 00; the code of the call itself is not
  looked at, but the addresses are exchanged only by a call that succeeds.  The response buffer is
  uninitialised; its contents matter only then.\<close>

definition cjecom_CT_initCommon :: "cj_info \<Rightarrow> int \<times> cj_info option" where
  "cjecom_CT_initCommon ci =
     (case cjIoOpen (ci\<lparr>ec_key := False\<rparr>) of (ret, ci1) \<Rightarrow>
        if ret \<noteq> CJ_EXIT_OK then (cjCtapiRV ret, None)
        else case cjecom_CT_data ci1 1 2 [0x20, 0x11, 0x00, 0x00] [ec_stack ci1 0, ec_stack ci1 1] of
          (ctret, lenr, dad, sad, response, ci2) \<Rightarrow>
            if sad \<noteq> 1 \<or> dad \<noteq> 2 \<or> lenr \<noteq> 2 \<or> response ! 0 \<noteq> 0x90 \<or> response ! 1 \<noteq> 0x00
            then (-8, None)
            else (0, Some ci2))"

definition t1_zero :: t1_info where
  "t1_zero = \<lparr>t1_nad = 0, t1_ns = 0, t1_nr = 0, t1_ifsc = 0, t1_ifsd = 0, t1_ifsreq = False,
              t1_cwt = 0, t1_wtx = 0, t1_bwt = 0\<rparr>"

text \<open>\<open>env\<close> is the environment the new structure is used in.\<close>

definition cjecom_CT_initKernel :: "cj_info \<Rightarrow> int \<times> cj_info option" where
  "cjecom_CT_initKernel env =
     cjecom_CT_initCommon (env\<lparr>ec_type := CJ_IO_TYPE_USB, ec_ctn := 0, ec_t1 := t1_zero\<rparr>)"

definition cjecom_CT_initUser :: "cj_info \<Rightarrow> bool \<Rightarrow> int \<Rightarrow> int \<times> cj_info option" where
  "cjecom_CT_initUser env found ctn =
     (if \<not> found then (-127, None)
      else cjecom_CT_initCommon (env\<lparr>ec_type := CJ_IO_TYPE_LIBUSB, ec_ctn := ctn, ec_t1 := t1_zero\<rparr>))"

definition cjecom_CT_initUser2 :: "cj_info \<Rightarrow> bool \<Rightarrow> int \<Rightarrow> int \<times> cj_info option" where
  "cjecom_CT_initUser2 env found ctn =
     (if \<not> found then (-127, None)
      else cjecom_CT_initCommon (env\<lparr>ec_type := CJ_IO_TYPE_LIBUSB, ec_ctn := ctn, ec_t1 := t1_zero\<rparr>))"

section \<open>The response stays in its buffer\<close>

fun in_room :: "nat \<Rightarrow> t1_next \<Rightarrow> bool" where
  "in_room n (Inr (ci', x')) = (x_max x' = n \<and> length (x_rsp x') = n)"
| "in_room n (Inl (c, ci', x')) = (x_max x' = n \<and> length (x_rsp x') = n
     \<and> (c = CJ_EXIT_OK \<longrightarrow> x_rsplen x' \<le> n))"

lemma in_room_send_on:
  assumes "\<And>ci'. in_room n (k (ci', x))" "x_max x = n" "length (x_rsp x) = n"
  shows "in_room n (send_on ci x b k)"
  using assms by (auto simp: send_on_def split: prod.splits)

lemma next_part_room: "next_part ci x = Some x' \<Longrightarrow> x_max x' = x_max x \<and> x_rsp x' = x_rsp x"
  by (auto simp: next_part_def Let_def)

lemma copy_rsp_room:
  assumes "x_max x = length (x_rsp x)"
  shows "x_max (copy_rsp x r) = x_max x" "length (x_rsp (copy_rsp x r)) = length (x_rsp x)"
  using assms by (auto simp: copy_rsp_def Let_def)

lemma room_on_error:
  "x_max x = n \<Longrightarrow> length (x_rsp x) = n \<Longrightarrow> in_room n (on_error ci x r)"
  by (auto simp: on_error_def Let_def intro!: in_room_send_on)

lemma room_on_R:
  "x_max x = n \<Longrightarrow> length (x_rsp x) = n \<Longrightarrow> in_room n (on_R ci x r)"
  by (auto simp: on_R_def Let_def dest!: next_part_room intro!: in_room_send_on split: option.splits)

lemma room_on_I:
  "x_max x = n \<Longrightarrow> length (x_rsp x) = n \<Longrightarrow> in_room n (on_I ci x r)"
  by (auto simp: on_I_def Let_def copy_rsp_room intro!: in_room_send_on)

lemma room_on_S:
  "x_max x = n \<Longrightarrow> length (x_rsp x) = n \<Longrightarrow> in_room n (on_S ci x r)"
  by (auto simp: on_S_def on_WTX_def on_ABORT_def Let_def intro!: in_room_send_on split: prod.splits)

lemma room_t1_step:
  assumes "x_max x = n" "length (x_rsp x) = n"
  shows "in_room n (t1_step (ci, x))"
  using assms room_on_error[OF assms]
  by (auto simp: t1_step_def Let_def intro!: room_on_R room_on_I room_on_S split: prod.splits)

lemma room_t1_loop:
  "t1_loop s = (c, ci', x') \<Longrightarrow> x_max (snd s) = n \<Longrightarrow> length (x_rsp (snd s)) = n \<Longrightarrow>
     length (x_rsp x') = n \<and> (c = CJ_EXIT_OK \<longrightarrow> x_rsplen x' \<le> n)"
proof (induction s rule: t1_loop.induct)
  case (1 s)
  obtain ci x where s: "s = (ci, x)" by fastforce
  have r: "in_room n (t1_step s)" using room_t1_step[of x n ci] 1(3, 4) by (simp add: s)
  show ?case
  proof (cases "t1_step s")
    case (Inl a)
    with 1(2) r show ?thesis by (cases a) (simp add: t1_loop.simps[of s])
  next
    case (Inr b)
    with 1(2) have "t1_loop b = (c, ci', x')" by (simp add: t1_loop.simps[of s])
    with 1(1)[OF Inr] r Inr show ?thesis by (cases b) simp
  qed
qed

lemma cjT1SendCmd_room:
  assumes "cjT1SendCmd ci nad cmd rsp = (c, ci', x')"
  shows "length (x_rsp x') = length rsp" "c = CJ_EXIT_OK \<longrightarrow> x_rsplen x' \<le> length rsp"
  using assms
  by (auto simp: cjT1SendCmd_def Let_def split: option.splits prod.splits if_splits
      dest!: next_part_room room_t1_loop[where n = "length rsp"])

lemma cjT1SendCmd_attempts:
  assumes "cjT1SendCmd ci nad cmd rsp = (c, ci', x')"
  shows "length (ec_waits ci') \<le> length (ec_waits ci) + 5 * ev_left ci + 6"
  using assms
  by (auto simp: cjT1SendCmd_def Let_def t1_measure_def split: option.splits prod.splits if_splits
      dest!: send_left t1_loop_attempts)

section \<open>Properties\<close>

text \<open>Property C12.  Whatever a reader sends or does not send, \<open>cjecom_CT_data\<close> returns: the number of
  blocks it waits for is bounded by the events left in the script, with four failures allowed
  after each.  It returns one of four codes, never stores or reports more than the response
  buffer holds, and leaves length and addresses alone unless it succeeds; the test for a response
  larger than the buffer (-11) never applies.\<close>

theorem CT_data_bounded:
  "case cjecom_CT_data ci dad sad command response of (rv, lenr, dad', sad', response', ci') \<Rightarrow>
     length (ec_waits ci') \<le> length (ec_waits ci) + 5 * ev_left ci + 6
     \<and> rv \<in> {0, -1, -10, -127} \<and> lenr \<le> length response \<and> length response' = length response
     \<and> (rv = 0 \<or> lenr = length response \<and> dad' = dad \<and> sad' = sad)"
proof -
  let ?nad = "(push_bit 4 dad AND 0xF0) OR (sad AND 0x0F)"
  obtain c ci' x' where r: "cjT1SendCmd ci ?nad command response = (c, ci', x')" by (metis prod_cases3)
  from cjT1SendCmd_room[OF r] cjT1SendCmd_attempts[OF r] show ?thesis
    by (auto simp: cjecom_CT_data_def r)
qed

text \<open>Property C11.  A command is delivered and its response received over both transports, however
  the link disturbs the exchange: \<open>bs\<close> are the blocks that arrive, among them damaged blocks (never
  more than three in a row) and messages about waiting time (at most 200 units together), keys and
  the card.  If the rest of them acknowledges every part of the command but the last and then
  carries the response in the parts \<open>rs\<close>, the call succeeds, the buffer holds the response, the
  I-blocks sent are the parts of the command in order with alternating numbers, and the sequence
  numbers are those the next exchange needs.\<close>

theorem CT_data_delivered:
  assumes "(idle, out) \<in> {(usb_pending, usb_out), (tty_idle, ec_line)}" "idle ci (bs @ rest)"
    "bs \<noteq> []" "payload (last bs)" "err_ok 0 bs" "wtx_total bs \<le> 200"
    "filter payload bs = acks @ t1_chain nad (t1_nr (ec_t1 ci)) rs" "\<forall>a\<in>set acks. is_ack a"
    "Suc (length acks) = length (parts (unat (t1_ifsc (ec_t1 ci))) command)" "t1_ifsc (ec_t1 ci) \<noteq> 0"
    "rs \<noteq> []" "\<forall>r\<in>set rs. length r \<le> 255" "t1_nr (ec_t1 ci) \<in> {0, 1}"
    "2 \<le> length (concat rs)" "length (concat rs) \<le> length response" "length command \<le> 261"
  shows "\<exists>response' ci' sent.
    cjecom_CT_data ci dad sad command response =
      (0, length (concat rs), drop_bit 4 nad AND 0x0F, nad AND 0x0F, response', ci')
    \<and> take (length (concat rs)) response' = concat rs
    \<and> out ci' = out ci @ concat (map ec_frame sent)
    \<and> filter is_I sent = t1_chain ((push_bit 4 dad AND 0xF0) OR (sad AND 0x0F)) (t1_ns (ec_t1 ci))
          (parts (unat (t1_ifsc (ec_t1 ci))) command)
    \<and> concat (parts (unat (t1_ifsc (ec_t1 ci))) command) = command
    \<and> t1_ns (ec_t1 ci') = flips (Suc (length acks)) (t1_ns (ec_t1 ci))
    \<and> t1_nr (ec_t1 ci') = flips (length rs) (t1_nr (ec_t1 ci)) \<and> idle ci' rest"
proof -
  let ?nad = "(push_bit 4 dad AND 0xF0) OR (sad AND 0x0F)"
  have "\<exists>ci' x' sent. cjT1SendCmd ci ?nad command response = (CJ_EXIT_OK, ci', x')
    \<and> x_rsplen x' = length (concat rs) \<and> take (x_rsplen x') (x_rsp x') = concat rs \<and> x_nad x' = nad
    \<and> out ci' = out ci @ concat (map ec_frame sent)
    \<and> filter is_I sent = t1_chain ?nad (t1_ns (ec_t1 ci)) (parts (unat (t1_ifsc (ec_t1 ci))) command)
    \<and> t1_ns (ec_t1 ci') = flips (Suc (length acks)) (t1_ns (ec_t1 ci))
    \<and> t1_nr (ec_t1 ci') = flips (length rs) (t1_nr (ec_t1 ci)) \<and> idle ci' rest"
    using assms(1) usb_link.exchange_delivered[OF _ assms(3-15)] tty_link.exchange_delivered[OF _ assms(3-15)]
      assms(2) by blast
  then obtain ci' x' sent where r: "cjT1SendCmd ci ?nad command response = (CJ_EXIT_OK, ci', x')"
    and q: "x_rsplen x' = length (concat rs)" "take (x_rsplen x') (x_rsp x') = concat rs" "x_nad x' = nad"
      "out ci' = out ci @ concat (map ec_frame sent)"
      "filter is_I sent = t1_chain ?nad (t1_ns (ec_t1 ci)) (parts (unat (t1_ifsc (ec_t1 ci))) command)"
      "t1_ns (ec_t1 ci') = flips (Suc (length acks)) (t1_ns (ec_t1 ci))"
      "t1_nr (ec_t1 ci') = flips (length rs) (t1_nr (ec_t1 ci))" "idle ci' rest" by blast
  have "cjecom_CT_data ci dad sad command response =
      (0, length (concat rs), drop_bit 4 nad AND 0x0F, nad AND 0x0F, x_rsp x', ci')"
    using assms(15, 16) q(1, 3) by (simp add: cjecom_CT_data_def r)
  then show ?thesis using q by (intro exI[of _ "x_rsp x'"] exI[of _ ci'] exI[of _ sent]) simp
qed


text \<open>Blocks with a wrong sequence number are asked for again without a limit: a reader
  that repeats such a block \<open>n\<close> times keeps the call waiting for \<open>n\<close> blocks, and it fails only
  when the reader falls silent, four blocks later.\<close>

theorem wrong_number_unbounded:
  assumes "usb_pending ci (replicate n b)" "cjT1CheckRc b" "is_I b" "\<not> is_R b"
    "cjT1GetN b \<noteq> t1_nr (ec_t1 ci)" "length command \<le> 261"
  shows "case cjecom_CT_data ci dad sad command response of (rv, lenr, dad', sad', response', ci') \<Rightarrow>
     rv = -10 \<and> length (ec_waits ci') = length (ec_waits ci) + n + 4"
proof -
  define nad where "nad = (push_bit 4 dad AND 0xF0) OR (sad AND 0x0F)"
  define c where "c = ci\<lparr>ec_t1 := (ec_t1 ci)\<lparr>t1_nad := nad\<rparr>\<rparr>"
  define x where "x = \<lparr>x_nad = nad, x_cmd = command, x_rsp = response, x_max = length response, x_ptr = 0,
     x_block = [], x_rsplen = 0, x_more = True, x_icc = False, x_wtx = 0, x_err = 0, x_rerr = 0\<rparr>"
  have c: "usb_pending c (replicate n b @ [])" "t1_nr (ec_t1 c) = t1_nr (ec_t1 ci)" "ec_waits c = ec_waits ci"
    using assms(1) by (simp_all add: c_def usb_link.link_idle)
  obtain y where y: "next_part c x = Some y" "length (x_block y) \<le> 259" "x_err y = 0"
    using next_part_total[of c x] by (auto simp: x_def)
  from usb_link.link_send[OF c(1) y(2)] obtain c1 where
    s: "cjIoSendBlock c (x_block y) = (CJ_EXIT_OK, c1)" "usb_pending c1 (replicate n b @ [])" "ec_t1 c1 = ec_t1 c" by blast
  have w: "ec_waits c1 = ec_waits ci" using send_left[OF s(1)] c(3) by simp
  from usb_link.wrong_number_rounds[OF assms(2-4) s(2) _ y(3)] assms(5) s(3) c(2) obtain c2 x2 where
    l: "t1_loop (c1, y) = t1_loop (c2, x2)" "usb_pending c2 []" "x_err x2 = 0"
    "length (ec_waits c2) = length (ec_waits ci) + n" by (auto simp: w)
  from usb_silent[OF l(2), of x2] l obtain c3 x3 where
    e: "t1_loop (c1, y) = (CJ_EXIT_IO_ERROR, c3, x3)" "length (ec_waits c3) = length (ec_waits ci) + n + 4" by auto
  have "cjT1SendCmd ci nad command response = (CJ_EXIT_IO_ERROR, c3, x3)"
    unfolding cjT1SendCmd_def Let_def c_def[symmetric] x_def[symmetric] y(1) using s(1) e(1) by simp
  then show ?thesis using e(2) assms(6) by (simp add: cjecom_CT_data_def nad_def)
qed


section \<open>Witnesses\<close>

definition ecom0 :: "bytes list \<Rightarrow> cj_info" where
  "ecom0 bs = \<lparr>ec_type = 2, ec_key = False, ec_t1 = (t1_reset t1_zero)\<lparr>t1_ifsc := 2\<rparr>, ec_ctn = 1,
     ec_dh = True, ec_fd = False, ec_rx = [], ec_tx = [],
     ec_bulk = concat (map (\<lambda>b. map Bulk (packets (ec_frame b))) bs), ec_line = [], ec_pkts = [],
     ec_keys = [], ec_waits = [],
     ec_setup = \<lparr>su_open = None, su_lock = True, su_raw = True, su_ausb = True, su_driver = None,
       su_detach = True, su_config = True, su_claim = True, su_driver2 = None, su_detach2 = True,
       su_claim2 = True, su_interrupt = True\<rparr>,
     ec_stack = (\<lambda>_. 0), ec_overrun = False\<rparr>"

text \<open>A damaged block, an acknowledgement, a request for more time and a response in two parts.\<close>

definition blocks0 :: "bytes list" where
  "blocks0 = [[0x00, 0x00, 0x00, 0x55], [0x21, 0x80, 0x00, 0xA1], [0x21, 0xC3, 0x01, 0x05, 0xE6],
     [0x21, 0x20, 0x01, 0x90, 0x90], [0x21, 0x40, 0x01, 0x00, 0x60]]"

lemma ecom0_pending: "\<forall>b\<in>set bs. length b \<le> 259 \<Longrightarrow> usb_pending (ecom0 bs) bs"
  by (simp add: usb_pending_def ecom0_def)

lemma ecom0_t1: "ec_t1 (ecom0 bs) = (t1_reset t1_zero)\<lparr>t1_ifsc := 2\<rparr>"
  by (simp add: ecom0_def)

lemma CT_data_delivered_witness:
  "\<exists>response' ci'. cjecom_CT_data (ecom0 blocks0) 1 2 [0x20, 0x11, 0x00] [0, 0] = (0, 2, 2, 1, response', ci')
     \<and> take 2 response' = [0x90, 0x00] \<and> t1_nr (ec_t1 ci') = 0"
proof -
  have t: "t1_nr (ec_t1 (ecom0 blocks0)) = 0" "t1_ifsc (ec_t1 (ecom0 blocks0)) = 2"
    by (simp_all add: ecom0_t1 t1_reset_def t1_zero_def)
  have p: "parts (unat (t1_ifsc (ec_t1 (ecom0 blocks0)))) [0x20, 0x11, 0x00] = [[0x20, 0x11], [0x00]]"
    by (simp add: t parts_more parts_last)
  have b: "filter payload blocks0
      = [[0x21, 0x80, 0x00, 0xA1]] @ t1_chain 0x21 (t1_nr (ec_t1 (ecom0 blocks0))) [[0x90], [0x00]]"
    "payload (last blocks0)" "err_ok 0 blocks0" "wtx_total blocks0 \<le> 200"
    "\<forall>a\<in>set [[0x21, 0x80, 0x00, 0xA1]]. is_ack a"
    unfolding t by (simp_all add: blocks0_def payload_def cjT1CheckRc_def cjT1AppendRc_def is_notice_def i_pcb_def
        wtx_total_def wtx_of_def is_ack_def is_R_def)
  have ne: "blocks0 \<noteq> []" by (simp add: blocks0_def)
  have u: "usb_pending (ecom0 blocks0) (blocks0 @ [])"
    using ecom0_pending[of blocks0] by (simp add: blocks0_def)
  have "\<exists>response' ci' sent.
      cjecom_CT_data (ecom0 blocks0) 1 2 [0x20, 0x11, 0x00] [0, 0] =
        (0, length (concat [[0x90], [0x00 :: byte]]), drop_bit 4 0x21 AND 0x0F, 0x21 AND 0x0F, response', ci')
      \<and> take (length (concat [[0x90], [0x00 :: byte]])) response' = concat [[0x90], [0x00]]
      \<and> t1_nr (ec_t1 ci') = flips (length [[0x90], [0x00 :: byte]]) (t1_nr (ec_t1 (ecom0 blocks0)))"
    using CT_data_delivered[where idle = usb_pending and out = usb_out and dad = 1 and sad = 2
      and command = "[0x20, 0x11, 0x00]" and response = "[0, 0]", OF _ u ne b(2-4) b(1, 5)] p
    by (fastforce simp: t)
  moreover have "length (concat [[0x90], [0x00 :: byte]]) = 2" "concat [[0x90], [0x00]] = [0x90, 0x00 :: byte]"
    "drop_bit 4 (0x21 :: byte) AND 0x0F = 2" "(0x21 :: byte) AND 0x0F = 1"
    "flips (length [[0x90], [0x00 :: byte]]) 0 = 0" by simp_all
  ultimately show ?thesis unfolding t by metis
qed

lemma wrong_number_unbounded_witness:
  "case cjecom_CT_data (ecom0 (replicate 1000 [0x21, 0x40, 0x00, 0x61])) 1 2 [0x20, 0x11, 0x00, 0x00] [0, 0]
   of (rv, lenr, dad', sad', response', ci') \<Rightarrow> rv = -10 \<and> length (ec_waits ci') = 0 + 1000 + 4"
proof -
  let ?b = "[0x21, 0x40, 0x00, 0x61] :: bytes"
  have "usb_pending (ecom0 (replicate 1000 ?b)) (replicate 1000 ?b)" by (rule ecom0_pending) simp
  moreover have "cjT1CheckRc ?b" "is_I ?b" "\<not> is_R ?b" "cjT1GetN ?b = 1"
    by (simp_all add: cjT1CheckRc_def is_I_def is_R_def cjT1GetN_def)
  moreover have "length (ec_waits (ecom0 bs)) = 0" for bs by (simp add: ecom0_def)
  ultimately show ?thesis
    using wrong_number_unbounded[of "ecom0 (replicate 1000 ?b)" 1000 ?b "[0x20, 0x11, 0x00, 0x00]" 1 2 "[0, 0]"]
    by (simp add: ecom0_t1 t1_reset_def t1_zero_def)
qed

end
