(* ===== verification/CJ_Config.thy ===== *)
theory CJ_Config
  imports CJ_Prelude "HOL-Library.Char_ord" "HOL-Library.List_Lexorder"
begin

unbundle bit_operations_syntax

text \<open>
  The configuration of the driver, \<^verbatim>\<open>cjeca32/config.cpp\<close> and \<^verbatim>\<open>config_p.h\<close>: the parser and the writer
  of the configuration file, the variables, and the two readers of variables in
  \<^verbatim>\<open>cjeca32/Platform_unix.cpp\<close>.

  A file is the list of its characters; reading it does not fail.  \<open>cfg_world\<close> holds the global
  pointer \<^verbatim>\<open>_ctapi_config\<close>, the two files and what the environment answers.  The variables are a
  \<^verbatim>\<open>std::map\<close>: a list sorted by name, into which an insertion never replaces a value.
\<close>

section \<open>Data\<close>

record config =
  cf_flags :: u32
  cf_debugFile :: string
  cf_serialFile :: string
  cf_vars :: "(string \<times> string) list"

datatype cfg_group = GROUP_GENERIC | GROUP_VARS | GROUP_UNKNOWN

record cfg_world =
  cw_config :: "config option"
  cw_file :: "string option"
  cw_default :: "string option"
  cw_writable :: bool
  cw_closes :: bool
  cw_no_keybeep :: bool
  cw_ecom_kernel :: bool

section \<open>Characters and numbers of the C library\<close>

abbreviation (input) "newline \<equiv> CHR 0x0A"
abbreviation (input) "return \<equiv> CHR 0x0D"

definition isspace :: "char \<Rightarrow> bool" where
  "isspace c = (c \<in> set [CHR '' '', CHR 0x09, newline, CHR 0x0B, CHR 0x0C, return])"

definition tolower :: "char \<Rightarrow> char" where
  "tolower c = (if CHR ''A'' \<le> c \<and> c \<le> CHR ''Z'' then char_of (of_char c + 32 :: nat) else c)"

definition strcasecmp_eq :: "string \<Rightarrow> string \<Rightarrow> bool" where
  "strcasecmp_eq a b = (map tolower a = map tolower b)"

definition strncasecmp_eq :: "string \<Rightarrow> string \<Rightarrow> bool" where
  "strncasecmp_eq p b = strcasecmp_eq (take (length b) p) b"

definition digit_val :: "char \<Rightarrow> nat option" where
  "digit_val c =
     (if CHR ''0'' \<le> c \<and> c \<le> CHR ''9'' then Some (of_char c - 48)
      else if CHR ''a'' \<le> c \<and> c \<le> CHR ''f'' then Some (of_char c - 87)
      else if CHR ''A'' \<le> c \<and> c \<le> CHR ''F'' then Some (of_char c - 55)
      else None)"

text \<open>The digits at the front of a text, and their value.\<close>

definition is_digit_of :: "nat \<Rightarrow> char \<Rightarrow> bool" where
  "is_digit_of base c = (case digit_val c of Some d \<Rightarrow> d < base | None \<Rightarrow> False)"

definition number_of :: "nat \<Rightarrow> string \<Rightarrow> nat" where
  "number_of base s = foldl (\<lambda>n c. n * base + the (digit_val c)) 0 (takeWhile (is_digit_of base) s)"

definition sign_of :: "string \<Rightarrow> bool \<times> string" where
  "sign_of s = (if s \<noteq> [] \<and> hd s = CHR ''-'' then (True, tl s)
                else if s \<noteq> [] \<and> hd s = CHR ''+'' then (False, tl s) else (False, s))"

definition hex_prefix :: "string \<Rightarrow> bool" where
  "hex_prefix s = (2 \<le> length s \<and> s ! 0 = CHR ''0'' \<and> tolower (s ! 1) = CHR ''x'')"

text \<open>\<^verbatim>\<open>sscanf\<close> with \<^verbatim>\<open>%i\<close>: the number is converted as a \<^verbatim>\<open>long\<close>, with saturation, and stored as 32
  bits.\<close>

definition scan_int :: "string \<Rightarrow> u32 option" where
  "scan_int s =
     (let (neg, t) = sign_of (dropWhile isspace s);
          v = (if hex_prefix t then Some (number_of 16 (drop 2 t))
               else if t \<noteq> [] \<and> hd t = CHR ''0'' then Some (number_of 8 t)
               else if t \<noteq> [] \<and> is_digit_of 10 (hd t) then Some (number_of 10 t) else None) in
      map_option (\<lambda>n. if neg then - word_of_nat (min n (2 ^ 63)) else word_of_nat (min n (2 ^ 63 - 1))) v)"

text \<open>\<^verbatim>\<open>sscanf\<close> with \<^verbatim>\<open>%lu\<close>, stored as 32 bits.\<close>

definition scan_ulong :: "string \<Rightarrow> u32 option" where
  "scan_ulong s =
     (let (neg, t) = sign_of (dropWhile isspace s);
          n = min (number_of 10 t) (2 ^ 64 - 1) in
      if t \<noteq> [] \<and> is_digit_of 10 (hd t)
      then Some (if neg \<and> number_of 10 t = n then - word_of_nat n else word_of_nat n) else None)"

section \<open>Reading a file\<close>

fun fgets :: "nat \<Rightarrow> string \<Rightarrow> string \<times> string" where
  "fgets 0 s = ([], s)"
| "fgets (Suc n) [] = ([], [])"
| "fgets (Suc n) (c # s) =
     (if c = newline then ([c], s) else case fgets n s of (l, r) \<Rightarrow> (c # l, r))"

lemma fgets_length: "length (snd (fgets n s)) + length (fst (fgets n s)) = length s"
  by (induction n s rule: fgets.induct) (auto split: prod.splits)

lemma fgets_progress:
  assumes "0 < n" "s \<noteq> []"
  shows "length (snd (fgets n s)) < length s"
proof -
  have "fst (fgets n s) \<noteq> []" using assms by (cases n; cases s) (auto split: prod.splits)
  then show ?thesis using fgets_length[of n s] by (cases "fst (fgets n s)") auto
qed

function file_lines :: "string \<Rightarrow> string list" where
  "file_lines s = (if s = [] then [] else fst (fgets 255 s) # file_lines (snd (fgets 255 s)))"
  by auto
termination
  by (relation "measure length") (auto intro: fgets_progress)

declare file_lines.simps [simp del]

fun var_insert :: "string \<Rightarrow> string \<Rightarrow> (string \<times> string) list \<Rightarrow> (string \<times> string) list" where
  "var_insert k v [] = [(k, v)]"
| "var_insert k v ((k', v') # r) =
     (if k = k' then (k', v') # r else if k < k' then (k, v) # (k', v') # r
      else (k', v') # var_insert k v r)"

text \<open>A line without its end, its comment and its leading blanks.\<close>

definition line_text :: "string \<Rightarrow> string" where
  "line_text l =
     (let l = takeWhile (\<lambda>c. c \<noteq> CHR 0x00) l;
          l = (if l \<noteq> [] \<and> (last l = newline \<or> last l = return) then butlast l else l) in
      dropWhile isspace (takeWhile (\<lambda>c. c \<noteq> CHR ''#'') l))"

definition group_of :: "string \<Rightarrow> cfg_group" where
  "group_of p = (if strncasecmp_eq p ''[generic]'' then GROUP_GENERIC
                 else if strncasecmp_eq p ''[vars]'' then GROUP_VARS else GROUP_UNKNOWN)"

text \<open>Name and value of a line.\<close>

definition assignment :: "string \<Rightarrow> (string \<times> string) option" where
  "assignment p =
     (let name = takeWhile (\<lambda>c. \<not> isspace c \<and> c \<noteq> CHR ''='') p;
          q = dropWhile (\<lambda>c. \<not> isspace c \<and> c \<noteq> CHR ''='') p in
      if q = [] then None
      else let q = (if hd q \<noteq> CHR ''='' then dropWhile isspace (tl q) else q) in
        if q = [] \<or> hd q \<noteq> CHR ''='' then None
        else let v = dropWhile isspace (tl q) in
          if v = [] then None else Some (name, takeWhile (\<lambda>c. \<not> isspace c) v))"

definition assign :: "cfg_group \<Rightarrow> string \<Rightarrow> string \<Rightarrow> config \<Rightarrow> config" where
  "assign g name v c =
     (case g of
        GROUP_GENERIC \<Rightarrow>
          (if strcasecmp_eq name ''flags''
           then (case scan_int v of Some j \<Rightarrow> c\<lparr>cf_flags := j\<rparr> | None \<Rightarrow> c)
           else if strcasecmp_eq name ''debugFile'' then c\<lparr>cf_debugFile := v\<rparr>
           else if strcasecmp_eq name ''serialFile'' then c\<lparr>cf_serialFile := v\<rparr> else c)
      | GROUP_VARS \<Rightarrow> c\<lparr>cf_vars := var_insert name v (cf_vars c)\<rparr>
      | GROUP_UNKNOWN \<Rightarrow> c)"

definition config_line :: "string \<Rightarrow> cfg_group \<times> config \<Rightarrow> cfg_group \<times> config" where
  "config_line l gc =
     (let (g, c) = gc; p = line_text l in
      if p = [] then (g, c)
      else if hd p = CHR ''['' then (group_of p, c)
      else case assignment p of None \<Rightarrow> (g, c) | Some (name, v) \<Rightarrow> (g, assign g name v c))"

definition readConfig :: "string \<Rightarrow> config \<Rightarrow> config" where
  "readConfig f c = snd (fold config_line (file_lines f) (GROUP_GENERIC, c))"

definition config_read_file :: "cfg_world \<Rightarrow> config \<Rightarrow> config" where
  "config_read_file w c =
     (case cw_file w of Some f \<Rightarrow> readConfig f c
      | None \<Rightarrow> (case cw_default w of Some f \<Rightarrow> readConfig f c | None \<Rightarrow> c))"

section \<open>Writing a file\<close>

definition hex_digit :: "nat \<Rightarrow> char" where
  "hex_digit n = (if n < 10 then char_of (48 + n) else char_of (87 + n))"

fun hex_digits :: "nat \<Rightarrow> nat \<Rightarrow> string" where
  "hex_digits 0 n = []"
| "hex_digits (Suc k) n = hex_digits k (n div 16) @ [hex_digit (n mod 16)]"

definition write_line :: "string \<Rightarrow> string \<Rightarrow> string" where
  "write_line name v = name @ [CHR ''=''] @ v @ [newline]"

definition config_text :: "config \<Rightarrow> string" where
  "config_text c =
     ''# This file has been automatically created'' @ [newline]
     @ write_line ''flags'' (''0x'' @ hex_digits 8 (unat (cf_flags c)))
     @ (if cf_debugFile c \<noteq> [] then write_line ''debugFile'' (cf_debugFile c) else [])
     @ (if cf_serialFile c \<noteq> [] then write_line ''serialFile'' (cf_serialFile c) else [])
     @ (if cf_vars c \<noteq> []
        then [newline] @ ''[vars]'' @ [newline]
             @ concat (map (\<lambda>(n, v). if n \<noteq> [] \<and> v \<noteq> [] then write_line n v else []) (cf_vars c))
        else [])"

definition config_write_file :: "cfg_world \<Rightarrow> config \<Rightarrow> int \<times> cfg_world" where
  "config_write_file w c =
     (if \<not> cw_writable w then (-1, w)
      else (if cw_closes w then 0 else -1, w\<lparr>cw_file := Some (config_text c)\<rparr>))"

section \<open>The interface\<close>

definition rsct_config_init :: "cfg_world \<Rightarrow> int \<times> cfg_world" where
  "rsct_config_init w =
     (let c = \<lparr>cf_flags = (if cw_no_keybeep w then 0x00010000 else 0)
                          OR (if cw_ecom_kernel w then 0x00200000 else 0),
               cf_debugFile = ''/tmp/cj.log'', cf_serialFile = [], cf_vars = []\<rparr> in
      (0, w\<lparr>cw_config := Some (config_read_file w c)\<rparr>))"

definition rsct_config_fini :: "cfg_world \<Rightarrow> cfg_world" where
  "rsct_config_fini w = w\<lparr>cw_config := None\<rparr>"

definition rsct_config_save :: "cfg_world \<Rightarrow> int \<times> cfg_world" where
  "rsct_config_save w = (case cw_config w of Some c \<Rightarrow> config_write_file w c | None \<Rightarrow> (0, w))"

definition rsct_config_get_flags :: "cfg_world \<Rightarrow> u32" where
  "rsct_config_get_flags w = (case cw_config w of Some c \<Rightarrow> cf_flags c | None \<Rightarrow> 0)"

definition rsct_config_set_flags :: "u32 \<Rightarrow> cfg_world \<Rightarrow> cfg_world" where
  "rsct_config_set_flags i w = w\<lparr>cw_config := map_option (\<lambda>c. c\<lparr>cf_flags := i\<rparr>) (cw_config w)\<rparr>"

definition rsct_config_get_debug_output_level :: "u32" where
  "rsct_config_get_debug_output_level = 0xffffffff"

definition rsct_config_get_debug_filename :: "cfg_world \<Rightarrow> string option" where
  "rsct_config_get_debug_filename w =
     (case cw_config w of Some c \<Rightarrow> if cf_debugFile c = [] then None else Some (cf_debugFile c)
      | None \<Rightarrow> None)"

definition rsct_config_get_serial_filename :: "cfg_world \<Rightarrow> string option" where
  "rsct_config_get_serial_filename w =
     (case cw_config w of Some c \<Rightarrow> if cf_serialFile c = [] then None else Some (cf_serialFile c)
      | None \<Rightarrow> None)"

definition rsct_config_set_serial_filename :: "string option \<Rightarrow> cfg_world \<Rightarrow> cfg_world" where
  "rsct_config_set_serial_filename s w =
     w\<lparr>cw_config := map_option (\<lambda>c. c\<lparr>cf_serialFile := case s of None \<Rightarrow> [] | Some t \<Rightarrow> t\<rparr>) (cw_config w)\<rparr>"

definition rsct_config_set_var :: "string \<Rightarrow> string \<Rightarrow> cfg_world \<Rightarrow> cfg_world" where
  "rsct_config_set_var name val w =
     w\<lparr>cw_config := map_option (\<lambda>c. c\<lparr>cf_vars := var_insert name val (cf_vars c)\<rparr>) (cw_config w)\<rparr>"

definition rsct_config_get_var :: "string \<Rightarrow> cfg_world \<Rightarrow> string option" where
  "rsct_config_get_var name w =
     (case cw_config w of Some c \<Rightarrow> map_of (cf_vars c) name | None \<Rightarrow> None)"

definition rsct_get_package_version :: "cfg_world \<Rightarrow> string" where
  "rsct_get_package_version w =
     (case rsct_config_get_var ''PackageVersion'' w of
        Some s \<Rightarrow> if s \<noteq> [] then s else ''3.3.6'' | None \<Rightarrow> ''3.3.6'')"

definition rsct_get_environment :: "string \<Rightarrow> u32 \<Rightarrow> cfg_world \<Rightarrow> u32" where
  "rsct_get_environment name defval w =
     (case rsct_config_get_var name w of
        Some s \<Rightarrow> (if s \<noteq> [] then case scan_ulong s of Some v \<Rightarrow> v | None \<Rightarrow> defval else defval)
      | None \<Rightarrow> defval)"


section \<open>What is written is read back\<close>

text \<open>Texts a line can carry: without blanks, comment signs and ends of text.\<close>

definition plain :: "string \<Rightarrow> bool" where
  "plain s = (s \<noteq> [] \<and> (\<forall>c\<in>set s. \<not> isspace c \<and> c \<noteq> CHR ''#'' \<and> c \<noteq> CHR 0x00))"

definition plain_name :: "string \<Rightarrow> bool" where
  "plain_name s = (plain s \<and> CHR ''='' \<notin> set s \<and> hd s \<noteq> CHR ''['')"

definition config_ok :: "config \<Rightarrow> bool" where
  "config_ok c =
     ((cf_debugFile c = [] \<or> plain (cf_debugFile c) \<and> length (cf_debugFile c) \<le> 240)
      \<and> (cf_serialFile c = [] \<or> plain (cf_serialFile c) \<and> length (cf_serialFile c) \<le> 240)
      \<and> sorted_wrt (<) (map fst (cf_vars c))
      \<and> (\<forall>(n, v)\<in>set (cf_vars c). plain_name n \<and> plain v \<and> length n + length v \<le> 253))"

lemma isspace_simps: "isspace newline" "isspace (CHR '' '')" "\<not> isspace (CHR ''='')" "\<not> isspace (CHR ''['')"
  by (simp_all add: isspace_def)

lemma fgets_line: "newline \<notin> set l \<Longrightarrow> length l < k \<Longrightarrow> fgets k (l @ newline # r) = (l @ [newline], r)"
proof (induction l arbitrary: k)
  case Nil
  then show ?case by (cases k) auto
next
  case (Cons c l)
  then show ?case by (cases k) auto
qed

lemma file_lines_line:
  "newline \<notin> set l \<Longrightarrow> length l < 255 \<Longrightarrow> file_lines (l @ newline # r) = (l @ [newline]) # file_lines r"
  by (subst file_lines.simps) (simp add: fgets_line)

lemma line_text_plain:
  assumes "\<forall>c\<in>set l. c \<noteq> CHR 0x00 \<and> c \<noteq> CHR ''#''" "l = [] \<or> \<not> isspace (hd l)"
  shows "line_text (l @ [newline]) = l"
proof -
  have t: "takeWhile (\<lambda>c. c \<noteq> CHR 0x00) (l @ [newline]) = l @ [newline]"
    "takeWhile (\<lambda>c. c \<noteq> CHR ''#'') l = l" using assms(1) by (simp_all add: takeWhile_eq_all_conv)
  have "dropWhile isspace l = l" using assms(2) by (cases l) auto
  then show ?thesis unfolding line_text_def t(1) by (simp add: t(2))
qed

lemma plain_space: "plain s \<Longrightarrow> c \<in> set s \<Longrightarrow> \<not> isspace c"
  by (simp add: plain_def)

lemma assignment_plain:
  assumes "plain_name n" "plain v"
  shows "assignment (n @ CHR ''='' # v) = Some (n, v)"
proof -
  have n: "\<forall>c\<in>set n. \<not> isspace c \<and> c \<noteq> CHR ''=''" using assms(1) by (auto simp: plain_name_def plain_def)
  have "takeWhile (\<lambda>c. \<not> isspace c \<and> c \<noteq> CHR ''='') (n @ CHR ''='' # v) = n"
    "dropWhile (\<lambda>c. \<not> isspace c \<and> c \<noteq> CHR ''='') (n @ CHR ''='' # v) = CHR ''='' # v"
    using n by (simp_all add: takeWhile_append2 dropWhile_append2)
  moreover have "dropWhile isspace v = v" "takeWhile (\<lambda>c. \<not> isspace c) v = v" "v \<noteq> []"
    using assms(2) by (cases v; auto simp: plain_def takeWhile_eq_all_conv)+
  ultimately show ?thesis by (simp add: assignment_def Let_def)
qed

lemma write_line_read:
  assumes "plain_name n" "plain v" "length n + length v \<le> 253"
  shows "file_lines (write_line n v @ r) = write_line n v # file_lines r"
    "config_line (write_line n v) (g, c) = (g, assign g n v c)"
proof -
  have ne: "n \<noteq> []" "hd n \<noteq> CHR ''[''" using assms(1) by (auto simp: plain_name_def plain_def)
  have "newline \<notin> set (n @ CHR ''='' # v)"
    using assms(1, 2) plain_space isspace_simps(1) by (auto simp: plain_name_def)
  from file_lines_line[OF this, of r] assms(3)
  show "file_lines (write_line n v @ r) = write_line n v # file_lines r" by (simp add: write_line_def)
  have "line_text ((n @ CHR ''='' # v) @ [newline]) = n @ CHR ''='' # v"
    using assms(1, 2) ne by (intro line_text_plain) (auto simp: plain_name_def plain_def hd_append)
  then show "config_line (write_line n v) (g, c) = (g, assign g n v c)"
    using ne assignment_plain[OF assms(1, 2)] by (simp add: config_line_def write_line_def hd_append)
qed

subsection \<open>Numbers\<close>

lemma hex_digit_cases:
  assumes "d < 16"
  shows "digit_val (hex_digit d) = Some d" "\<not> isspace (hex_digit d)" "hex_digit d \<noteq> CHR ''#''" "hex_digit d \<noteq> CHR 0x00"
proof -
  have "list_all (\<lambda>d. digit_val (hex_digit d) = Some d \<and> \<not> isspace (hex_digit d)
      \<and> hex_digit d \<noteq> CHR ''#'' \<and> hex_digit d \<noteq> CHR 0x00) [0..<16]" by code_simp
  then show "digit_val (hex_digit d) = Some d" "\<not> isspace (hex_digit d)" "hex_digit d \<noteq> CHR ''#''"
    "hex_digit d \<noteq> CHR 0x00" using assms by (auto simp: list_all_iff)
qed

lemma hex_digits_props:
  "c \<in> set (hex_digits k n) \<Longrightarrow> is_digit_of 16 c \<and> \<not> isspace c \<and> c \<noteq> CHR ''#'' \<and> c \<noteq> CHR 0x00"
  by (induction k arbitrary: n) (auto simp: hex_digit_cases is_digit_of_def)

lemma length_hex_digits [simp]: "length (hex_digits k n) = k"
  by (induction k arbitrary: n) auto

lemma number_of_hex: "number_of 16 (hex_digits k n) = n mod 16 ^ k"
proof -
  have "foldl (\<lambda>n c. n * 16 + the (digit_val c)) 0 (hex_digits k n) = n mod 16 ^ k"
  proof (induction k arbitrary: n)
    case (Suc k)
    have "foldl (\<lambda>n c. n * 16 + the (digit_val c)) 0 (hex_digits (Suc k) n)
        = (n div 16) mod 16 ^ k * 16 + n mod 16"
      using Suc hex_digit_cases(1)[of "n mod 16"] by simp
    also have "\<dots> = n mod 16 ^ Suc k"
      using mod_mult2_eq[of n 16 "16 ^ k"] by (simp add: algebra_simps)
    finally show ?case .
  qed simp
  moreover have t: "takeWhile (is_digit_of 16) (hex_digits k n) = hex_digits k n"
    using hex_digits_props by (auto simp: takeWhile_eq_all_conv)
  ultimately show ?thesis unfolding number_of_def t by simp
qed

lemma scan_int_hex: "scan_int (''0x'' @ hex_digits 8 (unat w)) = Some w" for w :: u32
proof -
  have "unat w < 2 ^ 32" using u32_bound[of w] by simp
  then have "number_of 16 (hex_digits 8 (unat w)) = unat w" "min (unat w) (2 ^ 63 - 1) = unat w"
    by (simp_all add: number_of_hex)
  then show ?thesis
    by (simp add: scan_int_def isspace_def sign_of_def hex_prefix_def tolower_def Let_def)
qed

lemma plain_hex: "plain (''0x'' @ hex_digits 8 n)"
  using hex_digits_props by (auto simp: plain_def isspace_def)

subsection \<open>Variables\<close>

lemma var_insert_last:
  "sorted_wrt (<) (map fst (xs @ [(k, v)])) \<Longrightarrow> var_insert k v xs = xs @ [(k, v)]"
proof (induction xs)
  case (Cons a xs)
  obtain k' v' where a: "a = (k', v')" by fastforce
  have "k' < k" using Cons.prems by (simp add: a)
  then have "k \<noteq> k'" "\<not> k < k'" by auto
  then show ?case using Cons by (simp add: a)
qed simp

lemma vars_read:
  "sorted_wrt (<) (map fst (xs @ vs)) \<Longrightarrow> cf_vars c = xs
   \<Longrightarrow> (\<forall>(n, v)\<in>set vs. plain_name n \<and> plain v \<and> length n + length v \<le> 253)
   \<Longrightarrow> fold config_line (file_lines (concat (map (\<lambda>(n, v). if n \<noteq> [] \<and> v \<noteq> [] then write_line n v else []) vs)))
         (GROUP_VARS, c) = (GROUP_VARS, c\<lparr>cf_vars := xs @ vs\<rparr>)"
proof (induction vs arbitrary: xs c)
  case Nil
  then show ?case by (cases c) (simp add: file_lines.simps)
next
  case (Cons a vs)
  obtain n v where a: "a = (n, v)" by fastforce
  then have p: "plain_name n" "plain v" "length n + length v \<le> 253" using Cons.prems(3) by auto
  then have ne: "n \<noteq> []" "v \<noteq> []" by (auto simp: plain_name_def plain_def)
  have "sorted_wrt (<) (map fst (xs @ [(n, v)]))" using Cons.prems(1) by (auto simp: a sorted_wrt_append)
  then have i: "var_insert n v xs = xs @ [(n, v)]" by (rule var_insert_last)
  from Cons.IH[of "xs @ [(n, v)]" "c\<lparr>cf_vars := xs @ [(n, v)]\<rparr>"] Cons.prems show ?case
    by (simp add: a ne write_line_read[OF p] assign_def i)
qed

subsection \<open>The whole file\<close>

lemma plain_names: "plain_name ''flags''" "plain_name ''debugFile''" "plain_name ''serialFile''"
  by (auto simp: plain_name_def plain_def isspace_def)

lemma assign_generic:
  "assign GROUP_GENERIC ''flags'' (''0x'' @ hex_digits 8 (unat w)) c = c\<lparr>cf_flags := w\<rparr>"
  "assign GROUP_GENERIC ''debugFile'' v c = c\<lparr>cf_debugFile := v\<rparr>"
  "assign GROUP_GENERIC ''serialFile'' v c = c\<lparr>cf_serialFile := v\<rparr>"
  using scan_int_hex[of w] by (simp_all add: assign_def strcasecmp_eq_def tolower_def)


text \<open>One step of the reader per line of the file.\<close>

definition read_on :: "string \<Rightarrow> cfg_group \<times> config \<Rightarrow> config" where
  "read_on f gc = snd (fold config_line (file_lines f) gc)"

lemma read_on_header:
  "read_on (''# This file has been automatically created'' @ [newline] @ r) gc = read_on r gc"
proof -
  have "line_text (''# This file has been automatically created'' @ [newline]) = []" by code_simp
  then show ?thesis
    using file_lines_line[of "''# This file has been automatically created''" r]
    by (simp add: read_on_def config_line_def Let_def split: prod.splits)
qed

lemma read_on_line:
  assumes "plain_name n" "plain v" "length n + length v \<le> 253"
  shows "read_on (write_line n v @ r) (g, c) = read_on r (g, assign g n v c)"
  by (simp add: read_on_def write_line_read[OF assms])

lemma read_on_vars_group:
  "read_on ([newline] @ ''[vars]'' @ [newline] @ r) (g, c) = read_on r (GROUP_VARS, c)"
proof -
  have l: "line_text [newline] = []" "line_text (''[vars]'' @ [newline]) = ''[vars]''"
    "group_of ''[vars]'' = GROUP_VARS" by code_simp+
  have "file_lines (newline # ''[vars]'' @ newline # r) = [newline] # (''[vars]'' @ [newline]) # file_lines r"
    using file_lines_line[of "[]"] file_lines_line[of "''[vars]''"] by simp
  then show ?thesis using l by (simp add: read_on_def config_line_def)
qed

lemma read_on_file_name:
  assumes "s = [] \<or> plain s \<and> length s \<le> 240" "plain_name n" "length n \<le> 10"
  shows "read_on ((if s \<noteq> [] then write_line n s else []) @ r) (g, c)
    = read_on r (g, if s \<noteq> [] then assign g n s c else c)"
  using assms read_on_line[of n s r g c] by auto

lemma readConfig_text:
  assumes "config_ok c" "cf_vars c0 = []"
  shows "readConfig (config_text c) c0 =
    c\<lparr>cf_debugFile := if cf_debugFile c = [] then cf_debugFile c0 else cf_debugFile c,
      cf_serialFile := if cf_serialFile c = [] then cf_serialFile c0 else cf_serialFile c\<rparr>"
proof -
  define vt where "vt = (if cf_vars c \<noteq> [] then [newline] @ ''[vars]'' @ [newline]
     @ concat (map (\<lambda>(n, v). if n \<noteq> [] \<and> v \<noteq> [] then write_line n v else []) (cf_vars c)) else [])"
  define c1 where "c1 = c0\<lparr>cf_flags := cf_flags c\<rparr>"
  define c2 where "c2 = (if cf_debugFile c \<noteq> [] then c1\<lparr>cf_debugFile := cf_debugFile c\<rparr> else c1)"
  define c3 where "c3 = (if cf_serialFile c \<noteq> [] then c2\<lparr>cf_serialFile := cf_serialFile c\<rparr> else c2)"
  have ok: "cf_debugFile c = [] \<or> plain (cf_debugFile c) \<and> length (cf_debugFile c) \<le> 240"
    "cf_serialFile c = [] \<or> plain (cf_serialFile c) \<and> length (cf_serialFile c) \<le> 240"
    "sorted_wrt (<) (map fst (cf_vars c))"
    "\<forall>(n, v)\<in>set (cf_vars c). plain_name n \<and> plain v \<and> length n + length v \<le> 253"
    using assms(1) by (simp_all add: config_ok_def)
  have v: "read_on vt (GROUP_GENERIC, c3) = c3\<lparr>cf_vars := cf_vars c\<rparr>"
  proof (cases "cf_vars c = []")
    case True
    then show ?thesis using assms(2)
      by (cases c0) (simp add: vt_def read_on_def file_lines.simps c3_def c2_def c1_def)
  next
    case False
    have "cf_vars c3 = []" using assms(2) by (simp add: c3_def c2_def c1_def)
    with vars_read[of "[]" "cf_vars c" c3] ok(3, 4)
    have "read_on (concat (map (\<lambda>(n, v). if n \<noteq> [] \<and> v \<noteq> [] then write_line n v else []) (cf_vars c)))
        (GROUP_VARS, c3) = c3\<lparr>cf_vars := cf_vars c\<rparr>" by (simp add: read_on_def)
    with False show ?thesis unfolding vt_def using read_on_vars_group by simp
  qed
  have ct: "config_text c = ''# This file has been automatically created'' @ [newline]
     @ write_line ''flags'' (''0x'' @ hex_digits 8 (unat (cf_flags c)))
     @ (if cf_debugFile c \<noteq> [] then write_line ''debugFile'' (cf_debugFile c) else [])
     @ (if cf_serialFile c \<noteq> [] then write_line ''serialFile'' (cf_serialFile c) else []) @ vt"
    unfolding config_text_def vt_def by (rule refl)
  have "readConfig (config_text c) c0 = read_on vt (GROUP_GENERIC, c3)"
    unfolding readConfig_def read_on_def[symmetric] ct read_on_header
    using read_on_file_name[OF ok(1) plain_names(2)] read_on_file_name[OF ok(2) plain_names(3)]
    by (simp add: read_on_line[OF plain_names(1) plain_hex] assign_generic c1_def c2_def c3_def
        del: append.simps append_Cons append_Nil)
  then show ?thesis using assms(2) by (cases c; cases c0) (simp add: v, simp add: c1_def c2_def c3_def)
qed

subsection \<open>The table of variables\<close>

text \<open>Setting a variable keeps the table sorted; a variable that is set already keeps its value.\<close>

lemma var_insert_keys: "set (map fst (var_insert k v xs)) = insert k (set (map fst xs))"
  by (induction k v xs rule: var_insert.induct) (auto simp del: set_map simp: list.set_map[symmetric] split: if_splits)

lemma var_insert_sorted:
  "sorted_wrt (<) (map fst xs) \<Longrightarrow> sorted_wrt (<) (map fst (var_insert k v xs))"
proof (induction xs)
  case (Cons a xs)
  obtain k' v' where a: "a = (k', v')" by fastforce
  have "\<forall>y\<in>set (map fst (var_insert k v xs)). k' < y" if "\<not> k < k'" "k \<noteq> k'"
    using that Cons.prems unfolding var_insert_keys by (auto simp: a)
  then show ?case using Cons by (auto simp: a)
qed simp

lemma var_insert_lookup:
  "sorted_wrt (<) (map fst xs) \<Longrightarrow>
     map_of (var_insert k v xs) n = (if n = k \<and> map_of xs k = None then Some v else map_of xs n)"
proof (induction xs)
  case (Cons a xs)
  obtain k' v' where a: "a = (k', v')" by fastforce
  have "map_of xs k = None" if "k < k'"
    using that Cons.prems by (fastforce simp: a map_of_eq_None_iff)
  then show ?case using Cons by (auto simp: a)
qed simp

lemma set_var_get_var:
  assumes "cw_config w = Some c" "config_ok c"
  shows "rsct_config_get_var n (rsct_config_set_var k v w) =
    (if n = k \<and> rsct_config_get_var k w = None then Some v else rsct_config_get_var n w)"
  using assms var_insert_lookup[of "cf_vars c" k v n]
  by (simp add: rsct_config_get_var_def rsct_config_set_var_def config_ok_def)

lemma set_var_config_ok:
  assumes "config_ok c" "plain_name k" "plain v" "length k + length v \<le> 253"
  shows "config_ok (c\<lparr>cf_vars := var_insert k v (cf_vars c)\<rparr>)"
proof -
  have "set (var_insert k v xs) \<subseteq> insert (k, v) (set xs)" for xs
    by (induction k v xs rule: var_insert.induct) (auto split: if_splits)
  then have "\<forall>(n, v)\<in>set (var_insert k v (cf_vars c)). plain_name n \<and> plain v \<and> length n + length v \<le> 253"
    using assms by (fastforce simp: config_ok_def)
  then show ?thesis using assms(1) var_insert_sorted[of "cf_vars c" k v] by (simp add: config_ok_def)
qed

section \<open>Properties\<close>

text \<open>Property C22.  What one program saves, the next one reads: after \<open>rsct_config_save\<close> has succeeded,
  \<open>rsct_config_init\<close> restores flags, file names and all variables, whatever the environment variables
  of that program say, provided the texts fit into lines of the file (no blanks, no comment sign, at
  most 253 characters).  Only an empty name of the log file is not kept: it becomes the default.\<close>

theorem config_roundtrip:
  assumes "cw_config w = Some c" "config_ok c" "rsct_config_save w = (0, w1)"
  shows "rsct_config_init ((rsct_config_fini w1)\<lparr>cw_no_keybeep := a, cw_ecom_kernel := b\<rparr>) =
    (0, w1\<lparr>cw_config := Some (if cf_debugFile c = [] then c\<lparr>cf_debugFile := ''/tmp/cj.log''\<rparr> else c),
           cw_no_keybeep := a, cw_ecom_kernel := b\<rparr>)"
proof -
  have w: "cw_file w1 = Some (config_text c)" using assms(1, 3)
    by (auto simp: rsct_config_save_def config_write_file_def split: if_splits)
  define c0 where "c0 = \<lparr>cf_flags = (if a then 0x00010000 else 0) OR (if b then 0x00200000 else 0),
    cf_debugFile = ''/tmp/cj.log'', cf_serialFile = [], cf_vars = []\<rparr>"
  have c0: "cf_vars c0 = []" "cf_debugFile c0 = ''/tmp/cj.log''" "cf_serialFile c0 = []" by (simp_all add: c0_def)
  have "readConfig (config_text c) c0 = (if cf_debugFile c = [] then c\<lparr>cf_debugFile := ''/tmp/cj.log''\<rparr> else c)"
    unfolding readConfig_text[OF assms(2) c0(1)] c0 by (cases c) simp
  then show ?thesis
    unfolding rsct_config_init_def rsct_config_fini_def config_read_file_def
    by (simp add: w Let_def c0_def[symmetric])
qed


definition config0 :: config where
  "config0 = \<lparr>cf_flags = 0x00250001, cf_debugFile = ''/var/log/cj.log'', cf_serialFile = [],
     cf_vars = [(''ReaderShift'', ''12''), (''title'', ''a=b'')]\<rparr>"

definition world0 :: cfg_world where
  "world0 = \<lparr>cw_config = Some config0, cw_file = None, cw_default = None, cw_writable = True,
     cw_closes = True, cw_no_keybeep = False, cw_ecom_kernel = False\<rparr>"

lemma config_roundtrip_witness:
  "\<exists>w1. rsct_config_save world0 = (0, w1)
     \<and> rsct_config_init ((rsct_config_fini w1)\<lparr>cw_no_keybeep := True, cw_ecom_kernel := False\<rparr>)
       = (0, w1\<lparr>cw_config := Some config0, cw_no_keybeep := True, cw_ecom_kernel := False\<rparr>)"
proof -
  have "config_ok config0" by code_simp
  moreover have "cw_config world0 = Some config0" by (simp add: world0_def)
  moreover obtain w1 where w: "rsct_config_save world0 = (0, w1)"
    by (simp add: rsct_config_save_def world0_def config_write_file_def)
  moreover have "cf_debugFile config0 \<noteq> []" by (simp add: config0_def)
  ultimately show ?thesis using config_roundtrip[of world0 config0 w1, where a = True and b = False] by auto
qed

end
