(* ===== verification/CJ_Ports.thy ===== *)
theory CJ_Ports
  imports CJ_Config
begin

text \<open>
  The file of serial numbers in \<^verbatim>\<open>cjeca32/ausb/usbdev.c\<close>, which gives every reader that was ever
  connected a port number: the number of the line its serial number is on.  The file is the list of
  its characters, or absent; reading it does not fail.
\<close>

section \<open>Operations\<close>

text \<open>The fields of \<^verbatim>\<open>rsct_usbdev_t\<close> that the library uses.\<close>

record usb_entry =
  ue_vendor :: u32
  ue_product :: u32
  ue_bus :: u32
  ue_pos :: u32
  ue_serial :: string
  ue_udi :: string
  ue_port :: int
  ue_path :: string
  ue_halPath :: string

definition serial_line :: "string \<Rightarrow> string" where
  "serial_line l = (let l = takeWhile (\<lambda>c. c \<noteq> CHR 0x00) l in
     if l \<noteq> [] \<and> last l = newline then butlast l else l)"

definition serials_of :: "string \<Rightarrow> string list" where
  "serials_of f = map serial_line (file_lines f)"

text \<open>The line of a port: result and the serial number that was stored.\<close>

definition rsct_get_serial_for_port :: "int \<Rightarrow> string option \<Rightarrow> nat \<Rightarrow> int \<times> string option" where
  "rsct_get_serial_for_port port f blen =
     (case f of None \<Rightarrow> (-1, None)
      | Some s \<Rightarrow>
          (if 1 \<le> port \<and> port \<le> int (length (serials_of s))
           then (let l = serials_of s ! (nat port - 1) in
                 if blen < length l + 1 then (-1, None) else (0, Some l))
           else (1, None)))"

fun find_serial :: "string \<Rightarrow> int \<Rightarrow> string list \<Rightarrow> int" where
  "find_serial serial idx [] = 0"
| "find_serial serial idx (l # ls) =
     (if strcasecmp_eq serial l then idx else find_serial serial (idx + 1) ls)"

definition rsct_get_port_for_serial :: "string option \<Rightarrow> string \<Rightarrow> int" where
  "rsct_get_port_for_serial f serial =
     (case f of None \<Rightarrow> 0 | Some s \<Rightarrow> find_serial serial 1 (serials_of s))"

text \<open>\<open>writable\<close> says whether the file can be opened for appending and closed without an error.\<close>

fun rsct_enum_serials_with_devs :: "bool \<Rightarrow> string option \<Rightarrow> usb_entry list \<Rightarrow> int \<times> string option" where
  "rsct_enum_serials_with_devs writable f [] = (0, f)"
| "rsct_enum_serials_with_devs writable f (d # ds) =
     (if ue_vendor d = 0xc4b \<and> ue_serial d \<noteq> [] \<and> rsct_get_port_for_serial f (ue_serial d) = 0
      then (if \<not> writable then (-1, f)
            else rsct_enum_serials_with_devs writable
                   (Some ((case f of None \<Rightarrow> [] | Some s \<Rightarrow> s) @ ue_serial d @ [newline])) ds)
      else rsct_enum_serials_with_devs writable f ds)"

text \<open>Scanning the bus is an argument: its code and the list of devices.  The searches below scan the bus
  and keep the entry they find.\<close>

definition rsct_enum_serials :: "int \<times> usb_entry list \<Rightarrow> bool \<Rightarrow> string option \<Rightarrow> int \<times> string option" where
  "rsct_enum_serials scan writable f =
     (case scan of (rv, devs) \<Rightarrow> if rv \<noteq> 0 then (rv, f) else rsct_enum_serials_with_devs writable f devs)"

definition rsct_usbdev_list_findByBus :: "usb_entry list \<Rightarrow> u32 \<Rightarrow> u32 \<Rightarrow> usb_entry option" where
  "rsct_usbdev_list_findByBus devs busId busPos = find (\<lambda>d. ue_bus d = busId \<and> ue_pos d = busPos) devs"

definition rsct_usbdev_list_findByUDI :: "usb_entry list \<Rightarrow> string \<Rightarrow> usb_entry option" where
  "rsct_usbdev_list_findByUDI devs devName = find (\<lambda>d. strcasecmp_eq (ue_udi d) devName) devs"

definition rsct_usbdev_getDevByIdx :: "int \<times> usb_entry list \<Rightarrow> int \<Rightarrow> usb_entry option" where
  "rsct_usbdev_getDevByIdx scan num =
     (case scan of (rv, devs) \<Rightarrow>
        if rv < 0 \<or> num < 0 \<or> int (length devs) \<le> num then None else Some (devs ! nat num))"

definition rsct_usbdev_getDevByBusPos :: "int \<times> usb_entry list \<Rightarrow> u32 \<Rightarrow> u32 \<Rightarrow> usb_entry option" where
  "rsct_usbdev_getDevByBusPos scan busId devId =
     (case scan of (rv, devs) \<Rightarrow> if rv < 0 then None else rsct_usbdev_list_findByBus devs busId devId)"

definition rsct_usbdev_getDevByName :: "int \<times> usb_entry list \<Rightarrow> string \<Rightarrow> usb_entry option" where
  "rsct_usbdev_getDevByName scan devName =
     (case scan of (rv, devs) \<Rightarrow>
        if rv < 0 then None
        else find (\<lambda>d. strcasecmp_eq (ue_halPath d) devName \<or> strcasecmp_eq (ue_path d) devName) devs)"

section \<open>Lines are only added\<close>

definition whole_lines :: "string \<Rightarrow> bool" where
  "whole_lines f \<longleftrightarrow> f = [] \<or> last f = newline"

lemma fgets_append:
  "0 < n \<Longrightarrow> f \<noteq> [] \<Longrightarrow> last f = newline \<Longrightarrow>
     fst (fgets n (f @ g)) = fst (fgets n f) \<and> snd (fgets n (f @ g)) = snd (fgets n f) @ g
     \<and> whole_lines (snd (fgets n f))"
proof (induction n f rule: fgets.induct)
  case (3 n c s)
  show ?case
  proof (cases "c = newline")
    case True
    with 3(4) show ?thesis by (auto simp: whole_lines_def split: if_splits)
  next
    case False
    with 3(4) have s: "s \<noteq> []" "last s = newline" by (auto split: if_splits)
    show ?thesis
    proof (cases n)
      case 0
      with False s show ?thesis by (auto simp: whole_lines_def)
    next
      case (Suc m)
      with 3(1)[OF False] s False show ?thesis by (auto split: prod.splits)
    qed
  qed
qed auto

lemma file_lines_append: "whole_lines f \<Longrightarrow> file_lines (f @ g) = file_lines f @ file_lines g"
proof (induction f rule: file_lines.induct)
  case (1 f)
  show ?case
  proof (cases "f = []")
    case True
    then show ?thesis by (simp add: file_lines.simps[of "[]"])
  next
    case False
    with 1(2) have l: "last f = newline" by (simp add: whole_lines_def)
    note a = fgets_append[of 255 f g, OF _ False l, simplified]
    from 1(1)[OF False] a show ?thesis using False
      by (simp add: file_lines.simps[of "f @ g"] file_lines.simps[of f])
  qed
qed

text \<open>Serial numbers that fit the field of the device entry and a line.\<close>

definition serial_ok :: "string \<Rightarrow> bool" where
  "serial_ok s \<longleftrightarrow> length s < 127 \<and> newline \<notin> set s \<and> CHR 0x00 \<notin> set s"

lemma serials_append:
  assumes "whole_lines f" "serial_ok s"
  shows "serials_of (f @ s @ [newline]) = serials_of f @ [s]" "whole_lines (f @ s @ [newline])"
proof -
  have "file_lines (s @ [newline]) = [s @ [newline]]"
    using file_lines_line[of s "[]"] assms(2) by (simp add: serial_ok_def file_lines.simps[of "[]"])
  moreover have "serial_line (s @ [newline]) = s"
  proof -
    have t: "takeWhile (\<lambda>c. c \<noteq> CHR 0x00) (s @ [newline]) = s @ [newline]"
      using assms(2) by (auto simp: takeWhile_eq_all_conv serial_ok_def)
    show ?thesis unfolding serial_line_def t by simp
  qed
  ultimately show "serials_of (f @ s @ [newline]) = serials_of f @ [s]"
    by (simp add: serials_of_def file_lines_append[OF assms(1)])
qed (simp add: whole_lines_def)

lemma find_serial_append:
  "0 < i \<Longrightarrow> find_serial s i (ls @ ms) =
     (if find_serial s i ls \<noteq> 0 then find_serial s i ls else find_serial s (i + int (length ls)) ms)"
  by (induction ls arbitrary: i) (auto simp: algebra_simps)

lemma find_serial_found:
  "0 < i \<Longrightarrow> find_serial s i ls \<noteq> 0 \<Longrightarrow>
     i \<le> find_serial s i ls \<and> find_serial s i ls < i + int (length ls)
     \<and> strcasecmp_eq s (ls ! nat (find_serial s i ls - i))"
proof (induction ls arbitrary: i)
  case (Cons l ls)
  show ?case
  proof (cases "strcasecmp_eq s l")
    case False
    with Cons.prems have f: "0 < i + 1" "find_serial s (i + 1) ls \<noteq> 0" by simp_all
    define j where "j = find_serial s (i + 1) ls"
    from Cons.IH[OF f] have j: "i + 1 \<le> j" "j < i + 1 + int (length ls)" "strcasecmp_eq s (ls ! nat (j - (i + 1)))"
      by (simp_all add: j_def)
    then have "nat (j - i) = Suc (nat (j - (i + 1)))" by linarith
    with j False show ?thesis by (simp add: j_def[symmetric])
  qed simp
qed simp

definition lines_of :: "string option \<Rightarrow> string" where
  "lines_of f = (case f of None \<Rightarrow> [] | Some s \<Rightarrow> s)"

lemma port_for_serial: "rsct_get_port_for_serial f s = find_serial s 1 (serials_of (lines_of f))"
  by (auto simp: rsct_get_port_for_serial_def lines_of_def serials_of_def file_lines.simps[of "[]"] split: option.splits)

text \<open>What enumeration adds to the file.\<close>

lemma enum_serials_adds:
  assumes "rsct_enum_serials_with_devs True f ds = (rv, f')" "whole_lines (lines_of f)"
    "\<forall>d\<in>set ds. ue_vendor d = 0xc4b \<longrightarrow> serial_ok (ue_serial d)"
  shows "rv = 0 \<and> whole_lines (lines_of f') \<and> (\<exists>new. serials_of (lines_of f') = serials_of (lines_of f) @ new
      \<and> (\<forall>s\<in>set new. length s < 127))
    \<and> (\<forall>d\<in>set ds. ue_vendor d = 0xc4b \<and> ue_serial d \<noteq> [] \<longrightarrow> rsct_get_port_for_serial f' (ue_serial d) \<noteq> 0)"
  using assms
proof (induction ds arbitrary: f)
  case Nil
  then show ?case by auto
next
  case (Cons d ds)
  have ok: "\<forall>d\<in>set ds. ue_vendor d = 0xc4b \<longrightarrow> serial_ok (ue_serial d)" using Cons.prems(3) by simp
  have keep: "rsct_get_port_for_serial f' s \<noteq> 0" if "serials_of (lines_of f') = serials_of (lines_of g) @ new"
    "rsct_get_port_for_serial g s \<noteq> 0" for g new s
    using that by (simp add: port_for_serial find_serial_append)
  show ?case
  proof (cases "ue_vendor d = 0xc4b \<and> ue_serial d \<noteq> [] \<and> rsct_get_port_for_serial f (ue_serial d) = 0")
    case True
    define g where "g = Some (lines_of f @ ue_serial d @ [newline])"
    have e: "rsct_enum_serials_with_devs True g ds = (rv, f')"
      using Cons.prems(1) True by (simp add: g_def lines_of_def)
    have sok: "serial_ok (ue_serial d)" using Cons.prems(3) True by simp
    have sg: "serials_of (lines_of g) = serials_of (lines_of f) @ [ue_serial d]" "whole_lines (lines_of g)"
      using serials_append[OF Cons.prems(2) sok] by (simp_all add: g_def lines_of_def)
    have pg: "rsct_get_port_for_serial g (ue_serial d) \<noteq> 0"
      by (simp add: port_for_serial sg find_serial_append strcasecmp_eq_def)
    from Cons.IH[OF e sg(2) ok] obtain new where n: "rv = 0" "whole_lines (lines_of f')"
      "serials_of (lines_of f') = serials_of (lines_of g) @ new" "\<forall>s\<in>set new. length s < 127"
      "\<forall>d\<in>set ds. ue_vendor d = 0xc4b \<and> ue_serial d \<noteq> [] \<longrightarrow> rsct_get_port_for_serial f' (ue_serial d) \<noteq> 0"
      by blast
    moreover have "length (ue_serial d) < 127" using sok by (simp add: serial_ok_def)
    ultimately show ?thesis using keep[OF n(3) pg] sg(1) by (auto intro!: exI[of _ "ue_serial d # new"])
  next
    case False
    then have e: "rsct_enum_serials_with_devs True f ds = (rv, f')" using Cons.prems(1) by (auto split: if_splits)
    from Cons.IH[OF e Cons.prems(2) ok] obtain new where n: "rv = 0" "whole_lines (lines_of f')"
      "serials_of (lines_of f') = serials_of (lines_of f) @ new" "\<forall>s\<in>set new. length s < 127"
      "\<forall>d\<in>set ds. ue_vendor d = 0xc4b \<and> ue_serial d \<noteq> [] \<longrightarrow> rsct_get_port_for_serial f' (ue_serial d) \<noteq> 0"
      by blast
    then show ?thesis using keep[OF n(3)] False by auto
  qed
qed

section \<open>Properties\<close>

text \<open>Property C23.  Ports are stable: enumerating the connected devices, whose file can be written and
  consists of whole lines, keeps the port of every reader that had one, gives every connected reader
  a port, and looking up a port of a connected reader finds its serial number again (up to the case
  of letters, which the comparison ignores).\<close>

theorem ports_stable:
  assumes "whole_lines (lines_of f)" "\<forall>l\<in>set (serials_of (lines_of f)). length l < 127"
    "\<forall>d\<in>set devs. ue_vendor d = 0xc4b \<longrightarrow> serial_ok (ue_serial d)"
    "rsct_enum_serials_with_devs True f devs = (rv, f')"
  shows "rv = 0
    \<and> (\<forall>s. rsct_get_port_for_serial f s \<noteq> 0 \<longrightarrow> rsct_get_port_for_serial f' s = rsct_get_port_for_serial f s)
    \<and> (\<forall>d\<in>set devs. ue_vendor d = 0xc4b \<and> ue_serial d \<noteq> [] \<longrightarrow>
         (\<exists>port s. rsct_get_port_for_serial f' (ue_serial d) = port \<and> 1 \<le> port
            \<and> rsct_get_serial_for_port port f' 127 = (0, Some s) \<and> strcasecmp_eq (ue_serial d) s))"
proof -
  from enum_serials_adds[OF assms(4, 1, 3)] obtain new where n: "rv = 0"
    "serials_of (lines_of f') = serials_of (lines_of f) @ new" "\<forall>s\<in>set new. length s < 127"
    "\<forall>d\<in>set devs. ue_vendor d = 0xc4b \<and> ue_serial d \<noteq> [] \<longrightarrow> rsct_get_port_for_serial f' (ue_serial d) \<noteq> 0"
    by blast
  have short: "\<forall>l\<in>set (serials_of (lines_of f')). length l < 127" using n(2, 3) assms(2) by auto
  have found: "\<exists>port s. rsct_get_port_for_serial f' t = port \<and> 1 \<le> port
      \<and> rsct_get_serial_for_port port f' 127 = (0, Some s) \<and> strcasecmp_eq t s"
    if ne: "rsct_get_port_for_serial f' t \<noteq> 0" for t
  proof -
    define p where "p = rsct_get_port_for_serial f' t"
    from find_serial_found[of 1 t "serials_of (lines_of f')"] that
    have p: "1 \<le> p" "p \<le> int (length (serials_of (lines_of f')))"
      "strcasecmp_eq t (serials_of (lines_of f') ! nat (p - 1))" by (simp_all add: p_def port_for_serial)
    obtain c where c: "f' = Some c" using ne by (cases f') (simp_all add: rsct_get_port_for_serial_def)
    have "nat p - 1 = nat (p - 1)" using p(1) by simp
    moreover have "length (serials_of c ! nat (p - 1)) < 127"
      using short p(1, 2) by (simp add: c lines_of_def)
    ultimately have "rsct_get_serial_for_port p f' 127 = (0, Some (serials_of c ! nat (p - 1)))"
      using p by (simp add: rsct_get_serial_for_port_def c lines_of_def Let_def)
    then show ?thesis using p unfolding p_def[symmetric] by (auto simp: c lines_of_def)
  qed
  show ?thesis using n found by (auto simp: port_for_serial find_serial_append)
qed

definition file0 :: string where "file0 = ''0123'' @ [newline] @ ''4711'' @ [newline]"

definition device0 :: usb_entry where
  "device0 = \<lparr>ue_vendor = 0xc4b, ue_product = 0x400, ue_bus = 1, ue_pos = 7, ue_serial = ''AB9'',
     ue_udi = [], ue_port = -1, ue_path = [], ue_halPath = []\<rparr>"

lemma ports_stable_witness:
  "\<exists>f'. rsct_enum_serials_with_devs True (Some file0) [device0] = (0, f')
     \<and> rsct_get_port_for_serial f' ''4711'' = 2
     \<and> (\<exists>port s. rsct_get_port_for_serial f' ''AB9'' = port \<and> 1 \<le> port
          \<and> rsct_get_serial_for_port port f' 127 = (0, Some s) \<and> strcasecmp_eq ''AB9'' s)"
proof -
  obtain rv f' where e: "rsct_enum_serials_with_devs True (Some file0) [device0] = (rv, f')" by fastforce
  have s: "serials_of file0 = [''0123'', ''4711'']"
    using serials_append[of "[]" "''0123''"] serials_append[of "''0123'' @ [newline]" "''4711''"]
    by (simp add: whole_lines_def serial_ok_def file0_def serials_of_def file_lines.simps[of "[]"])
  have p: "rsct_get_port_for_serial (Some file0) ''4711'' = 2"
    by (simp add: rsct_get_port_for_serial_def s strcasecmp_eq_def tolower_def)
  have "whole_lines (lines_of (Some file0))" by (simp add: whole_lines_def lines_of_def file0_def)
  moreover have "\<forall>l\<in>set (serials_of (lines_of (Some file0))). length l < 127" by (simp add: lines_of_def s)
  moreover have "\<forall>d\<in>set [device0]. ue_vendor d = 0xc4b \<longrightarrow> serial_ok (ue_serial d)"
    by (simp add: device0_def serial_ok_def)
  ultimately have r: "rv = 0
    \<and> (\<forall>s. rsct_get_port_for_serial (Some file0) s \<noteq> 0 \<longrightarrow> rsct_get_port_for_serial f' s = rsct_get_port_for_serial (Some file0) s)
    \<and> (\<forall>d\<in>set [device0]. ue_vendor d = 0xc4b \<and> ue_serial d \<noteq> [] \<longrightarrow>
         (\<exists>port s. rsct_get_port_for_serial f' (ue_serial d) = port \<and> 1 \<le> port
            \<and> rsct_get_serial_for_port port f' 127 = (0, Some s) \<and> strcasecmp_eq (ue_serial d) s))"
    using e by (rule ports_stable)
  have "ue_serial device0 = ''AB9''" "ue_vendor device0 = 0xc4b" by (simp_all add: device0_def)
  with r p e show ?thesis by (intro exI[of _ f']) auto
qed

end
