(* ===== verification/CJ_CtApi.thy ===== *)
theory CJ_CtApi
  imports CJ_Reader CJ_EcomApi CJ_Ports
begin

unbundle bit_operations_syntax

text \<open>
  The CT-API library, \<^verbatim>\<open>ctapi/ctapi.cpp\<close> and \<^verbatim>\<open>ctapi/ctapi_special.cpp\<close>: the table of contexts, the
  choice of a device and of its driver, the dispatch of \<^verbatim>\<open>CT_data\<close>, the commands to the driver itself,
  and the dialogs shown while a PIN is entered.

  \<open>ctapi_env\<close> is what the library meets: the USB bus, the devices behind it, the home directory, the
  dialog program, the memory behind a command.  The driver of the pinpad family is an argument: its
  objects have the type \<open>'p\<close>, and \<open>en_ppa_init\<close> and \<open>en_ppa_data\<close> are its functions.  The images of the
  structures \<^verbatim>\<open>cj_ModuleInfo\<close> and \<^verbatim>\<open>cj_ReaderInfo\<close> in memory are arguments too.

  The library is built with POSIX threads.  \<open>ca_locked\<close> is \<^verbatim>\<open>ctapi_status_mutex\<close>; a call that waits for
  a mutex its own thread holds does not return: its result is \<open>None\<close>.
\<close>

section \<open>State\<close>

record dialog =
  dl_stages :: int
  dl_cmd :: "byte \<times> byte"
  dl_timeout :: int
  dl_texts :: "bytes \<times> bytes \<times> bytes"
  dl_stage :: int
  dl_chars :: int

record 'p ct_context =
  cx_reader :: "creader option"
  cx_ecom :: "cj_info option"
  cx_ppa :: "'p option"
  cx_ctn :: u16
  cx_port :: u16
  cx_keycb :: bool
  cx_name :: string
  cx_dialog :: "dialog option"
  cx_data :: bytes
  cx_sig :: bytes
  cx_count :: u32
  cx_modules :: "module_info list"
  cx_keys :: "int list"

record 'p ctapi =
  ca_count :: nat
  ca_list :: "'p ct_context list"
  ca_cfg :: cfg_world
  ca_serials :: "string option"
  ca_beep :: bool
  ca_locked :: bool
  ca_overrun :: bool

record 'p ctapi_env =
  en_usb_init :: bool
  en_scan :: int
  en_devs :: "usb_entry list"
  en_writable :: bool
  en_home :: "string option"
  en_connect :: "string \<Rightarrow> connect_env"
  en_ecom :: "string \<Rightarrow> cj_info"
  en_ecom_found :: "string \<Rightarrow> bool"
  en_ppa_init :: "string \<Rightarrow> 'p option"
  en_ppa_data :: "'p \<Rightarrow> byte \<Rightarrow> byte \<Rightarrow> bytes \<Rightarrow> bytes \<Rightarrow> int \<times> byte \<times> byte \<times> bytes \<times> nat \<times> 'p"
  en_dialog :: bool
  en_behind :: "nat \<Rightarrow> byte"
  en_mod_image :: "module_info \<Rightarrow> bytes"
  en_info_image :: "reader_info \<Rightarrow> bytes"
  en_mod :: module_info
  en_info :: reader_info

section \<open>Contexts\<close>

definition findContextByCtn :: "'p ctapi \<Rightarrow> u16 \<Rightarrow> 'p ct_context option" where
  "findContextByCtn s ctn = find (\<lambda>c. cx_ctn c = ctn) (ca_list s)"

definition findContextByPort :: "'p ctapi \<Rightarrow> u16 \<Rightarrow> 'p ct_context option" where
  "findContextByPort s pn = find (\<lambda>c. cx_port c = pn) (ca_list s)"

definition addContext :: "'p ct_context \<Rightarrow> 'p ctapi \<Rightarrow> 'p ctapi" where
  "addContext c s = s\<lparr>ca_list := ca_list s @ [c]\<rparr>"

text \<open>\<^verbatim>\<open>ct_context_list.remove\<close>, and the effect of the functions that work on \<^verbatim>\<open>*ctx\<close>.\<close>

fun remove_ctx :: "u16 \<Rightarrow> 'p ct_context list \<Rightarrow> 'p ct_context list" where
  "remove_ctx ctn [] = []"
| "remove_ctx ctn (c # cs) = (if cx_ctn c = ctn then cs else c # remove_ctx ctn cs)"

fun put_ctx :: "'p ct_context \<Rightarrow> 'p ct_context list \<Rightarrow> 'p ct_context list" where
  "put_ctx x [] = []"
| "put_ctx x (c # cs) = (if cx_ctn c = cx_ctn x then x # cs else c # put_ctx x cs)"

definition new_context :: "u16 \<Rightarrow> u16 \<Rightarrow> string \<Rightarrow> 'p ct_context" where
  "new_context ctn port name = \<lparr>cx_reader = None, cx_ecom = None, cx_ppa = None, cx_ctn = ctn, cx_port = port,
     cx_keycb = False, cx_name = name, cx_dialog = None, cx_data = [], cx_sig = [], cx_count = 0, cx_modules = [], cx_keys = []\<rparr>"

section \<open>Dialogs and keys\<close>

text \<open>A byte of the command, or of the memory behind it.\<close>

definition cmd_at :: "'p ctapi_env \<Rightarrow> bytes \<Rightarrow> nat \<Rightarrow> byte" where
  "cmd_at e cmd i = (if i < length cmd then cmd ! i else en_behind e i)"

text \<open>One object of the command data at offset \<open>i\<close> behind the header: texts, time-out, number of stages.\<close>

definition dialog_tlv :: "'p ctapi_env \<Rightarrow> bytes \<Rightarrow> nat \<Rightarrow> dialog \<Rightarrow> dialog" where
  "dialog_tlv e cmd i d =
     (let at = (\<lambda>k. cmd_at e cmd (5 + i + k)); n = unat (at 1);
          val = map (\<lambda>k. at (2 + k)) [0..<n]; (a, b, c) = dl_texts d in
      if at 0 = 0x50 then d\<lparr>dl_texts := (val, b, c)\<rparr>
      else if at 0 = 0x61 then d\<lparr>dl_texts := (a, val, c)\<rparr>
      else if at 0 = 0x62 then d\<lparr>dl_texts := (a, b, val)\<rparr>
      else if at 0 = 0x80
      then d\<lparr>dl_timeout := sint (foldl (\<lambda>t v. push_bit 8 t + ucast v) (0 :: u32) val)\<rparr>
      else if at 0 = 0x52
      then d\<lparr>dl_stages := (if cmd ! 1 = 0x19 then if at 3 = at 4 then 2 else 3 else 1)\<rparr>
      else d)"

function dialog_scan :: "'p ctapi_env \<Rightarrow> bytes \<Rightarrow> nat \<Rightarrow> nat \<Rightarrow> dialog \<Rightarrow> dialog" where
  "dialog_scan e cmd len i d =
     (if i < len
      then dialog_scan e cmd len (i + unat (cmd_at e cmd (5 + i + 1)) + 2) (dialog_tlv e cmd i d)
      else d)"
  by auto
termination
  by (relation "measure (\<lambda>(e, cmd, len, i, d). len - i)") auto

definition showDialogIfRequired :: "'p ctapi_env \<Rightarrow> byte \<Rightarrow> byte \<Rightarrow> bytes \<Rightarrow> 'p ct_context \<Rightarrow> 'p ct_context" where
  "showDialogIfRequired e dad sad cmd x =
     (if length cmd > 4 \<and> dad = 1 \<and> sad = 2 \<and> cmd ! 0 = 0x20 \<and> (cmd ! 1 = 0x18 \<or> cmd ! 1 = 0x19) \<and> en_dialog e
      then x\<lparr>cx_dialog := Some (dialog_scan e cmd (unat (cmd ! 4)) 0
               \<lparr>dl_stages = 1, dl_cmd = (cmd ! 0, cmd ! 1), dl_timeout = 15, dl_texts = ([], [], []),
                dl_stage = 0, dl_chars = 0\<rparr>)\<rparr>
      else x)"

text \<open>Keys of the reader: digit, C, CLR, At and OK are 1 to 5.\<close>

definition trans_key :: "int \<Rightarrow> int" where
  "trans_key key = (if key = 0 then 1 else if key = 2 then 5 else if key = 4 then 3 else 0)"

definition commonKeyCallback :: "int \<Rightarrow> 'p ct_context \<Rightarrow> 'p ct_context" where
  "commonKeyCallback k x =
     (let x1 = (case cx_dialog x of None \<Rightarrow> x
          | Some d \<Rightarrow>
              x\<lparr>cx_dialog := Some
                 (if k = 1 then d\<lparr>dl_chars := dl_chars d + 1\<rparr>
                  else if k = 3 then d\<lparr>dl_chars := 0\<rparr>
                  else if k = 5 \<and> dl_stage d + 1 < dl_stages d then d\<lparr>dl_stage := dl_stage d + 1\<rparr>
                  else d)\<rparr>) in
      if cx_keycb x then x1\<lparr>cx_keys := cx_keys x1 @ [k]\<rparr> else x1)"

definition ecaKeyCallback :: "int \<Rightarrow> 'p ct_context \<Rightarrow> 'p ct_context" where
  "ecaKeyCallback key = commonKeyCallback (trans_key key)"

definition ppaKeyCallback :: "int \<Rightarrow> 'p ct_context \<Rightarrow> 'p ct_context" where
  "ppaKeyCallback status = commonKeyCallback (trans_key status)"

text \<open>The translated key is not used for the first e-com reader.\<close>

definition oldEcomKeyCallback :: "int \<Rightarrow> 'p ct_context \<Rightarrow> 'p ct_context" where
  "oldEcomKeyCallback key = commonKeyCallback key"

section \<open>Start and end of the library\<close>

abbreviation (input) "CT_FLAGS_NO_BEEP \<equiv> (0x00010000 :: u32)"
abbreviation (input) "CT_FLAGS_ECOM_KERNEL \<equiv> (0x00200000 :: u32)"

definition ct_flag :: "'p ctapi \<Rightarrow> u32 \<Rightarrow> bool" where
  "ct_flag s f = (rsct_config_get_flags (ca_cfg s) AND f \<noteq> 0)"

text \<open>The name of the file of serial numbers, if the configuration has none, is put together in a
  buffer of 256 characters.\<close>

definition default_serials :: "'p ctapi_env \<Rightarrow> 'p ctapi \<Rightarrow> 'p ctapi" where
  "default_serials e s =
     (if rsct_config_get_serial_filename (ca_cfg s) = None
      then case en_home e of None \<Rightarrow> s
        | Some h \<Rightarrow>
            (if length h < 256
             then s\<lparr>ca_cfg := rsct_config_set_serial_filename (Some (take 255 (h @ ''/cyberjack_serials''))) (ca_cfg s),
                    ca_overrun := (ca_overrun s \<or> length h + 19 > 256)\<rparr>
             else s)
      else s)"

definition init :: "'p ctapi_env \<Rightarrow> 'p ctapi \<Rightarrow> bool \<times> 'p ctapi" where
  "init e s =
     (if ca_count s = 0
      then (let s1 = s\<lparr>ca_cfg := snd (rsct_config_init (ca_cfg s))\<rparr>;
                s2 = s1\<lparr>ca_beep := ca_beep s1 \<or> \<not> ct_flag s1 CT_FLAGS_NO_BEEP\<rparr> in
            if \<not> en_usb_init e then (False, s2)
            else (True, (default_serials e s2)\<lparr>ca_count := 1\<rparr>))
      else (True, s\<lparr>ca_count := ca_count s + 1\<rparr>))"

definition fini :: "'p ctapi \<Rightarrow> 'p ctapi" where
  "fini s =
     (if ca_count s > 1 then s\<lparr>ca_count := ca_count s - 1\<rparr>
      else if ca_count s = 1
      then s\<lparr>ca_count := 0, ca_beep := False, ca_cfg := rsct_config_fini (ca_cfg s)\<rparr>
      else s)"

section \<open>Choosing a device\<close>

fun show_base :: "nat \<Rightarrow> nat \<Rightarrow> string" where
  "show_base base n =
     (if base < 2 \<or> n < base then [hex_digit n] else show_base base (n div base) @ [hex_digit (n mod base)])"

declare show_base.simps [simp del]

definition pad :: "nat \<Rightarrow> string \<Rightarrow> string" where
  "pad w s = replicate (w - length s) (CHR ''0'') @ s"

definition show_int :: "nat \<Rightarrow> int \<Rightarrow> string" where
  "show_int w i = (if i < 0 then CHR ''-'' # pad (w - 1) (show_base 10 (nat (- i))) else pad w (show_base 10 (nat i)))"

definition usb_name :: "usb_entry \<Rightarrow> string" where
  "usb_name d = ''usb:'' @ pad 4 (show_base 16 (unat (ue_vendor d))) @ ''/''
     @ pad 4 (show_base 16 (unat (ue_product d))) @ '':libusb:''
     @ show_int 3 (sint (ue_bus d)) @ '':'' @ show_int 3 (sint (ue_pos d))"

text \<open>A number of at most \<open>w\<close> characters as \<^verbatim>\<open>sscanf\<close> reads it, and the rest of the text.\<close>

definition scan_num :: "nat \<Rightarrow> nat \<Rightarrow> string \<Rightarrow> (u32 \<times> string) option" where
  "scan_num base w s =
     (let s0 = dropWhile isspace s; (neg, t) = sign_of (take w s0); rest0 = drop w s0;
          hex = base = 16 \<and> hex_prefix t;
          u = (if hex then drop 2 t else t);
          ds = takeWhile (is_digit_of base) u;
          v = word_of_nat (number_of base u) :: u32 in
      if ds = [] \<and> \<not> hex then None
      else Some (if neg then - v else v, drop (length ds) u @ rest0))"

definition literal :: "string \<Rightarrow> string \<Rightarrow> string option" where
  "literal l s = (if take (length l) s = l then Some (drop (length l) s) else None)"

definition scan_usb_name :: "string \<Rightarrow> (u32 \<times> u32 \<times> u32 \<times> u32) option" where
  "scan_usb_name s =
     Option.bind (literal ''usb:'' s) (\<lambda>s. Option.bind (scan_num 16 4 s) (\<lambda>(v, s).
     Option.bind (literal ''/'' s) (\<lambda>s. Option.bind (scan_num 16 4 s) (\<lambda>(p, s).
     Option.bind (literal '':libusb:'' s) (\<lambda>s. Option.bind (scan_num 10 3 s) (\<lambda>(b, s).
     Option.bind (literal '':'' s) (\<lambda>s. Option.bind (scan_num 10 3 s) (\<lambda>(n, s). Some (v, p, b, n)))))))))"

text \<open>The text behind the first occurrence of a word.\<close>

fun after :: "string \<Rightarrow> string \<Rightarrow> string option" where
  "after l [] = (if l = [] then Some [] else None)"
| "after l (c # s) = (case literal l (c # s) of Some r \<Rightarrow> Some r | None \<Rightarrow> after l s)"

definition findUsbDevByName :: "usb_entry list \<Rightarrow> string \<Rightarrow> usb_entry option" where
  "findUsbDevByName devs s =
     (if after '':libusb:'' s \<noteq> None
      then (case scan_usb_name s of None \<Rightarrow> None
            | Some (v, p, b, n) \<Rightarrow>
                find (\<lambda>d. ue_bus d = b \<and> ue_pos d = n \<and> ue_vendor d = v \<and> ue_product d = p) devs)
      else case after '':libhal:'' s of
        Some t \<Rightarrow> find (\<lambda>d. strcasecmp_eq t (ue_udi d)) devs
      | None \<Rightarrow> (case devs of [] \<Rightarrow> None | d # _ \<Rightarrow> Some d))"

definition tty_usb :: "int \<Rightarrow> string" where
  "tty_usb port = ''/dev/ttyUSB'' @ show_int 0 port"

text \<open>The name of the device for a port number, or \<open>None\<close> if there is none.\<close>

definition port_device :: "'p ctapi_env \<Rightarrow> 'p ctapi \<Rightarrow> nat \<Rightarrow> string option" where
  "port_device e s pn =
     (if pn \<ge> 0xa000 then Some (''/dev/ttyS'' @ show_int 0 (int (pn - 0xa000)))
      else if 0x9000 \<le> pn \<and> pn \<le> 0x9fff \<or> 1000 \<le> pn \<and> pn \<le> 1999
      then (case rsct_get_serial_for_port (int (if pn \<ge> 0x9000 then pn - 0x8fff else pn - 999)) (ca_serials s) 127 of
              (rv, serial) \<Rightarrow>
                if rv \<noteq> 0 then None
                else map_option usb_name (find (\<lambda>d. ue_vendor d = 0xc4b \<and> ue_serial d \<noteq> []
                   \<and> strcasecmp_eq (the serial) (ue_serial d)) (en_devs e)))
      else if pn \<ge> 0x8000
      then map_option (\<lambda>d. tty_usb (int (pn - 0x8000)))
             (find (\<lambda>d. ue_vendor d = 0xc4b \<and> ue_port d = int (pn - 0x8000)) (en_devs e))
      else (let ds = filter (\<lambda>d. ue_vendor d = 0xc4b) (en_devs e) in
            if pn = 0 \<or> length ds < pn then None
            else let d = ds ! (pn - 1) in
              Some (if ue_product d = 0x100 \<and> ue_port d \<noteq> -1 \<and> ct_flag s CT_FLAGS_ECOM_KERNEL
                    then tty_usb (ue_port d) else usb_name d)))"

section \<open>Opening a device\<close>

definition reader_context :: "'p ctapi_env \<Rightarrow> u16 \<Rightarrow> u16 \<Rightarrow> string \<Rightarrow> int \<times> 'p ct_context option" where
  "reader_context e ctn pn name =
     (case Connect (en_connect e name) \<lparr>m_Reader = None, m_cDeviceName = name\<rparr> of (rv, r) \<Rightarrow>
        if rv \<noteq> CJ_SUCCESS then (-127, None)
        else case SetKeyInterruptCallback True r of
          Some r1 \<Rightarrow> (0, Some ((new_context ctn pn name)\<lparr>cx_reader := Some r1\<rparr>))
        | None \<Rightarrow> (-127, None))"

definition ecom_context :: "u16 \<Rightarrow> u16 \<Rightarrow> string \<Rightarrow> int \<times> cj_info option \<Rightarrow> int \<times> 'p ct_context option" where
  "ecom_context ctn pn name r =
     (case r of (rv, None) \<Rightarrow> (rv, None)
      | (rv, Some ci) \<Rightarrow>
          (0, Some ((new_context ctn pn name)\<lparr>cx_ecom := Some (snd (cjecom_CT_keycb ci True))\<rparr>)))"

definition open_device :: "'p ctapi_env \<Rightarrow> 'p ctapi \<Rightarrow> u16 \<Rightarrow> u16 \<Rightarrow> string \<Rightarrow> int \<times> 'p ct_context option" where
  "open_device e s ctn pn name =
     (if strncasecmp_eq name ''usb:''
      then (if contains ''0c4b/0100'' name
            then (if ct_flag s CT_FLAGS_ECOM_KERNEL
                  then (case findUsbDevByName (en_devs e) name of None \<Rightarrow> (-127, None)
                        | Some d \<Rightarrow>
                            (if ue_port d = -1 then (-127, None)
                             else ecom_context ctn pn (tty_usb (ue_port d))
                                    (cjecom_CT_initKernel (en_ecom e (tty_usb (ue_port d))))))
                  else ecom_context ctn pn name
                         (cjecom_CT_initUser2 (en_ecom e name) (en_ecom_found e name) (uint ctn)))
            else if contains ''0c4b/0300'' name
            then (case en_ppa_init e name of None \<Rightarrow> (-127, None)
                  | Some p \<Rightarrow> (0, Some ((new_context ctn pn name)\<lparr>cx_ppa := Some p\<rparr>)))
            else reader_context e ctn pn name)
      else if strncasecmp_eq name ''/dev/ttyUSB''
      then ecom_context ctn pn name (cjecom_CT_initKernel (en_ecom e name))
      else reader_context e ctn pn name)"

text \<open>Some of the tests before a device is opened, each with the code returned.\<close>

definition init_common1 :: "'p ctapi_env \<Rightarrow> u16 \<Rightarrow> u16 \<Rightarrow> string \<Rightarrow> 'p ctapi \<Rightarrow> int \<times> 'p ctapi" where
  "init_common1 e ctn pn dname s =
     (case init e s of (ok, s) \<Rightarrow>
      if \<not> ok then (-11, s)
      else if en_scan e < 0 then (-10, fini s)
      else let s = s\<lparr>ca_serials := snd (rsct_enum_serials_with_devs (en_writable e) (ca_serials s) (en_devs e))\<rparr> in
        if ctn = 0xFFFF \<or> findContextByCtn s ctn \<noteq> None \<or> (pn \<noteq> 0 \<and> findContextByPort s pn \<noteq> None)
        then (-127, fini s)
        else case (if pn \<noteq> 0 then port_device e s (unat pn) else Some dname) of
          None \<Rightarrow> (-127, fini s)
        | Some name \<Rightarrow>
            (case open_device e s ctn pn name of
               (rv, None) \<Rightarrow> (rv, fini s)
             | (rv, Some c) \<Rightarrow> (0, addContext c s)))"


section \<open>Commands to the driver\<close>

text \<open>A response of the library: code, addresses, response buffer, reported length, context.\<close>

type_synonym 'p ct_reply = "int \<times> byte \<times> byte \<times> bytes \<times> nat \<times> 'p ct_context"

text \<open>The result of a special command: code, response buffer, length, context.\<close>

type_synonym 'p sp_reply = "int \<times> bytes \<times> nat \<times> 'p ct_context"

definition sp_fail :: "int \<Rightarrow> bytes \<Rightarrow> 'p ct_context \<Rightarrow> 'p sp_reply" where
  "sp_fail code rsp x = (code, rsp, length rsp, x)"

definition sp_answer :: "bytes \<Rightarrow> bytes \<Rightarrow> 'p ct_context \<Rightarrow> 'p sp_reply" where
  "sp_answer d rsp x = (0, overlay 0 d rsp, length d, x)"

abbreviation (input) "sp_ok \<equiv> sp_answer [0x90, 0x00]"

text \<open>The data of a block, whose length is not compared with that of the command.\<close>

definition sp_block :: "'p ctapi_env \<Rightarrow> bytes \<Rightarrow> bytes" where
  "sp_block e cmd = map (cmd_at e cmd) [5..<5 + unat (cmd ! 4)]"

text \<open>What the uploads share: the first block and an abort empty the buffer; without an error or an abort
  the data of the block are added and \<open>k\<close> continues.\<close>

definition sp_upload :: "'p ctapi_env \<Rightarrow> bytes \<Rightarrow> bytes \<Rightarrow> bytes \<Rightarrow> (bytes \<Rightarrow> 'p ct_context)
    \<Rightarrow> ('p ct_context \<Rightarrow> 'p sp_reply) \<Rightarrow> 'p sp_reply" where
  "sp_upload e cmd rsp buf wr k =
     (let buf = (if (cmd ! 2) AND 0x20 \<noteq> 0 then [] else buf) in
      if (cmd ! 2) AND 0x40 \<noteq> 0 then sp_ok rsp (wr [])
      else if length cmd < 5 then sp_fail (-1) rsp (wr buf)
      else k (wr (buf @ sp_block e cmd)))"

definition specialUploadMod :: "'p ctapi_env \<Rightarrow> bytes \<Rightarrow> bytes \<Rightarrow> 'p ct_context \<Rightarrow> 'p sp_reply" where
  "specialUploadMod e cmd rsp x =
     (if cx_reader x = None then sp_fail (-1) rsp x
      else sp_upload e cmd rsp (cx_data x) (\<lambda>b. x\<lparr>cx_data := b\<rparr>) (sp_ok rsp))"

definition specialUploadSig :: "'p ctapi_env \<Rightarrow> bytes \<Rightarrow> bytes \<Rightarrow> 'p ct_context \<Rightarrow> 'p sp_reply" where
  "specialUploadSig e cmd rsp x =
     (if cx_reader x = None then sp_fail (-1) rsp x
      else sp_upload e cmd rsp (cx_sig x) (\<lambda>b. x\<lparr>cx_sig := b\<rparr>) (sp_ok rsp))"

text \<open>A call of the reader object, whose result decides.\<close>

definition sp_call :: "(creader \<Rightarrow> (cj_result \<times> 'y) \<times> creader) \<Rightarrow> bytes \<Rightarrow> 'p ct_context
    \<Rightarrow> ('y \<Rightarrow> 'p ct_context \<Rightarrow> 'p sp_reply) \<Rightarrow> 'p sp_reply" where
  "sp_call f rsp x k =
     (case cx_reader x of None \<Rightarrow> sp_fail (-1) rsp x
      | Some r \<Rightarrow> (case f r of ((rv, y), r1) \<Rightarrow>
          (let x1 = x\<lparr>cx_reader := Some r1\<rparr> in
           if rv \<noteq> CJ_SUCCESS then sp_fail (-8) rsp x1 else k y x1)))"

definition specialKeyUpdate :: "'p ctapi_env \<Rightarrow> bytes \<Rightarrow> bytes \<Rightarrow> 'p ct_context \<Rightarrow> 'p sp_reply" where
  "specialKeyUpdate e cmd rsp x =
     (if cx_reader x = None then sp_fail (-1) rsp x
      else sp_upload e cmd rsp (cx_data x) (\<lambda>b. x\<lparr>cx_data := b\<rparr>)
        (\<lambda>x. if (cmd ! 2) AND 0x80 \<noteq> 0
             then sp_call (Reader_CtKeyUpdate (cx_data x)) rsp x (\<lambda>_. sp_ok rsp) else sp_ok rsp x))"

definition specialUploadFlash :: "bytes \<Rightarrow> 'p ct_context \<Rightarrow> 'p sp_reply" where
  "specialUploadFlash rsp x =
     (if cx_reader x = None \<or> cx_data x = [] \<or> cx_sig x = [] then sp_fail (-1) rsp x
      else sp_call (Reader_CtLoadModule (cx_data x) (cx_sig x)) rsp x (\<lambda>_. sp_ok rsp))"

definition specialUploadInfo :: "'p ctapi_env \<Rightarrow> bytes \<Rightarrow> 'p ct_context \<Rightarrow> 'p sp_reply" where
  "specialUploadInfo e rsp x =
     (if cx_reader x = None \<or> cx_data x = [] then sp_fail (-1) rsp x
      else sp_call (Reader_CtGetModuleInfoFromFile (cx_data x) (length (en_mod_image e (en_mod e))) (en_mod e)) rsp x
        (\<lambda>(mi, _) x. if length rsp < 2 + length (en_mod_image e mi) then sp_fail (-11) rsp x
                     else sp_answer (en_mod_image e mi @ [0x90, 0x00]) rsp x))"

definition specialDeleteAllMods :: "bytes \<Rightarrow> 'p ct_context \<Rightarrow> 'p sp_reply" where
  "specialDeleteAllMods rsp x = sp_call Reader_CtDeleteALLModules rsp x (\<lambda>_. sp_ok rsp)"

definition specialShowAuth :: "bytes \<Rightarrow> 'p ct_context \<Rightarrow> 'p sp_reply" where
  "specialShowAuth rsp x =
     sp_call (\<lambda>r. case Reader_CtShowAuth r of (rv, r1) \<Rightarrow> ((rv, ()), r1)) rsp x (\<lambda>_. sp_ok rsp)"

text \<open>The list of modules is fetched only if its length has the value \<^verbatim>\<open>SCARD_AUTOALLOCATE\<close>, which nothing
  sets: the count stays 0 and no module is ever reported.\<close>

definition list_modules :: "bytes \<Rightarrow> 'p ct_context \<Rightarrow> ('p ct_context \<Rightarrow> 'p sp_reply) \<Rightarrow> 'p sp_reply" where
  "list_modules rsp x k =
     (case cx_reader x of None \<Rightarrow> k x
      | Some r \<Rightarrow>
          (if cx_count x = SCARD_AUTOALLOCATE
           then (case Reader_CtListModules (cx_count x) r of ((rv, n, l), r1) \<Rightarrow>
                  (let x1 = x\<lparr>cx_reader := Some r1, cx_count := n, cx_modules := l\<rparr> in
                   if rv \<noteq> CJ_SUCCESS then sp_fail (-8) rsp x1 else k x1))
           else k x))"

definition specialGetModuleCount :: "bytes \<Rightarrow> 'p ct_context \<Rightarrow> 'p sp_reply" where
  "specialGetModuleCount rsp x =
     (if length rsp < 3 then sp_fail (-11) rsp x
      else if cx_reader x = None then sp_answer [0, 0x90, 0x00] rsp x
      else list_modules rsp x
             (\<lambda>x. sp_answer [if cx_count x < 256 then ucast (cx_count x) else 255, 0x90, 0x00] rsp x))"

definition specialGetModuleInfo :: "'p ctapi_env \<Rightarrow> bytes \<Rightarrow> bytes \<Rightarrow> 'p ct_context \<Rightarrow> 'p sp_reply" where
  "specialGetModuleInfo e cmd rsp x =
     (if cx_reader x = None then sp_fail (-1) rsp x
      else list_modules rsp x
        (\<lambda>x. if unat (cx_count x) \<le> unat (cmd ! 2) then sp_answer [0x62, 0x82] rsp x
             else if length rsp < 2 + length (en_mod_image e (en_mod e)) then sp_fail (-11) rsp x
             else sp_answer (en_mod_image e (cx_modules x ! unat (cmd ! 2)) @ [0x90, 0x00]) rsp x))"

text \<open>The information made up for the old readers: product, name, slot and keypad.\<close>

definition old_info :: "'p ctapi_env \<Rightarrow> u32 \<Rightarrow> string \<Rightarrow> reader_info" where
  "old_info e pid name = (en_info e)\<lparr>ri_PID := pid, ri_ContentsMask := 0x00000103, ri_HardwareMask := 0x00000101,
     ri_ProductString := map of_char name\<rparr>"

definition specialGetReaderInfo :: "'p ctapi_env \<Rightarrow> bytes \<Rightarrow> 'p ct_context \<Rightarrow> 'p sp_reply" where
  "specialGetReaderInfo e rsp x =
     (let n = length (en_info_image e (en_info e));
          put = (\<lambda>ri. sp_answer (en_info_image e ri @ [0x90, 0x00]) rsp) in
      if length rsp < 2 + n then sp_fail (-11) rsp x
      else if cx_reader x \<noteq> None
      then sp_call (Reader_CtGetReaderInfo n) rsp x
             (\<lambda>(_, ri) x. put (case ri of Some i \<Rightarrow> i | None \<Rightarrow> en_info e) x)
      else if cx_ecom x \<noteq> None then put (old_info e 0x100 ''cyberJack e-com/pinpad'') x
      else if cx_ppa x \<noteq> None then put (old_info e 0x300 ''cyberJack pinpad(a)'') x
      else sp_fail (-8) rsp x)"

definition special_command :: "'p ctapi_env \<Rightarrow> bytes \<Rightarrow> bytes \<Rightarrow> 'p ct_context \<Rightarrow> 'p sp_reply" where
  "special_command e cmd rsp x =
     (let ins = cmd ! 1 in
      if ins = 0x10 then specialKeyUpdate e cmd rsp x
      else if ins = 0x20 then specialDeleteAllMods rsp x
      else if ins = 0x21 then specialUploadMod e cmd rsp x
      else if ins = 0x22 then specialUploadSig e cmd rsp x
      else if ins = 0x23 then specialUploadFlash rsp x
      else if ins = 0x24 then specialUploadInfo e rsp x
      else if ins = 0x30 then specialShowAuth rsp x
      else if ins = 0x31 then specialGetModuleCount rsp x
      else if ins = 0x32 then specialGetModuleInfo e cmd rsp x
      else if ins = 0x40 then specialGetReaderInfo e rsp x
      else sp_fail (-1) rsp x)"

definition CT_special :: "'p ctapi_env \<Rightarrow> byte \<Rightarrow> byte \<Rightarrow> bytes \<Rightarrow> bytes \<Rightarrow> 'p ct_context \<Rightarrow> 'p ct_reply" where
  "CT_special e dad sad cmd rsp x =
     (if cmd ! 0 \<noteq> 0x30 then (-1, dad, sad, rsp, length rsp, x)
      else case special_command e cmd rsp x of (rv, rsp1, n, x1) \<Rightarrow> (rv, sad, dad, rsp1, n, x1))"

section \<open>Commands to a reader\<close>

text \<open>The object of a driver is deleted when a call reports more than a wrong parameter or a small buffer.\<close>

definition keeps_device :: "int \<Rightarrow> bool" where
  "keeps_device res \<longleftrightarrow> res = 0 \<or> res = -1 \<or> res = -11"

definition CT_internal :: "'p ctapi_env \<Rightarrow> byte \<Rightarrow> byte \<Rightarrow> bytes \<Rightarrow> bytes \<Rightarrow> 'p ct_context \<Rightarrow> 'p ct_reply" where
  "CT_internal e dad sad cmd rsp x =
     (case cx_reader x of
        Some r \<Rightarrow>
          (case Reader_CtData dad sad cmd (word_of_nat (length rsp)) r of ((res, sad1, dad1, d, lr), r1) \<Rightarrow>
             (res, dad1, sad1, overlay 0 d rsp, unat lr,
              x\<lparr>cx_reader := if keeps_device res then Some r1 else None\<rparr>))
      | None \<Rightarrow>
        (case cx_ecom x of
           Some ci \<Rightarrow>
             (case cjecom_CT_data ci dad sad cmd rsp of (res, lr, dad1, sad1, rsp1, ci1) \<Rightarrow>
                (res, dad1, sad1, rsp1, lr, x\<lparr>cx_ecom := if keeps_device res then Some ci1 else None\<rparr>))
         | None \<Rightarrow>
           (case cx_ppa x of
              Some p \<Rightarrow>
                (case en_ppa_data e p dad sad cmd rsp of (res, dad1, sad1, rsp1, lr, p1) \<Rightarrow>
                   (res, dad1, sad1, rsp1, lr, x\<lparr>cx_ppa := if keeps_device res then Some p1 else None\<rparr>))
            | None \<Rightarrow> (-127, dad, sad, rsp, length rsp, x))))"

definition CT_data :: "'p ctapi_env \<Rightarrow> u16 \<Rightarrow> byte \<Rightarrow> byte \<Rightarrow> bytes \<Rightarrow> bytes \<Rightarrow> 'p ctapi
    \<Rightarrow> (int \<times> byte \<times> byte \<times> bytes \<times> nat) \<times> 'p ctapi" where
  "CT_data e ctn dad sad cmd rsp s =
     (case findContextByCtn s ctn of
        None \<Rightarrow> ((-128, dad, sad, rsp, length rsp), s)
      | Some x \<Rightarrow>
          (if length cmd < 4 then ((-1, dad, sad, rsp, length rsp), s)
           else if length rsp < 2 then ((-11, dad, sad, rsp, length rsp), s)
           else let x1 = (if cx_dialog x = None then showDialogIfRequired e dad sad cmd x else x) in
             case (if dad = 14 then CT_special e dad sad cmd rsp x1 else CT_internal e dad sad cmd rsp x1) of
               (res, dad1, sad1, rsp1, lr, x2) \<Rightarrow>
                 ((res, dad1, sad1, rsp1, lr),
                  s\<lparr>ca_list := put_ctx (x2\<lparr>cx_dialog := None\<rparr>) (ca_list s)\<rparr>)))"

text \<open>Closing: the driver says goodbye to the device, the context goes.\<close>

definition has_device :: "'p ct_context \<Rightarrow> bool" where
  "has_device x \<longleftrightarrow> cx_reader x \<noteq> None \<or> cx_ecom x \<noteq> None \<or> cx_ppa x \<noteq> None"

definition nt_close :: "u16 \<Rightarrow> 'p ctapi \<Rightarrow> int \<times> 'p ctapi" where
  "nt_close ctn s =
     (case findContextByCtn s ctn of
        None \<Rightarrow> (-128, s)
      | Some x \<Rightarrow> (if has_device x then 0 else -127, fini (s\<lparr>ca_list := remove_ctx ctn (ca_list s)\<rparr>)))"

definition CT_close :: "u16 \<Rightarrow> 'p ctapi \<Rightarrow> (int \<times> 'p ctapi) option" where
  "CT_close ctn s = (if ca_locked s then None else Some (nt_close ctn s))"

definition init_common2 :: "'p ctapi_env \<Rightarrow> u16 \<Rightarrow> u16 \<Rightarrow> string \<Rightarrow> 'p ctapi \<Rightarrow> (int \<times> 'p ctapi) option" where
  "init_common2 e ctn pn dname s =
     (case init_common1 e ctn pn dname s of (rv, s1) \<Rightarrow>
        if rv \<noteq> 0 then Some (rv, s1)
        else case CT_data e ctn 1 2 [0x20, 0x13, 0x00, 0x46, 0x00] (map (en_behind e) [0..<300]) s1 of
          ((rv2, _), s2) \<Rightarrow>
            if rv2 \<noteq> 0 then map_option (\<lambda>(_, s3). (rv2, s3)) (CT_close ctn s2)
            else Some (rv2, s2))"

definition locked_call :: "('p ctapi \<Rightarrow> (int \<times> 'p ctapi) option) \<Rightarrow> 'p ctapi \<Rightarrow> (int \<times> 'p ctapi) option" where
  "locked_call f s = (if ca_locked s then None
     else map_option (\<lambda>(rv, s1). (rv, s1\<lparr>ca_locked := False\<rparr>)) (f (s\<lparr>ca_locked := True\<rparr>)))"

definition CT_init :: "'p ctapi_env \<Rightarrow> u16 \<Rightarrow> u16 \<Rightarrow> 'p ctapi \<Rightarrow> (int \<times> 'p ctapi) option" where
  "CT_init e ctn pn s =
     (if pn = 0 \<or> ctn = 0xFFFF then Some (-127, s) else locked_call (init_common2 e ctn pn []) s)"

definition rsct_init_name :: "'p ctapi_env \<Rightarrow> u16 \<Rightarrow> string \<Rightarrow> 'p ctapi \<Rightarrow> (int \<times> 'p ctapi) option" where
  "rsct_init_name e ctn devName s =
     (if ctn = 0xFFFF then Some (-127, s) else locked_call (init_common2 e ctn 0 devName) s)"

definition rsct_setkeycb :: "u16 \<Rightarrow> bool \<Rightarrow> 'p ctapi \<Rightarrow> int \<times> 'p ctapi" where
  "rsct_setkeycb ctn cb s =
     (case findContextByCtn s ctn of
        None \<Rightarrow> (-128, s)
      | Some x \<Rightarrow> (if has_device x then (0, s\<lparr>ca_list := put_ctx (x\<lparr>cx_keycb := cb\<rparr>) (ca_list s)\<rparr>)
                   else (-127, s)))"

text \<open>The result is that of the reader or the code 612.\<close>

definition rsct_ifd_ioctl :: "u16 \<Rightarrow> u32 \<Rightarrow> bytes \<Rightarrow> u32 \<Rightarrow> 'p ctapi
    \<Rightarrow> (ifd_result \<times> bytes \<times> u32) option \<times> 'p ctapi" where
  "rsct_ifd_ioctl ctn code inp cap s =
     (case findContextByCtn s ctn of
        None \<Rightarrow> (None, s)
      | Some x \<Rightarrow>
          (case cx_reader x of None \<Rightarrow> (None, s)
           | Some r \<Rightarrow> (case Reader_IfdIoControl code inp cap r of (y, r1) \<Rightarrow>
               (Some y, s\<lparr>ca_list := put_ctx (x\<lparr>cx_reader := Some r1\<rparr>) (ca_list s)\<rparr>))))"

section \<open>The table of contexts\<close>

text \<open>A context drives one device at most, and the reader object satisfies its invariant.\<close>

definition device_ok :: "'p ct_context \<Rightarrow> bool" where
  "device_ok x \<longleftrightarrow> (cx_reader x = None \<or> cx_ecom x = None) \<and> (cx_reader x = None \<or> cx_ppa x = None)
     \<and> (cx_ecom x = None \<or> cx_ppa x = None) \<and> (\<forall>c. cx_reader x = Some c \<longrightarrow> creader_inv c)"

definition ctx_ok :: "'p ct_context \<Rightarrow> bool" where
  "ctx_ok x \<longleftrightarrow> device_ok x \<and> cx_dialog x = None \<and> cx_ctn x \<noteq> 0xFFFF"

definition ctapi_inv :: "'p ctapi \<Rightarrow> bool" where
  "ctapi_inv s \<longleftrightarrow> list_all ctx_ok (ca_list s) \<and> distinct (map cx_ctn (ca_list s))
     \<and> distinct (filter (\<lambda>p. p \<noteq> 0) (map cx_port (ca_list s))) \<and> ca_count s = length (ca_list s)
     \<and> (ca_list s \<noteq> [] \<longrightarrow> cw_config (ca_cfg s) \<noteq> None)"

text \<open>What a call may do to its context: it keeps its numbers, and it keeps the drivers in order.\<close>

definition ctx_step :: "'p ct_context \<Rightarrow> 'p ct_context \<Rightarrow> bool" where
  "ctx_step x y \<longleftrightarrow> cx_ctn y = cx_ctn x \<and> cx_port y = cx_port x \<and> (device_ok x \<longrightarrow> device_ok y)"

lemma ctx_step_refl [simp, intro]: "ctx_step x x"
  by (simp add: ctx_step_def)

lemma ctx_step_trans [trans]: "ctx_step x y \<Longrightarrow> ctx_step y z \<Longrightarrow> ctx_step x z"
  by (simp add: ctx_step_def)

lemma ctx_step_updates [simp]:
  "ctx_step x (y\<lparr>cx_data := d\<rparr>) \<longleftrightarrow> ctx_step x y" "ctx_step x (y\<lparr>cx_sig := d\<rparr>) \<longleftrightarrow> ctx_step x y"
  "ctx_step x (y\<lparr>cx_count := n\<rparr>) \<longleftrightarrow> ctx_step x y" "ctx_step x (y\<lparr>cx_modules := l\<rparr>) \<longleftrightarrow> ctx_step x y"
  "ctx_step x (y\<lparr>cx_dialog := g\<rparr>) \<longleftrightarrow> ctx_step x y" "ctx_step x (y\<lparr>cx_keycb := b\<rparr>) \<longleftrightarrow> ctx_step x y"
  by (simp_all add: ctx_step_def device_ok_def)

lemma ctx_step_reader:
  assumes "cx_reader x = Some c" "facade c ev c'"
  shows "ctx_step x (x\<lparr>cx_reader := Some c'\<rparr>)" "ctx_step x (x\<lparr>cx_reader := None\<rparr>)"
    "ctx_step x (x\<lparr>cx_reader := if b then Some c' else None\<rparr>)"
  using assms facade_inv[OF assms(2)] by (auto simp: ctx_step_def device_ok_def)

lemma ctx_step_dialog: "ctx_step x (showDialogIfRequired e dad sad cmd x)"
  by (simp add: showDialogIfRequired_def)

text \<open>Special commands.\<close>

definition sp_keeps :: "'p ct_context \<Rightarrow> 'p sp_reply \<Rightarrow> bool" where
  "sp_keeps x r \<longleftrightarrow> ctx_step x (snd (snd (snd r)))"

lemma sp_keeps_basic [simp]:
  "sp_keeps x (sp_fail code rsp y) \<longleftrightarrow> ctx_step x y" "sp_keeps x (sp_answer d rsp y) \<longleftrightarrow> ctx_step x y"
  by (simp_all add: sp_keeps_def sp_fail_def sp_answer_def)

lemma sp_keeps_if: "sp_keeps x a \<Longrightarrow> sp_keeps x b \<Longrightarrow> sp_keeps x (if c then a else b)"
  by simp

lemma sp_keeps_upload:
  assumes "\<And>b. ctx_step x (wr b)" "\<And>y. ctx_step x y \<Longrightarrow> sp_keeps x (k y)"
  shows "sp_keeps x (sp_upload e cmd rsp buf wr k)"
  unfolding sp_upload_def Let_def by (intro sp_keeps_if) (simp_all add: assms)

lemma sp_keeps_call:
  assumes "\<And>c rv y c'. f c = ((rv, y), c') \<Longrightarrow> \<exists>ev. facade c ev c'" "\<And>v y. ctx_step x y \<Longrightarrow> sp_keeps x (k v y)"
    "ctx_step x z"
  shows "sp_keeps x (sp_call f rsp z k)"
proof (cases "cx_reader z")
  case None
  then show ?thesis using assms(3) by (simp add: sp_call_def)
next
  case (Some c)
  obtain rv y c' where f: "f c = ((rv, y), c')" by (metis prod.exhaust)
  from assms(1)[OF f] obtain ev where "facade c ev c'" by blast
  from ctx_step_trans[OF assms(3) ctx_step_reader(1)[OF Some this]] show ?thesis
    using assms(2) by (simp add: sp_call_def Some f Let_def)
qed

lemma facade_services:
  "Reader_CtKeyUpdate d c = ((rv, y), c') \<Longrightarrow> \<exists>ev. facade c ev c'"
  "Reader_CtLoadModule d sg c = ((rv, y), c') \<Longrightarrow> \<exists>ev. facade c ev c'"
  "Reader_CtDeleteALLModules c = ((rv, y), c') \<Longrightarrow> \<exists>ev. facade c ev c'"
  "Reader_CtGetModuleInfoFromFile d n mi c = ((rv, q), c') \<Longrightarrow> \<exists>ev. facade c ev c'"
  "Reader_CtGetReaderInfo n c = ((rv, p), c') \<Longrightarrow> \<exists>ev. facade c ev c'"
  "(case Reader_CtShowAuth c of (rv, r1) \<Rightarrow> ((rv, ()), r1)) = ((rv, u), c') \<Longrightarrow> \<exists>ev. facade c ev c'"
  by (blast intro: facade.intros, blast intro: facade.intros, blast intro: facade.intros, blast intro: facade.intros,
      blast intro: facade.intros, auto split: prod.splits intro: facade_ShowAuth)

lemma sp_keeps_list:
  assumes "\<And>y. ctx_step x y \<Longrightarrow> sp_keeps x (k y)"
  shows "sp_keeps x (list_modules rsp x k)"
proof (cases "cx_reader x")
  case None
  then show ?thesis using assms by (simp add: list_modules_def)
next
  case (Some c)
  obtain rv n l c' where f: "Reader_CtListModules (cx_count x) c = ((rv, n, l), c')" by (metis prod.exhaust)
  from ctx_step_reader(1)[OF Some facade_List[OF f]]
  have "ctx_step x (x\<lparr>cx_reader := Some c', cx_count := n, cx_modules := l\<rparr>)" by simp
  then show ?thesis using assms f by (auto simp: list_modules_def Some Let_def)
qed

lemma special_keeps: "sp_keeps x (special_command e cmd rsp x)"
proof -
  have "sp_keeps x (specialKeyUpdate e cmd rsp x)"
    unfolding specialKeyUpdate_def by (intro sp_keeps_if sp_keeps_upload sp_keeps_call) (auto intro: facade_services)
  moreover have "sp_keeps x (specialDeleteAllMods rsp x)"
    unfolding specialDeleteAllMods_def by (intro sp_keeps_call) (auto intro: facade_services)
  moreover have "sp_keeps x (specialUploadMod e cmd rsp x)" "sp_keeps x (specialUploadSig e cmd rsp x)"
    unfolding specialUploadMod_def specialUploadSig_def by (intro sp_keeps_if sp_keeps_upload; simp)+
  moreover have "sp_keeps x (specialUploadFlash rsp x)"
    unfolding specialUploadFlash_def by (intro sp_keeps_if sp_keeps_call) (auto intro: facade_services)
  moreover have "sp_keeps x (specialUploadInfo e rsp x)"
    unfolding specialUploadInfo_def by (intro sp_keeps_if sp_keeps_call) (auto intro: facade_services)
  moreover have "sp_keeps x (specialShowAuth rsp x)"
    unfolding specialShowAuth_def by (intro sp_keeps_call) (auto intro: facade_services)
  moreover have "sp_keeps x (specialGetReaderInfo e rsp x)"
    unfolding specialGetReaderInfo_def Let_def by (intro sp_keeps_if sp_keeps_call) (auto intro: facade_services)
  moreover have "sp_keeps x (specialGetModuleCount rsp x)"
    unfolding specialGetModuleCount_def by (intro sp_keeps_if sp_keeps_list) auto
  moreover have "sp_keeps x (specialGetModuleInfo e cmd rsp x)"
    unfolding specialGetModuleInfo_def by (intro sp_keeps_if sp_keeps_list) auto
  ultimately show ?thesis unfolding special_command_def Let_def by (intro sp_keeps_if) simp_all
qed

lemma CT_special_step: "CT_special e dad sad cmd rsp x = (res, d, sd, rsp1, lr, y) \<Longrightarrow> ctx_step x y"
  using special_keeps[of x e cmd rsp] by (auto simp: CT_special_def sp_keeps_def split: if_splits prod.splits)

lemma CT_internal_step:
  assumes "CT_internal e dad sad cmd rsp x = (res, d, sd, rsp1, lr, y)"
  shows "ctx_step x y"
proof (cases "cx_reader x")
  case (Some c)
  obtain code s1 d1 o1 n1 c' where r: "Reader_CtData dad sad cmd (word_of_nat (length rsp)) c = ((code, s1, d1, o1, n1), c')"
    by (metis prod.exhaust)
  from ctx_step_reader(3)[OF Some facade_CtData[OF r]] show ?thesis using assms by (auto simp: CT_internal_def Some r)
next
  case None
  then show ?thesis using assms
    by (auto simp: CT_internal_def ctx_step_def device_ok_def split: option.splits prod.splits)
qed

text \<open>The list.\<close>

lemma put_ctx_ctn [simp]: "map cx_ctn (put_ctx x cs) = map cx_ctn cs"
  by (induction cs) auto

lemma put_ctx_length [simp]: "length (put_ctx x cs) = length cs"
  by (induction cs) auto

lemma put_ctx_Nil [simp]: "put_ctx x cs = [] \<longleftrightarrow> cs = []"
  by (cases cs) auto

lemma put_ctx_port:
  "find (\<lambda>c. cx_ctn c = cx_ctn x) cs = Some y \<Longrightarrow> cx_port x = cx_port y \<Longrightarrow> map cx_port (put_ctx x cs) = map cx_port cs"
  by (induction cs) (auto split: if_splits)

lemma put_ctx_all: "list_all P cs \<Longrightarrow> P x \<Longrightarrow> list_all P (put_ctx x cs)"
  by (induction cs) auto

lemma remove_ctx_all: "list_all P cs \<Longrightarrow> list_all P (remove_ctx n cs)"
  by (induction cs) auto

lemma remove_ctx_subset: "set (remove_ctx n cs) \<subseteq> set cs"
  by (induction cs) auto

lemma remove_ctx_length: "find (\<lambda>c. cx_ctn c = n) cs = Some y \<Longrightarrow> Suc (length (remove_ctx n cs)) = length cs"
  by (induction cs) (auto split: if_splits)

lemma remove_ctx_distinct:
  "distinct (filter P (map f cs)) \<Longrightarrow> distinct (filter P (map f (remove_ctx n cs)))"
proof (induction cs)
  case (Cons c cs)
  then show ?case using remove_ctx_subset[of n cs] by (auto split: if_splits)
qed simp

lemma find_ctxD: "findContextByCtn s ctn = Some x \<Longrightarrow> x \<in> set (ca_list s) \<and> cx_ctn x = ctn"
  by (auto simp: findContextByCtn_def find_Some_iff)

lemma put_inv:
  assumes "ctapi_inv s" "findContextByCtn s ctn = Some x" "ctx_step x y" "cx_dialog y = None"
  shows "ctapi_inv (s\<lparr>ca_list := put_ctx y (ca_list s)\<rparr>)"
proof -
  have x: "ctx_ok x" "cx_ctn x = ctn" using assms(1) find_ctxD[OF assms(2)] by (auto simp: ctapi_inv_def list_all_iff)
  then have y: "ctx_ok y" "cx_ctn y = ctn" "cx_port y = cx_port x" using assms(3, 4) by (auto simp: ctx_ok_def ctx_step_def)
  have "map cx_port (put_ctx y (ca_list s)) = map cx_port (ca_list s)"
    using assms(2) y by (intro put_ctx_port[of _ _ x]) (simp_all add: findContextByCtn_def)
  then show ?thesis using assms(1) y(1) by (simp add: ctapi_inv_def put_ctx_all)
qed

text \<open>The context during a call: a dialog may be open.\<close>

definition dialog_context :: "'p ctapi_env \<Rightarrow> byte \<Rightarrow> byte \<Rightarrow> bytes \<Rightarrow> 'p ct_context \<Rightarrow> 'p ct_context" where
  "dialog_context e dad sad cmd x = (if cx_dialog x = None then showDialogIfRequired e dad sad cmd x else x)"

definition CT_dispatch :: "'p ctapi_env \<Rightarrow> byte \<Rightarrow> byte \<Rightarrow> bytes \<Rightarrow> bytes \<Rightarrow> 'p ct_context \<Rightarrow> 'p ct_reply" where
  "CT_dispatch e dad sad cmd rsp x = (let x1 = dialog_context e dad sad cmd x in
     if dad = 14 then CT_special e dad sad cmd rsp x1 else CT_internal e dad sad cmd rsp x1)"

lemma CT_dispatch_step:
  assumes "CT_dispatch e dad sad cmd rsp x = (res, d, sd, rsp1, lr, y)"
  shows "ctx_step x y"
proof -
  have "ctx_step x (dialog_context e dad sad cmd x)" by (simp add: dialog_context_def ctx_step_dialog)
  moreover have "ctx_step (dialog_context e dad sad cmd x) y"
    using assms by (auto simp: CT_dispatch_def Let_def split: if_splits dest: CT_special_step CT_internal_step)
  ultimately show ?thesis by (rule ctx_step_trans)
qed

lemma CT_data_cases:
  assumes "CT_data e ctn dad sad cmd rsp s = ((res, rest), s')"
  obtains (none) "s' = s" "res \<noteq> 0" "findContextByCtn s ctn = None \<or> length cmd < 4 \<or> length rsp < 2"
  | (call) x y d sd rsp1 lr where "findContextByCtn s ctn = Some x" "4 \<le> length cmd" "2 \<le> length rsp"
      "CT_dispatch e dad sad cmd rsp x = (res, d, sd, rsp1, lr, y)" "rest = (d, sd, rsp1, lr)"
      "s' = s\<lparr>ca_list := put_ctx (y\<lparr>cx_dialog := None\<rparr>) (ca_list s)\<rparr>"
proof (cases "findContextByCtn s ctn")
  case None
  then show ?thesis using assms by (intro none) (auto simp: CT_data_def)
next
  case (Some x)
  show ?thesis
  proof (cases "length cmd < 4 \<or> length rsp < 2")
    case True
    then show ?thesis using assms by (intro none) (auto simp: CT_data_def Some split: if_splits)
  next
    case False
    obtain r d sd rsp1 lr y where c: "CT_dispatch e dad sad cmd rsp x = (r, d, sd, rsp1, lr, y)" by (metis prod.exhaust)
    have "CT_data e ctn dad sad cmd rsp s =
        ((r, d, sd, rsp1, lr), s\<lparr>ca_list := put_ctx (y\<lparr>cx_dialog := None\<rparr>) (ca_list s)\<rparr>)"
      using False c by (simp add: CT_data_def Some CT_dispatch_def dialog_context_def Let_def)
    then show ?thesis using False c assms by (intro call[OF Some]) auto
  qed
qed

lemma CT_data_inv:
  assumes "CT_data e ctn dad sad cmd rsp s = (r, s')" "ctapi_inv s"
  shows "ctapi_inv s'"
proof -
  obtain res rest where r: "r = (res, rest)" by (rule prod.exhaust)
  from assms(1)[unfolded r] show ?thesis
  proof (cases rule: CT_data_cases)
    case none
    then show ?thesis using assms(2) by simp
  next
    case (call x y)
    have "ctx_step x (y\<lparr>cx_dialog := None\<rparr>)" using CT_dispatch_step[OF call(4)] by simp
    then show ?thesis unfolding call(6) by (rule put_inv[OF assms(2) call(1)]) simp
  qed
qed

text \<open>Start, end, opening.\<close>

lemma init_state:
  assumes "init e s = (True, s')"
  shows "ca_list s' = ca_list s" "ca_count s' = Suc (ca_count s)" "ca_locked s' = ca_locked s"
    "ca_count s = 0 \<or> ca_cfg s' = ca_cfg s" "ca_count s = 0 \<Longrightarrow> cw_config (ca_cfg s') \<noteq> None"
  using assms
  by (auto simp: init_def default_serials_def Let_def rsct_config_init_def rsct_config_set_serial_filename_def
      split: if_splits option.splits)

lemma init_fails: "init e s = (False, s') \<Longrightarrow> ca_count s = 0 \<and> ca_list s' = ca_list s \<and> ca_count s' = 0
    \<and> ca_locked s' = ca_locked s"
  by (auto simp: init_def Let_def split: if_splits)

lemma fini_state:
  "ca_list (fini s) = ca_list s" "ca_count (fini s) = ca_count s - 1" "ca_locked (fini s) = ca_locked s"
  "1 < ca_count s \<Longrightarrow> ca_cfg (fini s) = ca_cfg s"
  by (auto simp: fini_def)

text \<open>After a failed opening the table is as before.\<close>

lemma init_fini_inv:
  assumes "ctapi_inv s" "init e s = (True, s1)" "ca_list s2 = ca_list s1" "ca_count s2 = ca_count s1" "ca_cfg s2 = ca_cfg s1"
  shows "ctapi_inv (fini s2)"
proof -
  have "ca_cfg (fini s2) = ca_cfg s" if "ca_list s \<noteq> []"
    using that assms init_state[OF assms(2)] fini_state(4)[of s2] by (auto simp: ctapi_inv_def)
  then show ?thesis using assms init_state(1,2)[OF assms(2)] by (auto simp: ctapi_inv_def fini_state)
qed

definition fresh_context :: "u16 \<Rightarrow> u16 \<Rightarrow> 'p ct_context \<Rightarrow> bool" where
  "fresh_context ctn pn c \<longleftrightarrow> ctx_ok c \<and> cx_ctn c = ctn \<and> cx_port c = pn"

lemma open_device_ok:
  assumes "open_device e s ctn pn name = (rv, Some c)" "\<forall>n. env_ok (en_connect e n)" "ctn \<noteq> 0xFFFF"
  shows "fresh_context ctn pn c"
proof -
  have rc: "fresh_context ctn pn c" if r: "reader_context e ctn pn n = (rv, Some c)" for n
  proof -
    obtain rv1 c1 where co: "Connect (en_connect e n) \<lparr>m_Reader = None, m_cDeviceName = n\<rparr> = (rv1, c1)" by fastforce
    have i: "creader_inv c1" using Connect_inv[OF co] assms(2) by (simp add: creader_inv_def)
    from r co obtain c2 where k: "SetKeyInterruptCallback True c1 = Some c2"
      "c = (new_context ctn pn n)\<lparr>cx_reader := Some c2\<rparr>"
      by (auto simp: reader_context_def split: if_splits option.splits)
    from facade_inv[OF facade_KeyCallback[OF k(1)] i] show ?thesis
      using assms(3) by (simp add: k(2) fresh_context_def ctx_ok_def device_ok_def new_context_def)
  qed
  have ec: "fresh_context ctn pn c" if "ecom_context ctn pn n r = (rv, Some c)" for n r
    using that assms(3)
    by (auto simp: ecom_context_def fresh_context_def ctx_ok_def device_ok_def new_context_def split: prod.splits option.splits)
  have pc: "fresh_context ctn pn ((new_context ctn pn name)\<lparr>cx_ppa := Some q\<rparr>)" for q
    using assms(3) by (simp add: fresh_context_def ctx_ok_def device_ok_def new_context_def)
  show ?thesis using assms(1) by (auto simp: open_device_def pc split: if_splits option.splits intro: rc ec)
qed

lemma init_common1_inv:
  assumes "init_common1 e ctn pn dname s = (rv, s')" "ctapi_inv s" "\<forall>n. env_ok (en_connect e n)"
  shows "ctapi_inv s' \<and> ca_locked s' = ca_locked s"
proof -
  obtain ok s1 where i: "init e s = (ok, s1)" by fastforce
  show ?thesis
  proof (cases ok)
    case False
    then show ?thesis using assms i init_fails[of e s s1] by (auto simp: init_common1_def ctapi_inv_def)
  next
    case True
    note i' = i[unfolded True[THEN eqTrueI]] and st = init_state[OF i[unfolded True[THEN eqTrueI]]]
    define s2 where "s2 = s1\<lparr>ca_serials := snd (rsct_enum_serials_with_devs (en_writable e) (ca_serials s1) (en_devs e))\<rparr>"
    have s2: "ca_list s2 = ca_list s" "ca_count s2 = Suc (ca_count s)" "ca_locked s2 = ca_locked s" "ca_cfg s2 = ca_cfg s1"
      using st by (simp_all add: s2_def)
    have undo: "ctapi_inv (fini s1) \<and> ca_locked (fini s1) = ca_locked s" "ctapi_inv (fini s2) \<and> ca_locked (fini s2) = ca_locked s"
      using init_fini_inv[OF assms(2) i'] s2 st by (simp_all add: fini_state)
    show ?thesis
    proof (cases "en_scan e < 0 \<or> ctn = 0xFFFF \<or> findContextByCtn s2 ctn \<noteq> None \<or> (pn \<noteq> 0 \<and> findContextByPort s2 pn \<noteq> None)")
      case True
      then show ?thesis using assms(1) i' undo by (auto simp: init_common1_def Let_def s2_def[symmetric] split: if_splits)
    next
      case False
      define nm where "nm = (if pn \<noteq> 0 then port_device e s2 (unat pn) else Some dname)"
      have r: "(case nm of None \<Rightarrow> (-127, fini s2) | Some name \<Rightarrow>
            (case open_device e s2 ctn pn name of (rv, None) \<Rightarrow> (rv, fini s2) | (rv, Some c) \<Rightarrow> (0, addContext c s2))) = (rv, s')"
        using assms(1) i' False
        by (cases "pn = 0") (auto simp: init_common1_def Let_def s2_def[symmetric] nm_def)
      show ?thesis
      proof (cases "\<exists>name c rv. nm = Some name \<and> open_device e s2 ctn pn name = (rv, Some c)")
        case True
        then obtain name c rv1 where od: "nm = Some name" "open_device e s2 ctn pn name = (rv1, Some c)" by blast
        have c: "ctx_ok c" "cx_ctn c = ctn" "cx_port c = pn"
          using open_device_ok[OF od(2) assms(3)] False by (auto simp: fresh_context_def)
        have s': "s' = addContext c s2" using r od by simp
        have "ctn \<notin> set (map cx_ctn (ca_list s))" "pn \<noteq> 0 \<longrightarrow> pn \<notin> set (map cx_port (ca_list s))"
          using False by (auto simp: findContextByCtn_def findContextByPort_def s2 find_None_iff)
        then have "ctapi_inv s'" using assms(2) s2 c st
          by (auto simp: ctapi_inv_def s' addContext_def)
        then show ?thesis by (simp add: s' addContext_def s2)
      next
        case False
        then have "s' = fini s2" using r by (auto split: option.splits prod.splits)
        then show ?thesis using undo by simp
      qed
    qed
  qed
qed

lemma nt_close_inv:
  assumes "nt_close ctn s = (rv, s')" "ctapi_inv s"
  shows "ctapi_inv s' \<and> ca_locked s' = ca_locked s"
proof (cases "findContextByCtn s ctn")
  case None
  then show ?thesis using assms by (simp add: nt_close_def)
next
  case (Some x)
  define s1 where "s1 = s\<lparr>ca_list := remove_ctx ctn (ca_list s)\<rparr>"
  have l: "Suc (length (remove_ctx ctn (ca_list s))) = length (ca_list s)"
    using Some by (intro remove_ctx_length) (simp add: findContextByCtn_def)
  have d: "distinct (map cx_ctn (remove_ctx ctn (ca_list s)))"
    "distinct (filter (\<lambda>p. p \<noteq> 0) (map cx_port (remove_ctx ctn (ca_list s))))"
    using remove_ctx_distinct[of "\<lambda>_. True" cx_ctn "ca_list s" ctn] remove_ctx_distinct[of "\<lambda>p. p \<noteq> 0" cx_port "ca_list s" ctn]
      assms(2) by (simp_all add: ctapi_inv_def)
  have "ca_cfg (fini s1) = ca_cfg s" if "remove_ctx ctn (ca_list s) \<noteq> []"
    using that l assms(2) fini_state(4)[of s1] by (cases "remove_ctx ctn (ca_list s)") (auto simp: s1_def ctapi_inv_def)
  moreover have "ca_list s \<noteq> []" using l by auto
  ultimately have "ctapi_inv (fini s1)" using assms(2) l d
    by (auto simp: ctapi_inv_def fini_state remove_ctx_all s1_def)
  moreover have "ca_locked (fini s1) = ca_locked s" by (simp add: fini_state s1_def)
  moreover have "s' = fini s1" using assms(1) Some by (simp add: nt_close_def s1_def)
  ultimately show ?thesis by simp
qed

lemma init_common2_inv:
  assumes "init_common2 e ctn pn dname s = Some (rv, s')" "ctapi_inv s" "\<forall>n. env_ok (en_connect e n)"
  shows "ctapi_inv s'"
proof -
  obtain rv1 s1 where c: "init_common1 e ctn pn dname s = (rv1, s1)" by fastforce
  note i1 = init_common1_inv[OF c assms(2, 3), THEN conjunct1]
  obtain rv2 y s2 where d: "CT_data e ctn 1 2 [0x20, 0x13, 0x00, 0x46, 0x00] (map (en_behind e) [0..<300]) s1 = ((rv2, y), s2)"
    by (metis prod.exhaust)
  note i2 = CT_data_inv[OF d i1]
  show ?thesis using assms(1) i1 i2
    by (auto simp: init_common2_def c d CT_close_def split: if_splits dest!: nt_close_inv)
qed

lemma inv_locked [simp]: "ctapi_inv (s\<lparr>ca_locked := b\<rparr>) = ctapi_inv s"
  by (simp add: ctapi_inv_def)

lemma locked_call_inv:
  assumes "locked_call f s = Some (rv, s')" "ctapi_inv s" "\<And>t t' rv. f t = Some (rv, t') \<Longrightarrow> ctapi_inv t \<Longrightarrow> ctapi_inv t'"
  shows "ctapi_inv s' \<and> \<not> ca_locked s'"
  using assms(1, 2) assms(3)[of "s\<lparr>ca_locked := True\<rparr>"] by (auto simp: locked_call_def split: if_splits)

section \<open>Sessions\<close>

definition en_ok :: "'p ctapi_env \<Rightarrow> bool" where
  "en_ok e \<longleftrightarrow> (\<forall>n. env_ok (en_connect e n))"

text \<open>A call of the library that returns.\<close>

inductive api_call :: "'p ctapi \<Rightarrow> 'p ctapi \<Rightarrow> bool" where
  api_init: "CT_init e ctn pn s = Some (rv, s') \<Longrightarrow> en_ok e \<Longrightarrow> api_call s s'"
| api_init_name: "rsct_init_name e ctn name s = Some (rv, s') \<Longrightarrow> en_ok e \<Longrightarrow> api_call s s'"
| api_data: "CT_data e ctn dad sad cmd rsp s = (r, s') \<Longrightarrow> api_call s s'"
| api_close: "CT_close ctn s = Some (rv, s') \<Longrightarrow> api_call s s'"
| api_keycb: "rsct_setkeycb ctn b s = (rv, s') \<Longrightarrow> api_call s s'"
| api_ioctl: "rsct_ifd_ioctl ctn code inp cap s = (y, s') \<Longrightarrow> api_call s s'"

inductive session :: "'p ctapi \<Rightarrow> 'p ctapi \<Rightarrow> bool" where
  session_nil: "session s s"
| session_call: "session s s1 \<Longrightarrow> api_call s1 s2 \<Longrightarrow> session s s2"

lemma ctx_of_inv:
  assumes "ctapi_inv s" "findContextByCtn s ctn = Some x"
  shows "ctx_ok x"
  using assms find_ctxD[OF assms(2)] by (auto simp: ctapi_inv_def list_all_iff)

lemma CT_data_locked: "CT_data e ctn dad sad cmd rsp s = (r, s') \<Longrightarrow> ca_locked s' = ca_locked s"
  by (auto simp: CT_data_def Let_def split: option.splits if_splits prod.splits)

lemma api_call_inv: "api_call s s' \<Longrightarrow> ctapi_inv s \<and> \<not> ca_locked s \<Longrightarrow> ctapi_inv s' \<and> \<not> ca_locked s'"
proof (induction rule: api_call.induct)
  case (api_init e ctn pn s rv s')
  then show ?case using locked_call_inv[of "init_common2 e ctn pn []" s rv s'] init_common2_inv[of e ctn pn "[]"]
    by (auto simp: CT_init_def en_ok_def split: if_splits)
next
  case (api_init_name e ctn name s rv s')
  then show ?case using locked_call_inv[of "init_common2 e ctn 0 name" s rv s'] init_common2_inv[of e ctn 0 name]
    by (auto simp: rsct_init_name_def en_ok_def split: if_splits)
next
  case (api_data e ctn dad sad cmd rsp s r s')
  then show ?case using CT_data_inv[OF api_data(1)] CT_data_locked[OF api_data(1)] by simp
next
  case (api_close ctn s rv s')
  then show ?case by (auto simp: CT_close_def dest: nt_close_inv)
next
  case (api_keycb ctn b s rv s')
  show ?case
  proof (cases "findContextByCtn s ctn")
    case (Some x)
    have "cx_dialog (x\<lparr>cx_keycb := b\<rparr>) = None" using ctx_of_inv[OF _ Some] api_keycb(2) by (simp add: ctx_ok_def)
    with put_inv[OF _ Some, of "x\<lparr>cx_keycb := b\<rparr>"] api_keycb show ?thesis
      by (auto simp: rsct_setkeycb_def Some split: if_splits)
  qed (use api_keycb in \<open>auto simp: rsct_setkeycb_def\<close>)
next
  case (api_ioctl ctn code inp cap s y s')
  show ?case
  proof (cases "findContextByCtn s ctn")
    case (Some x)
    show ?thesis
    proof (cases "cx_reader x")
      case (Some c)
      obtain st z c' where i: "Reader_IfdIoControl code inp cap c = ((st, z), c')" by (metis prod.exhaust)
      note st = ctx_step_reader(1)[OF Some facade_IoControl[OF i]]
      have "cx_dialog (x\<lparr>cx_reader := Some c'\<rparr>) = None"
        using ctx_of_inv[OF _ \<open>findContextByCtn s ctn = Some x\<close>] api_ioctl(2) by (simp add: ctx_ok_def)
      with put_inv[OF _ \<open>findContextByCtn s ctn = Some x\<close> st] api_ioctl show ?thesis
        by (auto simp: rsct_ifd_ioctl_def \<open>findContextByCtn s ctn = Some x\<close> Some i)
    qed (use api_ioctl Some in \<open>auto simp: rsct_ifd_ioctl_def\<close>)
  qed (use api_ioctl in \<open>auto simp: rsct_ifd_ioctl_def\<close>)
qed

lemma api_session_inv: "session s s' \<Longrightarrow> ctapi_inv s \<and> \<not> ca_locked s \<Longrightarrow> ctapi_inv s' \<and> \<not> ca_locked s'"
  by (induction rule: session.induct) (auto dest: api_call_inv)

definition api0 :: "cfg_world \<Rightarrow> string option \<Rightarrow> 'p ctapi" where
  "api0 w f = \<lparr>ca_count = 0, ca_list = [], ca_cfg = w, ca_serials = f, ca_beep = False, ca_locked = False, ca_overrun = False\<rparr>"

section \<open>Properties\<close>

text \<open>
  Property C5.  Whatever a program calls, from the start of the library on and for every behaviour of the
  devices: the terminal numbers of the open contexts are different, and so are the port numbers of
  those opened by port (a context opened by name has port 0); the count of users is the number of
  contexts, the configuration is loaded while a context is open, every context drives at most one
  device, no dialog is left open, the reader objects satisfy the invariants of the connection and the
  module table, and those of the ATR length and the protocol unless an RFID reader copied an answer to
  select over the end of \<^verbatim>\<open>m_ATR\<close>; and no lock is left behind.
\<close>

theorem api_contexts:
  assumes "session (api0 w f) s"
  shows "ctapi_inv s \<and> \<not> ca_locked s"
  using api_session_inv[OF assms] by (simp add: api0_def ctapi_inv_def)

lemma init_locked: "init e s = (ok, s') \<Longrightarrow> ca_locked s' = ca_locked s"
  by (auto simp: init_def default_serials_def Let_def split: if_splits option.splits)

lemma init_common1_locked: "init_common1 e ctn pn dname s = (rv, s') \<Longrightarrow> ca_locked s' = ca_locked s"
  by (auto simp: init_common1_def Let_def fini_state addContext_def split: if_splits option.splits prod.splits
      dest!: init_locked)

abbreviation (input) "status_query e ctn s \<equiv>
  CT_data e ctn 1 2 [0x20, 0x13, 0x00, 0x46, 0x00] (map (en_behind e) [0..<300]) s"

text \<open>
  Property C39.  \<^verbatim>\<open>CT_init\<close> returns for every device, unless the device can be opened but the query of
  its status fails: then \<^verbatim>\<open>CT_close\<close> is called with the lock held that it takes itself, and the call never
  returns.
\<close>

theorem CT_init_deadlock:
  assumes "\<not> ca_locked s"
  shows "CT_init e ctn pn s = None \<longleftrightarrow> pn \<noteq> 0 \<and> ctn \<noteq> 0xFFFF
    \<and> (\<exists>s1 rv y s2. init_common1 e ctn pn [] (s\<lparr>ca_locked := True\<rparr>) = (0, s1)
         \<and> status_query e ctn s1 = ((rv, y), s2) \<and> rv \<noteq> 0)"
proof -
  obtain rv1 s1 where i: "init_common1 e ctn pn [] (s\<lparr>ca_locked := True\<rparr>) = (rv1, s1)" by fastforce
  obtain rv y s2 where d: "status_query e ctn s1 = ((rv, y), s2)" by (metis prod.exhaust)
  obtain y1 y2 y3 y4 where y: "y = (y1, y2, y3, y4)" by (metis prod.exhaust)
  have "ca_locked s2" using init_common1_locked[OF i] CT_data_locked[OF d] by simp
  then show ?thesis using assms by (auto simp: CT_init_def locked_call_def init_common2_def i d y CT_close_def)
qed

section \<open>Examples\<close>

definition no_module :: module_info where
  "no_module = \<lparr>mi_ContentsMask = 0, mi_Status = 0, mi_ID = 0, mi_Variant = 0, mi_BaseAddr = 0, mi_CodeSize = 0,
     mi_Version = 0, mi_Revision = 0, mi_ReqVersion = 0, mi_ReqRevision = 0, mi_HeapSize = 0, mi_Description = [],
     mi_Date = [], mi_Time = []\<rparr>"

definition connect_env0 :: connect_env where
  "connect_env0 = \<lparr>ce_usbdev = None, ce_usb_open = (True, True, True, True), ce_usb = usb0 [],
     ce_serial_open = (0, True, True, True), ce_serial = line0 [] [], ce_memory = terminal0 (kernel_reader []),
     ce_time = \<lparr>tm_mday = 1, tm_mon = 1, tm_year = 2010, tm_hour = 0, tm_min = 0\<rparr>, ce_seed = 0\<rparr>"

text \<open>A bus with a pinpad reader that answers every command with \<open>code\<close>.\<close>

definition pinpad :: usb_entry where
  "pinpad = \<lparr>ue_vendor = 0xc4b, ue_product = 0x300, ue_bus = 1, ue_pos = 4, ue_serial = [], ue_udi = [],
     ue_port = -1, ue_path = [], ue_halPath = []\<rparr>"

definition pinpad_env :: "int \<Rightarrow> unit ctapi_env" where
  "pinpad_env code = \<lparr>en_usb_init = True, en_scan = 0, en_devs = [pinpad], en_writable = True, en_home = None,
     en_connect = (\<lambda>_. connect_env0), en_ecom = (\<lambda>_. ecom0 []), en_ecom_found = (\<lambda>_. False),
     en_ppa_init = (\<lambda>_. Some ()), en_ppa_data = (\<lambda>p dad sad cmd rsp. (code, dad, sad, rsp, 2, p)),
     en_dialog = False, en_behind = (\<lambda>_. 0), en_mod_image = (\<lambda>_. []), en_info_image = (\<lambda>_. []),
     en_mod = no_module, en_info = info0\<rparr>"

definition no_config :: cfg_world where
  "no_config = \<lparr>cw_config = None, cw_file = None, cw_default = None, cw_writable = True, cw_closes = True,
     cw_no_keybeep = False, cw_ecom_kernel = False\<rparr>"

lemma pinpad_env_ok: "en_ok (pinpad_env code)"
  by (simp add: en_ok_def pinpad_env_def env_ok_def connect_env0_def usb0_def memory_ok_def terminal0_def
      kernel_reader_def reader0_def)

lemma pinpad_names: "usb_name pinpad = ''usb:0c4b/0300:libusb:001:004''"
  "strncasecmp_eq ''usb:0c4b/0300:libusb:001:004'' ''usb:''"
  "\<not> contains ''0c4b/0100'' ''usb:0c4b/0300:libusb:001:004''" "contains ''0c4b/0300'' ''usb:0c4b/0300:libusb:001:004''"
  by code_simp+

definition pinpad_context :: "unit ct_context" where
  "pinpad_context = (new_context 1 1 ''usb:0c4b/0300:libusb:001:004'')\<lparr>cx_ppa := Some ()\<rparr>"

lemma pinpad_fields: "ue_vendor pinpad = 0xc4b" "ue_product pinpad = 0x300" "ue_serial pinpad = []"
  by (simp_all add: pinpad_def)

lemma pinpad_env_fields [simp]:
  "en_usb_init (pinpad_env code)" "en_scan (pinpad_env code) = 0" "en_devs (pinpad_env code) = [pinpad]"
  "en_home (pinpad_env code) = None" "en_ppa_init (pinpad_env code) = (\<lambda>_. Some ())"
  "en_ppa_data (pinpad_env code) = (\<lambda>p dad sad cmd rsp. (code, dad, sad, rsp, 2, p))" "\<not> en_dialog (pinpad_env code)"
  by (simp_all add: pinpad_env_def)

lemma pinpad_open: "open_device (pinpad_env code) s 1 1 (usb_name pinpad) = (0, Some pinpad_context)"
  by (simp add: open_device_def pinpad_names pinpad_context_def)

lemma pinpad_init1:
  "\<exists>s1. init_common1 (pinpad_env code) 1 1 [] ((api0 no_config None)\<lparr>ca_locked := b\<rparr>) = (0, s1)
     \<and> ca_list s1 = [pinpad_context] \<and> ca_count s1 = 1"
  by (simp add: init_common1_def init_def api0_def no_config_def rsct_config_init_def default_serials_def
      config_read_file_def rsct_config_get_serial_filename_def pinpad_fields Let_def findContextByCtn_def
      findContextByPort_def port_device_def pinpad_open addContext_def)

lemma pinpad_query:
  assumes "ca_list s1 = [pinpad_context]"
  shows "\<exists>y s2. status_query (pinpad_env code) 1 s1 = ((code, y), s2) \<and> length (ca_list s2) = 1
    \<and> ca_count s2 = ca_count s1"
  using assms
  by (simp add: CT_data_def findContextByCtn_def pinpad_context_def new_context_def showDialogIfRequired_def CT_internal_def)

theorem CT_init_deadlock_witness:
  "\<not> ca_locked (api0 no_config None) \<and> CT_init (pinpad_env (-128)) 1 1 (api0 no_config None) = None"
proof -
  have l: "\<not> ca_locked (api0 no_config None)" by (simp add: api0_def)
  obtain s1 where s1: "init_common1 (pinpad_env (-128)) 1 1 [] ((api0 no_config None)\<lparr>ca_locked := True\<rparr>) = (0, s1)"
    "ca_list s1 = [pinpad_context]" using pinpad_init1 by blast
  obtain y s2 where "status_query (pinpad_env (-128)) 1 s1 = ((-128, y), s2)" using pinpad_query[OF s1(2)] by blast
  with s1(1) have "\<exists>s1 rv y s2. init_common1 (pinpad_env (-128)) 1 1 [] ((api0 no_config None)\<lparr>ca_locked := True\<rparr>) = (0, s1)
         \<and> status_query (pinpad_env (-128)) 1 s1 = ((rv, y), s2) \<and> rv \<noteq> 0"
    by (intro exI[of _ s1] exI[of _ "-128"] exI[of _ y] exI[of _ s2]) simp
  with CT_init_deadlock[OF l, of "pinpad_env (-128)" 1 1] l show ?thesis by simp
qed

theorem api_contexts_witness:
  "\<exists>s. session (api0 no_config None :: unit ctapi) s \<and> length (ca_list s) = 1 \<and> ctapi_inv s \<and> \<not> ca_locked s"
proof -
  obtain s1 where s1: "init_common1 (pinpad_env 0) 1 1 [] ((api0 no_config None)\<lparr>ca_locked := True\<rparr>) = (0, s1)"
    "ca_list s1 = [pinpad_context]" using pinpad_init1 by blast
  obtain y s2 where q: "status_query (pinpad_env 0) 1 s1 = ((0, y), s2)" "length (ca_list s2) = 1"
    using pinpad_query[OF s1(2)] by blast
  obtain y1 y2 y3 y4 where y: "y = (y1, y2, y3, y4)" by (metis prod.exhaust)
  have "CT_init (pinpad_env 0) 1 1 (api0 no_config None) = Some (0, s2\<lparr>ca_locked := False\<rparr>)"
    using s1(1) q(1) y by (simp add: CT_init_def locked_call_def init_common2_def) (simp add: api0_def)
  then have "session (api0 no_config None) (s2\<lparr>ca_locked := False\<rparr>)"
    by (rule session_call[OF session_nil api_init[OF _ pinpad_env_ok]])
  from this api_contexts[OF this] show ?thesis using q(2) by (intro exI[of _ "s2\<lparr>ca_locked := False\<rparr>"]) simp
qed

end
