(* ===== verification/CJ_Driver.thy ===== *)
theory CJ_Driver
  imports CJ_CtApi
begin

unbundle bit_operations_syntax

text \<open>
  The client library for updates, \<^verbatim>\<open>libcyberjack/driver.cpp\<close> and \<^verbatim>\<open>driver_ctapi.cpp\<close>: the list of readers
  kept in step with the bus, and the commands by which modules, signatures and keys reach the reader
  through the CT-API library.

  The structures \<^verbatim>\<open>cj_ReaderInfo\<close> and \<^verbatim>\<open>cj_ModuleInfo\<close> are kept as their images in memory; those of
  cleared structures are the fields \<open>de_info\<close> and \<open>de_mod\<close>.  Response buffers on the stack hold
  whatever the memory held.  Results that wait for a call that does not return are \<open>None\<close>.
\<close>

section \<open>State\<close>

record rdr =
  ro_name :: string
  ro_product :: string
  ro_serial :: string
  ro_vendorId :: u32
  ro_productId :: u32
  ro_updateCounter :: u32
  ro_infos :: "bytes list"
  ro_info :: bytes
  ro_object :: int
  ro_ctn :: int
  ro_devicePos :: u32
  ro_busId :: u32
  ro_deviceId :: u32
  ro_halPath :: string

record drv =
  dr_updateCounter :: u32
  dr_readers :: "rdr list"

record 'p driver_env =
  de_api :: "'p ctapi_env"
  de_info :: bytes
  de_mod :: bytes

section \<open>The connection\<close>

abbreviation (input) "ErrorCode_Ok \<equiv> (0 :: int)"
abbreviation (input) "ErrorCode_Generic \<equiv> (-1 :: int)"
abbreviation (input) "ErrorCode_Invalid \<equiv> (-2 :: int)"
abbreviation (input) "ErrorCode_IO \<equiv> (-5 :: int)"

abbreviation (input) "Object_None \<equiv> (0 :: int)"
abbreviation (input) "Object_Reader \<equiv> (1 :: int)"

definition dev_name :: "rdr \<Rightarrow> string" where
  "dev_name o1 =
     (if ro_halPath o1 \<noteq> [] then ro_halPath o1
      else usb_name \<lparr>ue_vendor = ro_vendorId o1, ue_product = ro_productId o1, ue_bus = ro_busId o1,
             ue_pos = ro_deviceId o1, ue_serial = [], ue_udi = [], ue_port = -1, ue_path = [], ue_halPath = []\<rparr>)"

definition connect :: "'p driver_env \<Rightarrow> int \<Rightarrow> rdr \<Rightarrow> 'p ctapi \<Rightarrow> (int \<times> rdr \<times> 'p ctapi) option" where
  "connect e object o1 s =
     (if ro_object o1 = object then Some (ErrorCode_Ok, o1, s)
      else let o2 = (if ro_ctn o1 = -1 then o1\<lparr>ro_ctn := sint (ro_devicePos o1 + 1)\<rparr> else o1) in
        map_option (\<lambda>(rv, s1). if rv \<noteq> 0 then (ErrorCode_IO, o2, s1) else (ErrorCode_Ok, o2\<lparr>ro_object := object\<rparr>, s1))
          (rsct_init_name (de_api e) (word_of_int (ro_ctn o2)) (dev_name o2) s))"

definition disconnect :: "rdr \<Rightarrow> 'p ctapi \<Rightarrow> (int \<times> rdr \<times> 'p ctapi) option" where
  "disconnect o1 s =
     (if ro_object o1 \<noteq> Object_None
      then map_option (\<lambda>(rv, s1). (if rv \<noteq> 0 then ErrorCode_IO else ErrorCode_Ok, o1\<lparr>ro_object := Object_None\<rparr>, s1))
             (CT_close (word_of_int (ro_ctn o1)) s)
      else Some (ErrorCode_Ok, o1, s))"

definition connectedObject :: "rdr \<Rightarrow> int" where
  "connectedObject = ro_object"

text \<open>Code, response buffer, length, state of the library.\<close>

definition sendApdu :: "'p driver_env \<Rightarrow> rdr \<Rightarrow> byte \<Rightarrow> byte \<Rightarrow> bytes \<Rightarrow> bytes \<Rightarrow> 'p ctapi
    \<Rightarrow> int \<times> bytes \<times> nat \<times> 'p ctapi" where
  "sendApdu e o1 dad sad cmd rsp s =
     (if ro_object o1 \<noteq> Object_None
      then (case CT_data (de_api e) (word_of_int (ro_ctn o1)) dad sad cmd rsp s of ((rv, _, _, rsp1, lr), s1) \<Rightarrow>
             (if rv < 0 then if rv = -10 then ErrorCode_IO else if rv = -1 then ErrorCode_Invalid else ErrorCode_Generic
              else ErrorCode_Ok, rsp1, lr, s1))
      else (ErrorCode_Invalid, rsp, length rsp, s))"

section \<open>Commands\<close>

abbreviation (input) "AD_DRIVER \<equiv> (14 :: byte)"
abbreviation (input) "AD_HOST \<equiv> (2 :: byte)"

definition stack_buffer :: "'p driver_env \<Rightarrow> nat \<Rightarrow> bytes" where
  "stack_buffer e n = map (en_behind (de_api e)) [0..<n]"

text \<open>The first status byte.  A response shorter than two bytes would be read in front of the buffer.\<close>

definition sw1 :: "'p driver_env \<Rightarrow> bytes \<Rightarrow> nat \<Rightarrow> byte" where
  "sw1 e rsp lr = (if 2 \<le> lr then rsp ! (lr - 2) else en_behind (de_api e) lr)"

text \<open>One command to the driver: \<open>io\<close> is the code for a failed exchange, \<open>sz\<close> the size of the response
  buffer; the result is the response and its length.\<close>

definition driver_command :: "'p driver_env \<Rightarrow> rdr \<Rightarrow> int \<Rightarrow> nat \<Rightarrow> bytes \<Rightarrow> 'p ctapi
    \<Rightarrow> int \<times> bytes \<times> nat \<times> 'p ctapi" where
  "driver_command e o1 io sz apdu s =
     (case sendApdu e o1 AD_DRIVER AD_HOST apdu (stack_buffer e sz) s of (ret, rsp, lr, s1) \<Rightarrow>
        (if ret \<noteq> 0 then io else if sw1 e rsp lr \<noteq> 0x90 then ErrorCode_Generic else ErrorCode_Ok, rsp, lr, s1))"

definition getNumberOfModules :: "'p driver_env \<Rightarrow> rdr \<Rightarrow> 'p ctapi \<Rightarrow> int \<times> 'p ctapi" where
  "getNumberOfModules e o1 s =
     (case driver_command e o1 (-1) 512 [0x30, 0x31, 0x00, 0x00] s of (rv, rsp, lr, s1) \<Rightarrow>
        (if rv \<noteq> 0 then rv else uint (rsp ! 0), s1))"

text \<open>What the two queries share: the data of the response are copied over the structure.\<close>

definition get_image :: "'p driver_env \<Rightarrow> rdr \<Rightarrow> nat \<Rightarrow> bytes \<Rightarrow> bytes \<Rightarrow> 'p ctapi \<Rightarrow> int \<times> bytes \<times> 'p ctapi" where
  "get_image e o1 sz apdu img s =
     (case driver_command e o1 (-1) sz apdu s of (rv, rsp, lr, s1) \<Rightarrow>
        if rv \<noteq> 0 then (rv, img, s1)
        else if lr < 3 then (-1, img, s1)
        else (ErrorCode_Ok, overlay 0 (take (min (length img) (lr - 2)) rsp) img, s1))"

definition getModuleInfo :: "'p driver_env \<Rightarrow> rdr \<Rightarrow> nat \<Rightarrow> bytes \<Rightarrow> 'p ctapi \<Rightarrow> int \<times> bytes \<times> 'p ctapi" where
  "getModuleInfo e o1 idx = get_image e o1 512 [0x30, 0x32, word_of_nat idx, 0x00]"

definition getReaderInfo :: "'p driver_env \<Rightarrow> rdr \<Rightarrow> bytes \<Rightarrow> 'p ctapi \<Rightarrow> int \<times> bytes \<times> 'p ctapi" where
  "getReaderInfo e o1 = get_image e o1 1024 [0x30, 0x40, 0x00, 0x00]"

text \<open>The modules from the first that is still to be read on.\<close>

fun gather_modules :: "'p driver_env \<Rightarrow> nat \<Rightarrow> nat \<Rightarrow> rdr \<Rightarrow> 'p ctapi \<Rightarrow> int \<times> rdr \<times> 'p ctapi" where
  "gather_modules e i 0 o1 s = (ErrorCode_Ok, o1, s)"
| "gather_modules e i (Suc n) o1 s =
     (case getModuleInfo e o1 i (de_mod e) s of (rv, img, s1) \<Rightarrow>
        if rv \<noteq> ErrorCode_Ok then (rv, o1, s1)
        else gather_modules e (Suc i) n (o1\<lparr>ro_infos := ro_infos o1 @ [img]\<rparr>) s1)"

definition gather_steps :: "'p driver_env \<Rightarrow> rdr \<Rightarrow> 'p ctapi \<Rightarrow> int \<times> rdr \<times> 'p ctapi" where
  "gather_steps e o1 s =
     (case getReaderInfo e o1 (ro_info o1) s of (rv, img, s1) \<Rightarrow>
        let o2 = o1\<lparr>ro_info := img\<rparr> in
        if rv < 0 then (rv, o2, s1)
        else if ro_productId o1 \<ge> 0x400
        then (case getNumberOfModules e o2 s1 of (n, s2) \<Rightarrow>
                if n < 0 then (n, o2, s2) else gather_modules e 0 (nat n) o2 s2)
        else (ErrorCode_Ok, o2, s1))"

text \<open>The frame around the commands that connect on demand: a failure closes the connection and is
  reported, the code of closing counts only after a success.\<close>

definition with_connection :: "'p driver_env \<Rightarrow> bool \<Rightarrow> (rdr \<Rightarrow> 'p ctapi \<Rightarrow> (int \<times> rdr \<times> 'p ctapi) option) \<Rightarrow> rdr \<Rightarrow> 'p ctapi
    \<Rightarrow> (int \<times> rdr \<times> 'p ctapi) option" where
  "with_connection e doConnect f o1 s =
     (if \<not> doConnect then f o1 s
      else Option.bind (connect e Object_Reader o1 s) (\<lambda>(rv, o2, s1).
        if rv \<noteq> ErrorCode_Ok then Some (rv, o2, s1)
        else Option.bind (f o2 s1) (\<lambda>(rv, o3, s2).
          map_option (\<lambda>(rv2, y). (if rv \<noteq> ErrorCode_Ok then rv else rv2, y)) (disconnect o3 s2))))"

definition gatherInfo :: "'p driver_env \<Rightarrow> bool \<Rightarrow> rdr \<Rightarrow> 'p ctapi \<Rightarrow> (int \<times> rdr \<times> 'p ctapi) option" where
  "gatherInfo e doConnect o1 s =
     with_connection e doConnect (\<lambda>o1 s. Some (gather_steps e o1 s)) (o1\<lparr>ro_infos := [], ro_info := de_info e\<rparr>) s"

definition deleteAllModules :: "'p driver_env \<Rightarrow> bool \<Rightarrow> rdr \<Rightarrow> 'p ctapi \<Rightarrow> (int \<times> rdr \<times> 'p ctapi) option" where
  "deleteAllModules e doConnect o1 s =
     with_connection e doConnect
       (\<lambda>o1 s. case driver_command e o1 ErrorCode_IO 512 [0x30, 0x20, 0x00, 0x00] s of (rv, _, _, s1) \<Rightarrow>
          if rv \<noteq> ErrorCode_Ok then Some (rv, o1, s1) else gatherInfo e False o1 s1) o1 s"

text \<open>Data in blocks of 240 bytes; \<open>p1\<close> gives the flags of a block: first block, last block.\<close>

function send_blocks :: "'p driver_env \<Rightarrow> rdr \<Rightarrow> byte \<Rightarrow> (bool \<Rightarrow> bool \<Rightarrow> byte) \<Rightarrow> bool \<Rightarrow> bytes \<Rightarrow> 'p ctapi \<Rightarrow> int \<times> 'p ctapi" where
  "send_blocks e o1 ins p1 first pdata s =
     (if pdata = [] then (ErrorCode_Ok, s)
      else let b = take 240 pdata; r = drop 240 pdata in
        case driver_command e o1 (-1) 512 ([0x30, ins, p1 first (r = []), 0x00, word_of_nat (length b)] @ b) s of
          (rv, _, _, s1) \<Rightarrow> if rv \<noteq> 0 then (rv, s1) else send_blocks e o1 ins p1 False r s1)"
  by pat_completeness auto
termination
  by (relation "measure (\<lambda>(e, o1, ins, p1, first, pdata, s). length pdata)") auto

declare send_blocks.simps [simp del]

definition sendData :: "'p driver_env \<Rightarrow> rdr \<Rightarrow> byte \<Rightarrow> bytes \<Rightarrow> 'p ctapi \<Rightarrow> int \<times> 'p ctapi" where
  "sendData e o1 ins = send_blocks e o1 ins (\<lambda>first last. if first then 0x20 else 0x00) True"

definition sendModuleToFlash :: "'p driver_env \<Rightarrow> rdr \<Rightarrow> bytes \<Rightarrow> 'p ctapi \<Rightarrow> int \<times> 'p ctapi" where
  "sendModuleToFlash e o1 = sendData e o1 0x21"

definition sendSignatureToFlash :: "'p driver_env \<Rightarrow> rdr \<Rightarrow> bytes \<Rightarrow> 'p ctapi \<Rightarrow> int \<times> 'p ctapi" where
  "sendSignatureToFlash e o1 = sendData e o1 0x22"

definition flash :: "'p driver_env \<Rightarrow> rdr \<Rightarrow> 'p ctapi \<Rightarrow> int \<times> 'p ctapi" where
  "flash e o1 s =
     (case driver_command e o1 ErrorCode_IO 512 [0x30, 0x23, 0x00, 0x00] s of (rv, _, _, s1) \<Rightarrow> (rv, s1))"

definition updateKeys :: "'p driver_env \<Rightarrow> rdr \<Rightarrow> bytes \<Rightarrow> 'p ctapi \<Rightarrow> int \<times> 'p ctapi" where
  "updateKeys e o1 = send_blocks e o1 0x10
     (\<lambda>first last. (if first then 0x20 else 0x00) OR (if last then 0x80 else 0x00)) True"

section \<open>The list of readers\<close>

definition findReader :: "u32 \<Rightarrow> u32 \<Rightarrow> rdr list \<Rightarrow> rdr option" where
  "findReader busId deviceId rl = find (\<lambda>r. ro_busId r = busId \<and> ro_deviceId r = deviceId) rl"

text \<open>The first reader found at a position gets the counter.\<close>

fun mark_reader :: "u32 \<Rightarrow> u32 \<Rightarrow> u32 \<Rightarrow> rdr list \<Rightarrow> rdr list" where
  "mark_reader n b d [] = []"
| "mark_reader n b d (r # rs) =
     (if ro_busId r = b \<and> ro_deviceId r = d then r\<lparr>ro_updateCounter := n\<rparr> # rs else r # mark_reader n b d rs)"

text \<open>The bus: for each device its entry and the name of its product.\<close>

definition new_rdr :: "'p driver_env \<Rightarrow> usb_entry \<times> string \<Rightarrow> nat \<Rightarrow> rdr" where
  "new_rdr e dn count = (case dn of (d, nm) \<Rightarrow>
     \<lparr>ro_name = take 255 ((if nm \<noteq> [] then nm else ''Leser'') @ '' an '' @ show_int 3 (sint (ue_bus d)) @ '':''
        @ show_int 3 (sint (ue_pos d))),
      ro_product = nm, ro_serial = ue_serial d, ro_vendorId = ue_vendor d, ro_productId = ue_product d,
      ro_updateCounter = 0, ro_infos = [], ro_info = de_info e, ro_object = Object_None, ro_ctn = -1,
      ro_devicePos = word_of_nat count, ro_busId = ue_bus d, ro_deviceId = ue_pos d, ro_halPath = ue_halPath d\<rparr>)"

fun enum_devices :: "'p driver_env \<Rightarrow> u32 \<Rightarrow> (usb_entry \<times> string) list \<Rightarrow> nat \<Rightarrow> rdr list \<Rightarrow> rdr list" where
  "enum_devices e n [] count rl = rl"
| "enum_devices e n (dn # ds) count rl =
     (if findReader (ue_bus (fst dn)) (ue_pos (fst dn)) rl \<noteq> None
      then enum_devices e n ds count (mark_reader n (ue_bus (fst dn)) (ue_pos (fst dn)) rl)
      else enum_devices e n ds (Suc count) (rl @ [new_rdr e dn count]))"

definition enumReaders :: "'p driver_env \<Rightarrow> int \<Rightarrow> (usb_entry \<times> string) list \<Rightarrow> drv \<Rightarrow> int \<times> drv" where
  "enumReaders e scan devs v =
     (let rl = map (\<lambda>r. if ro_updateCounter r = 0 then r\<lparr>ro_updateCounter := dr_updateCounter v\<rparr> else r) (dr_readers v);
          n = dr_updateCounter v + 1 in
      if scan \<noteq> 0 then (ErrorCode_IO, v\<lparr>dr_updateCounter := n, dr_readers := rl\<rparr>)
      else (0, v\<lparr>dr_updateCounter := n, dr_readers := enum_devices e n devs 0 rl\<rparr>))"

definition is_old :: "u32 \<Rightarrow> rdr \<Rightarrow> bool" where
  "is_old n r \<longleftrightarrow> 0 < ro_updateCounter r \<and> ro_updateCounter r < n"

text \<open>The search starts anew after every removal.\<close>

fun drop_first :: "(rdr \<Rightarrow> bool) \<Rightarrow> rdr list \<Rightarrow> rdr list" where
  "drop_first P [] = []"
| "drop_first P (r # rs) = (if P r then rs else r # drop_first P rs)"

lemma drop_first_length: "list_ex P rs \<Longrightarrow> length (drop_first P rs) < length rs"
  by (induction rs) auto

function remove_loop :: "u32 \<Rightarrow> rdr list \<Rightarrow> rdr list" where
  "remove_loop n rl = (if list_ex (is_old n) rl then remove_loop n (drop_first (is_old n) rl) else rl)"
  by auto
termination
  by (relation "measure (\<lambda>(n, rl). length rl)") (simp_all add: drop_first_length)

declare remove_loop.simps [simp del]

definition removeOldReaders :: "drv \<Rightarrow> drv" where
  "removeOldReaders v = v\<lparr>dr_readers := remove_loop (dr_updateCounter v) (dr_readers v)\<rparr>"

definition clearReaderList :: "drv \<Rightarrow> drv" where
  "clearReaderList v = v\<lparr>dr_readers := []\<rparr>"

section \<open>The list follows the bus\<close>

definition pos_of :: "rdr \<Rightarrow> u32 \<times> u32" where
  "pos_of r = (ro_busId r, ro_deviceId r)"

definition dev_pos :: "usb_entry \<times> string \<Rightarrow> u32 \<times> u32" where
  "dev_pos dn = (ue_bus (fst dn), ue_pos (fst dn))"

text \<open>One reader at a position, and no counter ahead of that of the driver.\<close>

definition drv_inv :: "drv \<Rightarrow> bool" where
  "drv_inv v \<longleftrightarrow> distinct (map pos_of (dr_readers v)) \<and> (\<forall>r\<in>set (dr_readers v). ro_updateCounter r \<le> dr_updateCounter v)
     \<and> (dr_readers v \<noteq> [] \<longrightarrow> 0 < dr_updateCounter v)"

lemma drop_first_filter: "filter (\<lambda>r. \<not> P r) (drop_first P rs) = filter (\<lambda>r. \<not> P r) rs"
  by (induction rs) auto

lemma remove_loop_filter: "remove_loop n rl = filter (\<lambda>r. \<not> is_old n r) rl"
proof (induction n rl rule: remove_loop.induct)
  case (1 n rl)
  show ?case
  proof (cases "list_ex (is_old n) rl")
    case True
    then show ?thesis using 1 by (simp add: remove_loop.simps[of n rl] drop_first_filter)
  next
    case False
    then show ?thesis by (simp add: remove_loop.simps[of n rl] list_ex_iff filter_id_conv)
  qed
qed

lemma findReader_None: "findReader b d rl = None \<longleftrightarrow> (b, d) \<notin> set (map pos_of rl)"
  by (auto simp: findReader_def find_None_iff pos_of_def)

lemma mark_reader_pos [simp]: "map pos_of (mark_reader n b d rl) = map pos_of rl"
  by (induction rl) (auto simp: pos_of_def)

lemma mark_reader_eq:
  "distinct (map pos_of rl) \<Longrightarrow>
     mark_reader n b d rl = map (\<lambda>r. if pos_of r = (b, d) then r\<lparr>ro_updateCounter := n\<rparr> else r) rl"
proof (induction rl)
  case (Cons r rl)
  have "map (\<lambda>r. if pos_of r = (b, d) then r\<lparr>ro_updateCounter := n\<rparr> else r) rl = rl" if "pos_of r = (b, d)"
    using Cons.prems that by (intro map_idI) force
  then show ?case using Cons by (auto simp: pos_of_def)
qed simp

lemma pos_of_counter [simp]: "pos_of (r\<lparr>ro_updateCounter := n\<rparr>) = pos_of r"
  by (simp add: pos_of_def)

lemma pos_of_new [simp]: "pos_of (new_rdr e dn count) = dev_pos dn" "ro_updateCounter (new_rdr e dn count) = 0"
  by (auto simp: pos_of_def dev_pos_def new_rdr_def split: prod.splits)

text \<open>What a round of enumeration does to the readers that were there: those on the bus get the counter.\<close>

definition marked :: "u32 \<Rightarrow> (u32 \<times> u32) set \<Rightarrow> rdr \<Rightarrow> rdr" where
  "marked n P r = (if pos_of r \<in> P then r\<lparr>ro_updateCounter := n\<rparr> else r)"

lemma pos_of_marked [simp]: "pos_of (marked n P r) = pos_of r"
  by (simp add: marked_def)

lemma marked_marked: "marked n P (marked n Q r) = marked n (Q \<union> P) r"
  by (simp add: marked_def)

lemma marked_none [simp]: "marked n {} = id"
  by (simp add: marked_def fun_eq_iff)

text \<open>A reader added in this round may be met again, if the list of devices has its position twice.\<close>

lemma enum_devices_marks:
  assumes "distinct (map pos_of rl)"
  shows "\<exists>new. enum_devices e n ds count rl = map (marked n (dev_pos ` set ds)) rl @ new
    \<and> distinct (map pos_of rl @ map pos_of new) \<and> set (map pos_of new) = dev_pos ` set ds - set (map pos_of rl)
    \<and> (\<forall>r\<in>set new. ro_updateCounter r = 0 \<or> ro_updateCounter r = n)"
  using assms
proof (induction ds arbitrary: count rl)
  case Nil
  then show ?case by simp
next
  case (Cons d ds)
  show ?case
  proof (cases "dev_pos d \<in> set (map pos_of rl)")
    case True
    have m: "mark_reader n (ue_bus (fst d)) (ue_pos (fst d)) rl = map (marked n {dev_pos d}) rl"
      using mark_reader_eq[OF Cons.prems] by (simp add: marked_def dev_pos_def)
    have dm: "distinct (map pos_of (map (marked n {dev_pos d}) rl))" using Cons.prems by (simp add: comp_def)
    from Cons.IH[OF dm, of count] obtain new where
      "enum_devices e n ds count (map (marked n {dev_pos d}) rl) = map (marked n (dev_pos ` set ds)) (map (marked n {dev_pos d}) rl) @ new"
      "distinct (map pos_of rl @ map pos_of new)" "set (map pos_of new) = dev_pos ` set ds - set (map pos_of rl)"
      "\<forall>r\<in>set new. ro_updateCounter r = 0 \<or> ro_updateCounter r = n" by (auto simp: comp_def)
    moreover have "findReader (ue_bus (fst d)) (ue_pos (fst d)) rl \<noteq> None"
      using True findReader_None[of "ue_bus (fst d)" "ue_pos (fst d)" rl] by (simp add: dev_pos_def)
    ultimately show ?thesis using True by (auto simp: m comp_def marked_marked)
  next
    case False
    let ?r = "new_rdr e d count"
    have dr: "distinct (map pos_of (rl @ [?r]))" using Cons.prems False by simp
    from Cons.IH[OF dr, of "Suc count"] obtain new where n:
      "enum_devices e n ds (Suc count) (rl @ [?r]) = map (marked n (dev_pos ` set ds)) (rl @ [?r]) @ new"
      "distinct (map pos_of (rl @ [?r]) @ map pos_of new)" "set (map pos_of new) = dev_pos ` set ds - set (map pos_of (rl @ [?r]))"
      "\<forall>r\<in>set new. ro_updateCounter r = 0 \<or> ro_updateCounter r = n" by blast
    have f: "findReader (ue_bus (fst d)) (ue_pos (fst d)) rl = None"
      using False by (simp add: findReader_None dev_pos_def)
    have "map (marked n (dev_pos ` set ds)) rl = map (marked n (dev_pos ` set (d # ds))) rl"
      using False by (intro map_cong) (force simp: marked_def)+
    then have e1: "enum_devices e n (d # ds) count rl =
        map (marked n (dev_pos ` set (d # ds))) rl @ (marked n (dev_pos ` set ds) ?r # new)"
      using n(1) f by simp
    have e2: "distinct (map pos_of rl @ map pos_of (marked n (dev_pos ` set ds) ?r # new))" using n(2) by simp
    have e3: "set (map pos_of (marked n (dev_pos ` set ds) ?r # new)) = dev_pos ` set (d # ds) - set (map pos_of rl)"
      unfolding list.map set_simps image_insert n(3) pos_of_marked pos_of_new using False by (simp add: insert_Diff_if) blast
    have "ro_updateCounter (marked n (dev_pos ` set ds) ?r) = 0 \<or> ro_updateCounter (marked n (dev_pos ` set ds) ?r) = n"
      by (simp add: marked_def)
    then show ?thesis using e1 e2 e3 n(4) by (intro exI[of _ "marked n (dev_pos ` set ds) ?r # new"]) simp
  qed
qed

text \<open>
  Property C21.  The list of readers follows the bus: after \<^verbatim>\<open>enumReaders\<close> and \<^verbatim>\<open>removeOldReaders\<close> it has one
  entry for every position of a connected device and no other, and the entries that were there before
  are kept with everything but their counter.
\<close>

theorem readers_follow_bus:
  assumes "drv_inv v" "dr_updateCounter v + 1 \<noteq> 0" "enumReaders e 0 devs v = (rv, v1)"
  shows "rv = 0 \<and> drv_inv (removeOldReaders v1) \<and> pos_of ` set (dr_readers (removeOldReaders v1)) = dev_pos ` set devs
    \<and> (\<forall>r\<in>set (dr_readers v). pos_of r \<in> dev_pos ` set devs \<longrightarrow>
         r\<lparr>ro_updateCounter := dr_updateCounter v + 1\<rparr> \<in> set (dr_readers (removeOldReaders v1)))"
proof -
  define m n where "m = dr_updateCounter v" and "n = m + 1"
  have "unat n = Suc (unat m)" using assms(2) unatSuc[of m] by (simp add: m_def n_def add.commute)
  then have mn: "m < n" "0 < n" by (simp_all add: word_less_nat_alt)
  define fresh where "fresh r = (if ro_updateCounter r = 0 then r\<lparr>ro_updateCounter := m\<rparr> else r)" for r :: rdr
  define rl where "rl = map fresh (dr_readers v)"
  have pf [simp]: "pos_of (fresh r) = pos_of r" "(fresh r)\<lparr>ro_updateCounter := k\<rparr> = r\<lparr>ro_updateCounter := k\<rparr>" for r k
    by (simp_all add: fresh_def)
  have pr: "map pos_of rl = map pos_of (dr_readers v)" by (simp add: rl_def comp_def)
  have c: "0 < ro_updateCounter r \<and> ro_updateCounter r \<le> m" if "r \<in> set rl" for r
    using that assms(1) by (auto simp: rl_def fresh_def drv_inv_def m_def word_gt_0)
  have old: "is_old n r" if "r \<in> set rl" for r using c[OF that] mn by (auto simp: is_old_def)
  have "distinct (map pos_of rl)" using assms(1) by (simp add: pr drv_inv_def)
  from enum_devices_marks[OF this, of e n devs 0] obtain new where new:
    "enum_devices e n devs 0 rl = map (marked n (dev_pos ` set devs)) rl @ new" "distinct (map pos_of rl @ map pos_of new)"
    "set (map pos_of new) = dev_pos ` set devs - set (map pos_of rl)" "\<forall>r\<in>set new. ro_updateCounter r = 0 \<or> ro_updateCounter r = n"
    by blast
  have rl': "rl = map (\<lambda>r. if ro_updateCounter r = 0 then r\<lparr>ro_updateCounter := m\<rparr> else r) (dr_readers v)"
    by (simp add: rl_def fresh_def)
  have v1: "rv = 0" "v1 = v\<lparr>dr_updateCounter := n, dr_readers := map (marked n (dev_pos ` set devs)) rl @ new\<rparr>"
    using assms(3)[unfolded enumReaders_def Let_def, folded m_def, folded n_def, folded rl'] by (simp_all add: new(1))
  define kept where "kept = map (\<lambda>r. r\<lparr>ro_updateCounter := n\<rparr>) (filter (\<lambda>r. pos_of r \<in> dev_pos ` set devs) rl)"
  have "filter (\<lambda>r. \<not> is_old n r) new = new" using new(4) by (auto simp: filter_id_conv is_old_def)
  moreover have "filter (\<lambda>r. \<not> is_old n r) (map (marked n (dev_pos ` set devs)) xs) =
      map (\<lambda>r. r\<lparr>ro_updateCounter := n\<rparr>) (filter (\<lambda>r. pos_of r \<in> dev_pos ` set devs) xs)" if "set xs \<subseteq> set rl" for xs
    using that old by (induction xs) (auto simp: marked_def, auto simp: is_old_def)
  ultimately have res: "removeOldReaders v1 = v\<lparr>dr_updateCounter := n, dr_readers := kept @ new\<rparr>"
    by (simp add: removeOldReaders_def v1(2) remove_loop_filter kept_def)
  have pk: "map pos_of kept = map pos_of (filter (\<lambda>r. pos_of r \<in> dev_pos ` set devs) rl)" by (simp add: kept_def comp_def)
  have "distinct (map pos_of (kept @ new))" using new(2) by (auto simp: pk distinct_map_filter)
  moreover have "\<forall>r\<in>set (kept @ new). ro_updateCounter r \<le> n" using new(4) by (auto simp: kept_def)
  ultimately have "drv_inv (removeOldReaders v1)" using mn by (simp add: drv_inv_def res)
  moreover have "pos_of ` set (kept @ new) = dev_pos ` set devs"
  proof -
    have "set (map pos_of kept) = set (map pos_of rl) \<inter> dev_pos ` set devs" unfolding pk set_map set_filter by blast
    moreover have "R \<inter> D \<union> (D - R) = D" for R D :: "(u32 \<times> u32) set" by blast
    ultimately show ?thesis using new(3) by (simp add: image_Un)
  qed
  moreover have "r\<lparr>ro_updateCounter := n\<rparr> \<in> set kept" if "r \<in> set (dr_readers v)" "pos_of r \<in> dev_pos ` set devs" for r
  proof -
    have "fresh r \<in> set (filter (\<lambda>r. pos_of r \<in> dev_pos ` set devs) rl)" using that by (simp add: rl_def)
    then have "(fresh r)\<lparr>ro_updateCounter := n\<rparr> \<in> set kept" unfolding kept_def set_map by (rule imageI)
    then show ?thesis by simp
  qed
  ultimately show ?thesis using v1(1) by (simp add: res n_def[symmetric] m_def[symmetric])
qed

section \<open>Uploads arrive\<close>

lemma put_ctx_find:
  "find (\<lambda>c. cx_ctn c = n) cs = Some x \<Longrightarrow> cx_ctn y = n \<Longrightarrow> find (\<lambda>c. cx_ctn c = n) (put_ctx y cs) = Some y"
  by (induction cs) (auto split: if_splits)

lemma put_ctx_other:
  "cx_ctn y \<noteq> n \<Longrightarrow> find (\<lambda>c. cx_ctn c = n) (put_ctx y cs) = find (\<lambda>c. cx_ctn c = n) cs"
  by (induction cs) auto

lemma put_ctx_put: "cx_ctn y = cx_ctn x \<Longrightarrow> put_ctx y (put_ctx x cs) = put_ctx y cs"
  by (induction cs) auto

definition put :: "'p ct_context \<Rightarrow> 'p ctapi \<Rightarrow> 'p ctapi" where
  "put x s = s\<lparr>ca_list := put_ctx x (ca_list s)\<rparr>"

lemma find_put: "findContextByCtn s n = Some x \<Longrightarrow> cx_ctn y = n \<Longrightarrow> findContextByCtn (put y s) n = Some y"
  by (simp add: findContextByCtn_def put_def put_ctx_find)

lemma find_put_other: "cx_ctn y \<noteq> n \<Longrightarrow> findContextByCtn (put y s) n = findContextByCtn s n"
  by (simp add: findContextByCtn_def put_def put_ctx_other)

lemma put_put: "cx_ctn y = cx_ctn x \<Longrightarrow> put y (put x s) = put y s"
  by (simp add: put_def put_ctx_put)

text \<open>A connected reader and its context.\<close>

definition linked :: "rdr \<Rightarrow> 'p ctapi \<Rightarrow> 'p ct_context \<Rightarrow> bool" where
  "linked o1 s x \<longleftrightarrow> ro_object o1 \<noteq> 0 \<and> findContextByCtn s (word_of_int (ro_ctn o1)) = Some x \<and> cx_dialog x = None"

definition command_code :: "'p driver_env \<Rightarrow> int \<Rightarrow> 'p sp_reply \<Rightarrow> int" where
  "command_code e io y = (case y of (rv, rsp, n, _) \<Rightarrow> if rv < 0 then io else if sw1 e rsp n \<noteq> 0x90 then -1 else 0)"

definition reply_context :: "'p sp_reply \<Rightarrow> 'p ct_context" where
  "reply_context y = (snd (snd (snd y)))\<lparr>cx_dialog := None\<rparr>"

lemma linked_ctn: "linked o1 s x \<Longrightarrow> cx_ctn x = word_of_int (ro_ctn o1)"
  by (auto simp: linked_def dest: find_ctxD)

lemma linked_put: "linked o1 s x \<Longrightarrow> cx_ctn y = cx_ctn x \<Longrightarrow> cx_dialog y = None \<Longrightarrow> linked o1 (put y s) y"
  using find_put linked_ctn[of o1 s x] by (auto simp: linked_def)

lemma linked_frame:
  assumes "linked o1 s x" "cx_ctn y = cx_ctn x"
  shows "\<forall>n. n = word_of_int (ro_ctn o1) \<or> findContextByCtn (put y s) n = findContextByCtn s n"
proof
  fix n
  show "n = word_of_int (ro_ctn o1) \<or> findContextByCtn (put y s) n = findContextByCtn s n"
    using find_put_other[of y n s] assms linked_ctn[OF assms(1)] by auto
qed

lemma driver_command_special:
  assumes "linked o1 s x" "4 \<le> length cmd" "cmd ! 0 = 0x30" "2 \<le> sz" "io \<noteq> 0"
    "special_command (de_api e) cmd (stack_buffer e sz) x = y"
  shows "\<exists>rsp n. driver_command e o1 io sz cmd s = (command_code e io y, rsp, n, put (reply_context y) s)"
proof -
  obtain rv rsp1 n x1 where y: "y = (rv, rsp1, n, x1)" by (metis prod.exhaust)
  have "CT_data (de_api e) (word_of_int (ro_ctn o1)) 14 2 cmd (stack_buffer e sz) s =
      ((rv, 2, 14, rsp1, n), put (x1\<lparr>cx_dialog := None\<rparr>) s)"
    using assms y by (simp add: CT_data_def linked_def showDialogIfRequired_def CT_special_def stack_buffer_def put_def)
  then show ?thesis using assms(1, 5)
    by (simp add: driver_command_def sendApdu_def linked_def y command_code_def reply_context_def)
qed

text \<open>A command that takes data in blocks: the buffer it fills, and what it does with a complete buffer;
  only the last block of some commands asks for that.\<close>

locale upload =
  fixes ins :: byte and buf :: "'p ct_context \<Rightarrow> bytes" and wr :: "bytes \<Rightarrow> 'p ct_context \<Rightarrow> 'p ct_context"
    and fin :: "bool \<Rightarrow> bytes \<Rightarrow> 'p ct_context \<Rightarrow> 'p sp_reply"
  assumes buf_wr: "buf (wr b x) = b" and wr_wr: "wr b (wr c x) = wr b x"
    and wr_fields: "cx_ctn (wr b x) = cx_ctn x" "cx_dialog (wr b x) = cx_dialog x" "cx_reader (wr b x) = cx_reader x"
    and fin_more: "fin False rsp x = sp_ok rsp x"
    and runs: "\<And>e cmd rsp x. cmd ! 1 = ins \<Longrightarrow> cx_reader x \<noteq> None \<Longrightarrow> special_command e cmd rsp x =
       sp_upload e cmd rsp (buf x) (\<lambda>b. wr b x) (fin ((cmd ! 2) AND 0x80 \<noteq> 0) rsp)"
begin

text \<open>One block.\<close>

lemma block_runs:
  assumes "cx_reader x \<noteq> None" "(p1 AND 0x20 \<noteq> 0) = first" "p1 AND 0x40 = 0" "length b \<le> 240"
  shows "special_command e ([0x30, ins, p1, 0x00, word_of_nat (length b)] @ b) rsp x =
    fin (p1 AND 0x80 \<noteq> 0) rsp (wr ((if first then [] else buf x) @ b) x)"
proof -
  let ?c = "[0x30, ins, p1, 0x00, word_of_nat (length b)] @ b"
  have "unat (word_of_nat (length b) :: byte) = length b" using assms(4) by (simp add: unat_of_nat)
  then have "sp_block e ?c = map (cmd_at e ?c) [5..<5 + length b]" by (simp add: sp_block_def)
  also have "\<dots> = b" by (rule nth_equalityI) (simp_all add: cmd_at_def nth_append)
  finally have bl: "sp_block e ?c = b" .
  have "special_command e ?c rsp x = sp_upload e ?c rsp (buf x) (\<lambda>b. wr b x) (fin (p1 AND 0x80 \<noteq> 0) rsp)"
    using runs[of ?c x e rsp] assms(1) by simp
  also have "\<dots> = fin (p1 AND 0x80 \<noteq> 0) rsp (wr ((if first then [] else buf x) @ b) x)"
    using assms(2, 3) by (auto simp: sp_upload_def Let_def bl[simplified])
  finally show ?thesis .
qed

lemma blocks_arrive:
  assumes "linked o1 s x" "cx_reader x \<noteq> None" "pdata \<noteq> []"
    "\<And>f l. (p1 f l AND 0x20 \<noteq> 0) = f \<and> p1 f l AND 0x40 = 0 \<and> (p1 f l AND 0x80 \<noteq> 0) = (marks \<and> l)"
    "y = fin marks (stack_buffer e 512) (wr ((if first then [] else buf x) @ pdata) x)"
    "cx_ctn (reply_context y) = cx_ctn x"
  shows "send_blocks e o1 ins p1 first pdata s = (command_code e (-1) y, put (reply_context y) s)"
  using assms(1,2,3,5,6)
proof (induction "length pdata" arbitrary: pdata first s x rule: less_induct)
  case less
  define b r where "b = take 240 pdata" and "r = drop 240 pdata"
  have split: "pdata = b @ r" by (simp add: b_def r_def)
  have b: "length b \<le> 240" by (simp add: b_def)
  define q where "q = p1 first (r = [])"
  have q: "(q AND 0x20 \<noteq> 0) = first" "q AND 0x40 = 0" "(q AND 0x80 \<noteq> 0) = (marks \<and> r = [])"
    using assms(4)[of first "r = []"] by (auto simp: q_def)
  define x1 where "x1 = wr ((if first then [] else buf x) @ b) x"
  define z where "z = fin (marks \<and> r = []) (stack_buffer e 512) x1"
  let ?c = "[0x30, ins, q, 0x00, word_of_nat (length b)] @ b"
  have "special_command (de_api e) ?c (stack_buffer e 512) x = z"
    using block_runs[OF less.prems(2) q(1,2) b] by (simp add: z_def x1_def q(3))
  from driver_command_special[OF less.prems(1) _ _ _ _ this, of "-1"] obtain rsp n
    where dc: "driver_command e o1 (-1) 512 ?c s = (command_code e (-1) z, rsp, n, put (reply_context z) s)" by auto
  have sb: "send_blocks e o1 ins p1 first pdata s = (if command_code e (-1) z \<noteq> 0 then (command_code e (-1) z, put (reply_context z) s)
      else send_blocks e o1 ins p1 False r (put (reply_context z) s))"
    using less.prems(3) dc by (simp add: send_blocks.simps[of e o1 ins p1 first pdata s] b_def[symmetric] r_def[symmetric] q_def)
  show ?case
  proof (cases "r = []")
    case True
    then have "z = y" using less.prems(4) split by (simp add: z_def x1_def)
    then show ?thesis using sb True by (simp add: send_blocks.simps[of e o1 ins p1 False "[]"])
  next
    case False
    have z: "z = sp_ok (stack_buffer e 512) x1" using False by (simp add: z_def fin_more)
    have "sw1 e (overlay 0 [0x90, 0x00] (stack_buffer e 512)) 2 = 0x90"
      by (simp add: sw1_def stack_buffer_def overlay_def)
    then have c0: "command_code e (-1) z = 0" by (simp add: z command_code_def sp_answer_def eval_nat_numeral)
    have d: "cx_dialog x1 = None" using less.prems(1) by (simp add: x1_def wr_fields linked_def)
    have rc: "reply_context z = x1" using d by (cases x1) (simp add: z reply_context_def sp_answer_def)
    have x1: "cx_ctn x1 = cx_ctn x" "cx_reader x1 \<noteq> None" using less.prems(2) by (simp_all add: x1_def wr_fields)
    have len: "length r < length pdata" using less.prems(3) by (simp add: r_def)
    have y: "y = fin marks (stack_buffer e 512) (wr ((if False then [] else buf x1) @ r) x1)"
      using less.prems(4) split by (simp add: x1_def buf_wr wr_wr)
    have "send_blocks e o1 ins p1 False r (put x1 s) = (command_code e (-1) y, put (reply_context y) (put x1 s))"
      by (rule less.hyps[OF len linked_put[OF less.prems(1) x1(1) d] x1(2) False y]) (simp add: less.prems(5) x1)
    then show ?thesis using sb c0 rc less.prems(5) x1(1) by (simp add: put_put)
  qed
qed

end

interpretation module_data: upload "0x21" cx_data "\<lambda>b x. x\<lparr>cx_data := b\<rparr>" "\<lambda>_ rsp. sp_ok rsp"
  by unfold_locales (auto simp: special_command_def specialUploadMod_def Let_def)

interpretation signature_data: upload "0x22" cx_sig "\<lambda>b x. x\<lparr>cx_sig := b\<rparr>" "\<lambda>_ rsp. sp_ok rsp"
  by unfold_locales (auto simp: special_command_def specialUploadSig_def Let_def)

interpretation key_data: upload "0x10" cx_data "\<lambda>b x. x\<lparr>cx_data := b\<rparr>"
  "\<lambda>m rsp x. if m then sp_call (Reader_CtKeyUpdate (cx_data x)) rsp x (\<lambda>_. sp_ok rsp) else sp_ok rsp x"
  by unfold_locales (auto simp: special_command_def specialKeyUpdate_def Let_def cong: if_cong)

lemma sp_ok_code: "2 \<le> sz \<Longrightarrow> command_code e io (sp_ok (stack_buffer e sz) x) = 0"
  by (simp add: command_code_def sp_answer_def sw1_def stack_buffer_def overlay_def eval_nat_numeral)

lemma sp_fail_simps: "command_code e io (sp_fail (-8) rsp x) = io" "reply_context (sp_fail k rsp x) = x\<lparr>cx_dialog := None\<rparr>"
  by (simp_all add: command_code_def reply_context_def sp_fail_def)

lemma sp_ok_context [simp]: "reply_context (sp_answer d rsp x) = x\<lparr>cx_dialog := None\<rparr>"
  by (simp add: reply_context_def sp_answer_def)

text \<open>A call of the reader that decides the answer.\<close>

lemma sp_call_reply:
  assumes "cx_reader x = Some c" "2 \<le> sz"
  shows "command_code e io (sp_call f (stack_buffer e sz) x (\<lambda>_. sp_ok (stack_buffer e sz))) =
      (if fst (fst (f c)) = CJ_SUCCESS then 0 else io)"
    "reply_context (sp_call f (stack_buffer e sz) x (\<lambda>_. sp_ok (stack_buffer e sz))) =
      x\<lparr>cx_reader := Some (snd (f c)), cx_dialog := None\<rparr>"
  using assms sp_ok_code[OF assms(2)]
  by (auto simp: sp_call_def Let_def sp_fail_simps split: prod.splits)

lemma linked_dialog:
  assumes "linked o1 s x"
  shows "x\<lparr>cx_dialog := None\<rparr> = x" "x\<lparr>cx_data := d, cx_dialog := None\<rparr> = x\<lparr>cx_data := d\<rparr>"
    "x\<lparr>cx_sig := d, cx_dialog := None\<rparr> = x\<lparr>cx_sig := d\<rparr>" "x\<lparr>cx_reader := c, cx_dialog := None\<rparr> = x\<lparr>cx_reader := c\<rparr>"
  using assms by (cases x; simp add: linked_def)+

lemma flags_plain: "((if f then 0x20 else 0x00 :: byte) AND 0x20 \<noteq> 0) = f \<and> (if f then 0x20 else 0x00 :: byte) AND 0x40 = 0
    \<and> ((if f then 0x20 else 0x00 :: byte) AND 0x80 \<noteq> 0) = (False \<and> l)"
  by simp

lemma flags_last:
  "(((if f then 0x20 else 0x00) OR (if l then 0x80 else 0x00) :: byte) AND 0x20 \<noteq> 0) = f
    \<and> ((if f then 0x20 else 0x00) OR (if l then 0x80 else 0x00) :: byte) AND 0x40 = 0
    \<and> (((if f then 0x20 else 0x00) OR (if l then 0x80 else 0x00) :: byte) AND 0x80 \<noteq> 0) = (True \<and> l)"
  by simp

lemma sendModule_arrives:
  assumes "linked o1 s x" "cx_reader x \<noteq> None" "m \<noteq> []"
  shows "sendModuleToFlash e o1 m s = (0, put (x\<lparr>cx_data := m\<rparr>) s)"
  unfolding sendModuleToFlash_def sendData_def
  using module_data.blocks_arrive[OF assms flags_plain refl, of e True] linked_dialog[OF assms(1)] assms(1)
  by (simp add: sp_ok_code linked_def)

lemma sendSignature_arrives:
  assumes "linked o1 s x" "cx_reader x \<noteq> None" "sg \<noteq> []"
  shows "sendSignatureToFlash e o1 sg s = (0, put (x\<lparr>cx_sig := sg\<rparr>) s)"
  unfolding sendSignatureToFlash_def sendData_def
  using signature_data.blocks_arrive[OF assms flags_plain refl, of e True] linked_dialog[OF assms(1)] assms(1)
  by (simp add: sp_ok_code linked_def)

lemma flash_runs:
  assumes "linked o1 s x" "cx_reader x = Some c" "cx_data x \<noteq> []" "cx_sig x \<noteq> []"
  shows "flash e o1 s = (if fst (fst (Reader_CtLoadModule (cx_data x) (cx_sig x) c)) = CJ_SUCCESS then 0 else -5,
    put (x\<lparr>cx_reader := Some (snd (Reader_CtLoadModule (cx_data x) (cx_sig x) c))\<rparr>) s)"
proof -
  let ?y = "sp_call (Reader_CtLoadModule (cx_data x) (cx_sig x)) (stack_buffer e 512) x (\<lambda>_. sp_ok (stack_buffer e 512))"
  have "special_command (de_api e) [0x30, 0x23, 0x00, 0x00] (stack_buffer e 512) x = ?y"
    using assms by (simp add: special_command_def specialUploadFlash_def Let_def)
  from driver_command_special[OF assms(1) _ _ _ _ this, of "-5"] show ?thesis
    using sp_call_reply[OF assms(2), where sz = 512 and e = e and f = "Reader_CtLoadModule (cx_data x) (cx_sig x)"] linked_dialog(4)[OF assms(1)]
    by (auto simp: flash_def)
qed

lemma updateKeys_runs:
  assumes "linked o1 s x" "cx_reader x = Some c" "k \<noteq> []"
  shows "updateKeys e o1 k s = (if fst (fst (Reader_CtKeyUpdate k c)) = CJ_SUCCESS then 0 else -1,
    put (x\<lparr>cx_data := k, cx_reader := Some (snd (Reader_CtKeyUpdate k c))\<rparr>) s)"
proof -
  let ?x = "x\<lparr>cx_data := k\<rparr>"
  let ?y = "sp_call (Reader_CtKeyUpdate k) (stack_buffer e 512) ?x (\<lambda>_. sp_ok (stack_buffer e 512))"
  have r: "cx_reader ?x = Some c" using assms(2) by simp
  note reply = sp_call_reply[OF r, where sz = 512 and e = e and f = "Reader_CtKeyUpdate k", simplified]
  have "x\<lparr>cx_data := k, cx_reader := d, cx_dialog := None\<rparr> = x\<lparr>cx_data := k, cx_reader := d\<rparr>" for d
    using assms(1) by (cases x) (simp add: linked_def)
  then have c: "reply_context ?y = ?x\<lparr>cx_reader := Some (snd (Reader_CtKeyUpdate k c))\<rparr>" using reply(2) by simp
  have "send_blocks e o1 0x10 (\<lambda>first last. (if first then 0x20 else 0x00) OR (if last then 0x80 else 0x00)) True k s =
      (command_code e (-1) ?y, put (reply_context ?y) s)"
    by (rule key_data.blocks_arrive[OF assms(1) _ assms(3) flags_last]) (simp_all add: assms(2) c)
  then show ?thesis unfolding updateKeys_def c reply(1) .
qed

text \<open>
  Property C6.  Updates arrive: a module and its signature, sent in blocks through the CT-API library to
  a connected reader, reach \<^verbatim>\<open>CtLoadModule\<close> of the reader object whole and unchanged, and so does a key
  file \<^verbatim>\<open>CtKeyUpdate\<close>; success is reported exactly if the reader object reported it, and no other
  terminal is touched.
\<close>

theorem updates_arrive:
  assumes "linked o1 s x" "cx_reader x = Some c" "m \<noteq> []" "sg \<noteq> []" "k \<noteq> []"
  shows "(\<exists>s1 s2 s3 x3. sendModuleToFlash e o1 m s = (0, s1) \<and> sendSignatureToFlash e o1 sg s1 = (0, s2)
      \<and> flash e o1 s2 = (if fst (fst (Reader_CtLoadModule m sg c)) = CJ_SUCCESS then 0 else -5, s3)
      \<and> linked o1 s3 x3 \<and> cx_reader x3 = Some (snd (Reader_CtLoadModule m sg c))
      \<and> (\<forall>n. n = word_of_int (ro_ctn o1) \<or> findContextByCtn s3 n = findContextByCtn s n))
    \<and> (\<exists>s1 x1. updateKeys e o1 k s = (if fst (fst (Reader_CtKeyUpdate k c)) = CJ_SUCCESS then 0 else -1, s1)
      \<and> linked o1 s1 x1 \<and> cx_reader x1 = Some (snd (Reader_CtKeyUpdate k c))
      \<and> (\<forall>n. n = word_of_int (ro_ctn o1) \<or> findContextByCtn s1 n = findContextByCtn s n))"
proof (intro conjI)
  let ?x1 = "x\<lparr>cx_data := m\<rparr>"
  let ?x2 = "?x1\<lparr>cx_sig := sg\<rparr>"
  let ?x3 = "?x2\<lparr>cx_reader := Some (snd (Reader_CtLoadModule m sg c))\<rparr>"
  note d = assms(1)[unfolded linked_def, THEN conjunct2, THEN conjunct2]
  have s1: "sendModuleToFlash e o1 m s = (0, put ?x1 s)" "linked o1 (put ?x1 s) ?x1"
    using sendModule_arrives[OF assms(1) _ assms(3)] assms(2) linked_put[OF assms(1), of ?x1] d by auto
  have s2: "sendSignatureToFlash e o1 sg (put ?x1 s) = (0, put ?x2 s)" "linked o1 (put ?x2 s) ?x2"
    using sendSignature_arrives[OF s1(2) _ assms(4)] assms(2) linked_put[OF assms(1), of ?x2] d by (auto simp: put_put)
  have "flash e o1 (put ?x2 s) = (if fst (fst (Reader_CtLoadModule m sg c)) = CJ_SUCCESS then 0 else -5, put ?x3 s)"
    using flash_runs[OF s2(2), of c] assms(2-4) by (simp add: put_put)
  moreover have "linked o1 (put ?x3 s) ?x3" using linked_put[OF assms(1), of ?x3] d by simp
  moreover have "\<forall>n. n = word_of_int (ro_ctn o1) \<or> findContextByCtn (put ?x3 s) n = findContextByCtn s n"
    using linked_frame[OF assms(1), of ?x3] by simp
  ultimately show "\<exists>s1 s2 s3 x3. sendModuleToFlash e o1 m s = (0, s1) \<and> sendSignatureToFlash e o1 sg s1 = (0, s2)
      \<and> flash e o1 s2 = (if fst (fst (Reader_CtLoadModule m sg c)) = CJ_SUCCESS then 0 else -5, s3)
      \<and> linked o1 s3 x3 \<and> cx_reader x3 = Some (snd (Reader_CtLoadModule m sg c))
      \<and> (\<forall>n. n = word_of_int (ro_ctn o1) \<or> findContextByCtn s3 n = findContextByCtn s n)"
    using s1(1) s2(1) by (intro exI[of _ "put ?x1 s"] exI[of _ "put ?x2 s"] exI[of _ "put ?x3 s"] exI[of _ ?x3]) simp
  let ?y = "x\<lparr>cx_data := k, cx_reader := Some (snd (Reader_CtKeyUpdate k c))\<rparr>"
  have "linked o1 (put ?y s) ?y" using linked_put[OF assms(1), of ?y] d by simp
  moreover have "\<forall>n. n = word_of_int (ro_ctn o1) \<or> findContextByCtn (put ?y s) n = findContextByCtn s n"
    using linked_frame[OF assms(1), of ?y] by simp
  ultimately show "\<exists>s1 x1. updateKeys e o1 k s = (if fst (fst (Reader_CtKeyUpdate k c)) = CJ_SUCCESS then 0 else -1, s1)
      \<and> linked o1 s1 x1 \<and> cx_reader x1 = Some (snd (Reader_CtKeyUpdate k c))
      \<and> (\<forall>n. n = word_of_int (ro_ctn o1) \<or> findContextByCtn s1 n = findContextByCtn s n)"
    unfolding updateKeys_runs[OF assms(1,2,5)] by (intro exI[of _ "put ?y s"] exI[of _ ?y]) simp
qed

section \<open>Examples\<close>

definition driver_env0 :: "unit driver_env" where
  "driver_env0 = \<lparr>de_api = pinpad_env 0, de_info = [0, 0], de_mod = [0, 0]\<rparr>"

definition rdr0 :: rdr where
  "rdr0 = (new_rdr driver_env0 (pinpad, []) 0)\<lparr>ro_object := 1, ro_ctn := 1, ro_updateCounter := 2\<rparr>"

definition drv0 :: drv where
  "drv0 = \<lparr>dr_updateCounter = 3, dr_readers = [rdr0]\<rparr>"

text \<open>The reader at position 4 is unplugged, another one plugged in at position 7.\<close>

theorem readers_follow_bus_witness:
  "\<exists>v1. enumReaders driver_env0 0 [(device0, [])] drv0 = (0, v1) \<and> pos_of ` set (dr_readers (removeOldReaders v1)) = {(1, 7)}"
proof -
  obtain rv v1 where r: "enumReaders driver_env0 0 [(device0, [])] drv0 = (rv, v1)" by fastforce
  have "drv_inv drv0" by (simp add: drv_inv_def drv0_def rdr0_def)
  moreover have "dr_updateCounter drv0 + 1 \<noteq> 0" by (simp add: drv0_def)
  ultimately have "rv = 0 \<and> drv_inv (removeOldReaders v1)
    \<and> pos_of ` set (dr_readers (removeOldReaders v1)) = dev_pos ` set [(device0, [])]
    \<and> (\<forall>r\<in>set (dr_readers drv0). pos_of r \<in> dev_pos ` set [(device0, [])] \<longrightarrow>
         r\<lparr>ro_updateCounter := dr_updateCounter drv0 + 1\<rparr> \<in> set (dr_readers (removeOldReaders v1)))"
    using r by (rule readers_follow_bus)
  then show ?thesis using r by (intro exI[of _ v1]) (simp add: dev_pos_def device0_def)
qed

definition reader_ctx :: "unit ct_context" where
  "reader_ctx = (new_context 1 1 ''usb'')\<lparr>cx_reader := Some (usb_client [])\<rparr>"

definition api1 :: "unit ctapi" where
  "api1 = (api0 no_config None)\<lparr>ca_list := [reader_ctx], ca_count := 1\<rparr>"

theorem updates_arrive_witness:
  "(\<exists>s1 s2 s3 x3. sendModuleToFlash driver_env0 rdr0 [1, 2] api1 = (0, s1) \<and> sendSignatureToFlash driver_env0 rdr0 [3] s1 = (0, s2)
     \<and> flash driver_env0 rdr0 s2 = (if fst (fst (Reader_CtLoadModule [1, 2] [3] (usb_client []))) = CJ_SUCCESS then 0 else -5, s3)
     \<and> linked rdr0 s3 x3 \<and> cx_reader x3 = Some (snd (Reader_CtLoadModule [1, 2] [3] (usb_client []))))"
proof -
  have "linked rdr0 api1 reader_ctx"
    by (simp add: linked_def rdr0_def api1_def findContextByCtn_def reader_ctx_def new_context_def)
  moreover have "cx_reader reader_ctx = Some (usb_client [])" by (simp add: reader_ctx_def)
  moreover have "[1, 2] \<noteq> ([] :: bytes)" "[3] \<noteq> ([] :: bytes)" by simp_all
  ultimately show ?thesis using updates_arrive[of rdr0 api1 reader_ctx "usb_client []" "[1, 2]" "[3]" "[1]" driver_env0] by blast
qed

end
