(* ===== verification/CJ_Ifd.thy ===== *)
theory CJ_Ifd
  imports CJ_CtApi
begin

unbundle bit_operations_syntax

text \<open>
  The handler of the PC/SC daemon, \<^verbatim>\<open>ifd/ifdhandler.c\<close>: channels over the terminals of the CT-API library,
  power, transmission, capabilities.  The control function with the PIN commands is in \<open>CJ_Part10\<close>.

  A logical unit number gives the terminal (bits 16 to 31) and the slot, which is always 0 because a
  reader has one slot.  A \<^verbatim>\<open>DWORD\<close> has 64 bits; tags, protocols and control codes are taken to fit into
  32 of them.  Memory can be allocated.  The locks of the channels are not modelled, as calls come one after the other.
  Results are \<open>None\<close> where a call does not return or writes through a null pointer.
\<close>

section \<open>State\<close>

datatype response =
    IFD_SUCCESS | IFD_ERROR_TAG | IFD_PROTOCOL_NOT_SUPPORTED | IFD_ERROR_POWER_ACTION
  | IFD_COMMUNICATION_ERROR | IFD_NOT_SUPPORTED | IFD_ICC_PRESENT | IFD_ICC_NOT_PRESENT
  | IFD_IOCTL ifd_result

record ifdh_status =
  is_ATR :: bytes
  is_ATR_Length :: nat
  is_deviceName :: string
  is_supportTag51 :: bool

record 'p ifdh =
  ih_initialized :: int
  ih_status :: "ifdh_status option list"
  ih_api :: "'p ctapi"

abbreviation (input) "IFDH_MAX_READERS \<equiv> (32 :: nat)"

definition ifd_ctn :: "64 word \<Rightarrow> u16" where
  "ifd_ctn Lun = ucast (drop_bit 16 Lun)"

definition status_of :: "u16 \<Rightarrow> 'p ifdh \<Rightarrow> ifdh_status option" where
  "status_of ctn h = ih_status h ! unat ctn"

definition set_status :: "u16 \<Rightarrow> ifdh_status option \<Rightarrow> 'p ifdh \<Rightarrow> 'p ifdh" where
  "set_status ctn x h = h\<lparr>ih_status := (ih_status h)[unat ctn := x]\<rparr>"

definition no_status :: ifdh_status where
  "no_status = \<lparr>is_ATR = replicate 33 0, is_ATR_Length = 0, is_deviceName = [], is_supportTag51 = False\<rparr>"

definition initDriver :: "'p ifdh \<Rightarrow> 'p ifdh" where
  "initDriver h =
     (let h1 = h\<lparr>ih_initialized := ih_initialized h + 1\<rparr> in
      if ih_initialized h1 > 1 then h1 else h1\<lparr>ih_status := replicate IFDH_MAX_READERS None\<rparr>)"

definition deinitDriver :: "'p ifdh \<Rightarrow> 'p ifdh" where
  "deinitDriver h =
     (if ih_initialized h < 1 then h
      else let h1 = h\<lparr>ih_initialized := ih_initialized h - 1\<rparr> in
        if ih_initialized h1 < 1 then h1\<lparr>ih_status := replicate IFDH_MAX_READERS None\<rparr> else h1)"

section \<open>Channels\<close>

text \<open>What the two ways to create a channel share: \<open>op\<close> opens the terminal, \<open>st\<close> is the new status,
  \<open>ok\<close> decides about a channel that is already open.\<close>

definition create_channel :: "u16 \<Rightarrow> ('p ctapi \<Rightarrow> (int \<times> 'p ctapi) option) \<Rightarrow> ifdh_status \<Rightarrow> (ifdh_status \<Rightarrow> bool)
    \<Rightarrow> 'p ifdh \<Rightarrow> (response \<times> 'p ifdh) option" where
  "create_channel ctn op st ok h =
     (if unat ctn \<ge> IFDH_MAX_READERS then Some (IFD_COMMUNICATION_ERROR, h)
      else let h1 = initDriver h in
        case status_of ctn h1 of
          None \<Rightarrow> map_option (\<lambda>(ret, s1).
              let h2 = h1\<lparr>ih_api := s1\<rparr> in
              if ret = 0 then (IFD_SUCCESS, set_status ctn (Some st) h2)
              else (IFD_COMMUNICATION_ERROR, deinitDriver h2)) (op (ih_api h1))
        | Some x \<Rightarrow> if ok x then Some (IFD_SUCCESS, h1) else Some (IFD_COMMUNICATION_ERROR, deinitDriver h1))"

definition IFDHCreateChannel :: "'p ctapi_env \<Rightarrow> 64 word \<Rightarrow> 64 word \<Rightarrow> 'p ifdh \<Rightarrow> (response \<times> 'p ifdh) option" where
  "IFDHCreateChannel e Lun Channel =
     create_channel (ifd_ctn Lun) (CT_init e (ifd_ctn Lun) (ucast Channel + 1)) no_status (\<lambda>_. True)"

definition IFDHCreateChannelByName :: "'p ctapi_env \<Rightarrow> 64 word \<Rightarrow> string \<Rightarrow> 'p ifdh \<Rightarrow> (response \<times> 'p ifdh) option" where
  "IFDHCreateChannelByName e Lun devName =
     create_channel (ifd_ctn Lun) (rsct_init_name e (ifd_ctn Lun) devName)
       (no_status\<lparr>is_deviceName := take 256 devName\<rparr>)
       (\<lambda>x. is_deviceName x = [] \<or> is_deviceName x = devName)"

definition IFDHCloseChannel :: "64 word \<Rightarrow> 'p ifdh \<Rightarrow> (response \<times> 'p ifdh) option" where
  "IFDHCloseChannel Lun h =
     (let ctn = ifd_ctn Lun in
      if unat ctn \<ge> IFDH_MAX_READERS \<or> status_of ctn h = None then Some (IFD_COMMUNICATION_ERROR, h)
      else map_option (\<lambda>(ret, s1).
        let h1 = h\<lparr>ih_api := s1\<rparr> in
        if ret = 0 then (IFD_SUCCESS, deinitDriver (set_status ctn None h1))
        else (IFD_COMMUNICATION_ERROR, deinitDriver h1)) (CT_close ctn (ih_api h)))"

section \<open>Capabilities\<close>

text \<open>The new length and the bytes stored.  \<open>null\<close> says that \<^verbatim>\<open>Value\<close> is the null pointer.  The version takes
  the eight bytes of a \<^verbatim>\<open>DWORD\<close> even if the buffer is smaller.\<close>

definition capability :: "ifdh_status \<Rightarrow> u32 \<Rightarrow> nat \<Rightarrow> bool \<Rightarrow> (response \<times> nat \<times> bytes) option" where
  "capability x Tag n null =
     (let give = (\<lambda>k v. if n \<ge> k \<and> \<not> null then Some (IFD_SUCCESS, length v, v) else Some (IFD_ERROR_TAG, n, [])) in
      if Tag = 0x0303 \<or> Tag = 0x90303 then give (is_ATR_Length x) (take (is_ATR_Length x) (is_ATR x))
      else if Tag = 0x0FAF then give 1 [32]
      else if Tag = 0x0FAD
      then (if n \<ge> 1 then if null then None else Some (IFD_SUCCESS, 1, [1]) else Some (IFD_ERROR_TAG, n, []))
      else if Tag = 0x0FAE then give 1 [1]
      else if Tag = 0x0FAC then give 1 [0]
      else if Tag = 0x10102 then give 1 (le32_bytes 0x03030000 @ [0, 0, 0, 0])
      else if Tag = 0x10100 then give 11 (map of_char ''Reiner SCT'' @ [0])
      else Some (IFD_ERROR_TAG, n, []))"

definition IFDHGetCapabilities :: "64 word \<Rightarrow> u32 \<Rightarrow> nat \<Rightarrow> bool \<Rightarrow> 'p ifdh \<Rightarrow> (response \<times> nat \<times> bytes) option" where
  "IFDHGetCapabilities Lun Tag n null h =
     (let ctn = ifd_ctn Lun in
      if unat ctn \<ge> IFDH_MAX_READERS then Some (IFD_COMMUNICATION_ERROR, n, [])
      else case status_of ctn h of None \<Rightarrow> Some (IFD_ICC_NOT_PRESENT, n, []) | Some x \<Rightarrow> capability x Tag n null)"

definition IFDHSetCapabilities :: response where
  "IFDHSetCapabilities = IFD_NOT_SUPPORTED"

section \<open>Commands\<close>

text \<open>A command of the handler to a terminal, with a response buffer of 256 bytes on the stack.\<close>

definition ct_send :: "'p ctapi_env \<Rightarrow> u16 \<Rightarrow> byte \<Rightarrow> bytes \<Rightarrow> bytes \<Rightarrow> 'p ifdh \<Rightarrow> int \<times> bytes \<times> nat \<times> 'p ifdh" where
  "ct_send e ctn dad cmd rsp h =
     (case CT_data e ctn dad 2 cmd rsp (ih_api h) of ((ret, _, _, rsp1, lr), s1) \<Rightarrow> (ret, rsp1, lr, h\<lparr>ih_api := s1\<rparr>))"

definition ifd_buffer :: "'p ctapi_env \<Rightarrow> bytes" where
  "ifd_buffer e = map (en_behind e) [0..<256]"

definition IFDHSetProtocolParameters :: "'p ctapi_env \<Rightarrow> 64 word \<Rightarrow> u32 \<Rightarrow> 'p ifdh \<Rightarrow> response \<times> 'p ifdh" where
  "IFDHSetProtocolParameters e Lun Protocol h =
     (let ctn = ifd_ctn Lun in
      if unat ctn \<ge> IFDH_MAX_READERS then (IFD_COMMUNICATION_ERROR, h)
      else case status_of ctn h of None \<Rightarrow> (IFD_PROTOCOL_NOT_SUPPORTED, h)
      | Some x \<Rightarrow>
          (if is_ATR x ! 0 = 0x3b \<or> is_ATR x ! 0 = 0x3f
           then (if Protocol = SCARD_PROTOCOL_T0 \<or> Protocol = SCARD_PROTOCOL_T1
                 then (case ct_send e ctn 1 [0x80, 0x60, 0x01, 0x00, 0x03, 0x22, 0x01,
                                if Protocol = SCARD_PROTOCOL_T0 then 0x01 else 0x02] (ifd_buffer e) h of
                         (ret, rsp, lr, h1) \<Rightarrow>
                           (if ret = 0 \<and> lr \<ge> 2 \<and> rsp ! (lr - 2) = 0x90 then IFD_SUCCESS else IFD_COMMUNICATION_ERROR, h1))
                 else (IFD_PROTOCOL_NOT_SUPPORTED, h))
           else (IFD_PROTOCOL_NOT_SUPPORTED, h)))"

text \<open>Powering up and resetting: the answer to reset goes to the status and to the caller, who has room for
  \<open>n\<close> bytes; \<open>err\<close> is the code for a status word that is no success.\<close>

definition power_atr :: "'p ctapi_env \<Rightarrow> u16 \<Rightarrow> byte \<Rightarrow> response \<Rightarrow> nat \<Rightarrow> ifdh_status \<Rightarrow> 'p ifdh
    \<Rightarrow> response \<times> nat \<times> bytes \<times> 'p ifdh" where
  "power_atr e ctn ins err n x h =
     (case ct_send e ctn 1 [0x20, ins, 0x01, 0x01, 0x00] (ifd_buffer e) h of (ret, rsp, lr, h1) \<Rightarrow>
        if ret = 0 \<and> lr \<ge> 2
        then (if rsp ! (lr - 2) = 0x90
              then (let c = min (lr - 2) 33; k = min (lr - 2) n in
                    (IFD_SUCCESS, k, take k rsp,
                     set_status ctn (Some (x\<lparr>is_ATR_Length := c, is_ATR := overlay 0 (take c rsp) (is_ATR x)\<rparr>)) h1))
              else (err, n, [], h1))
        else (IFD_COMMUNICATION_ERROR, n, [], h1))"

definition IFDHPowerICC :: "'p ctapi_env \<Rightarrow> 64 word \<Rightarrow> nat \<Rightarrow> nat \<Rightarrow> 'p ifdh \<Rightarrow> response \<times> nat \<times> bytes \<times> 'p ifdh" where
  "IFDHPowerICC e Lun Action n h =
     (let ctn = ifd_ctn Lun in
      if unat ctn \<ge> IFDH_MAX_READERS then (IFD_COMMUNICATION_ERROR, n, [], h)
      else case status_of ctn h of None \<Rightarrow> (IFD_ICC_NOT_PRESENT, n, [], h)
      | Some x \<Rightarrow>
          (if Action = 500 then power_atr e ctn 0x12 IFD_ERROR_POWER_ACTION n x h
           else if Action = 501
           then (case ct_send e ctn 1 [0x20, 0x15, 0x01, 0x00] (ifd_buffer e)
                        (set_status ctn (Some (x\<lparr>is_ATR_Length := 0\<rparr>)) h) of
                   (ret, rsp, lr, h1) \<Rightarrow> (if ret = 0 \<and> lr \<ge> 2 then IFD_SUCCESS else IFD_COMMUNICATION_ERROR, n, [], h1))
           else if Action = 502 then power_atr e ctn 0x11 IFD_ICC_NOT_PRESENT n x h
           else (IFD_NOT_SUPPORTED, n, [], h)))"

text \<open>Sending for the client: the length of the command is cut to 16 bits, the room to 65535 bytes.\<close>

definition ifd_exchange :: "'p ctapi_env \<Rightarrow> u16 \<Rightarrow> byte \<Rightarrow> bytes \<Rightarrow> bytes \<Rightarrow> 'p ifdh \<Rightarrow> response \<times> nat \<times> bytes \<times> 'p ifdh" where
  "ifd_exchange e ctn dad cmd rxb h =
     (case ct_send e ctn dad (take (length cmd mod 65536) cmd) (take 65535 rxb) h of (ret, rsp, lr, h1) \<Rightarrow>
        if ret = 0 then (IFD_SUCCESS, lr, rsp, h1) else (IFD_COMMUNICATION_ERROR, 0, rsp, h1))"

definition IFDHTransmitToICC :: "'p ctapi_env \<Rightarrow> 64 word \<Rightarrow> bytes \<Rightarrow> bytes \<Rightarrow> 'p ifdh \<Rightarrow> response \<times> nat \<times> bytes \<times> 'p ifdh" where
  "IFDHTransmitToICC e Lun cmd rxb h =
     (let ctn = ifd_ctn Lun in
      if unat ctn \<ge> IFDH_MAX_READERS then (IFD_COMMUNICATION_ERROR, length rxb, rxb, h)
      else if status_of ctn h = None then (IFD_ICC_NOT_PRESENT, length rxb, rxb, h)
      else ifd_exchange e ctn (if cmd \<noteq> [] \<and> cmd ! 0 = 0x20 then 1 else 0) cmd rxb h)"

definition IFDHICCPresence :: "'p ctapi_env \<Rightarrow> 64 word \<Rightarrow> 'p ifdh \<Rightarrow> response \<times> 'p ifdh" where
  "IFDHICCPresence e Lun h =
     (let ctn = ifd_ctn Lun in
      if unat ctn \<ge> IFDH_MAX_READERS then (IFD_COMMUNICATION_ERROR, h)
      else (case ct_send e ctn 1 [0x20, 0x13, 0x00, 0x80, 0x00] (ifd_buffer e) h of (ret, rsp, lr, h1) \<Rightarrow>
        (if ret = 0 then if lr > 2 then if rsp ! 2 = 0 then IFD_ICC_NOT_PRESENT else IFD_ICC_PRESENT else IFD_ICC_NOT_PRESENT
         else IFD_COMMUNICATION_ERROR, h1)))"

section \<open>Channels and terminals\<close>

text \<open>The table has its size, and every status has an ATR that fits; support of tag \<^verbatim>\<open>51\<close> is never set.\<close>

definition status_ok :: "ifdh_status \<Rightarrow> bool" where
  "status_ok x \<longleftrightarrow> length (is_ATR x) = 33 \<and> is_ATR_Length x \<le> 33 \<and> length (is_deviceName x) \<le> 256
     \<and> \<not> is_supportTag51 x"

definition ifdh_inv :: "'p ifdh \<Rightarrow> bool" where
  "ifdh_inv h \<longleftrightarrow> length (ih_status h) = IFDH_MAX_READERS \<and> 0 \<le> ih_initialized h
     \<and> (\<forall>x. Some x \<in> set (ih_status h) \<longrightarrow> status_ok x)
     \<and> ctapi_inv (ih_api h) \<and> \<not> ca_locked (ih_api h)"

lemma set_status_simps [simp]:
  "ih_api (set_status c x h) = ih_api h" "ih_initialized (set_status c x h) = ih_initialized h"
  "length (ih_status (set_status c x h)) = length (ih_status h)"
  by (simp_all add: set_status_def)

lemma status_set: "unat c < length (ih_status h) \<Longrightarrow> status_of c (set_status c x h) = x"
  by (simp add: status_of_def set_status_def)

lemma status_other: "c \<noteq> d \<Longrightarrow> status_of c (set_status d x h) = status_of c h"
  using word_unat_eq_iff[of c d] by (simp add: status_of_def set_status_def)

lemma inv_init: "ifdh_inv h \<Longrightarrow> ifdh_inv (initDriver h)"
  by (auto simp: ifdh_inv_def initDriver_def Let_def)

lemma inv_deinit: "ifdh_inv h \<Longrightarrow> ifdh_inv (deinitDriver h)"
  by (auto simp: ifdh_inv_def deinitDriver_def Let_def)

lemma inv_status: "ifdh_inv h \<Longrightarrow> (\<And>y. x = Some y \<Longrightarrow> status_ok y) \<Longrightarrow> ifdh_inv (set_status c x h)"
  by (auto simp: ifdh_inv_def set_status_def dest!: set_update_subset_insert[THEN subsetD])

lemma inv_api: "ifdh_inv h \<Longrightarrow> ctapi_inv s \<Longrightarrow> \<not> ca_locked s \<Longrightarrow> ifdh_inv (h\<lparr>ih_api := s\<rparr>)"
  by (simp add: ifdh_inv_def)

lemma status_ok_of: "ifdh_inv h \<Longrightarrow> unat c < IFDH_MAX_READERS \<Longrightarrow> status_of c h = Some x \<Longrightarrow> status_ok x"
  unfolding ifdh_inv_def status_of_def by (metis nth_mem)

lemma inv_send:
  assumes "ct_send e c dad cmd rsp h = (ret, rsp1, lr, h1)" "ifdh_inv h"
  shows "ifdh_inv h1"
proof -
  obtain y s1 where d: "CT_data e c dad 2 cmd rsp (ih_api h) = (y, s1)" by fastforce
  have "h1 = h\<lparr>ih_api := s1\<rparr>" using assms(1) by (simp add: ct_send_def d split: prod.splits)
  then show ?thesis using inv_api[OF assms(2)] CT_data_inv[OF d] CT_data_locked[OF d] assms(2) by (simp add: ifdh_inv_def)
qed

lemma send_status: "ct_send e c dad cmd rsp h = (ret, rsp1, lr, h1) \<Longrightarrow> ih_status h1 = ih_status h \<and> ih_initialized h1 = ih_initialized h"
  by (auto simp: ct_send_def split: prod.splits)

lemma remove_ctx_gone: "distinct (map cx_ctn cs) \<Longrightarrow> n \<notin> cx_ctn ` set (remove_ctx n cs)"
  by (induction cs) auto

lemma inv_create:
  assumes "create_channel ctn op st ok h = Some (r, h')" "ifdh_inv h" "status_ok st"
    "\<And>ret s1. op (ih_api (initDriver h)) = Some (ret, s1) \<Longrightarrow> ctapi_inv s1 \<and> \<not> ca_locked s1"
  shows "ifdh_inv h'"
proof (cases "unat ctn \<ge> IFDH_MAX_READERS")
  case True
  then show ?thesis using assms by (simp add: create_channel_def)
next
  case False
  note i = inv_init[OF assms(2)]
  show ?thesis
  proof (cases "status_of ctn (initDriver h)")
    case None
    with assms(1) False obtain ret s1 where o1: "op (ih_api (initDriver h)) = Some (ret, s1)"
      "h' = (if ret = 0 then set_status ctn (Some st) ((initDriver h)\<lparr>ih_api := s1\<rparr>) else deinitDriver ((initDriver h)\<lparr>ih_api := s1\<rparr>))"
      by (auto simp: create_channel_def Let_def split: if_splits)
    from inv_api[OF i] assms(4)[OF o1(1)] have "ifdh_inv ((initDriver h)\<lparr>ih_api := s1\<rparr>)" by blast
    then show ?thesis using o1(2) assms(3) by (auto intro: inv_status inv_deinit)
  next
    case (Some x)
    then show ?thesis using assms(1) False i by (auto simp: create_channel_def Let_def intro: inv_deinit split: if_splits)
  qed
qed

lemma inv_close:
  assumes "IFDHCloseChannel Lun h = Some (r, h')" "ifdh_inv h"
  shows "ifdh_inv h'"
proof (cases "unat (ifd_ctn Lun) \<ge> IFDH_MAX_READERS \<or> status_of (ifd_ctn Lun) h = None")
  case True
  then show ?thesis using assms by (simp add: IFDHCloseChannel_def Let_def)
next
  case False
  with assms(1) obtain ret s1 where c: "CT_close (ifd_ctn Lun) (ih_api h) = Some (ret, s1)"
    "h' = deinitDriver (if ret = 0 then set_status (ifd_ctn Lun) None (h\<lparr>ih_api := s1\<rparr>) else h\<lparr>ih_api := s1\<rparr>)"
    by (auto simp: IFDHCloseChannel_def Let_def split: if_splits)
  have "ctapi_inv s1 \<and> \<not> ca_locked s1"
    using c(1) assms(2) by (auto simp: CT_close_def ifdh_inv_def split: if_splits dest: nt_close_inv)
  then have "ifdh_inv (h\<lparr>ih_api := s1\<rparr>)" using inv_api[OF assms(2)] by blast
  then show ?thesis unfolding c(2) by (auto intro!: inv_deinit inv_status)
qed

lemma status_ok_atr: "status_ok x \<Longrightarrow> c \<le> 33 \<Longrightarrow>
    status_ok (x\<lparr>is_ATR_Length := c, is_ATR := overlay 0 (take c rsp) (is_ATR x)\<rparr>)"
  by (simp add: status_ok_def)

lemma inv_power_atr:
  assumes "power_atr e ctn ins err n x h = (r, k, d, h')" "ifdh_inv h" "status_ok x"
  shows "ifdh_inv h'"
proof -
  obtain ret rsp lr h1 where c: "ct_send e ctn 1 [0x20, ins, 0x01, 0x01, 0x00] (ifd_buffer e) h = (ret, rsp, lr, h1)"
    by (metis prod.exhaust)
  note i = inv_send[OF c assms(2)]
  have "status_ok (x\<lparr>is_ATR_Length := min (lr - 2) 33, is_ATR := overlay 0 (take (min (lr - 2) 33) rsp) (is_ATR x)\<rparr>)"
    by (rule status_ok_atr[OF assms(3)]) simp
  from inv_status[OF i, of "Some _"] this show ?thesis using assms(1) i by (auto simp: power_atr_def c Let_def split: if_splits)
qed

lemma inv_power:
  assumes "IFDHPowerICC e Lun Action n h = (r, k, d, h')" "ifdh_inv h"
  shows "ifdh_inv h'"
proof (cases "unat (ifd_ctn Lun) \<ge> IFDH_MAX_READERS \<or> status_of (ifd_ctn Lun) h = None")
  case True
  then show ?thesis using assms by (auto simp: IFDHPowerICC_def Let_def split: if_splits)
next
  case False
  then obtain x where x: "status_of (ifd_ctn Lun) h = Some x" by blast
  have ok: "status_ok x" using status_ok_of[OF assms(2) _ x] False by simp
  then have z: "ifdh_inv (set_status (ifd_ctn Lun) (Some (x\<lparr>is_ATR_Length := 0\<rparr>)) h)"
    by (intro inv_status[OF assms(2)]) (auto simp: status_ok_def)
  show ?thesis using assms False x ok
    by (auto simp: IFDHPowerICC_def Let_def split: if_splits prod.splits dest: inv_power_atr inv_send[OF _ z])
qed

lemma inv_exchange: "ifd_exchange e c dad cmd rxb h = (r, k, d, h') \<Longrightarrow> ifdh_inv h \<Longrightarrow> ifdh_inv h'"
  by (auto simp: ifd_exchange_def split: prod.splits if_splits dest: inv_send)

lemma status_ok_new: "status_ok no_status" "status_ok (no_status\<lparr>is_deviceName := take 256 d\<rparr>)"
  by (simp_all add: status_ok_def no_status_def)

lemma CT_init_inv:
  assumes "CT_init e ctn pn s = Some (rv, s')" "ctapi_inv s" "\<not> ca_locked s" "en_ok e"
  shows "ctapi_inv s' \<and> \<not> ca_locked s'"
  using api_call_inv[OF api_init[OF assms(1,4)]] assms(2,3) by blast

lemma init_name_inv:
  assumes "rsct_init_name e ctn name s = Some (rv, s')" "ctapi_inv s" "\<not> ca_locked s" "en_ok e"
  shows "ctapi_inv s' \<and> \<not> ca_locked s'"
  using api_call_inv[OF api_init_name[OF assms(1,4)]] assms(2,3) by blast

lemma inv_initD: "ifdh_inv h \<Longrightarrow> ctapi_inv (ih_api (initDriver h)) \<and> \<not> ca_locked (ih_api (initDriver h))"
  using inv_init by (auto simp: ifdh_inv_def)

lemma inv_create_pn:
  "IFDHCreateChannel e Lun Ch h = Some (r, h') \<Longrightarrow> ifdh_inv h \<Longrightarrow> en_ok e \<Longrightarrow> ifdh_inv h'"
  unfolding IFDHCreateChannel_def
  by (erule inv_create) (auto simp: status_ok_new dest!: CT_init_inv inv_initD)

lemma inv_create_name:
  "IFDHCreateChannelByName e Lun name h = Some (r, h') \<Longrightarrow> ifdh_inv h \<Longrightarrow> en_ok e \<Longrightarrow> ifdh_inv h'"
  unfolding IFDHCreateChannelByName_def
  by (erule inv_create) (auto simp: status_ok_new dest!: init_name_inv inv_initD)

lemma inv_protocol: "IFDHSetProtocolParameters e Lun P h = (r, h') \<Longrightarrow> ifdh_inv h \<Longrightarrow> ifdh_inv h'"
  by (auto simp: IFDHSetProtocolParameters_def Let_def split: if_splits option.splits prod.splits dest: inv_send)

lemma inv_transmit: "IFDHTransmitToICC e Lun cmd rxb h = (r, k, d, h') \<Longrightarrow> ifdh_inv h \<Longrightarrow> ifdh_inv h'"
  by (auto simp: IFDHTransmitToICC_def Let_def split: if_splits dest: inv_exchange)

lemma inv_presence: "IFDHICCPresence e Lun h = (r, h') \<Longrightarrow> ifdh_inv h \<Longrightarrow> ifdh_inv h'"
  by (auto simp: IFDHICCPresence_def Let_def split: if_splits prod.splits dest: inv_send)

section \<open>Properties\<close>

text \<open>What powering up stores is what the caller gets, and what \<^verbatim>\<open>IFDHGetCapabilities\<close> finds.\<close>

lemma power_stores:
  assumes "ifdh_inv h" "Action = 500 \<or> Action = 502" "33 \<le> n"
    "IFDHPowerICC e Lun Action n h = (IFD_SUCCESS, k, atr, h1)" "length atr = k"
  shows "\<exists>y. status_of (ifd_ctn Lun) h1 = Some y \<and> is_ATR_Length y = min k 33
    \<and> take (is_ATR_Length y) (is_ATR y) = take 33 atr \<and> unat (ifd_ctn Lun) < IFDH_MAX_READERS
    \<and> ih_initialized h1 = ih_initialized h"
proof -
  let ?c = "ifd_ctn Lun"
  from assms(4) have c: "unat ?c < IFDH_MAX_READERS" by (auto simp: IFDHPowerICC_def Let_def split: if_splits)
  then obtain x where x: "status_of ?c h = Some x"
    using assms(4) by (cases "status_of ?c h") (auto simp: IFDHPowerICC_def Let_def)
  from assms(2,4) c x obtain ins err where "power_atr e ?c ins err n x h = (IFD_SUCCESS, k, atr, h1)" "err \<noteq> IFD_SUCCESS"
    by (fastforce simp: IFDHPowerICC_def Let_def)
  then obtain rsp lr h0 where s: "ct_send e ?c 1 [0x20, ins, 0x01, 0x01, 0x00] (ifd_buffer e) h = (0, rsp, lr, h0)"
    and k: "k = min (lr - 2) n" "atr = take k rsp"
    and h1: "h1 = set_status ?c (Some (x\<lparr>is_ATR_Length := min (lr - 2) 33, is_ATR := overlay 0 (take (min (lr - 2) 33) rsp) (is_ATR x)\<rparr>)) h0"
    by (auto simp: power_atr_def Let_def split: prod.splits if_splits)
  have l: "length (ih_status h0) = IFDH_MAX_READERS" using send_status[OF s] assms(1) by (simp add: ifdh_inv_def)
  define y where "y = x\<lparr>is_ATR_Length := min (lr - 2) 33, is_ATR := overlay 0 (take (min (lr - 2) 33) rsp) (is_ATR x)\<rparr>"
  have st: "status_of ?c h1 = Some y" using status_set[of ?c h0] c l by (simp add: h1 y_def)
  have m: "min k 33 = min (lr - 2) 33" using k(1) assms(3) by auto
  have "k \<le> length rsp" using assms(5) k(2) by auto
  then have "length rsp \<ge> min (lr - 2) 33" using m by linarith
  then have "take (min (lr - 2) 33) (is_ATR y) = take (min (lr - 2) 33) rsp" by (simp add: y_def overlay_def)
  also have "\<dots> = take 33 atr" unfolding m[symmetric] k(2) by (simp add: min.commute)
  finally have t: "take (is_ATR_Length y) (is_ATR y) = take 33 atr" by (simp add: y_def)
  show ?thesis using st t c m send_status[OF s] by (intro exI[of _ y]) (simp add: y_def h1)
qed

lemma power_down_clears:
  assumes "IFDHPowerICC e Lun 501 n h = (r, k, atr, h1)" "status_of (ifd_ctn Lun) h = Some y"
    "unat (ifd_ctn Lun) < IFDH_MAX_READERS" "length (ih_status h) = IFDH_MAX_READERS"
  shows "status_of (ifd_ctn Lun) h1 = Some (y\<lparr>is_ATR_Length := 0\<rparr>)"
proof -
  let ?c = "ifd_ctn Lun"
  obtain ret rsp lr where s: "ct_send e ?c 1 [0x20, 0x15, 0x01, 0x00] (ifd_buffer e)
      (set_status ?c (Some (y\<lparr>is_ATR_Length := 0\<rparr>)) h) = (ret, rsp, lr, h1)"
    using assms(1-3) by (auto simp: IFDHPowerICC_def Let_def split: prod.splits)
  then show ?thesis using send_status[OF s] status_set[of ?c h] assms(3,4) by (simp add: status_of_def)
qed

text \<open>
  Property C36.  A reader that was unplugged while another one is open cannot be opened again: closing its
  channel frees the terminal but not the status of the channel, so creating the channel succeeds
  without opening anything, and every transmission fails.
\<close>

theorem lost_reader_stuck:
  assumes "ifdh_inv h" "unat (ifd_ctn Lun) < IFDH_MAX_READERS" "status_of (ifd_ctn Lun) h = Some x"
    "findContextByCtn (ih_api h) (ifd_ctn Lun) = Some c" "\<not> has_device c" "2 \<le> ih_initialized h"
  shows "\<exists>h1. IFDHCloseChannel Lun h = Some (IFD_COMMUNICATION_ERROR, h1)
    \<and> (\<forall>e Ch. \<exists>h2. IFDHCreateChannel e Lun Ch h1 = Some (IFD_SUCCESS, h2)
        \<and> (\<forall>cmd rxb. fst (IFDHTransmitToICC e Lun cmd rxb h2) = IFD_COMMUNICATION_ERROR))"
proof -
  let ?c = "ifd_ctn Lun"
  define s1 where "s1 = snd (nt_close ?c (ih_api h))"
  have cl: "CT_close ?c (ih_api h) = Some (-127, s1)"
    using assms(1,4,5) by (simp add: CT_close_def nt_close_def s1_def ifdh_inv_def)
  have none: "findContextByCtn s1 ?c = None"
  proof -
    have "distinct (map cx_ctn (ca_list (ih_api h)))" using assms(1) by (simp add: ifdh_inv_def ctapi_inv_def)
    from remove_ctx_gone[OF this, of ?c] have "\<forall>x \<in> set (remove_ctx ?c (ca_list (ih_api h))). cx_ctn x \<noteq> ?c"
      by (metis imageI)
    then show ?thesis using assms(4) by (simp add: s1_def nt_close_def findContextByCtn_def fini_state find_None_iff)
  qed
  define h1 where "h1 = h\<lparr>ih_api := s1, ih_initialized := ih_initialized h - 1\<rparr>"
  have h1: "IFDHCloseChannel Lun h = Some (IFD_COMMUNICATION_ERROR, h1)"
    using assms cl by (simp add: IFDHCloseChannel_def Let_def deinitDriver_def h1_def)
  have "\<exists>h2. IFDHCreateChannel e Lun Ch h1 = Some (IFD_SUCCESS, h2)
        \<and> (\<forall>cmd rxb. fst (IFDHTransmitToICC e Lun cmd rxb h2) = IFD_COMMUNICATION_ERROR)" for e Ch
  proof -
    define h2 where "h2 = h1\<lparr>ih_initialized := ih_initialized h\<rparr>"
    have "initDriver h1 = h2" using assms(6) by (simp add: initDriver_def h1_def h2_def Let_def)
    moreover have st: "status_of ?c h2 = Some x" using assms(3) by (simp add: status_of_def h2_def h1_def)
    ultimately have "IFDHCreateChannel e Lun Ch h1 = Some (IFD_SUCCESS, h2)"
      using assms(2) by (simp add: IFDHCreateChannel_def create_channel_def)
    moreover have "fst (IFDHTransmitToICC e Lun cmd rxb h2) = IFD_COMMUNICATION_ERROR" for cmd rxb
      using assms(2) st none by (simp add: IFDHTransmitToICC_def Let_def ifd_exchange_def ct_send_def CT_data_def h2_def h1_def)
    ultimately show ?thesis by blast
  qed
  with h1 show ?thesis by blast
qed

section \<open>Examples\<close>

text \<open>One pinpad reader, terminal 1; its card answers with a short ATR.\<close>

definition card_env :: "unit ctapi_env" where
  "card_env = (pinpad_env 0)\<lparr>en_ppa_data := \<lambda>p dad sad cmd rsp. (0, dad, sad, overlay 0 [0x3b, 0x00, 0x90, 0x00] rsp, 4, p)\<rparr>"

definition one_reader :: "int \<Rightarrow> unit ct_context \<Rightarrow> unit ifdh" where
  "one_reader users x = \<lparr>ih_initialized = users, ih_status = (replicate IFDH_MAX_READERS None)[1 := Some no_status],
     ih_api = \<lparr>ca_count = 1, ca_list = [x], ca_cfg = snd (rsct_config_init no_config), ca_serials = None,
       ca_beep = False, ca_locked = False, ca_overrun = False\<rparr>\<rparr>"

lemma lun1: "ifd_ctn 0x10000 = 1"
  by (simp add: ifd_ctn_def drop_bit_eq_div)

lemma one_reader_status: "status_of 1 (one_reader users x) = Some no_status"
  by (simp add: status_of_def one_reader_def)

lemma one_reader_inv:
  assumes "ctx_ok x" "0 \<le> users"
  shows "ifdh_inv (one_reader users x)"
proof -
  have "list_all (\<lambda>y. y = None \<or> y = Some no_status) (ih_status (one_reader users x))" by code_simp
  then have "\<forall>y. Some y \<in> set (ih_status (one_reader users x)) \<longrightarrow> status_ok y"
    using status_ok_new(1) by (fastforce simp: list_all_iff)
  then show ?thesis using assms
    by (simp add: ifdh_inv_def ctapi_inv_def one_reader_def no_config_def rsct_config_init_def config_read_file_def)
qed

lemma pinpad_ok: "ctx_ok pinpad_context" "ctx_ok (pinpad_context\<lparr>cx_ppa := None\<rparr>)"
  by (simp_all add: ctx_ok_def device_ok_def pinpad_context_def new_context_def)

lemma card_send:
  "\<exists>rsp h1. ct_send card_env 1 1 [0x20, ins, 0x01, 0x01, 0x00] (ifd_buffer card_env) (one_reader 1 pinpad_context)
     = (0, [0x3b, 0x00, 0x90, 0x00] @ rsp, 4, h1)"
  by (simp add: ct_send_def CT_data_def findContextByCtn_def one_reader_def pinpad_context_def new_context_def card_env_def
      showDialogIfRequired_def CT_internal_def ifd_buffer_def overlay_def)

lemma card_power: "\<exists>h1. IFDHPowerICC card_env 0x10000 500 33 (one_reader 1 pinpad_context) = (IFD_SUCCESS, 2, [0x3b, 0x00], h1)"
proof -
  obtain rsp h1 where "ct_send card_env 1 1 [0x20, 0x12, 0x01, 0x01, 0x00] (ifd_buffer card_env) (one_reader 1 pinpad_context)
     = (0, [0x3b, 0x00, 0x90, 0x00] @ rsp, 4, h1)" using card_send by blast
  then show ?thesis by (simp add: IFDHPowerICC_def Let_def lun1 one_reader_status power_atr_def)
qed

theorem lost_reader_stuck_witness:
  "\<exists>h1. IFDHCloseChannel 0x10000 (one_reader 2 (pinpad_context\<lparr>cx_ppa := None\<rparr>)) = Some (IFD_COMMUNICATION_ERROR, h1)
     \<and> (\<exists>h2. IFDHCreateChannel card_env 0x10000 0 h1 = Some (IFD_SUCCESS, h2)
          \<and> fst (IFDHTransmitToICC card_env 0x10000 [0x00, 0xA4, 0x00, 0x00] [0, 0] h2) = IFD_COMMUNICATION_ERROR)"
proof -
  let ?x = "pinpad_context\<lparr>cx_ppa := None\<rparr>"
  have "ifdh_inv (one_reader 2 ?x)" by (rule one_reader_inv[OF pinpad_ok(2)]) simp
  moreover have "findContextByCtn (ih_api (one_reader 2 ?x)) (ifd_ctn 0x10000) = Some ?x" "\<not> has_device ?x"
    "2 \<le> ih_initialized (one_reader 2 ?x)"
    by (simp_all add: findContextByCtn_def one_reader_def pinpad_context_def new_context_def has_device_def lun1)
  moreover have "unat (ifd_ctn 0x10000) < IFDH_MAX_READERS" "status_of (ifd_ctn 0x10000) (one_reader 2 ?x) = Some no_status"
    by (simp_all add: lun1 one_reader_status)
  ultimately show ?thesis using lost_reader_stuck[where h = "one_reader 2 ?x" and Lun = "0x10000" and c = ?x and x = no_status]
    by meson
qed

end
