(* ===== verification/CJ_Part10.thy ===== *)
theory CJ_Part10
  imports CJ_Ifd
begin

unbundle bit_operations_syntax

text \<open>
  The control function of the PC/SC handler, \<^verbatim>\<open>ifd/part10.c\<close> and \<^verbatim>\<open>IFDHControl\<close> of \<^verbatim>\<open>ifdhandler.c\<close>: the list of
  features, the PIN structures of PC/SC part 10 and their translation into commands of the card
  terminal, and direct commands.

  A PIN structure is the list of the bytes of the request; what the code reads behind its end is
  \<open>cmd_at\<close>.  A result is \<open>None\<close> where the behaviour is undefined: the status of a closed channel is
  dereferenced, or the buffer of 256 bytes is left.
\<close>

section \<open>Translation of PIN structures\<close>

text \<open>The smaller of the two readings of the length, compared without sign and used with sign.\<close>

definition apdu_length :: "u32 \<Rightarrow> int" where
  "apdu_length l = sint (min (htonl LittleEndian l) l)"

text \<open>The data of a structure, which start at offset \<open>off\<close>.\<close>

definition pin_apdu :: "'p ctapi_env \<Rightarrow> bytes \<Rightarrow> nat \<Rightarrow> int \<Rightarrow> bytes" where
  "pin_apdu e ps off n = map (\<lambda>i. cmd_at e ps (off + i)) [0..<nat n]"

text \<open>Format 2: the marks of the structure, then the template itself.\<close>

definition format2_marks :: "byte \<Rightarrow> byte \<Rightarrow> bool" where
  "format2_marks fmt plen \<longleftrightarrow> plen AND 0x10 = 0 \<and> plen AND 0x0F = 4 \<and> fmt AND 0x83 = 0x81"

definition verify_format2 :: "'p ctapi_env \<Rightarrow> bytes \<Rightarrow> int \<Rightarrow> bool" where
  "verify_format2 e ps n \<longleftrightarrow> format2_marks (ps ! 2) (ps ! 4) \<and> n = 13 \<and> cmd_at e ps (19 + 5) AND 0xf0 = 0x20
     \<and> list_all (\<lambda>i. cmd_at e ps (19 + i) = 0xff) [6..<13]"

definition modify_format2 :: "'p ctapi_env \<Rightarrow> bytes \<Rightarrow> int \<Rightarrow> bool" where
  "modify_format2 e ps n \<longleftrightarrow> format2_marks (ps ! 2) (ps ! 4) \<and> (n = 13 \<or> n = 21) \<and> cmd_at e ps (24 + 5) AND 0xf0 = 0x20"

text \<open>Coding of the PIN: BCD or format 2, ASCII; the other formats are refused.\<close>

definition pin_coding :: "byte \<Rightarrow> bool \<Rightarrow> (byte \<times> bool) option" where
  "pin_coding fmt f2 =
     (if fmt AND 0x04 \<noteq> 0 then None
      else if fmt AND 0x03 = 1 then Some (if f2 then 2 else 0, f2)
      else if fmt AND 0x03 = 2 then Some (1, False)
      else None)"

text \<open>Control byte and position of the PIN for PERFORM VERIFICATION.\<close>

definition verify_control :: "'p ctapi_env \<Rightarrow> bytes \<Rightarrow> int \<Rightarrow> (byte \<times> byte) option" where
  "verify_control e ps n =
     (case pin_coding (ps ! 2) (verify_format2 e ps n) of None \<Rightarrow> None
      | Some (c0, f2) \<Rightarrow>
          (let pos0 = drop_bit 3 (ps ! 2 AND 0x78);
               pos = (if f2 then if pos0 = 0 \<or> pos0 = 1 then 6 else pos0 + 5 else pos0 + 6);
               bits = drop_bit 4 (ps ! 3 AND 0xF0); blk = ps ! 3 AND 0x0F;
               mn = ps ! 6; mx = ps ! 5 in
           if ps ! 2 AND 0x80 = 0 \<and> pos0 \<noteq> 0 \<and> \<not> f2 then None
           else if bits \<noteq> 0 \<and> (\<not> f2 \<or> blk \<notin> {0, 6, 7} \<or> bits \<noteq> 4 \<or> ps ! 3 AND 0x10 \<noteq> 0) then None
           else Some (if ps ! 7 AND 0x01 \<noteq> 0 \<and> mn = mx then c0 OR push_bit 4 mx else c0, pos)))"

text \<open>Control byte and positions of the old and the new PIN for MODIFY VERIFICATION DATA.\<close>

definition modify_control :: "'p ctapi_env \<Rightarrow> bytes \<Rightarrow> int \<Rightarrow> (byte \<times> byte \<times> byte) option" where
  "modify_control e ps n =
     (case pin_coding (ps ! 2) (modify_format2 e ps n) of None \<Rightarrow> None
      | Some (c0, f2) \<Rightarrow>
          (let unit = ps ! 4 AND 0x0F; flexible = ps ! 9 AND 2 \<noteq> 0;
               new = (if ps ! 6 \<noteq> 0 \<or> \<not> flexible then ps ! 6 + 6 else ps ! 6);
               old = (if flexible then ps ! 5 + 6 else new) in
           if ps ! 4 \<noteq> 0 \<and> ps ! 4 AND 0x10 = 0 \<and> \<not> (unit = 4 \<and> f2 \<or> unit = 8) then None
           else Some (if ps ! 10 AND 0x01 \<noteq> 0 then c0 OR push_bit 4 (ps ! 7) else c0, old, new)))"

text \<open>Tag \<^verbatim>\<open>80\<close> with the time-out, if there is one.\<close>

definition timer_tag :: "bytes \<Rightarrow> bytes" where
  "timer_tag ps = (if ps ! 0 \<noteq> 0 then [0x80, 0x01, ps ! 0] else [])"

text \<open>The command: header, time-out, tag \<^verbatim>\<open>52\<close> with the control bytes \<open>ctl\<close> and the data, and the further
  tags \<open>more\<close> for readers that support them.  The test for the room leaves out two bytes.\<close>

definition pin_command :: "'p ctapi_env \<Rightarrow> ifdh_status option \<Rightarrow> byte \<Rightarrow> bytes \<Rightarrow> bytes \<Rightarrow> nat \<Rightarrow> bytes \<Rightarrow> int
    \<Rightarrow> (response + bytes) option" where
  "pin_command e st ins ps ctl off more1 n =
     (let b = [0x20, ins, 0x01, 0x00, 0xff] @ timer_tag ps; k = int (length ctl) in
      if int (length b) + n + k > 2147483647 then None
      else if int (length b) + n + k \<ge> 256 then Some (Inl IFD_COMMUNICATION_ERROR)
      else if n < 0 \<or> int (length b) + 2 + k + n > 256 then None
      else let b1 = b @ [0x52, word_of_int (n + k)] @ ctl @ pin_apdu e ps off n in
        case st of None \<Rightarrow> None
        | Some x \<Rightarrow>
            (if \<not> is_supportTag51 x then Some (Inr (b1[4 := word_of_nat (length b1 - 5)]))
             else if length b1 + 4 \<ge> 256 then Some (Inl IFD_COMMUNICATION_ERROR)
             else if length b1 + length more1 > 256 then None
             else Some (Inr ((b1 @ more1)[4 := word_of_nat (length b1 + length more1 - 5)]))))"

definition verifyStructToCtapi :: "'p ctapi_env \<Rightarrow> ifdh_status option \<Rightarrow> bytes \<Rightarrow> (response + bytes) option" where
  "verifyStructToCtapi e st ps =
     (let n = apdu_length (le32_at ps 15) in
      case verify_control e ps n of None \<Rightarrow> Some (Inl IFD_COMMUNICATION_ERROR)
      | Some (c, p) \<Rightarrow> pin_command e st 0x18 ps [c, p] 19 [0x51, 0x02, ps ! 6, ps ! 5] n)"

definition modifyStructToCtapi :: "'p ctapi_env \<Rightarrow> ifdh_status option \<Rightarrow> bytes \<Rightarrow> (response + bytes) option" where
  "modifyStructToCtapi e st ps =
     (let n = apdu_length (le32_at ps 20) in
      case modify_control e ps n of None \<Rightarrow> Some (Inl IFD_COMMUNICATION_ERROR)
      | Some (c, old, new) \<Rightarrow>
          pin_command e st 0x19 ps [c, old, new] 24
            [0x51, 0x02, ps ! 8, ps ! 7, 0x53, 0x03, ps ! 14, ps ! 15, ps ! 16, 0x54, 0x01, ps ! 11] n)"

section \<open>Control\<close>

text \<open>Results: code, value of \<^verbatim>\<open>RxReturned\<close> (\<open>ret0\<close> if it was not stored), response buffer, state.\<close>

type_synonym 'p control_reply = "response \<times> nat \<times> bytes \<times> 'p ifdh"

definition SCARD_CTL_CODE :: "u32 \<Rightarrow> u32" where
  "SCARD_CTL_CODE code = 0x42000000 + code"

definition feature :: "byte \<Rightarrow> bytes" where
  "feature f = [f, 0x04] @ rev (le32_bytes (SCARD_CTL_CODE (ucast f + 0x330000)))"

definition Part10GetFeatures :: "bytes \<Rightarrow> nat \<Rightarrow> 'p ifdh \<Rightarrow> 'p control_reply" where
  "Part10GetFeatures rxb ret0 h =
     (if length rxb < 24 then (IFD_COMMUNICATION_ERROR, ret0, rxb, h)
      else (IFD_SUCCESS, 24, overlay 0 (feature 6 @ feature 7 @ feature 8 @ feature 9) rxb, h))"

definition Part10ExecCtrlApdu :: "'p ctapi_env \<Rightarrow> u16 \<Rightarrow> bytes \<Rightarrow> bytes \<Rightarrow> 'p ifdh \<Rightarrow> 'p control_reply" where
  "Part10ExecCtrlApdu e ctn cmd rxb h =
     (if status_of ctn h = None then (IFD_ICC_NOT_PRESENT, 0, rxb, h) else ifd_exchange e ctn 1 cmd rxb h)"

definition Part10MctUniversal :: "'p ctapi_env \<Rightarrow> u16 \<Rightarrow> bytes \<Rightarrow> bytes \<Rightarrow> nat \<Rightarrow> 'p ifdh \<Rightarrow> 'p control_reply" where
  "Part10MctUniversal e ctn uni rxb ret0 h =
     (if length rxb < 6 then (IFD_COMMUNICATION_ERROR, ret0, rxb, h)
      else if status_of ctn h = None then (IFD_ICC_NOT_PRESENT, 0, rxb, h)
      else case CT_data e ctn (uni ! 1) (uni ! 0) (take (unat (le16_val (uni ! 2) (uni ! 3))) (drop 4 uni))
                  (take (65535 - 4) (drop 4 rxb)) (ih_api h) of
        ((ret, dad, sad, rsp, lr), s1) \<Rightarrow>
          (if ret = 0
           then (IFD_SUCCESS, 4 + lr, overlay 0 ([sad, dad] @ le16_bytes (word_of_nat lr) @ rsp) rxb, h\<lparr>ih_api := s1\<rparr>)
           else (IFD_COMMUNICATION_ERROR, 0, overlay 4 rsp rxb, h\<lparr>ih_api := s1\<rparr>)))"

text \<open>The two PIN functions: the structure is translated and the command executed.\<close>

definition pin_direct :: "'p ctapi_env \<Rightarrow> u16 \<Rightarrow> nat \<Rightarrow> (response + bytes) option \<Rightarrow> bytes \<Rightarrow> bytes \<Rightarrow> nat \<Rightarrow> 'p ifdh
    \<Rightarrow> 'p control_reply option" where
  "pin_direct e ctn sz c cmd rxb ret0 h =
     (if length cmd < sz then Some (IFD_COMMUNICATION_ERROR, ret0, rxb, h)
      else case c of None \<Rightarrow> None
        | Some (Inl code) \<Rightarrow> Some (code, ret0, rxb, h)
        | Some (Inr apdu) \<Rightarrow> Some (Part10ExecCtrlApdu e ctn apdu rxb h))"

definition Part10VerifyPinDirect :: "'p ctapi_env \<Rightarrow> u16 \<Rightarrow> bytes \<Rightarrow> bytes \<Rightarrow> nat \<Rightarrow> 'p ifdh \<Rightarrow> 'p control_reply option" where
  "Part10VerifyPinDirect e ctn cmd rxb ret0 h =
     pin_direct e ctn 20 (verifyStructToCtapi e (status_of ctn h) cmd) cmd rxb ret0 h"

definition Part10ModifyPinDirect :: "'p ctapi_env \<Rightarrow> u16 \<Rightarrow> bytes \<Rightarrow> bytes \<Rightarrow> nat \<Rightarrow> 'p ifdh \<Rightarrow> 'p control_reply option" where
  "Part10ModifyPinDirect e ctn cmd rxb ret0 h =
     pin_direct e ctn 25 (modifyStructToCtapi e (status_of ctn h) cmd) cmd rxb ret0 h"

definition Part10Control :: "'p ctapi_env \<Rightarrow> u16 \<Rightarrow> u32 \<Rightarrow> bytes \<Rightarrow> bytes \<Rightarrow> nat \<Rightarrow> 'p ifdh \<Rightarrow> 'p control_reply option" where
  "Part10Control e ctn controlCode cmd rxb ret0 h =
     (if controlCode \<in> {SCARD_CTL_CODE 3400, 0x313520, 0x42000c20} then Some (Part10GetFeatures rxb ret0 h)
      else if controlCode = SCARD_CTL_CODE 0x330006 then Part10VerifyPinDirect e ctn cmd rxb ret0 h
      else if controlCode = SCARD_CTL_CODE 0x330007 then Part10ModifyPinDirect e ctn cmd rxb ret0 h
      else if controlCode = SCARD_CTL_CODE 0x330008 then Some (Part10ExecCtrlApdu e ctn cmd rxb h)
      else if controlCode = SCARD_CTL_CODE 0x330009
      then (if length cmd < 4 \<or> length cmd < 4 + unat (le16_val (cmd ! 2) (cmd ! 3)) then Some (IFD_COMMUNICATION_ERROR, ret0, rxb, h)
            else Some (Part10MctUniversal e ctn cmd rxb ret0 h))
      else case rsct_ifd_ioctl ctn controlCode cmd (word_of_nat (length rxb)) (ih_api h) of
        (None, s1) \<Rightarrow> Some (IFD_COMMUNICATION_ERROR, length rxb, rxb, h\<lparr>ih_api := s1\<rparr>)
      | (Some (st, d, n), s1) \<Rightarrow> Some (IFD_IOCTL st, unat n, overlay 0 d rxb, h\<lparr>ih_api := s1\<rparr>))"

definition IFDHControl :: "'p ctapi_env \<Rightarrow> 64 word \<Rightarrow> u32 \<Rightarrow> bytes \<Rightarrow> bytes \<Rightarrow> nat \<Rightarrow> 'p ifdh \<Rightarrow> 'p control_reply option" where
  "IFDHControl e Lun controlCode cmd rxb ret0 h =
     (let ctn = ifd_ctn Lun in
      if unat ctn \<ge> IFDH_MAX_READERS then Some (IFD_COMMUNICATION_ERROR, ret0, rxb, h)
      else if controlCode \<noteq> 0 then Part10Control e ctn controlCode cmd rxb ret0 h
      else if status_of ctn h = None then Some (IFD_ICC_NOT_PRESENT, ret0, rxb, h)
      else Some (ifd_exchange e ctn 1 cmd rxb h))"

section \<open>Commands for the card terminal\<close>

lemma length_pin_apdu [simp]: "length (pin_apdu e ps off n) = nat n"
  by (simp add: pin_apdu_def)

text \<open>What a command without the further tags looks like.\<close>

lemma pin_command_shape:
  assumes "pin_command e (Some x) ins ps ctl off more1 n = Some (Inr cmd)" "\<not> is_supportTag51 x"
  shows "0 \<le> n \<and> length cmd = 7 + length (timer_tag ps) + length ctl + nat n \<and> length cmd \<le> 256
    \<and> cmd = [0x20, ins, 0x01, 0x00, word_of_nat (length cmd - 5)] @ timer_tag ps
        @ [0x52, word_of_nat (length ctl + nat n)] @ ctl @ pin_apdu e ps off n"
proof -
  from assms have n: "0 \<le> n" "7 + int (length (timer_tag ps)) + int (length ctl) + n \<le> 256"
    by (auto simp: pin_command_def Let_def split: if_splits)
  let ?b = "[0x20, ins, 0x01, 0x00, 0xff] @ timer_tag ps @ [0x52, word_of_int (n + int (length ctl))] @ ctl @ pin_apdu e ps off n"
  have "cmd = ?b[4 := word_of_nat (length ?b - 5)]"
    using assms by (auto simp: pin_command_def Let_def split: if_splits)
  moreover have "(word_of_int (n + int (length ctl)) :: byte) = word_of_nat (length ctl + nat n)"
    using n by (simp add: add.commute)
  ultimately have c: "cmd = [0x20, ins, 0x01, 0x00, word_of_nat (length ?b - 5)] @ timer_tag ps
        @ [0x52, word_of_nat (length ctl + nat n)] @ ctl @ pin_apdu e ps off n" by (simp add: numeral_eq_Suc)
  then have l: "length cmd = length ?b" by simp
  then have k: "length cmd = 7 + length (timer_tag ps) + length ctl + nat n" by simp
  moreover have "length cmd \<le> 256" using k n by linarith
  ultimately show ?thesis using c[folded l] n by blast
qed

text \<open>What the card terminal finds in a command: the time-out \<open>t\<close>, the value \<open>v\<close> of tag \<^verbatim>\<open>52\<close>, and nothing else.\<close>

definition carries :: "byte \<Rightarrow> bytes \<Rightarrow> bytes \<Rightarrow> byte \<Rightarrow> bool" where
  "carries ins cmd v t \<longleftrightarrow> take 4 cmd = [0x20, ins, 0x01, 0x00] \<and> length cmd \<le> 256 \<and> parse_apdu cmd = Some (int (length cmd) - 5, 5, -1)
     \<and> (\<forall>r tag. tag_value (cmd_buf r cmd) 5 (int (length cmd) - 5) tag =
          (if tag = 0x52 then Some v else if tag = 0x80 \<and> t \<noteq> 0 then Some [t] else None))"

lemma tag_here:
  assumes "buf = pre @ [tag, word_of_nat (length v)] @ v @ post" "length v < 256" "v \<noteq> []" "int (length v) + 2 = len"
    "length pre = k"
  shows "tag_value buf k len w = (if w = tag then Some v else None)"
proof -
  have b: "buf ! k = tag" "buf ! (k + 1) = word_of_nat (length v)" "drop (k + 2) buf = v @ post"
    using assms(1,5) by (auto simp: nth_append)
  have l: "unat (word_of_nat (length v) :: byte) = length v" using assms(2) by (simp add: unat_byte_of_nat)
  have g: "2 < len" using assms(3,4) by (cases v) auto
  show ?thesis
  proof (cases "w = tag")
    case True
    then show ?thesis using b l g by (simp add: tag_value_def GetTag.simps[of buf k len] Let_def)
  next
    case False
    then have "GetTag buf k len w = GetTag buf (k + 2 + length v) 0 w"
      using b l g assms(4) by (subst GetTag.simps) (simp add: Let_def)
    then show ?thesis using False by (simp add: tag_value_def GetTag.simps)
  qed
qed

lemma tag_skip:
  assumes "buf = pre @ [tag, word_of_nat (length v)] @ v @ post" "length v < 256" "2 < len" "length pre = k"
  shows "tag_value buf k len w = (if w = tag then Some v else tag_value buf (k + 2 + length v) (len - (int (length v) + 2)) w)"
proof -
  have b: "buf ! k = tag" "buf ! (k + 1) = word_of_nat (length v)" "drop (k + 2) buf = v @ post"
    using assms(1,4) by (auto simp: nth_append)
  have l: "unat (word_of_nat (length v) :: byte) = length v" using assms(2) by (simp add: unat_byte_of_nat)
  show ?thesis using b l assms(3) by (simp add: tag_value_def GetTag.simps[of buf k len] Let_def)
qed

lemma pin_command_carries:
  assumes "pin_command e (Some x) ins ps ctl off more1 n = Some (Inr cmd)" "\<not> is_supportTag51 x" "ctl \<noteq> []"
  shows "carries ins cmd (ctl @ pin_apdu e ps off n) (ps ! 0)"
proof -
  let ?v = "ctl @ pin_apdu e ps off n"
  let ?L = "length cmd"
  have s: "0 \<le> n" "?L = 7 + length (timer_tag ps) + length ctl + nat n" "?L \<le> 256"
    "cmd = [0x20, ins, 0x01, 0x00, word_of_nat (?L - 5)] @ timer_tag ps @ [0x52, word_of_nat (length ?v)] @ ?v"
    using pin_command_shape[OF assms(1,2)] by auto
  have t: "length (timer_tag ps) = (if ps ! 0 = 0 then 0 else 3)" by (simp add: timer_tag_def)
  have v: "length ?v < 256" "?v \<noteq> []" using s(2,3) assms(3) by auto
  have "unat (cmd ! 4) = ?L - 5"
  proof -
    have "cmd ! 4 = word_of_nat (?L - 5)" by (subst s(4)) simp
    then show ?thesis using s(3) by (simp add: unat_byte_of_nat)
  qed
  moreover have "?L > 7" using s(2) assms(3) by (cases ctl) auto
  ultimately have p: "parse_apdu cmd = Some (int ?L - 5, 5, -1)" by (simp add: parse_apdu_def Let_def)
  have "tag_value (cmd_buf r cmd) 5 (int ?L - 5) tag =
      (if tag = 0x52 then Some ?v else if tag = 0x80 \<and> ps ! 0 \<noteq> 0 then Some [ps ! 0] else None)" for r tag
  proof (cases "ps ! 0 = 0")
    case True
    then have b: "cmd_buf r cmd = [0x20, ins, 0x01, 0x00, word_of_nat (?L - 5)]
        @ [0x52, word_of_nat (length ?v)] @ ?v @ map (g_over r) [0..<600]"
      unfolding cmd_buf_def by (subst s(4)) (simp add: timer_tag_def)
    have "int (length ?v) + 2 = int ?L - 5" using s(2) t True by simp
    from tag_here[OF b v this] True show ?thesis by simp
  next
    case False
    let ?h = "[0x20, ins, 0x01, 0x00, word_of_nat (?L - 5)]"
    have b: "cmd_buf r cmd = ?h @ [0x80, word_of_nat (length [ps ! 0])] @ [ps ! 0]
        @ ([0x52, word_of_nat (length ?v)] @ ?v @ map (g_over r) [0..<600])"
      unfolding cmd_buf_def using False by (subst s(4)) (simp add: timer_tag_def)
    then have b2: "cmd_buf r cmd = (?h @ [0x80, 0x01, ps ! 0]) @ [0x52, word_of_nat (length ?v)] @ ?v @ map (g_over r) [0..<600]"
      by simp
    have "int (length ?v) + 2 = int ?L - 5 - 3" using s(2) t False by simp
    from tag_here[OF b2 v this, of 8] tag_skip[OF b, of "int ?L - 5" 5 tag] False \<open>?L > 7\<close>
    show ?thesis by auto
  qed
  moreover have "take 4 cmd = [0x20, ins, 0x01, 0x00]" by (subst s(4)) simp
  ultimately show ?thesis using p s(3) by (simp add: carries_def)
qed

lemma length_timer_tag: "length (timer_tag ps) \<le> 3"
  by (simp add: timer_tag_def)

lemma pin_command_None:
  assumes "\<And>x. st = Some x \<Longrightarrow> \<not> is_supportTag51 x" "length ctl \<le> 3"
  shows "pin_command e st ins ps ctl off more1 n = None \<longleftrightarrow>
    (let k = n + int (length (timer_tag ps)) + int (length ctl) in
     n < 0 \<or> k = 250 \<or> k > 2147483642 \<or> st = None \<and> k < 250)"
  using assms length_timer_tag[of ps] by (cases st) (auto simp: pin_command_def Let_def)

lemma pin_command_Some:
  assumes "\<not> is_supportTag51 x" "0 \<le> n" "n + int (length (timer_tag ps)) + int (length ctl) < 250"
  shows "\<exists>cmd. pin_command e (Some x) ins ps ctl off more1 n = Some (Inr cmd)"
  using assms by (simp add: pin_command_def Let_def)

section \<open>Sessions of the daemon\<close>

lemma inv_ioctl:
  assumes "rsct_ifd_ioctl ctn code inp cap (ih_api h) = (y, s1)" "ifdh_inv h"
  shows "ifdh_inv (h\<lparr>ih_api := s1\<rparr>)"
  using inv_api[OF assms(2)] api_call_inv[OF api_ioctl[OF assms(1)]] assms(2) by (simp add: ifdh_inv_def)

lemma inv_exec: "Part10ExecCtrlApdu e ctn cmd rxb h = (r, k, d, h') \<Longrightarrow> ifdh_inv h \<Longrightarrow> ifdh_inv h'"
  by (auto simp: Part10ExecCtrlApdu_def split: if_splits dest: inv_exchange)

lemma inv_universal:
  assumes "Part10MctUniversal e ctn uni rxb ret0 h = (r, k, d, h')" "ifdh_inv h"
  shows "ifdh_inv h'"
proof (cases "length rxb < 6 \<or> status_of ctn h = None")
  case False
  obtain y s1 where d: "CT_data e ctn (uni ! 1) (uni ! 0) (take (unat (le16_val (uni ! 2) (uni ! 3))) (drop 4 uni))
      (take (65535 - 4) (drop 4 rxb)) (ih_api h) = (y, s1)" by fastforce
  have "ifdh_inv (h\<lparr>ih_api := s1\<rparr>)"
    using inv_api[OF assms(2)] CT_data_inv[OF d] CT_data_locked[OF d] assms(2) by (simp add: ifdh_inv_def)
  then show ?thesis using assms(1) False d by (auto simp: Part10MctUniversal_def split: prod.splits if_splits)
qed (use assms in \<open>auto simp: Part10MctUniversal_def split: if_splits\<close>)

lemma inv_pin_direct: "pin_direct e ctn sz c cmd rxb ret0 h = Some (r, k, d, h') \<Longrightarrow> ifdh_inv h \<Longrightarrow> ifdh_inv h'"
  by (auto simp: pin_direct_def split: if_splits option.splits sum.splits dest: inv_exec)

lemma inv_control:
  assumes "IFDHControl e Lun code cmd rxb ret0 h = Some (r, k, d, h')" "ifdh_inv h"
  shows "ifdh_inv h'"
proof -
  have "ifdh_inv h'" if "Part10Control e ctn code cmd rxb ret0 h = Some (r, k, d, h')" for ctn
  proof -
    obtain y s1 where i: "rsct_ifd_ioctl ctn code cmd (word_of_nat (length rxb)) (ih_api h) = (y, s1)" by fastforce
    note j = inv_ioctl[OF i assms(2)]
    have "ifdh_inv h'" if "Some (Part10GetFeatures rxb ret0 h) = Some (r, k, d, h')"
      using that assms(2) by (auto simp: Part10GetFeatures_def split: if_splits)
    then show ?thesis using that assms(2) j inv_pin_direct inv_exec inv_universal
      by (auto simp: Part10Control_def i Part10VerifyPinDirect_def Part10ModifyPinDirect_def
          split: if_splits option.splits prod.splits)
  qed
  then show ?thesis using assms by (auto simp: IFDHControl_def Let_def split: if_splits dest: inv_exchange)
qed

text \<open>A call of the daemon that returns; the daemon starts with no channel.\<close>

inductive ifd_call :: "'p ifdh \<Rightarrow> 'p ifdh \<Rightarrow> bool" where
  call_create: "IFDHCreateChannel e Lun Ch h = Some (r, h') \<Longrightarrow> en_ok e \<Longrightarrow> ifd_call h h'"
| call_create_name: "IFDHCreateChannelByName e Lun name h = Some (r, h') \<Longrightarrow> en_ok e \<Longrightarrow> ifd_call h h'"
| call_close: "IFDHCloseChannel Lun h = Some (r, h') \<Longrightarrow> ifd_call h h'"
| call_protocol: "IFDHSetProtocolParameters e Lun P h = (r, h') \<Longrightarrow> ifd_call h h'"
| call_power: "IFDHPowerICC e Lun Action n h = (r, k, d, h') \<Longrightarrow> ifd_call h h'"
| call_transmit: "IFDHTransmitToICC e Lun cmd rxb h = (r, k, d, h') \<Longrightarrow> ifd_call h h'"
| call_presence: "IFDHICCPresence e Lun h = (r, h') \<Longrightarrow> ifd_call h h'"
| call_control: "IFDHControl e Lun code cmd rxb ret0 h = Some (r, k, d, h') \<Longrightarrow> ifd_call h h'"

definition ifdh0 :: "cfg_world \<Rightarrow> string option \<Rightarrow> 'p ifdh" where
  "ifdh0 w f = \<lparr>ih_initialized = 0, ih_status = replicate IFDH_MAX_READERS None, ih_api = api0 w f\<rparr>"

lemma inv_ifdh0: "ifdh_inv (ifdh0 w f)"
  by (simp add: ifdh_inv_def ifdh0_def api0_def ctapi_inv_def)

lemma inv_call: "ifd_call h h' \<Longrightarrow> ifdh_inv h \<Longrightarrow> ifdh_inv h'"
  by (induction rule: ifd_call.induct)
    (erule inv_create_pn inv_create_name inv_close inv_protocol inv_power inv_transmit inv_presence inv_control; assumption)+

lemma inv_calls: "ifd_call\<^sup>*\<^sup>* h h' \<Longrightarrow> ifdh_inv h \<Longrightarrow> ifdh_inv h'"
  by (induction rule: rtranclp_induct) (auto dest: inv_call)

section \<open>The answer to reset during a session\<close>

text \<open>
  The calls that leave the answer to reset of terminal \<open>c\<close> alone: everything but powering that terminal, closing
  its channel, and closing another channel as the last user (which ends the driver and forgets all channels).
\<close>

inductive atr_call :: "u16 \<Rightarrow> 'p ifdh \<Rightarrow> 'p ifdh \<Rightarrow> bool" for c where
  atr_create: "IFDHCreateChannel e Lun Ch h = Some (r, h') \<Longrightarrow> atr_call c h h'"
| atr_create_name: "IFDHCreateChannelByName e Lun name h = Some (r, h') \<Longrightarrow> atr_call c h h'"
| atr_close: "IFDHCloseChannel Lun h = Some (r, h') \<Longrightarrow> ifd_ctn Lun \<noteq> c \<Longrightarrow> 2 \<le> ih_initialized h \<Longrightarrow> atr_call c h h'"
| atr_protocol: "IFDHSetProtocolParameters e Lun P h = (r, h') \<Longrightarrow> atr_call c h h'"
| atr_power: "IFDHPowerICC e Lun Action n h = (r, k, d, h') \<Longrightarrow> ifd_ctn Lun \<noteq> c \<Longrightarrow> atr_call c h h'"
| atr_transmit: "IFDHTransmitToICC e Lun cmd rxb h = (r, k, d, h') \<Longrightarrow> atr_call c h h'"
| atr_presence: "IFDHICCPresence e Lun h = (r, h') \<Longrightarrow> atr_call c h h'"
| atr_control: "IFDHControl e Lun code cmd rxb ret0 h = Some (r, k, d, h') \<Longrightarrow> atr_call c h h'"

text \<open>A call that leaves the table of channels and the count of users alone.\<close>

definition same_table :: "'p ifdh \<Rightarrow> 'p ifdh \<Rightarrow> bool" where
  "same_table h h' \<longleftrightarrow> ih_status h' = ih_status h \<and> ih_initialized h' = ih_initialized h"

lemma same_table_refl [simp]: "same_table h h" "same_table h (h\<lparr>ih_api := s\<rparr>)"
  by (simp_all add: same_table_def)

lemma table_send: "ct_send e c dad cmd rsp h = (ret, rsp1, lr, h1) \<Longrightarrow> same_table h h1"
  by (auto simp: same_table_def dest: send_status)

lemma table_exchange: "ifd_exchange e c dad cmd rxb h = (r, k, d, h') \<Longrightarrow> same_table h h'"
  by (auto simp: ifd_exchange_def split: prod.splits if_splits dest: table_send)

lemma table_calls:
  "IFDHSetProtocolParameters e Lun P h = (r, h') \<Longrightarrow> same_table h h'"
  "IFDHTransmitToICC e Lun cmd rxb h = (r, k, d, h') \<Longrightarrow> same_table h h'"
  "IFDHICCPresence e Lun h = (r, h') \<Longrightarrow> same_table h h'"
  by (auto simp: IFDHSetProtocolParameters_def IFDHTransmitToICC_def IFDHICCPresence_def Let_def
      split: if_splits option.splits prod.splits dest: table_send table_exchange)

lemma table_exec: "Part10ExecCtrlApdu e ctn cmd rxb h = (r, k, d, h') \<Longrightarrow> same_table h h'"
  by (auto simp: Part10ExecCtrlApdu_def split: if_splits dest: table_exchange)

lemma table_universal: "Part10MctUniversal e ctn uni rxb ret0 h = (r, k, d, h') \<Longrightarrow> same_table h h'"
  by (auto simp: Part10MctUniversal_def split: prod.splits if_splits)

lemma table_pin: "pin_direct e ctn sz c cmd rxb ret0 h = Some (r, k, d, h') \<Longrightarrow> same_table h h'"
  by (auto simp: pin_direct_def split: if_splits option.splits sum.splits dest: table_exec)

lemma table_control:
  assumes "IFDHControl e Lun code cmd rxb ret0 h = Some (r, k, d, h')"
  shows "same_table h h'"
proof -
  have "same_table h h'" if "Part10Control e ctn code cmd rxb ret0 h = Some (r, k, d, h')" for ctn
  proof -
    obtain y s1 where i: "rsct_ifd_ioctl ctn code cmd (word_of_nat (length rxb)) (ih_api h) = (y, s1)" by fastforce
    have "same_table h h'" if "Some (Part10GetFeatures rxb ret0 h) = Some (r, k, d, h')"
      using that by (auto simp: Part10GetFeatures_def split: if_splits)
    then show ?thesis using that table_pin table_exec table_universal
      by (auto simp: Part10Control_def i Part10VerifyPinDirect_def Part10ModifyPinDirect_def
          split: if_splits option.splits prod.splits)
  qed
  then show ?thesis using assms by (auto simp: IFDHControl_def Let_def split: if_splits dest: table_exchange)
qed

text \<open>The status of terminal \<open>c\<close> is \<open>y\<close>, and the driver is in use.\<close>

definition has_status :: "u16 \<Rightarrow> ifdh_status \<Rightarrow> 'p ifdh \<Rightarrow> bool" where
  "has_status c y h \<longleftrightarrow> status_of c h = Some y \<and> unat c < IFDH_MAX_READERS \<and> length (ih_status h) = IFDH_MAX_READERS
     \<and> 1 \<le> ih_initialized h"

lemma has_same_table: "same_table h h' \<Longrightarrow> has_status c y h \<Longrightarrow> has_status c y h'"
  by (simp add: same_table_def has_status_def status_of_def)

lemma has_other: "has_status c y h \<Longrightarrow> d \<noteq> c \<Longrightarrow> has_status c y (set_status d x h)"
  by (simp add: has_status_def status_of_def set_status_def word_unat_eq_iff)

lemma has_create:
  assumes "create_channel ctn op st ok h = Some (r, h')" "has_status c y h"
  shows "has_status c y h'"
proof (cases "unat ctn \<ge> IFDH_MAX_READERS")
  case False
  have i: "initDriver h = h\<lparr>ih_initialized := ih_initialized h + 1\<rparr>"
    using assms(2) by (simp add: initDriver_def Let_def has_status_def)
  have u: "has_status c y ((initDriver h)\<lparr>ih_api := s\<rparr>)" "has_status c y (initDriver h)"
    "has_status c y (deinitDriver ((initDriver h)\<lparr>ih_api := s\<rparr>))" "has_status c y (deinitDriver (initDriver h))" for s
    using assms(2) by (simp_all add: i has_status_def status_of_def deinitDriver_def Let_def)
  show ?thesis
  proof (cases "status_of ctn (initDriver h)")
    case None
    then have "ctn \<noteq> c" using u(2) by (auto simp: has_status_def)
    then show ?thesis using assms(1) False None u has_other[OF u(1)]
      by (auto simp: create_channel_def Let_def split: if_splits)
  next
    case (Some x)
    then show ?thesis using assms(1) False u by (auto simp: create_channel_def Let_def split: if_splits)
  qed
qed (use assms in \<open>auto simp: create_channel_def\<close>)

lemma has_close:
  assumes "IFDHCloseChannel Lun h = Some (r, h')" "has_status c y h" "ifd_ctn Lun \<noteq> c" "2 \<le> ih_initialized h"
  shows "has_status c y h'"
proof -
  have d: "has_status c y (deinitDriver g)" if "has_status c y g" "ih_initialized g = ih_initialized h" for g :: "'a ifdh"
    using that assms(4) by (simp add: has_status_def status_of_def deinitDriver_def Let_def)
  have a: "has_status c y (h\<lparr>ih_api := s\<rparr>)" for s using has_same_table[OF same_table_refl(2) assms(2)] .
  show ?thesis using assms(1,2) d[OF a] d[OF has_other[OF a assms(3)]]
    by (auto simp: IFDHCloseChannel_def Let_def split: if_splits)
qed

lemma has_power_other:
  assumes "IFDHPowerICC e Lun Action n h = (r, k, d, h')" "has_status c y h" "ifd_ctn Lun \<noteq> c"
  shows "has_status c y h'"
proof -
  have s: "has_status c y h1" if "ct_send e z dad cmd rsp g = (ret, rsp1, lr, h1)" "has_status c y g"
    for z dad cmd rsp g ret rsp1 lr h1
    using has_same_table[OF table_send[OF that(1)] that(2)] .
  have "has_status c y h1" if "power_atr e (ifd_ctn Lun) ins err n x h = (r1, k1, d1, h1)" for ins err x r1 k1 d1 h1
    using that assms(2,3) by (auto simp: power_atr_def Let_def split: prod.splits if_splits dest!: s intro: has_other)
  then show ?thesis using assms has_other[OF assms(2,3)]
    by (auto simp: IFDHPowerICC_def Let_def split: if_splits option.splits prod.splits dest: s)
qed

lemma has_call: "atr_call c h h' \<Longrightarrow> has_status c y h \<Longrightarrow> has_status c y h'"
proof (induction rule: atr_call.induct)
  case (atr_create e Lun Ch h r h')
  then show ?case unfolding IFDHCreateChannel_def by (rule has_create)
next
  case (atr_create_name e Lun name h r h')
  then show ?case unfolding IFDHCreateChannelByName_def by (rule has_create)
next
  case (atr_close Lun h r h')
  then show ?case using has_close by blast
next
  case (atr_power e Lun Action n h r k d h')
  then show ?case using has_power_other by blast
qed (blast intro: has_same_table table_calls table_control)+

lemma has_calls: "(atr_call c)\<^sup>*\<^sup>* h h' \<Longrightarrow> has_status c y h \<Longrightarrow> has_status c y h'"
  by (induction rule: rtranclp_induct) (auto intro: has_call)

section \<open>Properties\<close>

text \<open>
  Property C9.  The answer to reset a client gets from \<^verbatim>\<open>IFDHPowerICC\<close>, for powering up and for a reset, is the
  one \<^verbatim>\<open>IFDHGetCapabilities\<close> reports (cut to 33 bytes) after any further calls of the daemon: transmissions,
  presence checks, protocol selection and control calls for any terminal, power actions and closing of
  other terminals (unless that close ends the driver), creation of channels.  After powering down it
  is empty.
\<close>

theorem atr_kept:
  assumes "ifdh_inv h" "1 \<le> ih_initialized h" "Action = 500 \<or> Action = 502" "33 \<le> n"
    "IFDHPowerICC e Lun Action n h = (IFD_SUCCESS, k, atr, h1)" "length atr = k"
    "(atr_call (ifd_ctn Lun))\<^sup>*\<^sup>* h1 h2" "IFDHPowerICC e2 Lun 501 n2 h2 = (r3, k3, atr3, h3)"
  shows "IFDHGetCapabilities Lun 0x0303 33 False h2 = Some (IFD_SUCCESS, min k 33, take 33 atr)
    \<and> IFDHGetCapabilities Lun 0x0303 33 False h3 = Some (IFD_SUCCESS, 0, [])"
proof -
  let ?c = "ifd_ctn Lun"
  obtain y where y: "status_of ?c h1 = Some y" "is_ATR_Length y = min k 33" "take (is_ATR_Length y) (is_ATR y) = take 33 atr"
    "unat ?c < IFDH_MAX_READERS" "ih_initialized h1 = ih_initialized h"
    using power_stores[OF assms(1,3-6)] by blast
  have "ifdh_inv h1" using inv_power[OF assms(5,1)] .
  then have "has_status ?c y h1" using y assms(2) by (simp add: has_status_def ifdh_inv_def)
  then have h2: "has_status ?c y h2" using has_calls[OF assms(7)] by blast
  have g: "IFDHGetCapabilities Lun 0x0303 33 False g = Some (IFD_SUCCESS, length v, v)"
    if "status_of ?c g = Some z" "take (is_ATR_Length z) (is_ATR z) = v" "is_ATR_Length z \<le> 33" for g :: "'a ifdh" and z v
    using that y(4) by (simp add: IFDHGetCapabilities_def Let_def capability_def)
  have "status_of ?c h3 = Some (y\<lparr>is_ATR_Length := 0\<rparr>)"
    using power_down_clears[OF assms(8)] h2 by (simp add: has_status_def)
  from g[OF this, of "[]"] g[of h2 y "take 33 atr"] h2 y(2,3) assms(6) show ?thesis
    by (simp add: has_status_def min.commute)
qed

text \<open>
  Property C8.  Whatever the daemon calls, for every behaviour of the devices and of the card: the table of
  channels keeps its size, the count of users is not negative, every stored ATR fits into its field,
  no channel claims support of tag \<^verbatim>\<open>51\<close>, and the contexts of the CT-API library below satisfy their
  invariant with no lock left behind (for the ATR and the protocol kept in a reader object: unless an
  RFID reader copied an answer to select over the end of \<^verbatim>\<open>m_ATR\<close>).
\<close>

theorem ifd_sessions:
  assumes "ifd_call\<^sup>*\<^sup>* (ifdh0 w f) h"
  shows "ifdh_inv h"
  using inv_calls[OF assms inv_ifdh0] .

text \<open>
  Property C7.  A PIN structure whose format is supported and whose data leave room becomes a command of
  the card terminal.  The command fits into the buffer of 256 bytes, has a well formed length, and the tag
  search of the card terminal finds the control bytes with the data of the structure as tag \<^verbatim>\<open>52\<close>, the
  time-out as tag \<^verbatim>\<open>80\<close> if there is one, and no other tag: for verification and for modification.
\<close>

theorem pin_command_understood:
  assumes "status_ok x" "n = apdu_length (le32_at ps 15)" "m = apdu_length (le32_at ps 20)"
    "t = int (length (timer_tag ps))"
  shows "(verify_control e ps n = Some (c, p) \<longrightarrow> 0 \<le> n \<longrightarrow> n + t < 248 \<longrightarrow>
        (\<exists>cmd. verifyStructToCtapi e (Some x) ps = Some (Inr cmd)
           \<and> carries 0x18 cmd ([c, p] @ pin_apdu e ps 19 n) (ps ! 0)))
    \<and> (modify_control e ps m = Some (c, old, new) \<longrightarrow> 0 \<le> m \<longrightarrow> m + t < 247 \<longrightarrow>
        (\<exists>cmd. modifyStructToCtapi e (Some x) ps = Some (Inr cmd)
           \<and> carries 0x19 cmd ([c, old, new] @ pin_apdu e ps 24 m) (ps ! 0)))"
proof -
  have s: "\<not> is_supportTag51 x" using assms(1) by (simp add: status_ok_def)
  have gen: "\<exists>cmd. pin_command e (Some x) ins ps ctl off more1 k = Some (Inr cmd)
      \<and> carries ins cmd (ctl @ pin_apdu e ps off k) (ps ! 0)"
    if "0 \<le> k" "k + t + int (length ctl) < 250" "ctl \<noteq> []" for ins ctl off more1 k
    using pin_command_Some[OF s that(1)] pin_command_carries[OF _ s that(3)] that(2) assms(4) by blast
  show ?thesis
    using gen[of n "[c, p]"] gen[of m "[c, old, new]"]
    by (simp add: verifyStructToCtapi_def modifyStructToCtapi_def Let_def assms(2,3)[symmetric])
qed

text \<open>
  Property C35.  For a request whose announced data lie inside it (at least 20 bytes for verification, 25 for
  modification: shorter ones are refused), the two PIN functions leave defined behaviour in exactly
  these cases of a supported format: the length of the data is negative as a signed number, the command
  is one byte longer than the buffer (the test of the room leaves out the tag and its length), the sum
  in the test overflows, or the channel is closed and the command would fit.  A length beyond the
  request makes the code read behind it, which is not counted here.
\<close>

theorem pin_buffer_overrun:
  assumes "ifdh_inv h" "unat ctn < IFDH_MAX_READERS"
    "n = apdu_length (le32_at ps 15)" "m = apdu_length (le32_at ps 20)" "t = int (length (timer_tag ps))"
  shows "(20 \<le> length ps \<longrightarrow> 19 + n \<le> int (length ps) \<longrightarrow>
      (Part10VerifyPinDirect e ctn ps rxb ret0 h = None \<longleftrightarrow> verify_control e ps n \<noteq> None
       \<and> (n < 0 \<or> n + t = 248 \<or> n + t > 2147483640 \<or> status_of ctn h = None \<and> n + t < 248)))
    \<and> (25 \<le> length ps \<longrightarrow> 24 + m \<le> int (length ps) \<longrightarrow>
      (Part10ModifyPinDirect e ctn ps rxb ret0 h = None \<longleftrightarrow> modify_control e ps m \<noteq> None
       \<and> (m < 0 \<or> m + t = 247 \<or> m + t > 2147483639 \<or> status_of ctn h = None \<and> m + t < 247)))"
proof -
  have s: "\<not> is_supportTag51 x" if "status_of ctn h = Some x" for x
    using status_ok_of[OF assms(1,2) that] by (simp add: status_ok_def)
  have p: "pin_direct e ctn sz c ps rxb ret0 h = None \<longleftrightarrow> c = None" if "sz \<le> length ps" for sz c
    using that by (simp add: pin_direct_def del: not_None_eq split: option.split sum.split)
  have "Part10VerifyPinDirect e ctn ps rxb ret0 h = None \<longleftrightarrow> verify_control e ps n \<noteq> None
       \<and> (n < 0 \<or> n + t = 248 \<or> n + t > 2147483640 \<or> status_of ctn h = None \<and> n + t < 248)" if "20 \<le> length ps"
    using p[OF that] by (auto simp: Part10VerifyPinDirect_def verifyStructToCtapi_def assms(3,5)[symmetric] Let_def
        pin_command_None[OF s] split: option.splits)
  moreover have "Part10ModifyPinDirect e ctn ps rxb ret0 h = None \<longleftrightarrow> modify_control e ps m \<noteq> None
       \<and> (m < 0 \<or> m + t = 247 \<or> m + t > 2147483639 \<or> status_of ctn h = None \<and> m + t < 247)" if "25 \<le> length ps"
    using p[OF that] by (auto simp: Part10ModifyPinDirect_def modifyStructToCtapi_def assms(4,5)[symmetric] Let_def
        pin_command_None[OF s] split: option.splits)
  ultimately show ?thesis by blast
qed

section \<open>Examples\<close>

text \<open>A request to verify a PIN of 4 to 8 BCD digits with a time-out of 30 seconds, for \<open>n\<close> bytes of data.\<close>

definition verify_request :: "byte \<Rightarrow> byte \<Rightarrow> bytes" where
  "verify_request t n = [t, 0, 0x81, 0, 0, 8, 4, 2, 1, 0, 0, 0, 0, 0, 0, n, 0, 0, 0]
     @ [0x00, 0x20, 0x00, 0x81, 0x08] @ replicate 8 0xFF"

lemma request_length:
  "apdu_length (le32_at (verify_request t 13) 15) = 13" "apdu_length (le32_at (verify_request t 248 @ more1) 15) = 248"
  by (simp_all add: verify_request_def apdu_length_def le32_at_def) code_simp+

lemma request_control: "verify_control e (verify_request t n) 13 = Some (0, 6)"
  "verify_control e (verify_request t n @ more1) 248 = Some (0, 6)"
  by (simp_all add: verify_control_def pin_coding_def verify_request_def verify_format2_def format2_marks_def Let_def)

theorem pin_command_understood_witness:
  "\<exists>cmd. verifyStructToCtapi card_env (Some no_status) (verify_request 30 13) = Some (Inr cmd)
     \<and> carries 0x18 cmd ([0, 6] @ pin_apdu card_env (verify_request 30 13) 19 13) 30"
  using pin_command_understood[OF status_ok_new(1) request_length(1)[symmetric] refl refl, where e = card_env and t3 = 30]
  by (simp add: request_control) (simp add: verify_request_def timer_tag_def)

theorem pin_buffer_overrun_witness:
  "length (verify_request 0 248 @ replicate 235 0xFF) = 19 + 248
     \<and> Part10VerifyPinDirect card_env 1 (verify_request 0 248 @ replicate 235 0xFF) [0, 0] 0 (one_reader 1 pinpad_context) = None"
proof -
  have i: "ifdh_inv (one_reader 1 pinpad_context)" by (rule one_reader_inv[OF pinpad_ok(1)]) simp
  let ?ps = "verify_request 0 248 @ replicate 235 0xFF"
  have l: "length ?ps = 267" "timer_tag ?ps = []"
    by (simp_all add: verify_request_def timer_tag_def)
  from pin_buffer_overrun[where ctn = 1 and ps = ?ps and e = card_env, OF i _ request_length(2)[symmetric] refl refl]
  show ?thesis using l by (simp add: request_control)
qed

theorem atr_kept_witness:
  "\<exists>h1 r h2 r3 k3 atr3 h3. IFDHPowerICC card_env 0x10000 500 33 (one_reader 1 pinpad_context) = (IFD_SUCCESS, 2, [0x3b, 0x00], h1)
     \<and> IFDHICCPresence card_env 0x10000 h1 = (r, h2)
     \<and> IFDHPowerICC card_env 0x10000 501 33 h2 = (r3, k3, atr3, h3)
     \<and> IFDHGetCapabilities 0x10000 0x0303 33 False h2 = Some (IFD_SUCCESS, 2, [0x3b, 0x00])
     \<and> IFDHGetCapabilities 0x10000 0x0303 33 False h3 = Some (IFD_SUCCESS, 0, [])"
proof -
  obtain h1 where h1: "IFDHPowerICC card_env 0x10000 500 33 (one_reader 1 pinpad_context) = (IFD_SUCCESS, 2, [0x3b, 0x00], h1)"
    using card_power by blast
  obtain r h2 where h2: "IFDHICCPresence card_env 0x10000 h1 = (r, h2)" by fastforce
  obtain r3 k3 atr3 h3 where h3: "IFDHPowerICC card_env 0x10000 501 33 h2 = (r3, k3, atr3, h3)" by (metis prod.exhaust)
  have i: "ifdh_inv (one_reader 1 pinpad_context)" by (rule one_reader_inv[OF pinpad_ok(1)]) simp
  have u: "1 \<le> ih_initialized (one_reader 1 pinpad_context)" by (simp add: one_reader_def)
  have "(atr_call (ifd_ctn 0x10000))\<^sup>*\<^sup>* h1 h2" using atr_presence[OF h2] by blast
  from atr_kept[OF i u _ _ h1 _ this h3] h1 h2 h3 show ?thesis by fastforce
qed

theorem ifd_sessions_witness:
  "\<exists>h. ifd_call\<^sup>*\<^sup>* (ifdh0 no_config None :: unit ifdh) h \<and> ih_initialized h = 1 \<and> ifdh_inv h"
proof -
  obtain s1 where s1: "init_common1 (pinpad_env 0) 1 1 [] ((api0 no_config None)\<lparr>ca_locked := True\<rparr>) = (0, s1)"
    "ca_list s1 = [pinpad_context]" using pinpad_init1 by blast
  obtain y s2 where q: "status_query (pinpad_env 0) 1 s1 = ((0, y), s2)" using pinpad_query[OF s1(2)] by blast
  obtain y1 y2 y3 y4 where y: "y = (y1, y2, y3, y4)" by (metis prod.exhaust)
  have "CT_init (pinpad_env 0) 1 1 (api0 no_config None) = Some (0, s2\<lparr>ca_locked := False\<rparr>)"
    using s1(1) q(1) y by (simp add: CT_init_def locked_call_def init_common2_def) (simp add: api0_def)
  then have "\<exists>h. IFDHCreateChannel (pinpad_env 0) 0x10000 0 (ifdh0 no_config None) = Some (IFD_SUCCESS, h) \<and> ih_initialized h = 1"
    by (simp add: IFDHCreateChannel_def create_channel_def initDriver_def ifdh0_def lun1 status_of_def Let_def)
  then obtain h where h: "IFDHCreateChannel (pinpad_env 0) 0x10000 0 (ifdh0 no_config None) = Some (IFD_SUCCESS, h)"
    "ih_initialized h = 1" by blast
  have "ifd_call\<^sup>*\<^sup>* (ifdh0 no_config None) h" using call_create[OF h(1) pinpad_env_ok] by blast
  from this ifd_sessions[OF this] h(2) show ?thesis by blast
qed

end
