(* ===== verification/CJ_Ppa.thy ===== *)
theory CJ_Ppa
  imports CJ_Secure
begin

unbundle bit_operations_syntax

text \<open>
  The driver of the pinpad readers, a library in C of its own: the exchange of messages over USB
  (\<^verbatim>\<open>ppa/cjppPlatformLinux.c\<close>), the CCID commands and the start of a reader (\<^verbatim>\<open>ppa/cjccid.c\<close>), and the
  commands that write its memory (\<^verbatim>\<open>ppa/cjppUpdate.c\<close>).

  The device is a script: what the calls of \<^verbatim>\<open>ausb_bulk_read\<close> (\<open>None\<close>: a negative value; also behind
  the end) and of \<^verbatim>\<open>ausb_bulk_write\<close> (behind the end: everything was written) return.  \<open>pa_stack\<close> are the
  bytes of a message on the stack that the code does not set.  \<open>pa_overrun\<close> is set when a copy leaves a
  buffer.
\<close>

section \<open>State\<close>

record ppa_info =
  pi_ActiveModule :: byte
  pi_Version :: u16
  pi_Sign :: bytes
  pi_Status :: byte
  pi_Config :: byte
  pi_ApplicationVersion :: u16
  pi_LoaderVersion :: u16
  pi_Flags :: byte
  pi_Production :: bytes
  pi_Test :: bytes
  pi_First :: bytes
  pi_Seriennummer :: bytes
  pi_BootLoaderVersion :: u16

record ppa =
  pa_in :: "bytes option list"
  pa_out :: "int list"
  pa_sent :: "bytes list"
  pa_bSeq :: byte
  pa_Info :: ppa_info
  pa_Protokoll :: int
  pa_IFSC :: byte
  pa_PCB_seq :: byte
  pa_EDC :: byte
  pa_path :: bytes
  pa_Status :: byte
  pa_hasCanceled :: bool
  pa_isClass2 :: bool
  pa_Fini :: bool
  pa_states :: bytes
  pa_keys :: bytes
  pa_stack :: "nat \<Rightarrow> byte"
  pa_overrun :: bool

text \<open>A message: the bytes of the header and of the data that are set.\<close>

record ppa_msg =
  pm_type :: byte
  pm_len :: u32
  pm_head :: bytes
  pm_data :: bytes

abbreviation ppa_message :: "byte \<Rightarrow> bytes \<Rightarrow> bytes \<Rightarrow> ppa_msg" where
  "ppa_message t hs d \<equiv> \<lparr>pm_type = t, pm_len = word_of_nat (length d), pm_head = hs, pm_data = d\<rparr>"

section \<open>Exchange\<close>

definition cjppSWAP_ALWAYS :: "u16 \<Rightarrow> u16" where
  "cjppSWAP_ALWAYS v = push_bit 8 v + ucast (ucast (drop_bit 8 v) :: byte)"

definition cjppSWAB_WORD_2 :: "u16 \<Rightarrow> u16" where
  "cjppSWAB_WORD_2 v = cjppSWAP_ALWAYS (htons LittleEndian v)"

definition cjppSWAB_DWORD_2 :: "u32 \<Rightarrow> u32" where
  "cjppSWAB_DWORD_2 v =
     (let x = htonl LittleEndian v in
      push_bit 16 (ucast (cjppSWAP_ALWAYS (ucast x))) + ucast (cjppSWAP_ALWAYS (ucast (drop_bit 16 x))))"

text \<open>The bytes handed to the bulk pipe.\<close>

definition ppa_bytes :: "(nat \<Rightarrow> byte) \<Rightarrow> byte \<Rightarrow> ppa_msg \<Rightarrow> bytes" where
  "ppa_bytes stack seq m =
     (let n = 10 + unat (cjppSWAB_DWORD_2 (pm_len m));
          b = pm_type m # le32_bytes (pm_len m) @ [0, seq] @ pm_head m @ map stack [7 + length (pm_head m)..<10] @ pm_data m in
      take n (b @ map stack [length b..<n]))"

definition cjppWrite :: "ppa_msg \<Rightarrow> byte \<Rightarrow> ppa \<Rightarrow> int \<times> ppa" where
  "cjppWrite m seq p =
     (let bs = ppa_bytes (pa_stack p) seq m;
          p1 = p\<lparr>pa_overrun := pa_overrun p \<or> length (pm_data m) > 260\<rparr> in
      case pa_out p of [] \<Rightarrow> (0, p1\<lparr>pa_sent := pa_sent p @ [bs]\<rparr>)
      | r # rs \<Rightarrow>
          (if r = -19 then (-3, p1\<lparr>pa_out := rs\<rparr>)
           else if r < int (length bs) then (-2, p1\<lparr>pa_out := rs\<rparr>)
           else (0, p1\<lparr>pa_out := rs, pa_sent := pa_sent p @ [bs]\<rparr>)))"

text \<open>Reading goes on while the first four bytes of the buffer are zero.\<close>

fun read_loop :: "bytes option list \<Rightarrow> bytes \<Rightarrow> int \<times> bytes \<times> bytes option list" where
  "read_loop [] buf = (-3, buf, [])"
| "read_loop (None # is) buf = (-3, buf, is)"
| "read_loop (Some bs # is) buf =
     (if bs = [] \<or> length bs > 270 then (-3, buf, is)
      else let buf1 = overlay 0 bs buf in
        if take 4 buf1 = [0, 0, 0, 0] then read_loop is buf1 else (0, buf1, is))"

definition cjppRead :: "ppa \<Rightarrow> int \<times> bytes \<times> ppa" where
  "cjppRead p = (case read_loop (pa_in p) (replicate 270 0) of (res, buf, is) \<Rightarrow> (res, buf, p\<lparr>pa_in := is\<rparr>))"

definition cjppTransfer :: "ppa_msg \<Rightarrow> byte \<Rightarrow> ppa \<Rightarrow> int \<times> bytes \<times> ppa" where
  "cjppTransfer m seq p =
     (case cjppWrite m seq p of (res, p1) \<Rightarrow> if res \<noteq> 0 then (res, [], p1) else cjppRead p1)"

definition answer_type :: "byte \<Rightarrow> byte option" where
  "answer_type t =
     (if t \<in> {0x62, 0x6F, 0x69} then Some 0x80
      else if t \<in> {0x63, 0x65, 0x6A, 0x71, 0x72} then Some 0x81
      else if t \<in> {0x6C, 0x6D, 0x61} then Some 0x82
      else if t = 0x6B then Some 0x83
      else if t = 0x6E then Some 0x85
      else if t = 0x73 then Some 0x84
      else None)"

text \<open>The length of the response is brought into the order of the host, here without a change.\<close>

definition cjppWriteAndRead :: "ppa_msg \<Rightarrow> ppa \<Rightarrow> int \<times> ccid_response \<times> ppa" where
  "cjppWriteAndRead m p =
     (let m1 = m\<lparr>pm_len := cjppSWAB_DWORD_2 (pm_len m)\<rparr>; seq = pa_bSeq p in
      case cjppTransfer m1 seq (p\<lparr>pa_bSeq := seq + 1\<rparr>) of (res, rsp, p1) \<Rightarrow>
        if res \<noteq> 0 then (res, rsp, p1)
        else let rsp1 = overlay 1 (le32_bytes (cjppSWAB_DWORD_2 (rsp_dwLength rsp))) rsp in
          if seq \<noteq> rsp_bSeq rsp1 then (-5, rsp1, p1)
          else if answer_type (pm_type m) \<noteq> Some (rsp_bMessageType rsp1) then (-4, rsp1, p1)
          else (0, rsp1, p1))"

section \<open>Card commands\<close>

text \<open>Copying the data of a response: its length comes from the device.\<close>

definition rsp_take :: "ccid_response \<Rightarrow> bytes" where
  "rsp_take rsp = take (unat (rsp_dwLength rsp)) (rsp_data rsp)"

definition copy_from :: "nat \<Rightarrow> ccid_response \<Rightarrow> ppa \<Rightarrow> ppa" where
  "copy_from room rsp p = p\<lparr>pa_overrun := pa_overrun p \<or> unat (rsp_dwLength rsp) > min room 260\<rparr>"

definition cjccid_iccPowerOn :: "byte \<Rightarrow> ppa \<Rightarrow> int \<times> bytes \<times> u32 \<times> ppa" where
  "cjccid_iccPowerOn Voltage p =
     (case cjppWriteAndRead (ppa_message 0x62 [Voltage] []) p of (res, rsp, p1) \<Rightarrow>
        if res \<noteq> 0 then (res, [], 0, p1)
        else if rsp_bStatus rsp = 0x42 then (-7, [], 0, p1)
        else if rsp_bStatus rsp = 0x41
        then (if rsp_bError rsp = 0xfd then -9 else if rsp_bError rsp = 0xfe then -10 else -8, [], 0, p1)
        else (0, rsp_take rsp, rsp_dwLength rsp, copy_from 260 rsp p1))"

definition cjccid_iccPowerOff :: "ppa \<Rightarrow> int \<times> ppa" where
  "cjccid_iccPowerOff p = (case cjppWriteAndRead (ppa_message 0x63 [] []) p of (res, _, p1) \<Rightarrow> (res, p1))"

definition cjccid_GetSlotStatus :: "ppa \<Rightarrow> int \<times> ppa" where
  "cjccid_GetSlotStatus p =
     (case cjppWriteAndRead (ppa_message 0x65 [] []) p of (res, rsp, p1) \<Rightarrow>
        if res \<noteq> 0 then (res, p1)
        else let p2 = p1\<lparr>pa_Status := 1\<rparr> in
          if rsp_bStatus rsp AND 0x40 \<noteq> 0 then (-13, p2)
          else if rsp_bStatus rsp = 2 then (-7, p2\<lparr>pa_Status := 0\<rparr>)
          else if rsp_bStatus rsp = 1 then (-14, p2)
          else (0, p2))"

text \<open>Another protocol number leaves the length and the data of the message as they were.\<close>

definition set_parameters :: "(nat \<Rightarrow> byte) \<Rightarrow> byte \<Rightarrow> byte \<Rightarrow> byte \<Rightarrow> byte \<Rightarrow> byte \<Rightarrow> ppa_msg" where
  "set_parameters stack ProtocolNum FI_DI EDC GuardTime WaitingInteger =
     (if ProtocolNum = 0 then ppa_message 0x61 [ProtocolNum] [FI_DI, 0, GuardTime, WaitingInteger, 0]
      else if ProtocolNum = 1 then ppa_message 0x61 [ProtocolNum] [FI_DI, EDC, GuardTime, WaitingInteger, 0, 254, 0]
      else \<lparr>pm_type = 0x61, pm_len = le32_val (stack 1) (stack 2) (stack 3) (stack 4), pm_head = [ProtocolNum], pm_data = []\<rparr>)"

definition cjccid_SetParameters :: "byte \<Rightarrow> byte \<Rightarrow> byte \<Rightarrow> byte \<Rightarrow> byte \<Rightarrow> ppa \<Rightarrow> int \<times> ppa" where
  "cjccid_SetParameters ProtocolNum FI_DI EDC GuardTime WaitingInteger p =
     (case cjppWriteAndRead (set_parameters (pa_stack p) ProtocolNum FI_DI EDC GuardTime WaitingInteger) p of (res, rsp, p1) \<Rightarrow>
        (if res \<noteq> 0 then res
         else if rsp_bStatus rsp = 0x42 then -7
         else if rsp_bStatus rsp = 0x41 then -14
         else 0, p1))"

definition card_error :: "byte \<Rightarrow> int" where
  "card_error err = (if err = 0xfd then -9 else if err = 0xfe then -10 else -11)"

text \<open>Results with data: code, bytes stored, new length (\<open>None\<close>: not stored).\<close>

definition cjccid_XfrBlock :: "byte \<Rightarrow> bytes \<Rightarrow> nat \<Rightarrow> u16 \<Rightarrow> ppa \<Rightarrow> int \<times> bytes \<times> u32 option \<times> ppa" where
  "cjccid_XfrBlock BWI out cap wLevelParameter p =
     (case cjppWriteAndRead (ppa_message 0x6F (BWI # le16_bytes (cjppSWAB_WORD_2 wLevelParameter)) out) p of (res, rsp, p1) \<Rightarrow>
        if res \<noteq> 0 then (res, [], None, p1)
        else if rsp_bStatus rsp AND 2 \<noteq> 0 then (-7, [], None, p1)
        else if rsp_bStatus rsp AND 1 \<noteq> 0 then (-14, [], None, p1)
        else if rsp_bStatus rsp = 0x40 then (card_error (rsp_bError rsp), [], None, p1)
        else if cap < unat (rsp_dwLength rsp) then (-12, [], None, p1)
        else (0, rsp_take rsp, Some (rsp_dwLength rsp), copy_from cap rsp p1))"

definition pin_error :: "bool \<Rightarrow> byte \<Rightarrow> int" where
  "pin_error modify err =
     (if err = 0xfd then -9 else if err = 0xfe then -10 else if err = 0xf0 then -17 else if err = 0xef then -18
      else if modify \<and> err = 0xee then -19 else if \<not> modify \<and> err = 5 then -23 else -11)"

definition cjccid_SecurePV :: "pin_request \<Rightarrow> nat \<Rightarrow> ppa \<Rightarrow> int \<times> bytes \<times> u32 option \<times> ppa" where
  "cjccid_SecurePV q cap p =
     (case cjppWriteAndRead (ppa_message 0x69 (0 # le16_bytes (cjppSWAB_WORD_2 0))
              (verify_data (q\<lparr>pr_NumberMessage := 0xff\<rparr>) 0)) p of (res, rsp, p1) \<Rightarrow>
        let res1 = (if res \<noteq> 0 then res
                    else if rsp_bStatus rsp AND 2 \<noteq> 0 then -7
                    else if rsp_bStatus rsp AND 1 \<noteq> 0 then -14
                    else if rsp_bStatus rsp = 0x40 then pin_error False (rsp_bError rsp)
                    else 0);
            res2 = (if res = 0 \<and> cap < unat (rsp_dwLength rsp) then -12 else res1) in
        if res2 \<noteq> 0 then (res2, [], None, p1)
        else (0, rsp_take rsp, Some (rsp_dwLength rsp), copy_from cap rsp p1))"

definition cjccid_SecureMV :: "modify_request \<Rightarrow> nat \<Rightarrow> ppa \<Rightarrow> int \<times> bytes \<times> u32 option \<times> ppa" where
  "cjccid_SecureMV q cap p =
     (case cjppWriteAndRead (ppa_message 0x69 (0 # le16_bytes (cjppSWAB_WORD_2 0))
              (modify_data (q\<lparr>pr_NumberMessage := 0xff, pr_MessageIndexes := [0, 0, 0]\<rparr>))) p of (res, rsp, p1) \<Rightarrow>
        if res \<noteq> 0 then (res, [], None, p1)
        else if rsp_bStatus rsp AND 2 \<noteq> 0 then (-7, [], None, p1)
        else if rsp_bStatus rsp AND 1 \<noteq> 0 then (-14, [], None, p1)
        else if rsp_bStatus rsp = 0x40 then (pin_error True (rsp_bError rsp), [], None, p1)
        else if cap < unat (rsp_dwLength rsp) then (-12, [], None, p1)
        else (0, rsp_take rsp, Some (rsp_dwLength rsp), copy_from cap rsp p1))"

section \<open>Escape commands\<close>

text \<open>A command whose response has the length \<open>n\<close>; \<open>err\<close> is the code for an error of the device, for
  those functions that look at it.\<close>

definition ppa_escape :: "byte \<Rightarrow> bytes \<Rightarrow> nat \<Rightarrow> int option \<Rightarrow> ppa \<Rightarrow> int \<times> ccid_response \<times> ppa" where
  "ppa_escape f d n err p =
     (case cjppWriteAndRead (ppa_message 0x6B [] (f # d)) p of (res, rsp, p1) \<Rightarrow>
        if res \<noteq> 0 then (res, rsp, p1)
        else if unat (rsp_dwLength rsp) \<noteq> n then (-6, rsp, p1)
        else (case err of None \<Rightarrow> (0, rsp, p1)
              | Some e \<Rightarrow> (if rsp_bError rsp \<noteq> 0 then e else 0, rsp, p1)))"

definition be16_at :: "bytes \<Rightarrow> nat \<Rightarrow> u16" where
  "be16_at bs i = le16_val (bs ! (i + 1)) (bs ! i)"

definition info_of :: "bytes \<Rightarrow> ppa_info" where
  "info_of d = \<lparr>pi_ActiveModule = d ! 0, pi_Version = be16_at d 1, pi_Sign = take 17 (drop 3 d), pi_Status = d ! 20,
     pi_Config = d ! 21, pi_ApplicationVersion = be16_at d 22, pi_LoaderVersion = be16_at d 24, pi_Flags = d ! 26,
     pi_Production = take 17 (drop 27 d), pi_Test = take 17 (drop 44 d), pi_First = take 17 (drop 61 d),
     pi_Seriennummer = take 20 (drop 78 d), pi_BootLoaderVersion = be16_at d 98\<rparr>"

definition cjppGetDeviceInfo :: "ppa \<Rightarrow> int \<times> ppa" where
  "cjppGetDeviceInfo p =
     (case cjppWriteAndRead (ppa_message 0x6B [] [0x05]) p of (res, rsp, p1) \<Rightarrow>
        if res \<noteq> 0 then (res, p1)
        else if unat (rsp_dwLength rsp) \<noteq> 100 \<and> unat (rsp_dwLength rsp) \<noteq> 18 then (-6, p1)
        else (0, p1\<lparr>pa_Info := info_of (rsp_data rsp)\<rparr>))"

definition cjppStartLoader :: "ppa \<Rightarrow> int \<times> ppa" where
  "cjppStartLoader p = (case ppa_escape 0x04 [] 0 None p of (res, _, p1) \<Rightarrow> (res, p1))"

definition cjppUpdateData :: "u16 \<Rightarrow> bytes \<Rightarrow> ppa \<Rightarrow> int \<times> ppa" where
  "cjppUpdateData addr d p =
     (case ppa_escape 0x01 (rev (le16_bytes addr) @ word_of_nat (length d) # d) 0 (Some (-16)) p of (res, _, p1) \<Rightarrow> (res, p1))"

definition cjppGetKeyVersion :: "ppa \<Rightarrow> int \<times> byte option \<times> ppa" where
  "cjppGetKeyVersion p =
     (case ppa_escape 0x08 [] 1 (Some (-16)) p of (res, rsp, p1) \<Rightarrow> (res, if res = 0 then Some (rsp_data rsp ! 0) else None, p1))"

definition cjppVerifyUpdate :: "ppa \<Rightarrow> int \<times> ppa" where
  "cjppVerifyUpdate p = (case ppa_escape 0x02 [] 0 (Some (-15)) p of (res, _, p1) \<Rightarrow> (res, p1))"

definition cjppVerifyKey :: "bytes \<Rightarrow> ppa \<Rightarrow> int \<times> ppa" where
  "cjppVerifyKey sign p = (case ppa_escape 0x09 (take 128 sign) 0 (Some (-15)) p of (res, _, p1) \<Rightarrow> (res, p1))"

definition cjppInput :: "byte \<Rightarrow> ppa \<Rightarrow> int \<times> byte option \<times> ppa" where
  "cjppInput timeout p =
     (case ppa_escape 0x00 [timeout] 1 None p of (res, rsp, p1) \<Rightarrow> (res, if res = 0 then Some (rsp_data rsp ! 0) else None, p1))"

definition cjccid_GetStackSignCounter :: "ppa \<Rightarrow> int \<times> u16 option \<times> ppa" where
  "cjccid_GetStackSignCounter p =
     (case ppa_escape 0x0c [] 2 None p of (res, rsp, p1) \<Rightarrow> (res, if res = 0 then Some (be16_at (rsp_data rsp) 0) else None, p1))"

definition cjppSetDateTime :: "tm \<Rightarrow> byte \<Rightarrow> ppa \<Rightarrow> int \<times> ppa" where
  "cjppSetDateTime t bOffset p =
     (case ppa_escape 0x06 (bOffset # zero_pad 2 (tm_mday t) @ [0x2e] @ zero_pad 2 (tm_mon t + 1) @ [0x2e]
             @ zero_pad 4 (tm_year t + 1900) @ [0] @ zero_pad 2 (tm_hour t) @ [0x3a] @ zero_pad 2 (tm_min t) @ [0]) 0 None p of
        (res, _, p1) \<Rightarrow> (res, p1))"

text \<open>The unique number is 0 on this platform: ten digits 0, each with a zero byte behind it.\<close>

definition cjppSetSerNumber :: "ppa \<Rightarrow> int \<times> ppa" where
  "cjppSetSerNumber p =
     (case ppa_escape 0x07 (concat (replicate 10 [0x30, 0x00])) 0 None p of (res, _, p1) \<Rightarrow> (res, p1))"

definition cjppDirectToRAM :: "u16 \<Rightarrow> bytes \<Rightarrow> ppa \<Rightarrow> int \<times> ppa" where
  "cjppDirectToRAM addr prg p =
     (case ppa_escape 0x0a (rev (le16_bytes addr) @ take 128 prg) 0 None p of (res, _, p1) \<Rightarrow> (res, p1))"

definition cjppDirectExecRAM :: "bytes \<Rightarrow> ppa \<Rightarrow> int \<times> ppa" where
  "cjppDirectExecRAM prg p = (case ppa_escape 0x0b (take 128 prg) 0 None p of (res, _, p1) \<Rightarrow> (res, p1))"

text \<open>The program for a reader without flash memory: all blocks but the first, which is sent last and
  starts the program.\<close>

function ram_loop :: "bytes \<Rightarrow> nat \<Rightarrow> ppa \<Rightarrow> int \<times> ppa" where
  "ram_loop prg addr p =
     (if addr < 0x8000
      then case cjppDirectToRAM (word_of_nat addr) (drop addr prg) p of (res, p1) \<Rightarrow>
        if res \<noteq> 0 then (res, p1) else ram_loop prg (addr + 128) p1
      else (0, p))"
  by auto
termination
  by (relation "measure (\<lambda>(prg, addr, p). 0x8000 - addr)") auto

declare ram_loop.simps [simp del]

definition cjppEasyUpdate :: "bytes \<Rightarrow> ppa \<Rightarrow> int \<times> ppa" where
  "cjppEasyUpdate prg p =
     (case ram_loop prg 0x80 p of (res, p1) \<Rightarrow> if res \<noteq> 0 then (res, p1) else cjppDirectExecRAM prg p1)"

section \<open>Start and end\<close>

text \<open>The table of 512 open readers, by address.\<close>

fun AddToArray :: "nat \<Rightarrow> nat option list \<Rightarrow> nat option list" where
  "AddToArray h [] = []"
| "AddToArray h (None # hs) = Some h # hs"
| "AddToArray h (Some k # hs) = Some k # AddToArray h hs"

fun ClearFromArray :: "nat \<Rightarrow> nat option list \<Rightarrow> nat option list" where
  "ClearFromArray h [] = []"
| "ClearFromArray h (x # hs) = (if x = Some h then None # hs else x # ClearFromArray h hs)"

definition IsInArray :: "nat \<Rightarrow> nat option list \<Rightarrow> bool" where
  "IsInArray h hs \<longleftrightarrow> Some h \<in> set hs"

definition innerctapiClose :: "nat \<Rightarrow> ppa \<Rightarrow> nat option list \<Rightarrow> ppa \<times> nat option list" where
  "innerctapiClose h p hs = (p\<lparr>pa_Fini := True\<rparr>, ClearFromArray h hs)"

definition ctapiClose :: "nat \<Rightarrow> ppa \<Rightarrow> nat option list \<Rightarrow> ppa \<times> nat option list" where
  "ctapiClose h p hs = (if \<not> IsInArray h hs then (p, hs) else innerctapiClose h (snd (cjccid_iccPowerOff p)) hs)"

text \<open>The interrupt pipe: keys and changes of the slot.  The build does not register the handler, as it
  never defines \<^verbatim>\<open>_LINUX\<close>.\<close>

definition SendKeyEvent :: "byte \<Rightarrow> ppa \<Rightarrow> ppa" where
  "SendKeyEvent key p =
     p\<lparr>pa_keys := pa_keys p @ [key], pa_hasCanceled := pa_hasCanceled p \<or> key = 1\<rparr>"

definition HandleCyberJackInterruptData :: "byte \<Rightarrow> byte \<Rightarrow> ppa \<Rightarrow> ppa" where
  "HandleCyberJackInterruptData typ d p =
     (if pa_Fini p then p
      else if typ = 0x40 then SendKeyEvent d p
      else if typ = 0x50 then p\<lparr>pa_states := pa_states p @ [d], pa_Status := d AND 1\<rparr>
      else p)"

text \<open>Steps of the start: those that fail close the reader.\<close>

fun init_steps :: "(bool \<times> (ppa \<Rightarrow> int \<times> ppa)) list \<Rightarrow> ppa \<Rightarrow> bool \<times> ppa" where
  "init_steps [] p = (True, p)"
| "init_steps ((wanted, f) # fs) p =
     (if \<not> wanted then init_steps fs p
      else case f p of (res, p1) \<Rightarrow> if res \<noteq> 0 then (False, p1) else init_steps fs p1)"

definition ctapi_start :: "tm \<Rightarrow> bytes \<Rightarrow> ppa \<Rightarrow> bool \<times> ppa" where
  "ctapi_start t easy_dat p =
     (case cjppGetDeviceInfo (snd (cjccid_iccPowerOff p)) of (res, p1) \<Rightarrow>
        if res \<noteq> 0 then (False, p1)
        else let i = pa_Info p1 in
          if pi_Config i AND 7 = 4
          then init_steps (let old = (pi_ActiveModule i = 0 \<and> pi_Version i < be16_at easy_dat 0x7eed) in
                 [(old, cjppEasyUpdate easy_dat), (old, cjppGetDeviceInfo)]) p1
          else init_steps
                 [(pi_Production i = replicate 17 0xff, cjppSetDateTime t 0),
                  (pi_Test i = replicate 17 0xff, cjppSetDateTime t 1),
                  (pi_ActiveModule i \<noteq> 0 \<and> pi_Seriennummer i = replicate 20 0xff, cjppSetSerNumber),
                  (pi_First i = replicate 17 0xff, cjppSetDateTime t 2)]
                 (p1\<lparr>pa_isClass2 := (pi_Config i AND 3 = 3)\<rparr>))"

text \<open>\<open>dev\<close> is the opened device, if \<^verbatim>\<open>cjppCreate\<close> found it; the structure is cleared first.\<close>

definition ctapiInit :: "tm \<Rightarrow> bytes \<Rightarrow> ppa option \<Rightarrow> nat \<Rightarrow> nat option list \<Rightarrow> ppa option \<times> nat option list" where
  "ctapiInit t easy_dat dev h hs =
     (case dev of None \<Rightarrow> (None, hs)
      | Some d \<Rightarrow>
          (let hs1 = AddToArray h hs in
           case ctapi_start t easy_dat (d\<lparr>pa_bSeq := 0, pa_Protokoll := 0, pa_IFSC := 0, pa_PCB_seq := 0, pa_EDC := 0, pa_path := [0x3f, 0x00], pa_Status := 0,
                  pa_hasCanceled := False, pa_isClass2 := False, pa_Fini := False\<rparr>) of
             (True, p1) \<Rightarrow> (Some p1, hs1)
           | (False, p1) \<Rightarrow> (None, snd (ctapiClose h p1 hs1))))"

section \<open>Lemmas\<close>

lemma swap_short: "cjppSWAP_ALWAYS v = push_bit 8 v OR drop_bit 8 v"
proof -
  have "push_bit 8 v + (ucast (ucast (drop_bit 8 v) :: byte) :: u16) = push_bit 8 v OR ucast (ucast (drop_bit 8 v) :: byte)"
    by (rule disjunctive_add) (auto simp: bit_simps)
  moreover have "(ucast (ucast (drop_bit 8 v) :: byte) :: u16) = drop_bit 8 v"
    by (rule bit_word_eqI) (auto simp: bit_simps dest: bit_imp_le_length)
  ultimately show ?thesis unfolding cjppSWAP_ALWAYS_def by metis
qed

lemma swap_word [simp]: "cjppSWAB_WORD_2 v = v"
  using InversByteOrderShort_htons[of v] by (simp add: cjppSWAB_WORD_2_def swap_short InversByteOrderShort_def)

lemma join_short: "push_bit 16 (ucast (a :: u16)) + ucast (b :: u16) = push_bit 16 (ucast a) OR (ucast b :: u32)"
  by (rule disjunctive_add) (auto simp: bit_simps dest: bit_imp_le_length)

lemma swap_halves:
  "push_bit 16 (ucast (cjppSWAP_ALWAYS (ucast x))) + ucast (cjppSWAP_ALWAYS (ucast (drop_bit 16 x))) = InversByteOrderLong x"
  for x :: u32
proof (rule bit_word_eqI)
  fix n assume n: "n < LENGTH(32)"
  moreover have "n < 8 \<or> (8 \<le> n \<and> n < 16) \<or> (16 \<le> n \<and> n < 24) \<or> 24 \<le> n" by linarith
  ultimately show "bit (push_bit 16 (ucast (cjppSWAP_ALWAYS (ucast x))) + ucast (cjppSWAP_ALWAYS (ucast (drop_bit 16 x))) :: u32) n
      = bit (InversByteOrderLong x) n"
    unfolding InversByteOrderLong_htonl
    by (elim disjE) (auto simp: join_short swap_short le32_val_def bit_simps add.commute dest: bit_imp_le_length)
qed

lemma swap_long [simp]: "cjppSWAB_DWORD_2 v = v"
  using HostToReaderLong_LE[of v] by (simp add: cjppSWAB_DWORD_2_def Let_def swap_halves HostToReaderLong_def del: HostToReaderLong_LE htonl.simps)

lemma read_loop_ok:
  "read_loop is buf = (0, b, is') \<Longrightarrow> length buf = 270 \<Longrightarrow>
     length b = 270 \<and> (\<exists>k bs. k < length is \<and> is ! k = Some bs \<and> take (length bs) b = bs \<and> is' = drop (Suc k) is)"
proof (induction "is" buf rule: read_loop.induct)
  case (3 bs "is" buf)
  show ?case
  proof (cases "take 4 (overlay 0 bs buf) = [0, 0, 0, 0]")
    case True
    then have "length b = 270 \<and> (\<exists>k cs. k < length is \<and> is ! k = Some cs \<and> take (length cs) b = cs \<and> is' = drop (Suc k) is)"
      using 3 by (auto simp: Let_def split: if_splits)
    then show ?thesis by (metis Suc_less_eq drop_Suc_Cons length_Cons nth_Cons_Suc)
  next
    case False
    then show ?thesis using 3
      by (auto simp: Let_def take_overlay_zero split: if_splits intro!: exI[of _ 0])
  qed
qed auto

lemma write_ok:
  "cjppWrite m seq p = (0, p1) \<Longrightarrow> pa_sent p1 = pa_sent p @ [ppa_bytes (pa_stack p) seq m] \<and> pa_in p1 = pa_in p
     \<and> pa_bSeq p1 = pa_bSeq p \<and> pa_stack p1 = pa_stack p"
  by (auto simp: cjppWrite_def Let_def split: list.splits if_splits)

lemma byte_bit: "bit a k \<Longrightarrow> k < 8" for a :: byte
  using bit_imp_le_length[of a k] by simp

lemma no_bit: "\<not> bit a (8 + n)" "\<not> bit a (16 + n)" "\<not> bit a (24 + n)" for a :: byte
  using byte_bit[of a] by force+

lemma le32_split: "le32_bytes (le32_val a b c d) = [a, b, c, d]"
  by (auto simp: le32_bytes_def le32_val_def bit_simps no_bit intro!: bit_word_eqI)

lemma rsp_same:
  assumes "length rsp = 270"
  shows "overlay 1 (le32_bytes (rsp_dwLength rsp)) rsp = rsp"
proof -
  obtain a b c d e r where "rsp = a # b # c # d # e # r" using assms by (auto simp: numeral_eq_Suc length_Suc_conv)
  then show ?thesis by (simp add: rsp_dwLength_def le32_split overlay_def)
qed

text \<open>
  Whatever a pinpad reader sends: when an exchange succeeds, the message went out once with the next
  sequence number, and the response is a message the reader sent during this exchange, with the same
  number and the type that belongs to the command; what was read before it is used up, and the number
  is advanced.
\<close>

lemma exchange_ok:
  assumes "cjppWriteAndRead m p = (0, rsp, p')"
  shows "pa_sent p' = pa_sent p @ [ppa_bytes (pa_stack p) (pa_bSeq p) m] \<and> pa_bSeq p' = pa_bSeq p + 1
    \<and> rsp_bSeq rsp = pa_bSeq p \<and> answer_type (pm_type m) = Some (rsp_bMessageType rsp)
    \<and> (\<exists>k bs. k < length (pa_in p) \<and> pa_in p ! k = Some bs \<and> take (length bs) rsp = bs
         \<and> pa_in p' = drop (Suc k) (pa_in p))"
proof -
  obtain p1 where w: "cjppWrite (m\<lparr>pm_len := cjppSWAB_DWORD_2 (pm_len m)\<rparr>) (pa_bSeq p) (p\<lparr>pa_bSeq := pa_bSeq p + 1\<rparr>) = (0, p1)"
    using assms by (auto simp: cjppWriteAndRead_def cjppTransfer_def Let_def split: prod.splits if_splits)
  obtain res buf "is" where r: "read_loop (pa_in p1) (replicate 270 0) = (res, buf, is)" by (metis prod.exhaust)
  have res: "res = 0" using assms w r
    by (auto simp: cjppWriteAndRead_def cjppTransfer_def cjppRead_def Let_def split: if_splits)
  have l: "length buf = 270" and k: "\<exists>k bs. k < length (pa_in p1) \<and> pa_in p1 ! k = Some bs \<and> take (length bs) buf = bs \<and> is = drop (Suc k) (pa_in p1)"
    using read_loop_ok[OF r[unfolded res]] by simp_all
  have "rsp = buf \<and> p' = p1\<lparr>pa_in := is\<rparr> \<and> pa_bSeq p = rsp_bSeq buf \<and> answer_type (pm_type m) = Some (rsp_bMessageType buf)"
    using assms w r res l
    by (auto simp: cjppWriteAndRead_def cjppTransfer_def cjppRead_def Let_def rsp_same[unfolded One_nat_def] split: if_splits)
  then show ?thesis using write_ok[OF w] k by simp
qed

text \<open>What a reader does with a message of the update: a block for its memory.\<close>

definition receive :: "bytes \<Rightarrow> bytes \<Rightarrow> bytes" where
  "receive mem msg = (if msg ! 0 = 0x6B \<and> msg ! 10 = 0x0a then overlay (unat (be16_at msg 11)) (drop 13 msg) mem else mem)"

lemma escape_bytes:
  assumes "length d < 260"
  shows "ppa_bytes st seq (ppa_message 0x6B [] d) = [0x6B] @ le32_bytes (word_of_nat (length d)) @ [0, seq, st 7, st 8, st 9] @ d"
proof -
  have "unat (word_of_nat (length d) :: u32) = length d" using assms by (intro unat_of_nat_u32) simp
  moreover have "[7..<10] = [7, 8, 9 :: nat]" by (simp add: upt_rec)
  ultimately show ?thesis by (simp add: ppa_bytes_def Let_def)
qed

lemma receive_block:
  assumes "length d = 128"
  shows "receive mem (ppa_bytes st seq (ppa_message 0x6B [] (0x0a # rev (le16_bytes a) @ d))) = overlay (unat a) d mem"
proof -
  have "ppa_bytes st seq (ppa_message 0x6B [] (0x0a # rev (le16_bytes a) @ d))
      = [0x6B] @ le32_bytes (word_of_nat 131) @ [0, seq, st 7, st 8, st 9] @ 0x0a # rev (le16_bytes a) @ d"
    using assms by (subst escape_bytes) simp_all
  then show ?thesis by (simp add: receive_def le32_bytes_def le16_bytes_def be16_at_def nth_append le16_round)
qed

lemma ToRAM_sent:
  assumes "cjppDirectToRAM a prg p = (0, p1)"
  shows "pa_sent p1 = pa_sent p @ [ppa_bytes (pa_stack p) (pa_bSeq p) (ppa_message 0x6B [] (0x0a # rev (le16_bytes a) @ take 128 prg))]"
proof -
  obtain rsp where "cjppWriteAndRead (ppa_message 0x6B [] (0x0a # rev (le16_bytes a) @ take 128 prg)) p = (0, rsp, p1)"
    using assms by (auto simp: cjppDirectToRAM_def ppa_escape_def split: prod.splits if_splits)
  from exchange_ok[OF this] show ?thesis by blast
qed

lemma ram_loop_memory:
  assumes "ram_loop prg addr p = (0, p')" "length prg = 0x8000" "128 dvd addr" "addr \<le> 0x8000"
  shows "\<exists>ms. pa_sent p' = pa_sent p @ ms \<and> (\<forall>mem. length mem = 0x8000 \<longrightarrow> foldl receive mem ms = take addr mem @ drop addr prg)"
  using assms
proof (induction prg addr p rule: ram_loop.induct)
  case (1 prg addr p)
  show ?case
  proof (cases "addr < 0x8000")
    case False
    then have "addr = 0x8000" using 1(5) by simp
    then show ?thesis using 1(2) ram_loop.simps[of prg addr p] 1(3) by (intro exI[of _ "[]"]) simp
  next
    case True
    then obtain p1 where t: "cjppDirectToRAM (word_of_nat addr) (drop addr prg) p = (0, p1)" "ram_loop prg (addr + 128) p1 = (0, p')"
      using 1(2) ram_loop.simps[of prg addr p] by (auto split: prod.splits if_splits)
    obtain k where k: "addr = 128 * k" using 1(4) by blast
    then have a: "addr + 128 \<le> 0x8000" using True by simp
    have d: "128 dvd addr + 128" using 1(4) by simp
    obtain ms where ms: "pa_sent p' = pa_sent p1 @ ms"
      "\<forall>mem. length mem = 0x8000 \<longrightarrow> foldl receive mem ms = take (addr + 128) mem @ drop (addr + 128) prg"
      using 1(1)[OF True t(1)[symmetric] _ t(2) 1(3) d a] by auto
    let ?b = "take 128 (drop addr prg)"
    let ?m = "ppa_bytes (pa_stack p) (pa_bSeq p) (ppa_message 0x6B [] (0x0a # rev (le16_bytes (word_of_nat addr)) @ ?b))"
    have l: "length ?b = 128" using 1(3) a by simp
    have "unat (word_of_nat addr :: u16) = addr" using True by (intro unat_of_nat_u16) simp
    then have m: "receive mem ?m = overlay addr ?b mem" for mem using receive_block[OF l] by metis
    have "foldl receive mem (?m # ms) = take addr mem @ drop addr prg" if "length mem = 0x8000" for mem
    proof -
      have "length (overlay addr ?b mem) = 0x8000" using that l a by simp
      then have "foldl receive mem (?m # ms) = take (addr + 128) (overlay addr ?b mem) @ drop (addr + 128) prg"
        using ms(2) m by simp
      also have "take (addr + 128) (overlay addr ?b mem) = take addr mem @ ?b"
        using take_overlay_append[of addr mem ?b] that True l by simp
      also have "drop (addr + 128) prg = drop 128 (drop addr prg)" by (simp add: add.commute)
      finally show ?thesis by (simp only: append.assoc append_take_drop_id)
    qed
    then show ?thesis using ms(1) ToRAM_sent[OF t(1)] by (intro exI[of _ "?m # ms"]) simp
  qed
qed

section \<open>Properties\<close>

text \<open>
  Property C14.  When the update of a reader without flash memory reports success, the blocks sent to it, stored
  where they say, give the program from its second block on, and the command that starts it carries the
  first block: nothing of the program is lost, moved or changed.
\<close>

theorem easy_update_arrives:
  assumes "cjppEasyUpdate prg p = (0, p')" "length prg = 0x8000" "length mem = 0x8000"
  shows "\<exists>ms table. pa_sent p' = pa_sent p @ ms @ [table] \<and> foldl receive mem ms = take 128 mem @ drop 128 prg
    \<and> table ! 0 = 0x6B \<and> drop 10 table = 0x0b # take 128 prg"
proof -
  obtain p1 where r: "ram_loop prg 0x80 p = (0, p1)" and e: "cjppDirectExecRAM prg p1 = (0, p')"
    using assms(1) by (auto simp: cjppEasyUpdate_def split: prod.splits if_splits)
  obtain ms where ms: "pa_sent p1 = pa_sent p @ ms" "foldl receive mem ms = take 0x80 mem @ drop 0x80 prg"
    using ram_loop_memory[OF r assms(2)] assms(3) by auto
  obtain rsp where "cjppWriteAndRead (ppa_message 0x6B [] (0x0b # take 128 prg)) p1 = (0, rsp, p')"
    using e by (auto simp: cjppDirectExecRAM_def ppa_escape_def split: prod.splits if_splits)
  from exchange_ok[OF this]
  have s: "pa_sent p' = pa_sent p1 @ [ppa_bytes (pa_stack p1) (pa_bSeq p1) (ppa_message 0x6B [] (0x0b # take 128 prg))]" by blast
  let ?t = "ppa_bytes (pa_stack p1) (pa_bSeq p1) (ppa_message 0x6B [] (0x0b # take 128 prg))"
  have "?t = [0x6B] @ le32_bytes (word_of_nat (length (0x0b # take 128 prg))) @ [0, pa_bSeq p1, pa_stack p1 7, pa_stack p1 8, pa_stack p1 9]
      @ 0x0b # take 128 prg"
    by (rule escape_bytes) simp
  then have "?t ! 0 = 0x6B" "drop 10 ?t = 0x0b # take 128 prg" by (simp_all add: le32_bytes_def)
  then show ?thesis using s ms by (intro exI[of _ ms] exI[of _ ?t]) simp
qed

section \<open>Examples\<close>

text \<open>A reader that confirms the next \<open>n\<close> commands.\<close>

definition confirming :: "nat \<Rightarrow> ppa \<Rightarrow> bool" where
  "confirming n p \<longleftrightarrow> pa_out p = []
     \<and> pa_in p = map (\<lambda>i. Some [0x83, 0, 0, 0, 0, 0, pa_bSeq p + word_of_nat i, 0, 0, 0]) [0..<n]"

lemma confirm_step:
  assumes "confirming (Suc n) p"
  shows "\<exists>rsp p1. ppa_escape f d 0 None p = (0, rsp, p1) \<and> confirming n p1"
proof -
  let ?a = "[0x83, 0, 0, 0, 0, 0, pa_bSeq p, 0, 0, 0] :: bytes"
  have i: "pa_in p = Some ?a # map (\<lambda>i. Some [0x83, 0, 0, 0, 0, 0, pa_bSeq p + 1 + word_of_nat i, 0, 0, 0]) [0..<n]"
    using assms by (simp add: confirming_def upt_conv_Cons map_Suc_upt[symmetric] add.assoc del: upt_Suc)
  have o1: "pa_out p = []" using assms by (simp add: confirming_def)
  define x where "x = overlay 0 ?a (replicate 270 0)"
  have x: "rsp_dwLength x = 0" "rsp_bSeq x = pa_bSeq p" "rsp_bMessageType x = 0x83" "take 4 x = [0x83, 0, 0, 0]" "length x = 270"
    by (simp_all add: x_def overlay_def rsp_defs le32_val_def)
  have same: "overlay (Suc 0) (le32_bytes 0) x = x" using rsp_same[OF x(5)] x(1) by simp
  have "read_loop (pa_in p) (replicate 270 0) = (0, x, tl (pa_in p))" using x(4) by (simp add: i x_def)
  with i o1 x same show ?thesis
    by (simp add: ppa_escape_def cjppWriteAndRead_def cjppTransfer_def cjppWrite_def cjppRead_def Let_def
        answer_type_def confirming_def)
qed

lemma ram_confirmed: "confirming (k + n) p \<Longrightarrow> k \<le> 256 \<Longrightarrow>
    \<exists>p1. ram_loop prg (0x8000 - 128 * k) p = (0, p1) \<and> confirming n p1"
proof (induction k arbitrary: p)
  case 0
  then show ?case by (simp add: ram_loop.simps)
next
  case (Suc k)
  let ?a = "0x8000 - 128 * Suc k"
  obtain rsp p1 where e: "ppa_escape 0x0a (rev (le16_bytes (word_of_nat ?a)) @ take 128 (drop ?a prg)) 0 None p = (0, rsp, p1)"
    "confirming (k + n) p1" using confirm_step[of "k + n" p] Suc.prems(1) by fastforce
  have "?a + 128 = 0x8000 - 128 * k" "?a < 0x8000" using Suc.prems(2) by simp_all
  then show ?case using Suc.IH[OF e(2)] Suc.prems(2) e(1)
    by (subst ram_loop.simps) (simp add: cjppDirectToRAM_def)
qed

definition no_info :: ppa_info where
  "no_info = info_of (replicate 100 0)"

definition confirming_reader :: ppa where
  "confirming_reader = \<lparr>pa_in = map (\<lambda>i. Some [0x83, 0, 0, 0, 0, 0, word_of_nat i, 0, 0, 0]) [0..<256], pa_out = [], pa_sent = [],
     pa_bSeq = 0, pa_Info = no_info, pa_Protokoll = 0, pa_IFSC = 0, pa_PCB_seq = 0, pa_EDC = 0, pa_path = [], pa_Status = 0, pa_hasCanceled = False,
     pa_isClass2 = False, pa_Fini = False, pa_states = [], pa_keys = [], pa_stack = (\<lambda>_. 0), pa_overrun = False\<rparr>"

lemma confirming_reader: "confirming 256 confirming_reader"
  by (simp add: confirming_def confirming_reader_def)

lemma update_confirmed: "\<exists>p1. cjppEasyUpdate prg confirming_reader = (0, p1)"
proof -
  have "confirming (255 + 1) confirming_reader" using confirming_reader by simp
  from ram_confirmed[OF this, of prg]
  obtain p1 where r: "ram_loop prg 0x80 confirming_reader = (0, p1)" "confirming (Suc 0) p1" by auto
  then show ?thesis using confirm_step[OF r(2), where f = "0x0b" and d = "take 128 prg"] by (auto simp: cjppEasyUpdate_def cjppDirectExecRAM_def)
qed

theorem easy_update_arrives_witness:
  "\<exists>p1 ms table. cjppEasyUpdate (replicate 0x8000 0x55) confirming_reader = (0, p1) \<and> pa_sent p1 = ms @ [table]
     \<and> foldl receive (replicate 0x8000 0) ms = replicate 128 0 @ replicate (0x8000 - 128) 0x55"
proof -
  obtain p1 where "cjppEasyUpdate (replicate 0x8000 0x55) confirming_reader = (0, p1)" using update_confirmed by blast
  from this easy_update_arrives[OF this, where mem = "replicate 0x8000 0"]
  show ?thesis by (auto simp: confirming_reader_def min_def)
qed

end
