(* ===== verification/CJ_PpaCard.thy ===== *)
theory CJ_PpaCard
  imports CJ_Ppa
begin

unbundle bit_operations_syntax

text \<open>
  Commands to the card in a pinpad reader, \<^verbatim>\<open>APDU2TPDU_T0\<close> and \<^verbatim>\<open>APDU2TPDU_T1\<close> of \<^verbatim>\<open>ppa/cjdata.c\<close>.  The loops end
  because every exchange uses up a message of the reader, and a reader that sends nothing is lost.
\<close>

section \<open>T=0\<close>

text \<open>A result: code, bytes stored in the response from its start, and \<^verbatim>\<open>*lenr\<close>.  Failed exchanges switch the
  card off.\<close>

type_synonym card_result = "int \<times> bytes \<times> nat \<times> ppa"

definition t0_fail :: "int \<Rightarrow> ppa \<Rightarrow> card_result" where
  "t0_fail res p = (res, [], 0, snd (cjccid_iccPowerOff p))"

definition ppa_deliver :: "bytes \<Rightarrow> nat \<Rightarrow> ppa \<Rightarrow> card_result" where
  "ppa_deliver d room p = (if length d > room then (-12, [], 0, p) else (0, d, length d, p))"

text \<open>The buffer of 258 bytes on the stack; a byte behind it is one of the stack, too.\<close>

definition t0_buffer :: "ppa \<Rightarrow> bytes" where
  "t0_buffer p = map (pa_stack p) [0..<258]"

definition at_buf :: "ppa \<Rightarrow> bytes \<Rightarrow> nat \<Rightarrow> byte" where
  "at_buf p buf i = (if i < length buf then buf ! i else pa_stack p i)"

definition t0_short :: "bytes \<Rightarrow> nat \<Rightarrow> ppa \<Rightarrow> card_result" where
  "t0_short cmd room p =
     (case cjccid_XfrBlock 0 (cmd @ [0]) 258 0 p of (res, d, _, p1) \<Rightarrow>
        if res \<noteq> 0 then t0_fail res p1 else ppa_deliver d room p1)"

text \<open>Reading: after \<^verbatim>\<open>6C xx\<close> the command is repeated with that length.  If the card has more than was asked for,
  the status is copied to the start of the response instead of behind the data.\<close>

definition t0_read :: "bytes \<Rightarrow> nat \<Rightarrow> ppa \<Rightarrow> card_result" where
  "t0_read cmd room p =
     (case cjccid_XfrBlock 0 cmd 258 0 p of (res, d, _, p1) \<Rightarrow>
        if res \<noteq> 0 then t0_fail res p1
        else if length d = 2 \<and> d ! 0 = 0x6C
        then (case cjccid_XfrBlock 0 (take 4 cmd @ [d ! 1]) 258 0 p1 of (res2, d2, _, p2) \<Rightarrow>
               if res2 \<noteq> 0 then t0_fail res2 p2
               else let buf = overlay 0 d2 (overlay 0 d (t0_buffer p)); le = unat (cmd ! 4); n = unat (d ! 1) in
                 if length d2 = 2 then (0, d2, 2, p2)
                 else if le \<noteq> 0 \<and> n > le
                 then (if room < 2 + le then (-12, [], 0, p2)
                       else (0, overlay 0 (take 2 (drop n buf)) (take le buf), le + 2, p2))
                 else (if room < 2 + n then (-12, [], 0, p2) else (0, take (2 + n) buf, n + 2, p2)))
        else ppa_deliver d room p1)"

definition t0_write :: "bytes \<Rightarrow> nat \<Rightarrow> ppa \<Rightarrow> card_result" where
  "t0_write cmd room p =
     (case cjccid_XfrBlock 0 cmd 258 0 p of (res, d, _, p1) \<Rightarrow>
        if res \<noteq> 0 then t0_fail res p1 else ppa_deliver d room p1)"

text \<open>
  Command with data and a response: the variables of the loop that collects it.  \<open>g_ptr\<close> is the offset of
  \<^verbatim>\<open>rptr\<close>; the sizes are unsigned and wrap.
\<close>

record t0_get =
  g_buf :: bytes
  g_ptr :: nat
  g_len :: nat
  g_rest :: u32
  g_tot :: u32

definition g_more :: "ppa \<Rightarrow> t0_get \<Rightarrow> bool" where
  "g_more p g \<longleftrightarrow> g_len g \<ge> 2 \<and> (let b = at_buf p (g_buf g) (g_ptr g + g_len g - 2) in b = 0x61 \<or> b = 0x6C)"

definition g_add :: "nat \<Rightarrow> t0_get \<Rightarrow> t0_get" where
  "g_add n g = g\<lparr>g_len := n, g_rest := g_rest g - (word_of_nat n - 2), g_tot := g_tot g + (word_of_nat n - 2)\<rparr>"

lemma exchange_consumes:
  assumes "cjppWriteAndRead m p = (0, rsp, p1)"
  shows "length (pa_in p1) < length (pa_in p)"
proof -
  obtain k where "k < length (pa_in p)" "pa_in p1 = drop (Suc k) (pa_in p)" using exchange_ok[OF assms] by blast
  then show ?thesis by simp
qed

lemma read_codes: "read_loop is buf = (res, b, is') \<Longrightarrow> res = 0 \<or> res = -3"
  by (induction "is" buf rule: read_loop.induct) (auto simp: Let_def split: if_splits)

lemma exchange_codes: "cjppWriteAndRead m p = (res, rsp, p1) \<Longrightarrow> res \<in> {0, -2, -3, -4, -5}"
  by (auto simp: cjppWriteAndRead_def cjppTransfer_def cjppWrite_def cjppRead_def Let_def
      split: prod.splits if_splits list.splits dest: read_codes)

lemma Xfr_consumes:
  assumes "cjccid_XfrBlock b out cap l p = (res, d, n, p1)" "res \<in> {0, -9, -10}"
  shows "length (pa_in p1) < length (pa_in p)"
proof -
  obtain res0 rsp p0 where w: "cjppWriteAndRead (ppa_message 0x6F (b # le16_bytes (cjppSWAB_WORD_2 l)) out) p = (res0, rsp, p0)"
    by (metis prod.exhaust)
  have "res0 = 0 \<and> pa_in p1 = pa_in p0"
    using assms exchange_codes[OF w] by (auto simp: cjccid_XfrBlock_def w copy_from_def simp del: swap_word split: if_splits)
  then show ?thesis using exchange_consumes w by metis
qed

text \<open>The loop.  The limit is taken from behind the pointer that was just moved.\<close>

function get_loop :: "byte \<Rightarrow> byte \<Rightarrow> t0_get \<Rightarrow> ppa \<Rightarrow> (int \<times> t0_get) \<times> ppa" where
  "get_loop cla le g p =
     (if g_more p g
      then let ptr = g_ptr g + g_len g - 2;
               n = (if le < at_buf p (g_buf g) (ptr + g_len g - 1) \<and> le \<noteq> 0 then le else at_buf p (g_buf g) (ptr + 1)) in
        case cjccid_XfrBlock 0 [cla, 0xC0, 0x00, 0x00, n] (unat (g_rest g)) 0 p of (res, d, _, p1) \<Rightarrow>
          if res \<noteq> 0 then ((res, g), p1)
          else get_loop cla le (g_add (length d) (g\<lparr>g_ptr := ptr, g_buf := overlay ptr d (g_buf g)\<rparr>))
                 (p1\<lparr>pa_overrun := pa_overrun p1 \<or> ptr + length d > 258\<rparr>)
      else ((0, g), p))"
  by auto
termination
  by (relation "measure (\<lambda>(cla, le, g, p). length (pa_in p))") (auto dest!: Xfr_consumes[OF sym])

declare get_loop.simps [simp del]

definition t0_warning :: "byte \<Rightarrow> byte \<Rightarrow> bool" where
  "t0_warning a b \<longleftrightarrow> a AND 0xf0 = 0x90 \<and> (a \<noteq> 0x90 \<or> b \<noteq> 0x00) \<or> a = 0x62 \<or> a = 0x63"

definition t0_both :: "bytes \<Rightarrow> nat \<Rightarrow> ppa \<Rightarrow> card_result" where
  "t0_both cmd room p =
     (case cjccid_XfrBlock 0 (butlast cmd) 258 0 p of (res, d, _, p1) \<Rightarrow>
        if res \<noteq> 0 then t0_fail res p1
        else let n = length d; buf = overlay 0 d (t0_buffer p); le = last cmd;
                 g1 = g_add n \<lparr>g_buf = buf, g_ptr = n - 2, g_len = n, g_rest = 258, g_tot = 0\<rparr> in
          case (if n = 2 \<and> t0_warning (buf ! 0) (buf ! 1)
                then (case cjccid_XfrBlock 0 [cmd ! 0, 0xC0, 0x00, 0x00, le] (unat (g_rest g1)) 0 p1 of (res2, d2, _, p2) \<Rightarrow>
                       ((res2, g_add (length d2) (g1\<lparr>g_buf := overlay 0 d2 buf\<rparr>)), p2))
                else ((0, g1), p1)) of ((res2, g2), p2) \<Rightarrow>
            if res2 \<noteq> 0 then t0_fail res2 p2
            else case get_loop (cmd ! 0) le g2 p2 of ((res3, g3), p3) \<Rightarrow>
              if res3 \<noteq> 0 then t0_fail res3 p3
              else let k = unat (g_tot g3 + 2) in
                if k > room then (-12, [], 0, p3)
                else (0, take k (g_buf g3), k, p3\<lparr>pa_overrun := pa_overrun p3 \<or> k > 258\<rparr>))"

definition APDU2TPDU_T0 :: "bytes \<Rightarrow> nat \<Rightarrow> ppa \<Rightarrow> card_result" where
  "APDU2TPDU_T0 cmd room p =
     (if length cmd = 4 then t0_short cmd room p
      else if length cmd = 5 then t0_read cmd room p
      else if length cmd = 5 + unat (cmd ! 4) \<and> cmd ! 4 \<noteq> 0 then t0_write cmd room p
      else if length cmd = 6 + unat (cmd ! 4) \<and> cmd ! 4 \<noteq> 0 then t0_both cmd room p
      else (-11, [], room, p))"

section \<open>T=1\<close>

text \<open>
  The variables of \<^verbatim>\<open>APDU2TPDU_T1\<close>: the rest of the command, the I-block \<^verbatim>\<open>sbuffer\<close>, the block \<^verbatim>\<open>rblock\<close>, which of
  them \<^verbatim>\<open>sblock\<close> is, its length, the block received, the errors in a row, the waiting time factor, the room
  left, the response with its length.  The checksum is written behind the block and not read again.
\<close>

record ppa_t1 =
  x_cmd :: bytes
  x_INF :: nat
  x_sbuffer :: bytes
  x_rblock :: bytes
  x_isr :: bool
  x_slen :: nat
  x_rbuffer :: bytes
  x_error :: nat
  x_xwt :: byte
  x_maxresp :: int
  x_response :: bytes
  x_lenr :: u16

definition x_sblock :: "ppa_t1 \<Rightarrow> bytes" where
  "x_sblock x = (if x_isr x then x_rblock x else x_sbuffer x)"

definition x_own :: "ppa_t1 \<Rightarrow> ppa_t1" where
  "x_own x = x\<lparr>x_isr := False, x_slen := 3 + unat (x_sbuffer x ! 2)\<rparr>"

definition x_answer :: "bytes \<Rightarrow> ppa_t1 \<Rightarrow> ppa_t1" where
  "x_answer b x = x\<lparr>x_rblock := overlay 0 b (x_rblock x), x_isr := True, x_slen := length b\<rparr>"

text \<open>The next I-block of the command.\<close>

definition next_block :: "ppa_t1 \<Rightarrow> ppa \<Rightarrow> ppa_t1" where
  "next_block x p =
     (let n = min (length (x_cmd x)) (unat (pa_IFSC p));
          pcb = (if pa_PCB_seq p AND 1 \<noteq> 0 then 0x40 else 0) OR (if length (x_cmd x) > n then 0x20 else 0) in
      x\<lparr>x_INF := n, x_sbuffer := [0, pcb, word_of_nat n] @ take n (x_cmd x), x_isr := False, x_slen := n + 3\<rparr>)"

definition xor_sum :: "bytes \<Rightarrow> byte" where
  "xor_sum bs = foldl (XOR) 0 bs"

definition with_sum :: "ppa \<Rightarrow> bytes \<Rightarrow> bytes" where
  "with_sum p bs = (if pa_EDC p = 0 then bs @ [xor_sum bs] else bs @ [0, 0])"

text \<open>What one round of the loop ends with: the function returns, or another round follows.\<close>

type_synonym t1_out = "(int option \<times> ppa_t1) \<times> ppa"

definition t1_leave :: "int \<Rightarrow> ppa_t1 \<Rightarrow> ppa \<Rightarrow> t1_out" where
  "t1_leave res x p =
     (if res = -13 \<or> x_rbuffer x ! 1 AND 0xA0 = 0 \<or> x_cmd x = [] then ((Some res, x), p) else ((None, next_block x p), p))"

text \<open>A fault: the third in a row switches the card off; otherwise an R-block is sent, or sent again.\<close>

definition t1_fault :: "byte \<Rightarrow> ppa_t1 \<Rightarrow> ppa \<Rightarrow> t1_out" where
  "t1_fault code x p =
     (let x1 = x\<lparr>x_error := x_error x + 1\<rparr> in
      if x_error x1 > 2 then t1_leave (-13) x1 (snd (cjccid_iccPowerOff p))
      else if x_sblock x ! 1 AND 0xc0 \<noteq> 0x80
      then ((None, x_answer [0, code OR (pa_PCB_seq p AND 0x10), 0] x1), p)
      else ((None, x1\<lparr>x_slen := 3\<rparr>), p))"

definition t1_bad :: "byte \<Rightarrow> byte \<Rightarrow> byte \<Rightarrow> byte \<Rightarrow> bool" where
  "t1_bad b0 b1 b2 b3 \<longleftrightarrow> b0 \<noteq> 0
     \<or> b1 AND 0xc0 = 0x80 \<and> (b2 \<noteq> 0 \<or> b1 AND 0x20 = 0x20)
     \<or> b1 AND 0xe0 = 0xe0
     \<or> b1 AND 0xe0 = 0xc0 \<and>
         ((b1 AND 0x1f = 0 \<or> b1 AND 0x1f = 2) \<and> b2 \<noteq> 0
          \<or> b1 AND 0x1f = 1 \<and> (b2 \<noteq> 1 \<or> b3 < 0x10 \<or> b3 = 255)
          \<or> b1 AND 0x1f = 3 \<and> b2 \<noteq> 1 \<or> b1 AND 0x1f > 3)"

text \<open>An I-block of \<open>n\<close> bytes.  Data without room are counted, but not copied.\<close>

definition t1_I :: "nat \<Rightarrow> ppa_t1 \<Rightarrow> ppa \<Rightarrow> t1_out" where
  "t1_I n x p =
     (let b1 = x_rbuffer x ! 1; b2 = x_rbuffer x ! 2 in
      if b1 AND 0x40 \<noteq> push_bit 2 (pa_PCB_seq p AND 0x10) \<or> x_sbuffer x ! 1 AND 0x20 = 0x20 \<or> b2 = 0 \<or> b2 = 255
      then t1_fault 0x82 x p
      else let k = int n - 4 - int (unat (pa_EDC p));
               fits = x_maxresp x \<ge> k; at = unat (x_lenr x);
               p1 = p\<lparr>pa_PCB_seq := pa_PCB_seq p XOR 0x10 XOR (if x_cmd x \<noteq> [] then 1 else 0),
                      pa_overrun := pa_overrun p \<or> k < 0 \<or> fits \<and> at + nat k > length (x_response x)\<rparr>;
               x1 = x\<lparr>x_error := 0, x_cmd := drop (x_INF x) (x_cmd x),
                      x_response := (if fits then overlay at (take (nat k) (drop 3 (x_rbuffer x))) (x_response x) else x_response x),
                      x_maxresp := (if fits then x_maxresp x - k else x_maxresp x), x_lenr := x_lenr x + word_of_int k\<rparr> in
        if b1 AND 0x20 \<noteq> 0 then ((None, x_answer [0, 0x80 OR (pa_PCB_seq p1 AND 0x10), 0] x1), p1)
        else t1_leave 0 x1 p1)"

text \<open>An S-request is answered with the same block; the copy has room for six bytes.\<close>

definition t1_S :: "nat \<Rightarrow> ppa_t1 \<Rightarrow> ppa \<Rightarrow> t1_out" where
  "t1_S n x p =
     (let b1 = x_rbuffer x ! 1; b3 = x_rbuffer x ! 3;
          blk = overlay 0 (take n (x_rbuffer x)) (x_rblock x);
          x1 = x\<lparr>x_error := 0, x_rblock := blk[1 := blk ! 1 OR 0x20], x_isr := True, x_slen := n - 1\<rparr>;
          p1 = p\<lparr>pa_overrun := pa_overrun p \<or> n > 6 \<or> n = 0\<rparr> in
      if b1 AND 0x1f = 0 then ((None, x1), p1\<lparr>pa_PCB_seq := 0\<rparr>)
      else if b1 AND 0x1f = 1 then ((None, x1), p1\<lparr>pa_IFSC := b3\<rparr>)
      else if b1 AND 0x1f = 2 then t1_leave (-13) x1 (snd (cjccid_iccPowerOff p1))
      else if b1 AND 0x1f = 3 then ((None, x1\<lparr>x_xwt := b3\<rparr>), p1)
      else ((None, x1), p1))"

text \<open>An R-block that asks for the I-block again switches the card off after the third time, but the loop
  goes on.\<close>

definition t1_R :: "ppa_t1 \<Rightarrow> ppa \<Rightarrow> t1_out" where
  "t1_R x p =
     (let b1 = x_rbuffer x ! 1; s1 = x_sbuffer x ! 1 in
      if b1 AND 0x10 = drop_bit 2 (s1 AND 0x40)
      then let x1 = x\<lparr>x_error := x_error x + 1\<rparr> in
        ((None, x_own x1), if x_error x1 > 2 then snd (cjccid_iccPowerOff p) else p)
      else if s1 AND 0x20 \<noteq> 0
      then t1_leave 0 (x\<lparr>x_error := 0, x_cmd := drop (x_INF x) (x_cmd x)\<rparr>) (p\<lparr>pa_PCB_seq := pa_PCB_seq p XOR 1\<rparr>)
      else t1_fault 0x82 x p)"

text \<open>One round.  The code for the answer to an own S-request is left out: the function never sends one.\<close>

definition t1_round :: "ppa_t1 \<Rightarrow> ppa \<Rightarrow> t1_out" where
  "t1_round x p =
     (case cjccid_XfrBlock (x_xwt x) (with_sum p (take (x_slen x) (x_sblock x))) 259 0 p of (res, d, _, p1) \<Rightarrow>
        if res \<notin> {0, -9, -10} then ((Some res, x), p1)
        else let x1 = x\<lparr>x_rbuffer := overlay 0 d (x_rbuffer x)\<rparr>; rb = x_rbuffer x1;
                 res1 = (if res = 0 \<and> pa_EDC p1 = 0 \<and> xor_sum d \<noteq> 0 then -9 else res) in
          if res1 = 0
          then (if t1_bad (rb ! 0) (rb ! 1) (rb ! 2) (rb ! 3) then t1_fault 0x82 x1 p1
                else if rb ! 1 AND 0x80 = 0 then t1_I (length d) x1 p1
                else if rb ! 1 AND 0xE0 = 0xC0 then t1_S (length d) x1 p1
                else t1_R x1 p1)
          else if res1 = -9 then t1_fault 0x81 x1 p1
          else t1_leave (-13) x1 p1)"

lemma read_shrinks: "read_loop is buf = (res, b, is') \<Longrightarrow> length is' \<le> length is"
  by (induction "is" buf rule: read_loop.induct) (auto simp: Let_def split: if_splits)

lemma exchange_shrinks: "cjppWriteAndRead m p = (res, rsp, p1) \<Longrightarrow> length (pa_in p1) \<le> length (pa_in p)"
  by (auto simp: cjppWriteAndRead_def cjppTransfer_def cjppWrite_def cjppRead_def Let_def
      split: prod.splits if_splits list.splits dest: read_shrinks)

lemma off_shrinks: "length (pa_in (snd (cjccid_iccPowerOff p))) \<le> length (pa_in p)"
  by (auto simp: cjccid_iccPowerOff_def split: prod.splits dest: exchange_shrinks)

lemma leave_shrinks: "t1_leave res x p = (y, p1) \<Longrightarrow> p1 = p"
  by (auto simp: t1_leave_def split: if_splits)

lemma fault_shrinks: "t1_fault c x p = (y, p1) \<Longrightarrow> length (pa_in p1) \<le> length (pa_in p)"
  using off_shrinks[of p] by (auto simp: t1_fault_def Let_def split: if_splits dest: leave_shrinks)

lemma I_shrinks: "t1_I n x p = (y, p1) \<Longrightarrow> length (pa_in p1) \<le> length (pa_in p)"
  by (auto simp: t1_I_def Let_def split: if_splits dest: leave_shrinks fault_shrinks)

lemma S_shrinks: "t1_S n x p = (y, p1) \<Longrightarrow> length (pa_in p1) \<le> length (pa_in p)"
  using off_shrinks[of "p\<lparr>pa_overrun := pa_overrun p \<or> n > 6 \<or> n = 0\<rparr>"]
  by (auto simp: t1_S_def Let_def split: if_splits dest: leave_shrinks)

lemma R_shrinks: "t1_R x p = (y, p1) \<Longrightarrow> length (pa_in p1) \<le> length (pa_in p)"
  using off_shrinks[of p] by (auto simp: t1_R_def Let_def split: if_splits dest: leave_shrinks fault_shrinks)

lemma round_shrinks:
  assumes "t1_round x p = ((None, x1), p1)"
  shows "length (pa_in p1) < length (pa_in p)"
proof -
  obtain res d n p0 where w: "cjccid_XfrBlock (x_xwt x) (with_sum p (take (x_slen x) (x_sblock x))) 259 0 p = (res, d, n, p0)"
    by (metis prod.exhaust)
  have r: "res \<in> {0, -9, -10}" using assms by (auto simp: t1_round_def w split: if_splits)
  have "length (pa_in p1) \<le> length (pa_in p0)"
    using assms r fault_shrinks I_shrinks S_shrinks R_shrinks leave_shrinks unfolding t1_round_def w Let_def
    by (simp split: if_splits) (metis le_refl)+
  then show ?thesis using Xfr_consumes[OF w r] by simp
qed

function t1_rounds :: "ppa_t1 \<Rightarrow> ppa \<Rightarrow> (int \<times> ppa_t1) \<times> ppa" where
  "t1_rounds x p =
     (case t1_round x p of
        ((Some res, x1), p1) \<Rightarrow> ((res, x1), p1)
      | ((None, x1), p1) \<Rightarrow> t1_rounds x1 p1)"
  by auto
termination
  by (relation "measure (\<lambda>(x, p). length (pa_in p))") (auto dest!: round_shrinks[OF sym])

declare t1_rounds.simps [simp del]

definition t1_start :: "bytes \<Rightarrow> bytes \<Rightarrow> ppa \<Rightarrow> ppa_t1" where
  "t1_start cmd rsp p = next_block \<lparr>x_cmd = cmd, x_INF = 0, x_sbuffer = [], x_rblock = map (pa_stack p) [0..<6], x_isr = False,
     x_slen = 0, x_rbuffer = map (pa_stack p) [0..<259], x_error = 0, x_xwt = 0, x_maxresp = int (length rsp),
     x_response = rsp, x_lenr = 0\<rparr> p"

text \<open>\<open>rsp\<close> is the response buffer of the caller, all of it.\<close>

definition APDU2TPDU_T1 :: "bytes \<Rightarrow> bytes \<Rightarrow> ppa \<Rightarrow> int \<times> bytes \<times> nat \<times> ppa" where
  "APDU2TPDU_T1 cmd rsp p =
     (if cmd = [] then (0, rsp, 0, p)
      else case t1_rounds (t1_start cmd rsp p) p of ((res, x), p1) \<Rightarrow> (res, x_response x, unat (x_lenr x), p1))"

section \<open>A card that answers\<close>

text \<open>A data block of the reader, and a block of the card with its checksum.\<close>

definition ppa_frame :: "byte \<Rightarrow> bytes \<Rightarrow> bytes" where
  "ppa_frame seq d = [0x80] @ le32_bytes (word_of_nat (length d)) @ [0, seq, 0, 0, 0] @ d"

definition block :: "bytes \<Rightarrow> bytes" where
  "block bs = bs @ [xor_sum bs]"

lemma xor_sum_block [simp]: "xor_sum (block bs) = 0"
  by (simp add: xor_sum_def block_def)

lemma length_block [simp]: "length (block bs) = Suc (length bs)"
  by (simp add: block_def)

definition after_xfr :: "byte \<Rightarrow> bytes \<Rightarrow> bytes option list \<Rightarrow> ppa \<Rightarrow> ppa" where
  "after_xfr b out rest p = p\<lparr>pa_bSeq := pa_bSeq p + 1, pa_in := rest,
     pa_sent := pa_sent p @ [ppa_bytes (pa_stack p) (pa_bSeq p) (ppa_message 0x6F [b, 0, 0] out)],
     pa_overrun := pa_overrun p \<or> length out > 260\<rparr>"

lemma Xfr_answer:
  assumes "pa_out p = []" "pa_in p = Some (ppa_frame (pa_bSeq p) d) # rest" "length d \<le> cap" "cap \<le> 260"
  shows "cjccid_XfrBlock b out cap 0 p = (0, d, Some (word_of_nat (length d)), after_xfr b out rest p)"
proof -
  define x where "x = overlay 0 (ppa_frame (pa_bSeq p) d) (replicate 270 0)"
  have n: "unat (word_of_nat (length d) :: u32) = length d" using assms(3,4) by (intro unat_of_nat_u32) simp
  obtain a0 a1 a2 a3 where w: "le32_bytes (word_of_nat (length d)) = [a0, a1, a2, a3]" "le32_val a0 a1 a2 a3 = word_of_nat (length d)"
    using le32_round[of "word_of_nat (length d)"] unfolding le32_bytes_def by blast
  have f: "ppa_frame (pa_bSeq p) d = 0x80 # le32_bytes (word_of_nat (length d)) @ [0, pa_bSeq p, 0, 0, 0] @ d" by (simp add: ppa_frame_def)
  have l: "length (ppa_frame (pa_bSeq p) d) = 10 + length d" by (simp add: ppa_frame_def)
  have x: "x = ppa_frame (pa_bSeq p) d @ replicate (260 - length d) 0" by (simp add: x_def overlay_def l)
  have r: "rsp_dwLength x = word_of_nat (length d)" "rsp_bSeq x = pa_bSeq p" "rsp_bMessageType x = 0x80" "rsp_bStatus x = 0"
    "length x = 270" "take (length d) (rsp_data x) = d" "x ! 0 = 0x80"
    using assms(3,4) w by (simp_all add: x f rsp_defs)
  have t: "take 4 x \<noteq> [0, 0, 0, 0]" by (simp add: x f w(1))
  have "length (ppa_frame (pa_bSeq p) d) \<le> 270" "ppa_frame (pa_bSeq p) d \<noteq> []" using assms(3,4) l by (auto simp: ppa_frame_def)
  then have "read_loop (pa_in p) (replicate 270 0) = (0, x, rest)" using t assms(2) by (simp add: x_def)
  moreover have "overlay (Suc 0) (le32_bytes (word_of_nat (length d))) x = x" using rsp_same[OF r(5)] r(1) by simp
  ultimately show ?thesis using assms(1,3,4) r n
    by (simp add: cjccid_XfrBlock_def cjppWriteAndRead_def cjppTransfer_def cjppWrite_def cjppRead_def Let_def
        answer_type_def after_xfr_def copy_from_def rsp_take_def le16_bytes_def)
qed

text \<open>The sequence numbers: \<open>s\<close> of the own blocks, \<open>e\<close> of the blocks of the card.\<close>

definition seq_of :: "bool \<Rightarrow> bool \<Rightarrow> byte" where
  "seq_of s e = (if s then 1 else 0) OR (if e then 0x10 else 0)"

lemma seq_of_simps:
  "(seq_of s e AND 1 = 0) = (\<not> s)" "seq_of s e AND 0x10 = (if e then 0x10 else 0)" "seq_of s e XOR 1 = seq_of (\<not> s) e"
  "seq_of s e XOR 0x10 = seq_of s (\<not> e)"
  by (cases s; cases e; simp add: seq_of_def)+

definition pcb_ack :: "bool \<Rightarrow> byte" where
  "pcb_ack s = (if s then 0x80 else 0x90)"

definition pcb_data :: "bool \<Rightarrow> bool \<Rightarrow> byte" where
  "pcb_data e m = (if e then if m then 0x60 else 0x40 else if m then 0x20 else 0)"

abbreviation ppa_ack_block :: "bool \<Rightarrow> bytes" where
  "ppa_ack_block s \<equiv> block [0, pcb_ack s, 0]"

abbreviation ppa_data_block :: "bool \<Rightarrow> bool \<Rightarrow> bytes \<Rightarrow> bytes" where
  "ppa_data_block e m d \<equiv> block (0 # pcb_data e m # word_of_nat (length d) # d)"

text \<open>What a round leaves behind in the variables, apart from the step it takes.\<close>

definition after_round :: "ppa_t1 \<Rightarrow> bytes option list \<Rightarrow> ppa \<Rightarrow> ppa" where
  "after_round x rest p = after_xfr (x_xwt x) (with_sum p (take (x_slen x) (x_sblock x))) rest p"

lemma after_round_simps [simp]:
  "pa_EDC (after_round x rest p) = pa_EDC p" "pa_PCB_seq (after_round x rest p) = pa_PCB_seq p"
  "pa_in (after_round x rest p) = rest" "pa_out (after_round x rest p) = pa_out p" "pa_IFSC (after_round x rest p) = pa_IFSC p"
  "pa_bSeq (after_round x rest p) = pa_bSeq p + 1"
  by (simp_all add: after_round_def after_xfr_def)

lemma ack_kind: "\<not> t1_bad 0 (pcb_ack s) 0 b" "pcb_ack s AND 0x80 \<noteq> 0" "pcb_ack s AND 0xE0 \<noteq> 0xC0"
  by (simp_all add: t1_bad_def pcb_ack_def)

lemma data_kind: "\<not> t1_bad 0 (pcb_data e m) a b" "pcb_data e m AND 0x80 = 0"
  by (simp_all add: t1_bad_def pcb_data_def)

lemma round_ack:
  assumes "pa_out p = []" "pa_in p = Some (ppa_frame (pa_bSeq p) (ppa_ack_block s)) # rest" "pa_EDC p = 0" "pa_PCB_seq p = seq_of s e"
    "x_sbuffer x ! 1 = pcb_data s True" "drop (x_INF x) (x_cmd x) \<noteq> []"
  shows "\<exists>rb. length rb = length (overlay 0 (ppa_ack_block s) (x_rbuffer x)) \<and> t1_round x p = ((None, next_block
      (x\<lparr>x_rbuffer := rb, x_error := 0, x_cmd := drop (x_INF x) (x_cmd x)\<rparr>)
      ((after_round x rest p)\<lparr>pa_PCB_seq := seq_of (\<not> s) e\<rparr>)), (after_round x rest p)\<lparr>pa_PCB_seq := seq_of (\<not> s) e\<rparr>)"
proof -
  have w: "cjccid_XfrBlock (x_xwt x) (with_sum p (take (x_slen x) (x_sblock x))) 259 0 p
      = (0, ppa_ack_block s, Some (word_of_nat (length (ppa_ack_block s))), after_round x rest p)"
    unfolding after_round_def by (rule Xfr_answer[OF assms(1,2)]) simp_all
  define rb where "rb = overlay 0 (ppa_ack_block s) (x_rbuffer x)"
  have rb: "rb ! 0 = 0" "rb ! 1 = pcb_ack s" "rb ! 2 = 0" by (simp_all add: rb_def overlay_def block_def)
  have "t1_round x p = t1_R (x\<lparr>x_rbuffer := rb\<rparr>) (after_round x rest p)"
    using rb assms(3) ack_kind unfolding t1_round_def w by (simp add: Let_def rb_def[symmetric])
  also have "\<dots> = t1_leave 0 (x\<lparr>x_rbuffer := rb, x_error := 0, x_cmd := drop (x_INF x) (x_cmd x)\<rparr>)
      ((after_round x rest p)\<lparr>pa_PCB_seq := seq_of (\<not> s) e\<rparr>)"
    using rb assms(4,5) by (simp add: t1_R_def pcb_ack_def pcb_data_def seq_of_simps)
  also have "\<dots> = ((None, next_block (x\<lparr>x_rbuffer := rb, x_error := 0, x_cmd := drop (x_INF x) (x_cmd x)\<rparr>)
      ((after_round x rest p)\<lparr>pa_PCB_seq := seq_of (\<not> s) e\<rparr>)), (after_round x rest p)\<lparr>pa_PCB_seq := seq_of (\<not> s) e\<rparr>)"
    using rb assms(6) by (simp add: t1_leave_def pcb_ack_def)
  finally show ?thesis unfolding rb_def by blast
qed

text \<open>The step of a round that receives data.\<close>

definition got_data :: "bytes \<Rightarrow> bytes \<Rightarrow> ppa_t1 \<Rightarrow> ppa_t1" where
  "got_data rb d x = x\<lparr>x_rbuffer := rb, x_error := 0, x_cmd := drop (x_INF x) (x_cmd x),
     x_response := overlay (unat (x_lenr x)) d (x_response x), x_maxresp := x_maxresp x - int (length d),
     x_lenr := x_lenr x + word_of_nat (length d)\<rparr>"

lemma keep_flag: "p\<lparr>pa_PCB_seq := a, pa_overrun := pa_overrun p\<rparr> = p\<lparr>pa_PCB_seq := a\<rparr>"
  by (cases p) simp

lemma round_data:
  assumes "pa_out p = []" "pa_in p = Some (ppa_frame (pa_bSeq p) (ppa_data_block e m d)) # rest" "pa_EDC p = 0" "pa_PCB_seq p = seq_of s e"
    "x_sbuffer x ! 1 = pcb_data t False" "d \<noteq> []" "length d \<le> 254" "int (length d) \<le> x_maxresp x"
    "unat (x_lenr x) + length d \<le> length (x_response x)"
  shows "\<exists>rb. length rb = length (overlay 0 (ppa_data_block e m d) (x_rbuffer x)) \<and> t1_round x p =
    (let p1 = (after_round x rest p)\<lparr>pa_PCB_seq := seq_of (if x_cmd x = [] then s else \<not> s) (\<not> e)\<rparr>; x1 = got_data rb d x in
     if m then ((None, x_answer [0, 0x80 OR (pa_PCB_seq p1 AND 0x10), 0] x1), p1) else ((Some 0, x1), p1))"
proof -
  let ?b = "ppa_data_block e m d"
  have w: "cjccid_XfrBlock (x_xwt x) (with_sum p (take (x_slen x) (x_sblock x))) 259 0 p
      = (0, ?b, Some (word_of_nat (length ?b)), after_round x rest p)"
    unfolding after_round_def by (rule Xfr_answer[OF assms(1,2)]) (use assms(7) in simp_all)
  define rb where "rb = overlay 0 ?b (x_rbuffer x)"
  have rb: "rb ! 0 = 0" "rb ! 1 = pcb_data e m" "rb ! 2 = word_of_nat (length d)" "take (length d) (drop 3 rb) = d"
    by (simp_all add: rb_def overlay_def block_def)
  have n: "unat (word_of_nat (length d) :: byte) = length d" using assms(7) by (simp add: unat_of_nat take_bit_nat_eq_self)
  then have "(word_of_nat (length d) :: byte) \<noteq> 0" "(word_of_nat (length d) :: byte) \<noteq> 255"
    using assms(6,7) by (auto dest: arg_cong[where f = unat])
  moreover have "push_bit 2 (seq_of s e AND 0x10) = pcb_data e m AND 0x40" by (cases e; cases m; simp add: seq_of_simps pcb_data_def)
  moreover have "pcb_data t False AND 0x20 \<noteq> 0x20" by (simp add: pcb_data_def)
  moreover have "t1_round x p = t1_I (length ?b) (x\<lparr>x_rbuffer := rb\<rparr>) (after_round x rest p)"
    using rb assms(3) data_kind unfolding t1_round_def w by (simp add: Let_def rb_def[symmetric])
  moreover have "seq_of s e XOR 0x10 XOR (if x_cmd x \<noteq> [] then 1 else 0) = seq_of (if x_cmd x = [] then s else \<not> s) (\<not> e)"
    by (cases s; cases e; simp add: seq_of_def)
  moreover have "pa_overrun (after_round x rest p) \<or> int (length d) < 0
      \<or> True \<and> unat (x_lenr x) + nat (int (length d)) > length (x_response x) \<longleftrightarrow> pa_overrun (after_round x rest p)"
    using assms(9) by auto
  moreover have "int (length ?b) - 4 - int (unat (0 :: byte)) = int (length d)" "pcb_data e m AND 0x20 \<noteq> 0 \<longleftrightarrow> m"
    by (simp_all add: pcb_data_def)
  moreover have "\<not> m \<Longrightarrow> pcb_data e m AND 0xA0 = 0" by (simp add: pcb_data_def)
  ultimately have "t1_round x p =
    (let p1 = (after_round x rest p)\<lparr>pa_PCB_seq := seq_of (if x_cmd x = [] then s else \<not> s) (\<not> e)\<rparr>; x1 = got_data rb d x in
     if m then ((None, x_answer [0, 0x80 OR (pa_PCB_seq p1 AND 0x10), 0] x1), p1) else ((Some 0, x1), p1))"
    using rb assms(3,4,5,8)
    by (cases m) (simp_all add: t1_I_def Let_def t1_leave_def got_data_def keep_flag)
  then show ?thesis unfolding rb_def by blast
qed

text \<open>The messages of a reader whose card acknowledges \<open>k\<close> blocks, and of one whose card sends the parts \<open>ds\<close>.\<close>

fun ack_script :: "nat \<Rightarrow> byte \<Rightarrow> bool \<Rightarrow> bytes option list" where
  "ack_script 0 b s = []"
| "ack_script (Suc k) b s = Some (ppa_frame b (ppa_ack_block s)) # ack_script k (b + 1) (\<not> s)"

fun data_script :: "bytes list \<Rightarrow> byte \<Rightarrow> bool \<Rightarrow> bytes option list" where
  "data_script [] b e = []"
| "data_script (d # ds) b e = Some (ppa_frame b (ppa_data_block e (ds \<noteq> []) d)) # data_script ds (b + 1) (\<not> e)"

text \<open>The information field of the block in a message to the reader.\<close>

definition part_of :: "bytes \<Rightarrow> bytes" where
  "part_of msg = take (unat (msg ! 12)) (drop 13 msg)"

lemma xfr_bytes:
  assumes "length d < 260"
  shows "ppa_bytes st seq (ppa_message 0x6F [a, 0, 0] d) = [0x6F] @ le32_bytes (word_of_nat (length d)) @ [0, seq, a, 0, 0] @ d"
proof -
  have "unat (word_of_nat (length d) :: u32) = length d" using assms by (intro unat_of_nat_u32) simp
  then show ?thesis by (simp add: ppa_bytes_def Let_def)
qed

lemma part_sent:
  assumes "pa_EDC p = 0" "take (x_slen x) (x_sblock x) = 0 # b # word_of_nat (length d) # d" "length d \<le> 254"
  shows "\<exists>m. pa_sent (after_round x rest p) = pa_sent p @ [m] \<and> part_of m = d"
proof -
  let ?blk = "with_sum p (take (x_slen x) (x_sblock x))"
  have b: "?blk = 0 # b # word_of_nat (length d) # d @ [xor_sum (0 # b # word_of_nat (length d) # d)]"
    using assms(1,2) by (simp add: with_sum_def)
  have "length ?blk < 260" unfolding b using assms(3) by simp
  from xfr_bytes[OF this, of "pa_stack p" "pa_bSeq p" "x_xwt x"]
  have "part_of (ppa_bytes (pa_stack p) (pa_bSeq p) (ppa_message 0x6F [x_xwt x, 0, 0] ?blk)) = d"
    unfolding part_of_def using assms(3) by (simp add: b le32_bytes_def unat_of_nat take_bit_nat_eq_self)
  then show ?thesis by (auto simp: after_round_def after_xfr_def)
qed

lemma overlay_run:
  assumes "n + length d + length c \<le> length buf"
  shows "overlay (n + length d) c (overlay n d buf) = overlay n (d @ c) buf"
  using assms by (simp add: overlay_def add.assoc add.commute add.left_commute)

text \<open>Receiving: the parts are collected in order, every part but the last is acknowledged.\<close>

lemma rounds_receive:
  assumes "ds \<noteq> []" "\<forall>d \<in> set ds. d \<noteq> [] \<and> length d \<le> 254" "pa_out p = []" "pa_EDC p = 0" "pa_PCB_seq p = seq_of s e"
    "pa_in p = data_script ds (pa_bSeq p) e @ rest" "x_sbuffer x ! 1 = pcb_data t False" "drop (x_INF x) (x_cmd x) = []"
    "int (length (concat ds)) \<le> x_maxresp x" "unat (x_lenr x) + length (concat ds) \<le> length (x_response x)"
    "length (x_response x) < 65536" "length (x_rblock x) = 6"
    "take (x_slen x) (x_sblock x) = 0 # b # word_of_nat (length c) # c" "length c \<le> 254"
  shows "\<exists>x' p' ms. t1_rounds x p = ((0, x'), p') \<and> x_response x' = overlay (unat (x_lenr x)) (concat ds) (x_response x)
    \<and> unat (x_lenr x') = unat (x_lenr x) + length (concat ds) \<and> pa_in p' = rest
    \<and> pa_PCB_seq p' = seq_of (if x_cmd x = [] then s else \<not> s) (if even (length ds) then e else \<not> e)
    \<and> pa_sent p' = pa_sent p @ ms \<and> concat (map part_of ms) = c"
  using assms
proof (induction ds arbitrary: x p s e b c)
  case (Cons d ds)
  let ?m = "ds \<noteq> []" and ?rest = "data_script ds (pa_bSeq p + 1) (\<not> e) @ rest"
  have i: "pa_in p = Some (ppa_frame (pa_bSeq p) (ppa_data_block e ?m d)) # ?rest" using Cons.prems(6) by simp
  have d: "d \<noteq> []" "length d \<le> 254" using Cons.prems(2) by simp_all
  have fit: "int (length d) \<le> x_maxresp x" "unat (x_lenr x) + length d \<le> length (x_response x)" using Cons.prems(9,10) by auto
  obtain rb where r: "t1_round x p =
    (let p1 = (after_round x ?rest p)\<lparr>pa_PCB_seq := seq_of (if x_cmd x = [] then s else \<not> s) (\<not> e)\<rparr>; x1 = got_data rb d x in
     if ?m then ((None, x_answer [0, 0x80 OR (pa_PCB_seq p1 AND 0x10), 0] x1), p1) else ((Some 0, x1), p1))"
    using round_data[OF Cons.prems(3) i Cons.prems(4,5,7) d fit] by blast
  define p1 where "p1 = (after_round x ?rest p)\<lparr>pa_PCB_seq := seq_of (if x_cmd x = [] then s else \<not> s) (\<not> e)\<rparr>"
  obtain m where m: "pa_sent p1 = pa_sent p @ [m]" "part_of m = c"
    using part_sent[OF Cons.prems(4,13,14)] unfolding p1_def by fastforce
  have l: "unat (x_lenr (got_data rb d x)) = unat (x_lenr x) + length d"
  proof -
    have "unat (x_lenr x) + length d < 65536" using fit(2) Cons.prems(11) by simp
    then show ?thesis by (simp add: got_data_def unat_word_ariths unat_of_nat take_bit_nat_eq_self)
  qed
  show ?case
  proof (cases "ds = []")
    case True
    then have "t1_rounds x p = ((0, got_data rb d x), p1)" by (subst t1_rounds.simps) (simp add: r p1_def)
    then show ?thesis using True l m by (intro exI[of _ "got_data rb d x"] exI[of _ p1] exI[of _ "[m]"]) (simp add: got_data_def p1_def)
  next
    case False
    define x1 where "x1 = x_answer [0, 0x80 OR (pa_PCB_seq p1 AND 0x10), 0] (got_data rb d x)"
    have t: "t1_rounds x p = t1_rounds x1 p1" using False by (subst t1_rounds.simps) (simp add: r p1_def x1_def Let_def)
    have f: "x_sbuffer x1 = x_sbuffer x" "x_INF x1 = x_INF x" "x_cmd x1 = []" "x_maxresp x1 = x_maxresp x - int (length d)"
      "x_lenr x1 = x_lenr (got_data rb d x)" "x_response x1 = overlay (unat (x_lenr x)) d (x_response x)"
      using Cons.prems(8) by (simp_all add: x1_def x_answer_def got_data_def)
    have s1: "take (x_slen x1) (x_sblock x1) = 0 # (0x80 OR (pa_PCB_seq p1 AND 0x10)) # word_of_nat (length ([] :: bytes)) # []"
      "length (x_rblock x1) = 6"
      using Cons.prems(12) by (simp_all add: x1_def x_answer_def x_sblock_def overlay_def got_data_def)
    have lr: "length (x_response x1) = length (x_response x)" using f(6) fit(2) by simp
    have "pa_in p1 = data_script ds (pa_bSeq p1) (\<not> e) @ rest" by (simp add: p1_def)
    moreover have "unat (x_lenr x1) + length (concat ds) \<le> length (x_response x1)" using Cons.prems(10) lr l f(5) by simp
    ultimately have "\<exists>x' p' ms. t1_rounds x1 p1 = ((0, x'), p') \<and> x_response x' = overlay (unat (x_lenr x1)) (concat ds) (x_response x1)
      \<and> unat (x_lenr x') = unat (x_lenr x1) + length (concat ds) \<and> pa_in p' = rest
      \<and> pa_PCB_seq p' = seq_of (if x_cmd x1 = [] then (if x_cmd x = [] then s else \<not> s) else \<not> (if x_cmd x = [] then s else \<not> s)) (if even (length ds) then \<not> e else \<not> \<not> e)
      \<and> pa_sent p' = pa_sent p1 @ ms \<and> concat (map part_of ms) = []"
      using Cons.prems(2,3,4,7,9,11) f lr s1 False by (intro Cons.IH) (auto simp: p1_def)
    then obtain x' p' ms where IH: "t1_rounds x1 p1 = ((0, x'), p')" "x_response x' = overlay (unat (x_lenr x1)) (concat ds) (x_response x1)"
      "unat (x_lenr x') = unat (x_lenr x1) + length (concat ds)" "pa_in p' = rest"
      "pa_PCB_seq p' = seq_of (if x_cmd x = [] then s else \<not> s) (if even (length ds) then \<not> e else e)"
      "pa_sent p' = pa_sent p1 @ ms" "concat (map part_of ms) = []" using f(3) by auto
    have "x_response x' = overlay (unat (x_lenr x)) (concat (d # ds)) (x_response x)"
      using IH(2) f(5,6) l overlay_run[of "unat (x_lenr x)" d "concat ds" "x_response x"] Cons.prems(10) by simp
    then show ?thesis using t IH l f(5) m by (intro exI[of _ x'] exI[of _ p'] exI[of _ "m # ms"]) simp
  qed
qed simp

lemma next_block_simps [simp]:
  "x_cmd (next_block x p) = x_cmd x" "x_response (next_block x p) = x_response x" "x_lenr (next_block x p) = x_lenr x"
  "x_maxresp (next_block x p) = x_maxresp x" "x_rblock (next_block x p) = x_rblock x"
  "x_INF (next_block x p) = min (length (x_cmd x)) (unat (pa_IFSC p))"
  by (simp_all add: next_block_def Let_def)

lemma next_block_sends:
  assumes "pa_PCB_seq p = seq_of s e"
  shows "x_sbuffer (next_block x p) ! 1 = pcb_data s (unat (pa_IFSC p) < length (x_cmd x))"
    and "take (x_slen (next_block x p)) (x_sblock (next_block x p)) = 0 # pcb_data s (unat (pa_IFSC p) < length (x_cmd x))
      # word_of_nat (length (take (unat (pa_IFSC p)) (x_cmd x))) # take (unat (pa_IFSC p)) (x_cmd x)"
  using assms by (auto simp: next_block_def Let_def x_sblock_def seq_of_simps pcb_data_def min_def)

text \<open>Sending: every block but the last is acknowledged.\<close>

lemma rounds_send:
  assumes "pa_out p = []" "pa_EDC p = 0" "pa_PCB_seq p = seq_of s e" "0 < unat (pa_IFSC p)" "unat (pa_IFSC p) \<le> 254"
    "pa_in p = ack_script k (pa_bSeq p) s @ rest" "k * unat (pa_IFSC p) < length (x_cmd x)"
  shows "\<exists>x' p' ms. t1_rounds (next_block x p) p = t1_rounds (next_block x' p') p' \<and> x_cmd x' = drop (k * unat (pa_IFSC p)) (x_cmd x)
    \<and> x_response x' = x_response x \<and> x_lenr x' = x_lenr x \<and> x_maxresp x' = x_maxresp x \<and> x_rblock x' = x_rblock x
    \<and> pa_out p' = [] \<and> pa_EDC p' = 0 \<and> pa_IFSC p' = pa_IFSC p \<and> pa_PCB_seq p' = seq_of (if even k then s else \<not> s) e
    \<and> pa_in p' = rest \<and> pa_bSeq p' = pa_bSeq p + word_of_nat k
    \<and> pa_sent p' = pa_sent p @ ms \<and> concat (map part_of ms) = take (k * unat (pa_IFSC p)) (x_cmd x)"
  using assms
proof (induction k arbitrary: x p s)
  case 0
  then show ?case by (intro exI[of _ x] exI[of _ p] exI[of _ "[]"]) simp
next
  case (Suc k)
  let ?I = "unat (pa_IFSC p)" and ?x = "next_block x p" and ?rest = "ack_script k (pa_bSeq p + 1) (\<not> s) @ rest"
  have n: "?I < length (x_cmd x)" using Suc.prems(7) by simp
  have i: "pa_in p = Some (ppa_frame (pa_bSeq p) (ppa_ack_block s)) # ?rest" using Suc.prems(6) by simp
  define p1 where "p1 = (after_round ?x ?rest p)\<lparr>pa_PCB_seq := seq_of (\<not> s) e\<rparr>"
  have more1: "x_sbuffer ?x ! 1 = pcb_data s True" "drop (x_INF ?x) (x_cmd ?x) \<noteq> []"
    using next_block_sends(1)[OF Suc.prems(3), of x] n by auto
  obtain rb where r: "t1_round ?x p = ((None, next_block (?x\<lparr>x_rbuffer := rb, x_error := 0, x_cmd := drop (x_INF ?x) (x_cmd ?x)\<rparr>) p1), p1)"
    using round_ack[OF Suc.prems(1) i Suc.prems(2,3) more1] unfolding p1_def by blast
  define x1 where "x1 = ?x\<lparr>x_rbuffer := rb, x_error := 0, x_cmd := drop (x_INF ?x) (x_cmd ?x)\<rparr>"
  have t: "t1_rounds ?x p = t1_rounds (next_block x1 p1) p1" by (subst t1_rounds.simps) (simp add: r x1_def)
  have f: "x_cmd x1 = drop ?I (x_cmd x)" "x_response x1 = x_response x" "x_lenr x1 = x_lenr x" "x_maxresp x1 = x_maxresp x"
    "x_rblock x1 = x_rblock x" using n by (simp_all add: x1_def)
  have g: "pa_out p1 = []" "pa_EDC p1 = 0" "pa_PCB_seq p1 = seq_of (\<not> s) e" "pa_IFSC p1 = pa_IFSC p" "pa_bSeq p1 = pa_bSeq p + 1"
    "pa_in p1 = ack_script k (pa_bSeq p1) (\<not> s) @ rest" using Suc.prems(1,2) by (simp_all add: p1_def)
  obtain m where m: "pa_sent p1 = pa_sent p @ [m]" "part_of m = take ?I (x_cmd x)"
    using part_sent[OF Suc.prems(2) next_block_sends(2)[OF Suc.prems(3), of x], of ?rest] Suc.prems(5) unfolding p1_def by fastforce
  have "k * ?I < length (x_cmd x1)" using Suc.prems(7) n f(1) by simp
  from Suc.IH[of p1 "\<not> s" x1, OF g(1-3) _ _ g(6)] this g(4) Suc.prems(4,5)
  obtain x' p' ms where IH: "t1_rounds (next_block x1 p1) p1 = t1_rounds (next_block x' p') p'" "x_cmd x' = drop (k * ?I) (x_cmd x1)"
    "x_response x' = x_response x1" "x_lenr x' = x_lenr x1" "x_maxresp x' = x_maxresp x1" "x_rblock x' = x_rblock x1"
    "pa_out p' = []" "pa_EDC p' = 0" "pa_IFSC p' = pa_IFSC p1" "pa_PCB_seq p' = seq_of (if even k then \<not> s else \<not> \<not> s) e"
    "pa_in p' = rest" "pa_bSeq p' = pa_bSeq p1 + word_of_nat k"
    "pa_sent p' = pa_sent p1 @ ms" "concat (map part_of ms) = take (k * ?I) (x_cmd x1)" by auto
  have "concat (map part_of (m # ms)) = take (Suc k * ?I) (x_cmd x)" using m(2) IH(14) f(1) by (simp add: take_add)
  moreover have "pa_sent p' = pa_sent p @ (m # ms)" using IH(13) m(1) by simp
  ultimately show ?case using t IH f g(4,5)
    by (intro exI[of _ x'] exI[of _ p'] exI[of _ "m # ms"]) (simp add: add.commute)
qed

text \<open>
  A card that has more data than asked for: the status word is stored over the first two bytes of the
  data, and the two bytes where the caller looks for it are not stored at all.
\<close>

lemma T0_status_misplaced:
  assumes "cjccid_XfrBlock 0 cmd 258 0 p = (0, [0x6C, n], k1, p1)"
    "cjccid_XfrBlock 0 (take 4 cmd @ [n]) 258 0 p1 = (0, d, k2, p2)" "length d = unat n + 2"
    "cmd ! 4 \<noteq> 0" "cmd ! 4 < n" "unat (cmd ! 4) + 2 \<le> room"
  shows "t0_read cmd room p = (0, overlay 0 (drop (unat n) d) (take (unat (cmd ! 4)) d), unat (cmd ! 4) + 2, p2)"
proof -
  have n: "unat (cmd ! 4) < unat n" "unat (cmd ! 4) \<noteq> 0" "unat n \<noteq> 0"
    using assms(4,5) by (auto simp: word_less_nat_alt unat_eq_0)
  have "take 2 (drop (unat n) (overlay 0 d buf)) = drop (unat n) d" "take (unat (cmd ! 4)) (overlay 0 d buf) = take (unat (cmd ! 4)) d" for buf
    using assms(3) n(1) by (simp_all add: overlay_def)
  then show ?thesis using assms(1-3,6) n by (simp add: t0_read_def Let_def)
qed

section \<open>Properties\<close>

text \<open>
  Property C13.  A card in a pinpad reader that follows the T=1 protocol gets every command and the caller every
  response, whatever their lengths: the command is sent in parts of the size the card announced, each part
  but the last is sent on after its acknowledge, the information fields of the blocks sent are together the
  command; the response is put together from its parts in the buffer of the caller and reported with its
  length, and the two sequence numbers are where the card expects them for the next command.
\<close>

theorem ppa_T1_delivers:
  assumes "pa_out p = []" "pa_EDC p = 0" "pa_PCB_seq p = seq_of s e" "0 < unat (pa_IFSC p)" "unat (pa_IFSC p) \<le> 254"
    "cmd \<noteq> []" "k = (length cmd - 1) div unat (pa_IFSC p)"
    "ds \<noteq> []" "\<forall>d \<in> set ds. d \<noteq> [] \<and> length d \<le> 254" "length (concat ds) \<le> length rsp" "length rsp < 65536"
    "pa_in p = ack_script k (pa_bSeq p) s @ data_script ds (pa_bSeq p + word_of_nat k) e @ rest"
  shows "\<exists>p' ms. APDU2TPDU_T1 cmd rsp p = (0, overlay 0 (concat ds) rsp, length (concat ds), p')
    \<and> pa_sent p' = pa_sent p @ ms \<and> concat (map part_of ms) = cmd \<and> pa_in p' = rest
    \<and> pa_PCB_seq p' = seq_of (if even k then \<not> s else s) (if even (length ds) then e else \<not> e)"
proof -
  let ?I = "unat (pa_IFSC p)"
  have "k * ?I \<le> length cmd - 1" unfolding assms(7) by (rule div_times_less_eq_dividend)
  then have k1: "k * ?I < length cmd" using assms(6) by (cases cmd) auto
  have "length cmd - 1 < ?I + ?I * ((length cmd - 1) div ?I)" by (rule dividend_less_times_div[OF assms(4)])
  then have k2: "length cmd \<le> k * ?I + ?I" using assms(7) by (simp add: mult.commute)
  define x where "x = \<lparr>x_cmd = cmd, x_INF = 0, x_sbuffer = [], x_rblock = map (pa_stack p) [0..<6], x_isr = False,
     x_slen = 0, x_rbuffer = map (pa_stack p) [0..<259], x_error = 0, x_xwt = 0, x_maxresp = int (length rsp),
     x_response = rsp, x_lenr = 0\<rparr>"
  have x: "x_cmd x = cmd" "x_response x = rsp" "x_lenr x = 0" "x_maxresp x = int (length rsp)" "length (x_rblock x) = 6"
    "t1_start cmd rsp p = next_block x p" by (simp_all add: x_def t1_start_def)
  obtain x1 p1 ms where a: "t1_rounds (next_block x p) p = t1_rounds (next_block x1 p1) p1" "x_cmd x1 = drop (k * ?I) cmd"
    "x_response x1 = rsp" "x_lenr x1 = 0" "x_maxresp x1 = int (length rsp)" "x_rblock x1 = x_rblock x"
    "pa_out p1 = []" "pa_EDC p1 = 0" "pa_IFSC p1 = pa_IFSC p" "pa_PCB_seq p1 = seq_of (if even k then s else \<not> s) e"
    "pa_in p1 = data_script ds (pa_bSeq p1) e @ rest" "pa_sent p1 = pa_sent p @ ms" "concat (map part_of ms) = take (k * ?I) cmd"
    using rounds_send[OF assms(1-5,12), of x] k1 x by auto
  have c: "x_cmd x1 \<noteq> []" "length (x_cmd x1) \<le> ?I" using a(2) k1 k2 by auto
  note nb = next_block_sends[OF a(10), of x1]
  have l: "take (unat (pa_IFSC p1)) (x_cmd x1) = x_cmd x1" "\<not> unat (pa_IFSC p1) < length (x_cmd x1)" using c(2) a(9) by simp_all
  obtain x2 p2 ms2 where r: "t1_rounds (next_block x1 p1) p1 = ((0, x2), p2)" "x_response x2 = overlay 0 (concat ds) rsp"
    "unat (x_lenr x2) = length (concat ds)" "pa_in p2 = rest"
    "pa_PCB_seq p2 = seq_of (\<not> (if even k then s else \<not> s)) (if even (length ds) then e else \<not> e)"
    "pa_sent p2 = pa_sent p1 @ ms2" "concat (map part_of ms2) = x_cmd x1"
    using rounds_receive[OF assms(8,9) a(7,8,10,11), of "next_block x1 p1" "if even k then s else \<not> s"
        "pcb_data (if even k then s else \<not> s) False" "x_cmd x1"] nb l c a(3-6,9) x(5) assms(5,10,11) by auto
  have "APDU2TPDU_T1 cmd rsp p = (0, overlay 0 (concat ds) rsp, length (concat ds), p2)"
    using assms(6) x(6) a(1) r(1-3) by (simp add: APDU2TPDU_T1_def)
  moreover have "concat (map part_of (ms @ ms2)) = cmd" using a(2,13) r(7) by simp
  moreover have "pa_sent p2 = pa_sent p @ (ms @ ms2)" using r(6) a(12) by simp
  ultimately show ?thesis using r(4,5) by (intro exI[of _ p2] exI[of _ "ms @ ms2"]) simp
qed

section \<open>Examples\<close>

definition answering_reader :: ppa where
  "answering_reader = confirming_reader\<lparr>pa_IFSC := 2, pa_in := ack_script 2 0 False @ data_script [[0x90], [0x00]] 2 False\<rparr>"

theorem ppa_T1_delivers_witness:
  "\<exists>p' ms. APDU2TPDU_T1 [0x00, 0x84, 0x00, 0x00, 0x08] [0, 0, 0] answering_reader = (0, [0x90, 0x00, 0], 2, p')
     \<and> pa_sent p' = ms \<and> concat (map part_of ms) = [0x00, 0x84, 0x00, 0x00, 0x08]"
proof -
  have r: "pa_out answering_reader = []" "pa_EDC answering_reader = 0" "pa_PCB_seq answering_reader = seq_of False False"
    "unat (pa_IFSC answering_reader) = 2" "pa_bSeq answering_reader = 0" "pa_sent answering_reader = []"
    "pa_in answering_reader = ack_script 2 (pa_bSeq answering_reader) False
       @ data_script [[0x90], [0x00]] (pa_bSeq answering_reader + word_of_nat 2) False @ []"
    by (simp_all add: answering_reader_def confirming_reader_def seq_of_def)
  have "\<exists>p' ms. APDU2TPDU_T1 [0x00, 0x84, 0x00, 0x00, 0x08] [0, 0, 0] answering_reader
        = (0, overlay 0 (concat [[0x90], [0x00]]) [0, 0, 0], length (concat [[0x90 :: byte], [0x00]]), p')
      \<and> pa_sent p' = pa_sent answering_reader @ ms \<and> concat (map part_of ms) = [0x00, 0x84, 0x00, 0x00, 0x08] \<and> pa_in p' = []
      \<and> pa_PCB_seq p' = seq_of (if even (2 :: nat) then \<not> False else False) (if even (length [[0x90 :: byte], [0x00]]) then False else \<not> False)"
    by (rule ppa_T1_delivers[OF r(1-3) _ _ _ _ _ _ _ _ r(7)]) (simp_all add: r(4))
  then show ?thesis by (auto simp: r(6) overlay_def numeral_2_eq_2)
qed

end
