(* ===== verification/Spec2Isabelle.thy ===== *)
theory Spec2Isabelle
  imports CJ_Driver CJ_Part10 CJ_PpaCard
begin

text \<open>
  A verification development for the driver of the REINER SCT cyberJack smart card readers.

  \<^bold>\<open>The program.\<close>  At the bottom are three drivers.  Readers of the second generation are driven by the
  C++ classes of \<^verbatim>\<open>cjeca32\<close>: a client holds a \<^verbatim>\<open>CReader\<close> object, which finds the device, opens a communicator
  for it and creates an object of the class of the reader; that object turns calls into CCID messages, and
  the communicator brings them to the device over USB or a serial line.  Readers of the first generation
  (e-com) are driven by a library in C with a T=1 protocol of its own (\<^verbatim>\<open>ecom\<close>), pinpad readers by another
  one (\<^verbatim>\<open>ppa\<close>).  Above them the CT-API library (\<^verbatim>\<open>ctapi\<close>) keeps a table of open terminals and chooses the driver
  of each.  Two clients use it: the handler of the PC/SC daemon (\<^verbatim>\<open>ifd\<close>) and the driver classes of the
  tools (\<^verbatim>\<open>libcyberjack\<close>), which find readers and bring updates to them.

  \<^bold>\<open>Theories, bottom up.\<close>  Every theory opens with a description of the source it models.

  \<^item> \<open>CJ_Prelude\<close>: bytes and words, result codes, byte orders, copies into buffers.
  \<^item> \<open>CJ_Serial\<close> (\<^verbatim>\<open>cjeca32/SerialUnix.cpp\<close>): the serial communicator with its frames, checksums,
    acknowledge byte and retransmission.  Properties: damaged frames are refused and the good one is
    delivered, refused frames are sent again after the pending input was thrown away, the checksum
    detects every single changed byte, and an interrupted write sends wrong bytes.
  \<^item> \<open>CJ_Communication\<close> (\<^verbatim>\<open>cjeca32/USBUnix.cpp\<close>, \<^verbatim>\<open>BaseCommunication.cpp\<close>): the USB communicator and the
    interface both share (locale \<open>communication\<close>): a failure closes the device, and a lost one stays lost.
  \<^item> \<open>CJ_Ccid\<close> (\<^verbatim>\<open>cjeca32/ccid.h\<close>): messages and responses on the wire.
  \<^item> \<open>CJ_BaseReader\<close> (\<^verbatim>\<open>BaseReader.cpp\<close>, \<^verbatim>\<open>BaseReader.h\<close>): the state of a reader object, the TLV search,
    the module table, the analysis of an answer to reset.
  \<^item> \<open>CJ_CcidReader\<close> (\<^verbatim>\<open>CCIDReader.cpp\<close>): one exchange of messages with its sequence number, slot
    state, protocol selection.
  \<^item> \<open>CJ_Power\<close>, \<open>CJ_Transmit\<close>, \<open>CJ_EC30\<close>, \<open>CJ_Keys\<close>, \<open>CJ_Services\<close>, \<open>CJ_Secure\<close> (\<^verbatim>\<open>EC30Reader.cpp\<close>, the
    reader classes \<^verbatim>\<open>EC?Reader.cpp\<close> and \<^verbatim>\<open>SECReader.cpp\<close>, and the PIN functions of \<^verbatim>\<open>CCIDReader.cpp\<close>):
    power, transmission with T=0 and T=1, escape commands and the services on them, module loading,
    key update, PIN entry.  Powering keeps the ATR and the protocol in order but for one case of the RFID
    readers (below); the lengths reported by transmission and escape commands fit the buffers of the
    caller, with the two exceptions named there.
  \<^item> \<open>CJ_Card\<close>: what all card functions keep, as one contract.
  \<^item> \<open>CJ_Terminal\<close> (\<^verbatim>\<open>CtData\<close> of \<^verbatim>\<open>CCIDReader.cpp\<close>): the interpreter of CT-BCS commands.
  \<^item> \<open>CJ_Reader\<close> (\<^verbatim>\<open>cjeca32/Reader.cpp\<close>): the object of the clients; sessions as step relations, an
    abstract machine of two states and the proof that the object refines it.
  \<^item> \<open>CJ_EcomIo\<close>, \<open>CJ_T1\<close>, \<open>CJ_T1Link\<close>, \<open>CJ_EcomApi\<close> (\<^verbatim>\<open>ecom/cjio.c\<close>, \<^verbatim>\<open>cjio_user.c\<close>, \<^verbatim>\<open>cjt1.c\<close>,
    \<^verbatim>\<open>cjctapi.c\<close>): the driver of the first e-com reader.  The transports are instances of the locale
    \<open>block_link\<close>, in which delivery over a disturbed link is proved; the T=1 loop is a total function
    by a measure on the script and the allowance of errors.
  \<^item> \<open>CJ_Ppa\<close>, \<open>CJ_PpaCard\<close> (\<^verbatim>\<open>ppa/cjppPlatformLinux.c\<close>, \<^verbatim>\<open>cjccid.c\<close>, \<^verbatim>\<open>cjppUpdate.c\<close>, \<^verbatim>\<open>cjdata.c\<close>): the pinpad
    driver, from the USB messages to the commands of the reader and the two protocols of the card.
    Properties: a program sent to a reader without flash memory arrives unchanged, and chained T=1
    commands and responses are delivered with the sequence numbers in step.  The T=0 and T=1 loops are
    total because every round uses up a message of the reader.
  \<^item> \<open>CJ_Config\<close> (\<^verbatim>\<open>cjeca32/config.cpp\<close>): the configuration file; what is written is read back.
  \<^item> \<open>CJ_Ports\<close> (\<^verbatim>\<open>cjeca32/ausb/usbdev.c\<close>): the list of devices and the file of serial numbers; a reader keeps
    its port number.
  \<^item> \<open>CJ_CtApi\<close> (\<^verbatim>\<open>ctapi/ctapi.cpp\<close>, \<^verbatim>\<open>ctapi_special.cpp\<close>): contexts, choice of device and driver, dispatch,
    commands to the driver itself, dialogs.  The calls a program can make are an inductive relation;
    the invariant of the table is shown for every session, and \<^verbatim>\<open>CT_init\<close> is shown to return except in one
    case, in which it waits for its own lock.
  \<^item> \<open>CJ_Driver\<close> (\<^verbatim>\<open>libcyberjack/driver.cpp\<close>, \<^verbatim>\<open>driver_ctapi.cpp\<close>): uploads in blocks, as a locale \<open>upload\<close>
    interpreted for modules, signatures and keys; what the client sends through the CT-API library is what
    the reader object gets.  The list of readers follows the bus.
  \<^item> \<open>CJ_Ifd\<close>, \<open>CJ_Part10\<close> (\<^verbatim>\<open>ifd/ifdhandler.c\<close>, \<^verbatim>\<open>part10.c\<close>): the handler of the daemon.  Its invariant holds
    along every session, the ATR of a card is reported until the card is powered down or reset, whatever is
    called in between, and its PIN structures become
    commands that the tag search of \<open>CJ_Terminal\<close> reads back as they were meant; the inputs that leave the
    buffer of these commands are given exactly.

  \<^bold>\<open>State and operations.\<close>  A class or structure is a record with the fields of the source; an
  operation is a function with the name of the source that takes the state and returns its result,
  what it stores through pointers and the new state.  An output buffer is the list of the bytes
  written together with the length reported.  Errors are the codes the source returns.

  \<^bold>\<open>The environment.\<close>  Devices are finite scripts in the state: what successive calls of the operating
  system or of the USB library return.  A read behind the end of its script fails (end of file,
  timeout), a write succeeds.  Theorems quantify over all scripts, so they hold for every finite
  behaviour of a device; loops of the driver end because each round uses up a part of the script or
  of a counter of the source.  The fields \<open>rfuel\<close> and \<open>com_fuel\<close> of the reader bound the number of
  messages in the same way.

  \<^bold>\<open>Undefined behaviour.\<close>  Uninitialised memory is an arbitrary field of the state (\<open>g_stack\<close>,
  \<open>ec_stack\<close>).  A copy that leaves a buffer sets a ghost flag (\<open>g_overrun\<close>, \<open>ec_overrun\<close>) that no
  operation reads; bounds theorems say when it stays clear, and the findings when it does not.  One such
  copy has a flag of its own, \<open>g_atr_overrun\<close>: an RFID reader takes the ATR from an answer to select whose
  length byte can wrap, and then overwrites the members of the object behind \<^verbatim>\<open>m_ATR\<close>.  The invariant of a
  reader object bounds the ATR and ties the active protocol to the offered ones only while that flag is
  clear, and the flag can be set in RFID readers only.  The
  upper layers (\<open>CJ_CtApi\<close>, \<open>CJ_Ifd\<close>, \<open>CJ_Part10\<close>) give the result \<open>None\<close> for a call that never returns or has no
  defined behaviour, and \<open>CJ_CtApi\<close> and \<open>CJ_Ppa\<close> have the flags \<open>ca_overrun\<close> and \<open>pa_overrun\<close>.  Memory behind a
  buffer that the code reads is an arbitrary function (\<open>en_behind\<close>, \<open>pa_stack\<close>).

  \<^bold>\<open>The build.\<close>  Linux on a 64 bit little-endian machine with POSIX threads and support for serial
  readers; memory for new objects is always available.  The symbol \<^verbatim>\<open>_LINUX\<close> is never defined.  Calls are one
  after the other; the lock of the CT-API library is a field (\<open>ca_locked\<close>), because one call takes it twice.

  \<^bold>\<open>Arguments.\<close>  In \<open>CJ_CtApi\<close> the pinpad driver is an argument (\<open>en_ppa_init\<close>, \<open>en_ppa_data\<close>, with objects of
  any type): its interpreter of commands is not modelled, and what is shown of the library holds for every
  such driver.  The images of two structures in memory are arguments as well.

  \<^bold>\<open>Not modelled.\<close>  Of the pinpad driver: the interpreter \<^verbatim>\<open>ctapiData_inner\<close>, the reset of the card (the loop
  of its ATR analysis counts in 8 bits and may read on behind the ATR without end), \<^verbatim>\<open>cJppFirmwareUpdate\<close>
  (it uses the reader object after freeing it), the memory card interpreter and the firmware image.  The
  USB library (\<^verbatim>\<open>cjeca32/ausb\<close> without the device list) wraps libusb and HAL; the PC/SC driver of
  \<^verbatim>\<open>libcyberjack\<close> calls the PC/SC library only, and the module store reads XML with libxml2; the dialogs, the
  tools and the test programs are user interfaces.  Log output, the critical section and the interrupt
  threads change no state the operations depend on.
\<close>

end
